(* ===== verification/Prelude.thy ===== *)
theory Prelude
  imports Main
begin

text \<open>
  Shared vocabulary of the development: the result type of operations that may throw, the
  sequencing combinators used where the source runs statements one after the other, and the
  list and map lemmas several components need.

  A TypeScript function that may throw is modelled as a function into \<open>'e + 'a\<close>:
  \<open>Inl e\<close> is the thrown error, \<open>Inr x\<close> the returned value.
\<close>

named_theorems result_simps \<open>unfolding of the result combinators\<close>
named_theorems guard_defs \<open>definitions of validation steps\<close>

subsection \<open>Results\<close>

type_synonym ('e, 'a) result = "'e + 'a"

definition bindE :: "('e, 'a) result \<Rightarrow> ('a \<Rightarrow> ('e, 'b) result) \<Rightarrow> ('e, 'b) result" where
  "bindE m f = (case m of Inl e \<Rightarrow> Inl e | Inr x \<Rightarrow> f x)"

definition throw_if :: "bool \<Rightarrow> 'e \<Rightarrow> ('e, unit) result" where
  "throw_if c e = (if c then Inl e else Inr ())"

definition is_ok :: "('e, 'a) result \<Rightarrow> bool" where
  "is_ok r = (case r of Inl _ \<Rightarrow> False | Inr _ \<Rightarrow> True)"

lemma bindE_simps [simp, result_simps]:
  "bindE (Inl e) f = Inl e"
  "bindE (Inr x) f = f x"
  by (simp_all add: bindE_def)

lemma throw_if_simps [simp, result_simps]:
  "throw_if True e = Inl e"
  "throw_if False e = Inr ()"
  by (simp_all add: throw_if_def)

lemma is_ok_simps [simp, result_simps]:
  "is_ok (Inr x)"
  "\<not> is_ok (Inl e)"
  by (simp_all add: is_ok_def)

lemma bindE_eq_Inr [simp]:
  "bindE m f = Inr y \<longleftrightarrow> (\<exists>x. m = Inr x \<and> f x = Inr y)"
  by (cases m) simp_all

lemma bindE_eq_Inl:
  "bindE m f = Inl e \<longleftrightarrow> m = Inl e \<or> (\<exists>x. m = Inr x \<and> f x = Inl e)"
  by (cases m) simp_all

lemma throw_if_eq_Inr [simp]: "throw_if c e = Inr u \<longleftrightarrow> \<not> c"
  by (cases c) simp_all

lemma throw_if_eq_Inl [simp]: "throw_if c e = Inl e' \<longleftrightarrow> c \<and> e = e'"
  by (cases c) simp_all

lemma is_ok_iff: "is_ok r \<longleftrightarrow> (\<exists>x. r = Inr x)"
  by (cases r) simp_all

lemma is_ok_throw_if [simp]: "is_ok (throw_if c e) \<longleftrightarrow> \<not> c"
  by (cases c) simp_all

lemma is_ok_bindE [simp]:
  "is_ok (bindE m f) \<longleftrightarrow> (\<exists>x. m = Inr x \<and> is_ok (f x))"
  by (cases m) simp_all

definition res_map :: "('a \<Rightarrow> 'b) \<Rightarrow> ('e, 'a) result \<Rightarrow> ('e, 'b) result" where
  "res_map f r = (case r of Inl e \<Rightarrow> Inl e | Inr x \<Rightarrow> Inr (f x))"

lemma res_map_simps [simp, result_simps]:
  "res_map f (Inl e) = Inl e"
  "res_map f (Inr x) = Inr (f x)"
  by (simp_all add: res_map_def)

lemma res_map_eq_Inr [simp]: "res_map f r = Inr y \<longleftrightarrow> (\<exists>x. r = Inr x \<and> y = f x)"
  by (cases r) auto

lemma res_map_eq_Inl [simp]: "res_map f r = Inl e \<longleftrightarrow> r = Inl e"
  by (cases r) auto

text \<open>A loop that folds a state and stops at the first error.\<close>

primrec foldE :: "('s \<Rightarrow> 'a \<Rightarrow> ('e, 's) result) \<Rightarrow> 's \<Rightarrow> 'a list \<Rightarrow> ('e, 's) result" where
  "foldE f s [] = Inr s"
| "foldE f s (x # xs) = bindE (f s x) (\<lambda>s'. foldE f s' xs)"

text \<open>\<open>map\<close> with a function that may throw.\<close>

primrec mapE :: "('a \<Rightarrow> ('e, 'b) result) \<Rightarrow> 'a list \<Rightarrow> ('e, 'b list) result" where
  "mapE f [] = Inr []"
| "mapE f (x # xs) = bindE (f x) (\<lambda>y. res_map ((#) y) (mapE f xs))"

lemma mapE_map: "\<forall>x \<in> set xs. f x = Inr (g x) \<Longrightarrow> mapE f xs = Inr (map g xs)"
  by (induction xs) simp_all

lemma foldE_append:
  "foldE f s (xs @ ys) = bindE (foldE f s xs) (\<lambda>s'. foldE f s' ys)"
  by (induction xs arbitrary: s) (auto simp: bindE_def split: sum.splits)

lemma foldE_invariant:
  assumes "foldE f s xs = Inr s'" and "I s"
    and "\<And>s x s'. I s \<Longrightarrow> x \<in> set xs \<Longrightarrow> f s x = Inr s' \<Longrightarrow> I s'"
  shows "I s'"
  using assms
proof (induction xs arbitrary: s)
  case Nil
  then show ?case by simp
next
  case (Cons x xs)
  from Cons.prems(1) obtain t where t: "f s x = Inr t" "foldE f t xs = Inr s'" by auto
  have "I t" by (rule Cons.prems(3) [OF Cons.prems(2) _ t(1)]) simp
  then show ?case
  proof (rule Cons.IH [OF t(2)])
    fix u y u'
    assume u: "I u" "y \<in> set xs" "f u y = Inr u'"
    show "I u'" by (rule Cons.prems(3) [OF u(1) _ u(3)]) (simp add: u(2))
  qed
qed

lemma foldE_cong [fundef_cong]:
  assumes "s = s'" "xs = ys" "\<And>s x. x \<in> set ys \<Longrightarrow> f s x = g s x"
  shows "foldE f s xs = foldE g s' ys"
proof -
  have "(\<forall>x \<in> set zs. \<forall>s. f s x = g s x) \<Longrightarrow> foldE f t zs = foldE g t zs" for t zs
    by (induction zs arbitrary: t) simp_all
  with assms show ?thesis by simp
qed

subsection \<open>Lists\<close>

text \<open>\<open>Array.prototype.splice\<close> with coordinates already in range.\<close>

definition splice :: "nat \<Rightarrow> nat \<Rightarrow> 'a list \<Rightarrow> 'a list \<Rightarrow> 'a list" where
  "splice start del ins xs = take start xs @ ins @ drop (start + del) xs"

lemma length_splice:
  "start + del \<le> length xs \<Longrightarrow> length (splice start del ins xs) = length xs - del + length ins"
  by (simp add: splice_def)

lemma splice_nothing [simp]: "splice start 0 [] xs = xs"
  by (simp add: splice_def)

lemma splice_all [simp]: "splice 0 (length xs) [] xs = []"
  by (simp add: splice_def)

lemma set_splice_subset: "set (splice start del ins xs) \<subseteq> set ins \<union> set xs"
  by (auto simp: splice_def dest: in_set_takeD in_set_dropD)

lemma splice_one:
  "start < length xs \<Longrightarrow> splice start 1 ins xs = take start xs @ ins @ drop (Suc start) xs"
  by (simp add: splice_def)

text \<open>The first index at which a predicate holds, as \<open>indexOf\<close> and \<open>findIndex\<close> compute it.\<close>

primrec find_index :: "('a \<Rightarrow> bool) \<Rightarrow> 'a list \<Rightarrow> nat option" where
  "find_index P [] = None"
| "find_index P (x # xs) = (if P x then Some 0 else map_option Suc (find_index P xs))"

lemma find_index_None: "find_index P xs = None \<longleftrightarrow> (\<forall>x \<in> set xs. \<not> P x)"
  by (induction xs) auto

lemma find_index_Some:
  "find_index P xs = Some i \<Longrightarrow> i < length xs \<and> P (xs ! i) \<and> (\<forall>j < i. \<not> P (xs ! j))"
proof (induction xs arbitrary: i)
  case Nil
  then show ?case by simp
next
  case (Cons x xs)
  show ?case
  proof (cases "P x")
    case True
    with Cons.prems show ?thesis by simp
  next
    case False
    with Cons.prems obtain k where k: "find_index P xs = Some k" "i = Suc k" by auto
    from Cons.IH [OF k(1)] k(2) False show ?thesis
      by (auto simp: less_Suc_eq_0_disj)
  qed
qed

lemma find_index_Some_less: "find_index P xs = Some i \<Longrightarrow> i < length xs"
  using find_index_Some by blast

lemma find_index_exists: "x \<in> set xs \<Longrightarrow> P x \<Longrightarrow> \<exists>i. find_index P xs = Some i"
  using find_index_None [of P xs] by (cases "find_index P xs") auto

subsection \<open>Insertion-ordered maps\<close>

text \<open>
  A JavaScript \<open>Map\<close> iterates in insertion order, and setting a key that is present keeps its
  place. It is an association list with distinct keys; \<open>map_of\<close> looks a key up.
\<close>

primrec omap_set :: "'k \<Rightarrow> 'v \<Rightarrow> ('k \<times> 'v) list \<Rightarrow> ('k \<times> 'v) list" where
  "omap_set k v [] = [(k, v)]"
| "omap_set k v (p # ps) = (if fst p = k then (k, v) # ps else p # omap_set k v ps)"

definition omap_delete :: "'k \<Rightarrow> ('k \<times> 'v) list \<Rightarrow> ('k \<times> 'v) list" where
  "omap_delete k ps = filter (\<lambda>p. fst p \<noteq> k) ps"

definition omap_has :: "'k \<Rightarrow> ('k \<times> 'v) list \<Rightarrow> bool" where
  "omap_has k ps = (map_of ps k \<noteq> None)"

definition omap_keys :: "('k \<times> 'v) list \<Rightarrow> 'k list" where
  "omap_keys ps = map fst ps"

definition omap_wf :: "('k \<times> 'v) list \<Rightarrow> bool" where
  "omap_wf ps = distinct (map fst ps)"

lemma map_of_omap_set [simp]: "map_of (omap_set k v ps) = (map_of ps)(k \<mapsto> v)"
  by (induction ps) auto

lemma map_of_omap_delete [simp]: "map_of (omap_delete k ps) = (map_of ps)(k := None)"
  by (induction ps) (auto simp: omap_delete_def fun_eq_iff)

lemma fst_set_omap_set: "fst ` set (omap_set k v ps) = insert k (fst ` set ps)"
  by (induction ps) auto

lemma fst_set_omap_delete: "fst ` set (omap_delete k ps) = fst ` set ps - {k}"
  by (auto simp: omap_delete_def)

lemma set_omap_delete: "set (omap_delete k ps) = {p \<in> set ps. fst p \<noteq> k}"
  by (auto simp: omap_delete_def)

lemma omap_set_fresh: "k \<notin> fst ` set ps \<Longrightarrow> omap_set k v ps = ps @ [(k, v)]"
  by (induction ps) auto

lemma omap_wf_Nil [simp, intro]: "omap_wf []"
  by (simp add: omap_wf_def)

lemma omap_wf_set [simp, intro]: "omap_wf ps \<Longrightarrow> omap_wf (omap_set k v ps)"
proof (induction ps)
  case Nil
  then show ?case by (simp add: omap_wf_def)
next
  case (Cons p ps)
  then have "omap_wf (omap_set k v ps)" by (simp add: omap_wf_def)
  then show ?case using Cons.prems fst_set_omap_set [of k v ps]
    by (auto simp: omap_wf_def)
qed

lemma omap_wf_delete [simp, intro]: "omap_wf ps \<Longrightarrow> omap_wf (omap_delete k ps)"
  by (induction ps) (auto simp: omap_wf_def omap_delete_def)

lemma omap_has_iff: "omap_has k ps \<longleftrightarrow> k \<in> fst ` set ps"
  by (simp add: omap_has_def map_of_eq_None_iff)

lemma omap_keys_set:
  "omap_keys (omap_set k v ps) = (if omap_has k ps then omap_keys ps else omap_keys ps @ [k])"
  by (induction ps) (auto simp: omap_keys_def omap_has_def)

lemma omap_keys_delete: "omap_keys (omap_delete k ps) = filter (\<lambda>x. x \<noteq> k) (omap_keys ps)"
  by (induction ps) (auto simp: omap_keys_def omap_delete_def)

lemma omap_wf_map_of_in_set:
  "omap_wf ps \<Longrightarrow> map_of ps k = Some v \<longleftrightarrow> (k, v) \<in> set ps"
  by (simp add: omap_wf_def)

lemmas omap_simps = omap_has_iff omap_keys_set omap_keys_delete fst_set_omap_set fst_set_omap_delete

subsection \<open>Decimal numerals\<close>

definition digit_char :: "nat \<Rightarrow> char" where
  "digit_char d = char_of (48 + d)"

text \<open>\<open>String(n)\<close> of a natural number.\<close>

fun show_nat :: "nat \<Rightarrow> string" where
  "show_nat n = (if n < 10 then [digit_char n] else show_nat (n div 10) @ [digit_char (n mod 10)])"

declare show_nat.simps [simp del]

definition show_int :: "int \<Rightarrow> string" where
  "show_int i = (if i < 0 then CHR ''-'' # show_nat (nat (- i)) else show_nat (nat i))"

text \<open>The printed digits determine the number.\<close>

definition read_digits :: "string \<Rightarrow> nat" where
  "read_digits ds = foldl (\<lambda>a c. 10 * a + (of_char c - 48)) 0 ds"

lemma of_char_digit: "d < 10 \<Longrightarrow> of_char (digit_char d) = 48 + d"
  by (simp add: digit_char_def of_char_of)

lemma read_show_nat: "read_digits (show_nat n) = n"
proof (induction n rule: show_nat.induct)
  case (1 n)
  show ?case
  proof (cases "n < 10")
    case True
    then show ?thesis by (simp add: show_nat.simps [of n] read_digits_def of_char_digit)
  next
    case False
    then have "read_digits (show_nat n) = 10 * read_digits (show_nat (n div 10)) + n mod 10"
      by (simp add: show_nat.simps [of n] read_digits_def of_char_digit)
    then show ?thesis using 1 False by simp
  qed
qed

lemma show_nat_inject [simp]: "show_nat m = show_nat n \<longleftrightarrow> m = n"
  by (metis read_show_nat)

subsection \<open>Fresh names\<close>

text \<open>
  Loops that count a number up until the name made from it is not taken end: the numbers whose name
  is taken are finitely many, because different numbers have different names, and every round leaves
  one of them behind.
\<close>

locale fresh_names =
  fixes name :: "nat \<Rightarrow> string"
  assumes name_inj: "name m = name n \<longleftrightarrow> m = n"
begin

lemma finite_taken: "finite {n. name n \<in> set used}"
proof (rule finite_imageD)
  show "finite (name ` {n. name n \<in> set used})" by (rule finite_subset [of _ "set used"]) auto
  show "inj_on name {n. name n \<in> set used}" by (simp add: inj_on_def name_inj)
qed

lemma taken_shrinks:
  assumes "name n \<in> set used"
  shows "card {m. n < m \<and> name m \<in> set used} < card {m. n \<le> m \<and> name m \<in> set used}"
proof (rule psubset_card_mono)
  show "finite {m. n \<le> m \<and> name m \<in> set used}" by (rule finite_subset [OF _ finite_taken]) auto
  show "{m. n < m \<and> name m \<in> set used} \<subset> {m. n \<le> m \<and> name m \<in> set used}" using assms by force
qed

end

end
