(* ===== verification/JS_Number.thy ===== *)
theory JS_Number
  imports Complex_Main Prelude
begin

text \<open>
  JavaScript numbers. A \<open>number\<close> is NaN, an infinity, negative zero or a finite value; finite
  values are kept exact as rationals. The code's integer arithmetic stays inside the
  safe-integer range wherever its result is used, and there double arithmetic is exact.
\<close>

datatype jsnum = NaN | PosInf | NegInf | NegZero | Fin rat

abbreviation num_of_int :: "int \<Rightarrow> jsnum" where
  "num_of_int i \<equiv> Fin (of_int i)"

definition MAX_SAFE_INTEGER :: int where
  "MAX_SAFE_INTEGER = 2 ^ 53 - 1"

definition safe_int :: "int \<Rightarrow> bool" where
  "safe_int i = (- MAX_SAFE_INTEGER \<le> i \<and> i \<le> MAX_SAFE_INTEGER)"

text \<open>\<open>Number.isSafeInteger\<close>; it accepts negative zero.\<close>

fun isSafeInteger :: "jsnum \<Rightarrow> bool" where
  "isSafeInteger (Fin r) = (of_int \<lfloor>r\<rfloor> = r \<and> safe_int \<lfloor>r\<rfloor>)"
| "isSafeInteger NegZero = True"
| "isSafeInteger _ = False"

text \<open>The mathematical integer a safe integer denotes.\<close>

fun num_to_int :: "jsnum \<Rightarrow> int" where
  "num_to_int (Fin r) = \<lfloor>r\<rfloor>"
| "num_to_int _ = 0"

fun isNaN :: "jsnum \<Rightarrow> bool" where
  "isNaN NaN = True"
| "isNaN _ = False"

fun isFinite :: "jsnum \<Rightarrow> bool" where
  "isFinite (Fin _) = True"
| "isFinite NegZero = True"
| "isFinite _ = False"

text \<open>The strict equality operator: NaN differs from itself, the two zeros are equal.\<close>

fun js_eq :: "jsnum \<Rightarrow> jsnum \<Rightarrow> bool" where
  "js_eq NaN _ = False"
| "js_eq _ NaN = False"
| "js_eq NegZero (Fin r) = (r = 0)"
| "js_eq (Fin r) NegZero = (r = 0)"
| "js_eq a b = (a = b)"

text \<open>The relational operator \<open><\<close>; false whenever an operand is NaN.\<close>

fun num_val :: "jsnum \<Rightarrow> rat" where
  "num_val (Fin r) = r"
| "num_val _ = 0"

fun js_lt :: "jsnum \<Rightarrow> jsnum \<Rightarrow> bool" where
  "js_lt NaN _ = False"
| "js_lt _ NaN = False"
| "js_lt PosInf _ = False"
| "js_lt _ NegInf = False"
| "js_lt NegInf _ = True"
| "js_lt _ PosInf = True"
| "js_lt a b = (num_val a < num_val b)"

definition js_le :: "jsnum \<Rightarrow> jsnum \<Rightarrow> bool" where
  "js_le a b = (js_lt a b \<or> js_eq a b)"

text \<open>\<open>Math.trunc\<close>: a negative fraction above -1 truncates to negative zero.\<close>

fun js_trunc :: "jsnum \<Rightarrow> jsnum" where
  "js_trunc (Fin r) =
     (if 0 \<le> r then num_of_int \<lfloor>r\<rfloor>
      else if \<lceil>r\<rceil> = 0 then NegZero else num_of_int \<lceil>r\<rceil>)"
| "js_trunc x = x"

text \<open>\<open>Math.max\<close> and \<open>Math.min\<close>; negative zero counts as smaller than zero.\<close>

fun js_max :: "jsnum \<Rightarrow> jsnum \<Rightarrow> jsnum" where
  "js_max NaN _ = NaN"
| "js_max _ NaN = NaN"
| "js_max NegZero (Fin r) = (if 0 \<le> r then Fin r else NegZero)"
| "js_max (Fin r) NegZero = (if 0 \<le> r then Fin r else NegZero)"
| "js_max a b = (if js_lt a b then b else a)"

fun js_min :: "jsnum \<Rightarrow> jsnum \<Rightarrow> jsnum" where
  "js_min NaN _ = NaN"
| "js_min _ NaN = NaN"
| "js_min NegZero (Fin r) = (if 0 \<le> r then NegZero else Fin r)"
| "js_min (Fin r) NegZero = (if 0 \<le> r then NegZero else Fin r)"
| "js_min a b = (if js_lt b a then b else a)"

text \<open>Addition; exact on the finite values the code adds.\<close>

fun js_add :: "jsnum \<Rightarrow> jsnum \<Rightarrow> jsnum" where
  "js_add NaN _ = NaN"
| "js_add _ NaN = NaN"
| "js_add PosInf NegInf = NaN"
| "js_add NegInf PosInf = NaN"
| "js_add PosInf _ = PosInf"
| "js_add _ PosInf = PosInf"
| "js_add NegInf _ = NegInf"
| "js_add _ NegInf = NegInf"
| "js_add NegZero NegZero = NegZero"
| "js_add a b = Fin (num_val a + num_val b)"

subsection \<open>Facts\<close>

lemma isSafeInteger_num_of_int [simp]: "isSafeInteger (num_of_int i) \<longleftrightarrow> safe_int i"
  by simp

lemma num_to_int_num_of_int [simp]: "num_to_int (num_of_int i) = i"
  by simp

lemma js_eq_num_of_int [simp]: "js_eq (num_of_int i) (num_of_int j) \<longleftrightarrow> i = j"
  by simp

lemma js_eq_refl: "\<not> isNaN a \<Longrightarrow> js_eq a a"
  by (cases a) simp_all

lemma js_eq_sym: "js_eq a b \<longleftrightarrow> js_eq b a"
  by (cases a; cases b) auto

lemma js_eq_trans: "js_eq a b \<Longrightarrow> js_eq b c \<Longrightarrow> js_eq a c"
  by (cases a; cases b; cases c) auto

lemma isSafeInteger_cases:
  assumes "isSafeInteger n"
  obtains "n = NegZero" | i where "n = num_of_int i" "safe_int i"
proof (cases n)
  case (Fin r)
  with assms have "of_int \<lfloor>r\<rfloor> = r" "safe_int \<lfloor>r\<rfloor>" by (simp_all only: isSafeInteger.simps)
  then show ?thesis using that(2) [of "\<lfloor>r\<rfloor>"] unfolding Fin by metis
qed (use assms that(1) in auto)

lemma js_eq_safe:
  "isSafeInteger a \<Longrightarrow> isSafeInteger b \<Longrightarrow> js_eq a b \<longleftrightarrow> num_to_int a = num_to_int b"
  by (elim isSafeInteger_cases) auto

lemma safe_int_simps [simp]: "safe_int 0" "safe_int 1"
  by (simp_all add: safe_int_def MAX_SAFE_INTEGER_def)

end
