(* ===== verification/Json.thy ===== *)
theory Json
  imports JS_Number
begin

text \<open>
  JSON values as the code holds them at run time (\<open>core/session/src/json.ts\<close>): an object is
  its own enumerable string keys in property order. Number leaves are JavaScript numbers, so
  that the lossless-JSON test has something to reject.
\<close>

datatype json =
    JNull
  | JBool bool
  | JNum jsnum
  | JStr string
  | JArr "json list"
  | JObj "(string \<times> json) list"

abbreviation JInt :: "int \<Rightarrow> json" where
  "JInt i \<equiv> JNum (num_of_int i)"

subsection \<open>Reading fields\<close>

text \<open>\<open>value[key]\<close> on a record: \<open>None\<close> is \<open>undefined\<close>.\<close>

fun field :: "json \<Rightarrow> string \<Rightarrow> json option" where
  "field (JObj kvs) k = map_of kvs k"
| "field _ k = None"

fun isRecord :: "json \<Rightarrow> bool" where
  "isRecord (JObj _) = True"
| "isRecord _ = False"

fun is_num :: "json option \<Rightarrow> bool" where
  "is_num (Some (JNum _)) = True"
| "is_num _ = False"

fun is_str :: "json option \<Rightarrow> bool" where
  "is_str (Some (JStr _)) = True"
| "is_str _ = False"

fun get_num :: "json option \<Rightarrow> jsnum" where
  "get_num (Some (JNum n)) = n"
| "get_num _ = NaN"

fun get_str :: "json option \<Rightarrow> string" where
  "get_str (Some (JStr s)) = s"
| "get_str _ = []"

fun is_safe_num :: "json option \<Rightarrow> bool" where
  "is_safe_num (Some (JNum n)) = isSafeInteger n"
| "is_safe_num _ = False"

text \<open>Exact-key check: the record has every key of the list and nothing else.\<close>

fun hasExactKeys :: "json \<Rightarrow> string list \<Rightarrow> bool" where
  "hasExactKeys (JObj kvs) keys =
     (length kvs = length keys \<and> list_all (\<lambda>k. map_of kvs k \<noteq> None) keys)"
| "hasExactKeys _ keys = False"

subsection \<open>Well-formed and lossless values\<close>

text \<open>An object has no two properties of one name.\<close>

primrec json_wf :: "json \<Rightarrow> bool" where
  "json_wf JNull = True"
| "json_wf (JBool b) = True"
| "json_wf (JNum n) = True"
| "json_wf (JStr s) = True"
| "json_wf (JArr xs) = list_all id (map json_wf xs)"
| "json_wf (JObj kvs) =
     (distinct (map fst kvs) \<and> list_all snd (map (map_prod id json_wf) kvs))"

text \<open>
  The lossless-JSON boundary on acyclic plain data: the only leaves that
  \<open>JSON.stringify\<close> would change are the non-finite numbers and negative zero.
\<close>

definition lossless_num :: "jsnum \<Rightarrow> bool" where
  "lossless_num n = (isFinite n \<and> n \<noteq> NegZero)"

primrec isJsonValue :: "json \<Rightarrow> bool" where
  "isJsonValue JNull = True"
| "isJsonValue (JBool b) = True"
| "isJsonValue (JNum n) = lossless_num n"
| "isJsonValue (JStr s) = True"
| "isJsonValue (JArr xs) = list_all id (map isJsonValue xs)"
| "isJsonValue (JObj kvs) = list_all snd (map (map_prod id isJsonValue) kvs)"

subsection \<open>Deep equality\<close>

text \<open>
  \<open>isDeepEqualJson\<close> of \<open>core/session/src/surface.ts\<close>: key order does not matter, the
  keys of the left value are looked up in the right one after the key counts agree.
\<close>

primrec isDeepEqualJson :: "json \<Rightarrow> json \<Rightarrow> bool" where
  "isDeepEqualJson JNull b = (b = JNull)"
| "isDeepEqualJson (JBool x) b = (b = JBool x)"
| "isDeepEqualJson (JNum n) b = (case b of JNum m \<Rightarrow> js_eq n m | _ \<Rightarrow> False)"
| "isDeepEqualJson (JStr s) b = (b = JStr s)"
| "isDeepEqualJson (JArr xs) b =
     (case b of
        JArr ys \<Rightarrow> length xs = length ys
          \<and> list_all (\<lambda>(eq, y). eq y) (zip (map isDeepEqualJson xs) ys)
      | _ \<Rightarrow> False)"
| "isDeepEqualJson (JObj kvs) b =
     (case b of
        JObj ls \<Rightarrow> length kvs = length ls
          \<and> list_all (\<lambda>(k, eq). case map_of ls k of None \<Rightarrow> False | Some y \<Rightarrow> eq y)
              (map (map_prod id isDeepEqualJson) kvs)
      | _ \<Rightarrow> False)"

lemma deep_equal_obj_iff:
  "isDeepEqualJson (JObj kvs) (JObj ls) \<longleftrightarrow> length kvs = length ls
     \<and> (\<forall>(k, x) \<in> set kvs. \<exists>y. map_of ls k = Some y \<and> isDeepEqualJson x y)"
  by (auto simp: list_all_iff split: option.splits)

lemma deep_equal_arr_iff:
  "isDeepEqualJson (JArr xs) (JArr ys) \<longleftrightarrow> list_all2 isDeepEqualJson xs ys"
proof -
  have "list_all (\<lambda>(eq, y). eq y) (zip (map isDeepEqualJson xs) ys)
      = list_all (\<lambda>(x, y). isDeepEqualJson x y) (zip xs ys)"
    by (simp add: zip_map1 list.pred_map comp_def case_prod_unfold)
  then show ?thesis by (simp add: list_all2_iff list_all_iff)
qed

lemma json_wf_arr [simp]: "json_wf (JArr xs) \<longleftrightarrow> (\<forall>x \<in> set xs. json_wf x)"
  by (simp add: list_all_iff)

lemma json_wf_obj [simp]:
  "json_wf (JObj kvs) \<longleftrightarrow> distinct (map fst kvs) \<and> (\<forall>(k, x) \<in> set kvs. json_wf x)"
  by (auto simp: list_all_iff)

lemma isJsonValue_arr [simp]: "isJsonValue (JArr xs) \<longleftrightarrow> (\<forall>x \<in> set xs. isJsonValue x)"
  by (simp add: list_all_iff)

lemma isJsonValue_obj [simp]:
  "isJsonValue (JObj kvs) \<longleftrightarrow> (\<forall>(k, x) \<in> set kvs. isJsonValue x)"
  by (auto simp: list_all_iff)

declare json_wf.simps(5,6) [simp del]
declare isJsonValue.simps(5,6) [simp del]
declare isDeepEqualJson.simps(5,6) [simp del]

text \<open>Deep equality is reflexive on lossless values, whatever the property order.\<close>

lemma deep_equal_refl: "json_wf v \<Longrightarrow> isJsonValue v \<Longrightarrow> isDeepEqualJson v v"
proof (induction v)
  case (JNum n)
  then show ?case by (cases n) (simp_all add: lossless_num_def)
next
  case (JArr xs)
  then show ?case by (auto simp: deep_equal_arr_iff list_all2_same)
next
  case (JObj kvs)
  then show ?case by (fastforce simp: deep_equal_obj_iff)
qed simp_all

end
