(* ===== verification/Session_Events.thy ===== *)
theory Session_Events
  imports Json
begin

text \<open>
  The message and event vocabulary: content blocks, message sources and stream chunks of
  \<open>llm/llm/src/types.ts\<close> and \<open>llm/llm/src/message.ts\<close>, and the session events of
  \<open>core/session/src/types.ts\<close> with the plugin events the modelled components own. An event
  type of another plugin is \<open>OtherEvent\<close> with its type tag and raw payload.
\<close>

subsection \<open>Messages\<close>

datatype content_block =
    TextBlock string
  | ReasoningBlock string
  | ImageBlock json
  | ToolCallBlock (call_id: string) (call_name: string) (call_arguments: string)
  | ToolResultBlock string "content_block list" "bool option"
  | OtherBlock string json

datatype message_source =
    SourceUser
  | SourcePlugin string "(string \<times> json) list"
  | SourceModel string string "json option"
  | SourceTool string
  | SourceGoal json jsnum jsnum
  | SourceOther string json

datatype role = RoleSystem | RoleUser | RoleAssistant

record message =
  msg_id :: string
  msg_role :: role
  msg_content :: "content_block list"
  msg_source :: message_source

definition is_tool_call :: "content_block \<Rightarrow> bool" where
  "is_tool_call b = (case b of ToolCallBlock _ _ _ \<Rightarrow> True | _ \<Rightarrow> False)"

subsection \<open>Stream chunks\<close>

record llm_failure =
  failure_message :: string
  failure_code :: string
  failure_status :: "int option"
  failure_retryAfterMs :: "jsnum option"
  failure_requestId :: "string option"

datatype finish_reason =
    FinishStop
  | FinishToolCalls
  | FinishMaxTokens
  | FinishAborted llm_failure
  | FinishError llm_failure
  | FinishOther string json

record token_usage =
  inputTokens :: int
  outputTokens :: int
  cacheReadTokens :: "int option"
  cacheWriteTokens :: "int option"
  reasoningTokens :: "int option"

datatype stream_chunk =
    BlockStart int string
  | TextDelta int string
  | ReasoningDelta int string
  | ToolCallDelta int string "string option" string
  | BlockEnd int content_block
  | UsageChunk token_usage
  | FinishChunk finish_reason "json option"

subsection \<open>Request headers\<close>

record call_config =
  cfg_provider :: string
  cfg_model :: string
  cfg_reasoningEffort :: "string option"
  cfg_temperature :: "jsnum option"
  cfg_maxTokens :: "jsnum option"
  cfg_stop :: "string list option"

record adapter_defaults =
  def_reasoningEffort :: bool
  def_maxTokens :: bool

record tool_schema =
  schema_name :: string
  schema_description :: string
  schema_parameters :: json

record epoch_header =
  hdr_config :: call_config
  hdr_adapterDefaults :: "adapter_defaults option"
  hdr_system :: "string option"
  hdr_tools :: "tool_schema list option"

datatype header_reason = ReasonInitial | ReasonResume | ReasonChange

record request_context =
  ctx_provider :: string
  ctx_model :: string
  ctx_contextWindow :: "jsnum option"

subsection \<open>Events\<close>

datatype cancel_cause = CancelUser | CancelParent | CancelHook string | CancelDisposed | CancelLegacy

datatype turn_end_reason =
    Completed
  | Aborted cancel_cause
  | Blocked
  | TurnError llm_failure
  | MaxTokens
  | Interrupted
  | OtherReason string json

datatype todo_status = TodoPending | TodoInProgress | TodoCompleted

record todo_item =
  todo_content :: string
  todo_state :: todo_status

datatype inbox_target = NextTurn | NextStep

text \<open>The normalized mutation an \<open>agent/inbox/spliced\<close> event records.\<close>

record inbox_splice =
  sp_target :: inbox_target
  sp_start :: jsnum
  sp_removedCount :: "jsnum option"
  sp_inserted :: "message list"
  sp_canceled :: bool

text \<open>
  The payloads of the \<open>compaction/*\<close> events (\<open>compaction/compaction/src/types.ts\<close>): the identity,
  initiating command and owning turn of one transaction, and the completed summary with its inputs.
\<close>

record compaction_life =
  cl_id :: string
  cl_command :: "string option"
  cl_turn :: "int option"

record compaction_summary =
  cs_id :: string
  cs_command :: "string option"
  cs_summary :: "content_block list"
  cs_start :: int
  cs_end :: int
  cs_shadowed :: "int list"
  cs_tokens :: jsnum
  cs_provider :: string
  cs_model :: string
  cs_maxTokens :: "jsnum option"
  cs_usage :: "token_usage option"
  cs_rawOutput :: "content_block list option"
  cs_llmStreamCall :: bool

datatype event_data =
    TurnStart int
  | TurnEnd int turn_end_reason
  | StepStart int int
  | StepEnd int int
  | UserMessage message
  | AssistantChunk int int stream_chunk
  | AssistantMessage int int message "token_usage option"
  | ToolCall int int string string string
  | ToolResult int int message "(string \<times> string) option" "json option"
  | TodoWrite "todo_item list"
  | RequestHeader epoch_header header_reason
  | RequestContext request_context
  | EndSeed
  | InboxSpliced inbox_splice
  | GoalChange json
  | CompactionStart compaction_life
  | CompactionSummary compaction_summary
  | CompactionEnd compaction_life "string option"
  | CompactionPrune int int "int list" jsnum
  | OtherEvent string json

text \<open>
  One log entry. The surface metadata is kept as the raw run-time values the surface fold
  validates: \<open>None\<close> is \<open>undefined\<close>.
\<close>

record event =
  ev_seq :: int
  ev_time :: int
  ev_data :: event_data
  ev_surfaceOp :: "json option"
  ev_sourceEventSeqs :: "json option"

definition plain_event :: "int \<Rightarrow> int \<Rightarrow> event_data \<Rightarrow> event" where
  "plain_event s t d =
     \<lparr>ev_seq = s, ev_time = t, ev_data = d, ev_surfaceOp = None, ev_sourceEventSeqs = None\<rparr>"

lemma plain_event_sel [simp]:
  "ev_seq (plain_event s t d) = s"
  "ev_time (plain_event s t d) = t"
  "ev_data (plain_event s t d) = d"
  "ev_surfaceOp (plain_event s t d) = None"
  "ev_sourceEventSeqs (plain_event s t d) = None"
  by (simp_all add: plain_event_def)

text \<open>The call id a tool-result message answers (\<open>message.source.callId\<close>).\<close>

fun source_call_id :: "message_source \<Rightarrow> string option" where
  "source_call_id (SourceTool c) = Some c"
| "source_call_id _ = None"

definition result_call_id :: "message \<Rightarrow> string" where
  "result_call_id m = (case source_call_id (msg_source m) of Some c \<Rightarrow> c | None \<Rightarrow> [])"

end
