(* ===== verification/Surface.thy ===== *)
theory Surface
  imports Session_Events
begin

text \<open>
  The surface layer (\<open>core/session/src/surface.ts\<close>): the ordered view of the log's
  message-producing events. An event either appends itself to the surface or replaces a
  contiguous range of it; every transition is validated first (\<open>planSurfaceEvent\<close>) and
  committed afterwards (\<open>applySurfacePlan\<close>).
\<close>

subsection \<open>Event classes and the per-node projection\<close>

fun isSurfaceEligible :: "event_data \<Rightarrow> bool" where
  "isSurfaceEligible (UserMessage _) = True"
| "isSurfaceEligible (AssistantMessage _ _ _ _) = True"
| "isSurfaceEligible (ToolResult _ _ _ _ _) = True"
| "isSurfaceEligible _ = False"

definition isSurfaceEvent :: "event \<Rightarrow> bool" where
  "isSurfaceEvent e = (isSurfaceEligible (ev_data e) \<and> ev_surfaceOp e \<noteq> None)"

definition isAppendSurfaceEvent :: "event \<Rightarrow> bool" where
  "isAppendSurfaceEvent e = (isSurfaceEvent e \<and> ev_surfaceOp e = Some (JStr ''append''))"

definition isReplacementSurfaceEvent :: "event \<Rightarrow> bool" where
  "isReplacementSurfaceEvent e = (isSurfaceEvent e \<and> ev_surfaceOp e \<noteq> Some (JStr ''append''))"

fun deriveEventMessage :: "event_data \<Rightarrow> message option" where
  "deriveEventMessage (UserMessage m) = Some m"
| "deriveEventMessage (AssistantMessage _ _ m _) = (if msg_content m = [] then None else Some m)"
| "deriveEventMessage (ToolResult _ _ m _ _) = Some m"
| "deriveEventMessage _ = None"

subsection \<open>Fold state and plans\<close>

record fold_replacement =
  rep_seq :: int
  rep_start :: int
  rep_end :: int
  rep_shadowed :: "int list"

record surface_state =
  nodes :: "int list"
  replaceGeneration :: nat

datatype surface_op = OpAppend | OpReplace int int

datatype surface_plan =
    PlanAppend int
  | PlanReplace (plan_rep: fold_replacement) (plan_startIdx: nat) (plan_endIdx: nat)

datatype surface_error =
    NotContiguous
  | UnexpectedSurfaceOp
  | UnexpectedSources
  | MissingSurfaceOp
  | InvalidSurfaceOp
  | InvalidReplaceOp
  | SourcesNotArray
  | SourcesEmpty
  | SourceNotSeq
  | SourcesDuplicate
  | SourceNotEarlier
  | SourceMissing
  | StartNotFound
  | EndNotFound
  | StartAfterEnd
  | RewriteManyNodes
  | RewriteNotResult
  | RewriteChangesMore

definition createFoldState :: surface_state where
  "createFoldState = \<lparr>nodes = [], replaceGeneration = 0\<rparr>"

subsection \<open>Validation\<close>

fun isEventSeq :: "json \<Rightarrow> bool" where
  "isEventSeq (JNum n) = (isSafeInteger n \<and> 0 \<le> num_to_int n)"
| "isEventSeq _ = False"

fun json_seq :: "json \<Rightarrow> int" where
  "json_seq (JNum n) = num_to_int n"
| "json_seq _ = 0"

definition isReplaceOp :: "json \<Rightarrow> bool" where
  "isReplaceOp op =
     (hasExactKeys op [''op'', ''start'', ''end'']
      \<and> field op ''op'' = Some (JStr ''replace'')
      \<and> (case field op ''start'' of None \<Rightarrow> False | Some v \<Rightarrow> isEventSeq v)
      \<and> (case field op ''end'' of None \<Rightarrow> False | Some v \<Rightarrow> isEventSeq v))"

definition opt_seq :: "json option \<Rightarrow> int" where
  "opt_seq v = (case v of None \<Rightarrow> 0 | Some j \<Rightarrow> json_seq j)"

definition surfaceOpOf :: "event \<Rightarrow> (surface_error, surface_op option) result" where
  "surfaceOpOf e =
     (if \<not> isSurfaceEligible (ev_data e) then
        (if ev_surfaceOp e \<noteq> None then Inl UnexpectedSurfaceOp
         else if ev_sourceEventSeqs e \<noteq> None then Inl UnexpectedSources
         else Inr None)
      else case ev_surfaceOp e of
        None \<Rightarrow> Inl MissingSurfaceOp
      | Some op \<Rightarrow>
          if op = JStr ''append'' then Inr (Some OpAppend)
          else if \<not> isRecord op then Inl InvalidSurfaceOp
          else if \<not> isReplaceOp op then Inl InvalidReplaceOp
          else Inr (Some (OpReplace (opt_seq (field op ''start'')) (opt_seq (field op ''end'')))))"

fun is_assistant_message :: "event_data \<Rightarrow> bool" where
  "is_assistant_message (AssistantMessage _ _ _ _) = True"
| "is_assistant_message _ = False"

text \<open>The cited source seqs of an event, validated; no citation is the empty set.\<close>

definition sourceSeqs :: "event \<Rightarrow> (surface_error, int list) result" where
  "sourceSeqs e =
     (case ev_sourceEventSeqs e of
        None \<Rightarrow> Inr []
      | Some (JArr raw) \<Rightarrow>
          if raw = [] \<and> \<not> is_assistant_message (ev_data e) then Inl SourcesEmpty
          else if \<not> list_all isEventSeq raw then Inl SourceNotSeq
          else if \<not> distinct (map json_seq raw) then Inl SourcesDuplicate
          else if list_ex (\<lambda>s. ev_seq e \<le> json_seq s) raw then Inl SourceNotEarlier
          else Inr (map json_seq raw)
      | Some _ \<Rightarrow> Inl SourcesNotArray)"

definition assertProvenance :: "event \<Rightarrow> int list \<Rightarrow> (surface_error, unit) result" where
  "assertProvenance e shadowed =
     bindE (sourceSeqs e) (\<lambda>sources.
       throw_if (filter (\<lambda>s. s \<notin> set sources) shadowed \<noteq> []) SourceMissing)"

definition indexOf :: "int list \<Rightarrow> int \<Rightarrow> nat option" where
  "indexOf xs x = find_index (\<lambda>y. y = x) xs"

definition replacementRange ::
  "surface_state \<Rightarrow> int \<Rightarrow> int \<Rightarrow> (surface_error, nat \<times> nat \<times> int list) result" where
  "replacementRange st s t =
     (case indexOf (nodes st) s of
        None \<Rightarrow> Inl StartNotFound
      | Some i \<Rightarrow>
          (case indexOf (nodes st) t of
             None \<Rightarrow> Inl EndNotFound
           | Some j \<Rightarrow>
               if j < i then Inl StartAfterEnd
               else Inr (i, j, take (Suc j - i) (drop i (nodes st)))))"

text \<open>
  The rest of a tool result once its block's content is set aside: what a rewrite must keep.
\<close>

fun null_content :: "content_block \<Rightarrow> content_block" where
  "null_content (ToolResultBlock c _ err) = ToolResultBlock c [] err"
| "null_content b = b"

definition first_block_rest :: "content_block list \<Rightarrow> content_block option" where
  "first_block_rest bs = (case bs of [] \<Rightarrow> None | b # _ \<Rightarrow> Some (null_content b))"

definition meta_equal :: "json option \<Rightarrow> json option \<Rightarrow> bool" where
  "meta_equal a b =
     (case (a, b) of
        (None, None) \<Rightarrow> True
      | (Some x, Some y) \<Rightarrow> isDeepEqualJson x y
      | _ \<Rightarrow> False)"

fun result_rest_equal :: "event_data \<Rightarrow> event_data \<Rightarrow> bool" where
  "result_rest_equal (ToolResult t s m err meta) (ToolResult t' s' m' err' meta') =
     (t = t' \<and> s = s' \<and> err = err' \<and> meta_equal meta meta'
      \<and> msg_id m = msg_id m' \<and> msg_role m = msg_role m' \<and> msg_source m = msg_source m'
      \<and> first_block_rest (msg_content m) = first_block_rest (msg_content m'))"
| "result_rest_equal _ _ = False"

fun is_tool_result :: "event_data \<Rightarrow> bool" where
  "is_tool_result (ToolResult _ _ _ _ _) = True"
| "is_tool_result _ = False"

text \<open>\<open>events[i]\<close>: \<open>None\<close> is \<open>undefined\<close>, as for a negative or too large index.\<close>

definition event_at :: "event list \<Rightarrow> int \<Rightarrow> event option" where
  "event_at es i = (if 0 \<le> i \<and> nat i < length es then Some (es ! nat i) else None)"

definition assertToolResultRewrite ::
  "event \<Rightarrow> int list \<Rightarrow> event list \<Rightarrow> int \<Rightarrow> (surface_error, unit) result" where
  "assertToolResultRewrite e shadowed es baseSeq =
     (if \<not> is_tool_result (ev_data e) then Inr ()
      else case shadowed of
        [originalSeq] \<Rightarrow>
          (case event_at es (originalSeq - baseSeq) of
             None \<Rightarrow> Inl RewriteNotResult
           | Some original \<Rightarrow>
               if \<not> is_tool_result (ev_data original) then Inl RewriteNotResult
               else throw_if (\<not> result_rest_equal (ev_data original) (ev_data e)) RewriteChangesMore)
      | _ \<Rightarrow> Inl RewriteManyNodes)"

definition planReplace ::
  "surface_state \<Rightarrow> event \<Rightarrow> int \<Rightarrow> int \<Rightarrow> event list \<Rightarrow> int
     \<Rightarrow> (surface_error, surface_plan option) result" where
  "planReplace st e s t es baseSeq =
     bindE (replacementRange st s t) (\<lambda>(i, j, shadowed).
     bindE (assertProvenance e shadowed) (\<lambda>_.
     bindE (assertToolResultRewrite e shadowed es baseSeq) (\<lambda>_.
       Inr (Some (PlanReplace
         \<lparr>rep_seq = ev_seq e, rep_start = s, rep_end = t, rep_shadowed = shadowed\<rparr> i j)))))"

fun planOp ::
  "surface_state \<Rightarrow> event \<Rightarrow> surface_op option \<Rightarrow> event list \<Rightarrow> int
     \<Rightarrow> (surface_error, surface_plan option) result" where
  "planOp st e None es baseSeq = Inr None"
| "planOp st e (Some OpAppend) es baseSeq =
     bindE (assertProvenance e []) (\<lambda>_. Inr (Some (PlanAppend (ev_seq e))))"
| "planOp st e (Some (OpReplace s t)) es baseSeq = planReplace st e s t es baseSeq"

definition planSurfaceEvent ::
  "surface_state \<Rightarrow> event \<Rightarrow> int \<Rightarrow> event list \<Rightarrow> int
     \<Rightarrow> (surface_error, surface_plan option) result" where
  "planSurfaceEvent st e expectedSeq es baseSeq =
     (if ev_seq e \<noteq> expectedSeq then Inl NotContiguous
      else bindE (surfaceOpOf e) (\<lambda>op. planOp st e op es baseSeq))"

subsection \<open>Commit and fold\<close>

definition commitPlan :: "surface_state \<Rightarrow> surface_plan option \<Rightarrow> surface_state" where
  "commitPlan st plan =
     (case plan of
        None \<Rightarrow> st
      | Some (PlanAppend s) \<Rightarrow> st\<lparr>nodes := nodes st @ [s]\<rparr>
      | Some (PlanReplace r i j) \<Rightarrow>
          st\<lparr>nodes := splice i (j - i + 1) [rep_seq r] (nodes st),
             replaceGeneration := Suc (replaceGeneration st)\<rparr>)"

definition planReplacement :: "surface_plan option \<Rightarrow> fold_replacement option" where
  "planReplacement plan = (case plan of Some (PlanReplace r _ _) \<Rightarrow> Some r | _ \<Rightarrow> None)"

definition applySurfaceEvent ::
  "surface_state \<Rightarrow> event \<Rightarrow> int \<Rightarrow> event list \<Rightarrow> int
     \<Rightarrow> (surface_error, surface_state \<times> fold_replacement option) result" where
  "applySurfaceEvent st e expectedSeq es baseSeq =
     bindE (planSurfaceEvent st e expectedSeq es baseSeq) (\<lambda>plan.
       Inr (commitPlan st plan, planReplacement plan))"

text \<open>The loop of \<open>foldSurface\<close> over the remaining events, at the index of the next one.\<close>

primrec foldFrom ::
  "event list \<Rightarrow> int \<Rightarrow> int \<Rightarrow> event list \<Rightarrow> surface_state
     \<Rightarrow> (surface_error, surface_state \<times> fold_replacement list) result" where
  "foldFrom es baseSeq idx [] st = Inr (st, [])"
| "foldFrom es baseSeq idx (e # rest) st =
     bindE (applySurfaceEvent st e idx es baseSeq) (\<lambda>(st', r).
     bindE (foldFrom es baseSeq (idx + 1) rest st') (\<lambda>(st'', rs).
       Inr (st'', (case r of None \<Rightarrow> rs | Some x \<Rightarrow> x # rs))))"

definition foldSurface :: "event list \<Rightarrow> (surface_error, int list \<times> fold_replacement list) result" where
  "foldSurface es = bindE (foldFrom es 0 0 es createFoldState) (\<lambda>(st, rs). Inr (nodes st, rs))"

subsection \<open>The incremental manager\<close>

text \<open>
  \<open>SurfaceManager\<close>: the log it watches, the seq it has folded to and the plan of the
  candidate \<open>validateNext\<close> accepted. Events are compared as values; the code compares the
  object, so the model takes the pending plan at least as often as the code does.
\<close>

record surface_manager =
  mgr_log :: "event list"
  mgr_baseSeq :: int
  mgr_state :: surface_state
  mgr_lastProcessedSeq :: int
  mgr_pending :: "(event \<times> int \<times> surface_plan option) option"

definition newManager :: "event list \<Rightarrow> int \<Rightarrow> surface_manager" where
  "newManager es b =
     \<lparr>mgr_log = es, mgr_baseSeq = b, mgr_state = createFoldState,
      mgr_lastProcessedSeq = b - 1, mgr_pending = None\<rparr>"

definition tailSeq :: "surface_manager \<Rightarrow> int" where
  "tailSeq m = mgr_baseSeq m + int (length (mgr_log m)) - 1"

text \<open>One iteration of \<open>_processDelta\<close>, for the event at sequence \<open>seq\<close>.\<close>

definition processOne :: "surface_manager \<Rightarrow> event \<Rightarrow> int \<Rightarrow> (surface_error, surface_manager) result" where
  "processOne m e seq =
     (let finish = (\<lambda>st. m\<lparr>mgr_state := st,
              mgr_pending := (case mgr_pending m of
                  Some (_, x, _) \<Rightarrow> if x \<le> seq then None else mgr_pending m
                | None \<Rightarrow> None),
              mgr_lastProcessedSeq := seq\<rparr>)
      in case mgr_pending m of
        Some (pe, px, plan) \<Rightarrow>
          if pe = e \<and> px = seq then Inr (finish (commitPlan (mgr_state m) plan))
          else bindE (applySurfaceEvent (mgr_state m) e seq (mgr_log m) (mgr_baseSeq m))
                 (\<lambda>(st, _). Inr (finish st))
      | None \<Rightarrow> bindE (applySurfaceEvent (mgr_state m) e seq (mgr_log m) (mgr_baseSeq m))
                 (\<lambda>(st, _). Inr (finish st)))"

primrec processList :: "event list \<Rightarrow> surface_manager \<Rightarrow> (surface_error, surface_manager) result" where
  "processList [] m = Inr m"
| "processList (e # es) m =
     bindE (processOne m e (mgr_lastProcessedSeq m + 1)) (processList es)"

definition processDelta :: "surface_manager \<Rightarrow> (surface_error, surface_manager) result" where
  "processDelta m =
     (if mgr_lastProcessedSeq m < tailSeq m
      then processList (drop (nat (mgr_lastProcessedSeq m + 1 - mgr_baseSeq m)) (mgr_log m)) m
      else Inr m)"

definition validateNext :: "surface_manager \<Rightarrow> event \<Rightarrow> (surface_error, surface_manager) result" where
  "validateNext m e =
     bindE (processDelta m) (\<lambda>m.
       let expectedSeq = mgr_baseSeq m + int (length (mgr_log m))
       in bindE (planSurfaceEvent (mgr_state m) e expectedSeq (mgr_log m) (mgr_baseSeq m)) (\<lambda>plan.
            Inr (m\<lparr>mgr_pending := Some (e, expectedSeq, plan)\<rparr>)))"

text \<open>The log array is shared with the session, which pushes the accepted event on it.\<close>

definition pushLog :: "surface_manager \<Rightarrow> event \<Rightarrow> surface_manager" where
  "pushLog m e = m\<lparr>mgr_log := mgr_log m @ [e]\<rparr>"

text \<open>The \<open>nodes\<close> and \<open>replaceGeneration\<close> getters fold what is new and read the state.\<close>

definition readSurface :: "surface_manager \<Rightarrow> (surface_error, surface_manager \<times> surface_state) result" where
  "readSurface m = bindE (processDelta m) (\<lambda>m. Inr (m, mgr_state m))"

end
