(* ===== verification/Surface_Facts.thy ===== *)
theory Surface_Facts
  imports Surface "HOL-Library.Multiset"
begin

text \<open>
  Lemmas of the surface fold: what each accepted plan says, the invariant of the fold state,
  conservation of nodes, and the agreement of the incremental manager with the full fold.
\<close>

subsection \<open>Inversion of accepted plans\<close>

lemma indexOf_Some:
  assumes "indexOf xs x = Some i"
  shows "i < length xs" "xs ! i = x"
  using find_index_Some [OF assms [unfolded indexOf_def]] by simp_all

lemma plan_seq: "planSurfaceEvent st e k es b = Inr plan \<Longrightarrow> ev_seq e = k"
  by (simp add: planSurfaceEvent_def split: if_splits)

lemma surfaceOpOf_None: "surfaceOpOf e = Inr None \<Longrightarrow> \<not> isSurfaceEligible (ev_data e)"
  by (auto simp: surfaceOpOf_def split: if_splits option.splits)

lemma surfaceOpOf_Some:
  "surfaceOpOf e = Inr (Some op) \<Longrightarrow> isSurfaceEligible (ev_data e) \<and> ev_surfaceOp e \<noteq> None"
  by (auto simp: surfaceOpOf_def split: if_splits option.splits)

lemma planOp_InrE [consumes 1, case_names none app rep]:
  assumes "planOp st e op es b = Inr plan"
  obtains "op = None" "plan = None"
  | "op = Some OpAppend" "assertProvenance e [] = Inr ()" "plan = Some (PlanAppend (ev_seq e))"
  | s t where "op = Some (OpReplace s t)" "planReplace st e s t es b = Inr plan"
  using assms by (cases "(st, e, op, es, b)" rule: planOp.cases) auto

lemma plan_cases [consumes 1, case_names none app rep]:
  assumes "planSurfaceEvent st e k es b = Inr plan"
  obtains
    "plan = None" "surfaceOpOf e = Inr None"
  | "plan = Some (PlanAppend k)" "surfaceOpOf e = Inr (Some OpAppend)"
      "assertProvenance e [] = Inr ()"
  | s t i j sh where
      "plan = Some (PlanReplace
         \<lparr>rep_seq = k, rep_start = s, rep_end = t, rep_shadowed = sh\<rparr> i j)"
      "surfaceOpOf e = Inr (Some (OpReplace s t))"
      "replacementRange st s t = Inr (i, j, sh)"
      "assertProvenance e sh = Inr ()" "assertToolResultRewrite e sh es b = Inr ()"
proof -
  from assms obtain op where k: "ev_seq e = k" and op: "surfaceOpOf e = Inr op"
    and p: "planOp st e op es b = Inr plan"
    by (auto simp: planSurfaceEvent_def split: if_splits)
  from p show thesis
  proof (cases rule: planOp_InrE)
    case none
    with op show ?thesis by (auto intro: that(1))
  next
    case app
    with op k show ?thesis by (auto intro: that(2))
  next
    case (rep s t)
    then show ?thesis
      using op k that(3) by (auto simp: planReplace_def)
  qed
qed

lemma replacementRange_Inr:
  assumes "replacementRange st s t = Inr (i, j, sh)"
  shows "i \<le> j" "j < length (nodes st)" "sh = take (Suc j - i) (drop i (nodes st))"
    "nodes st ! i = s" "nodes st ! j = t"
  using assms
  by (auto simp: replacementRange_def dest: indexOf_Some split: option.splits if_splits)

lemma range_split:
  assumes "i \<le> j" "j < length xs"
  shows "xs = take i xs @ take (Suc j - i) (drop i xs) @ drop (Suc j) xs"
proof -
  have "drop i xs = take (Suc j - i) (drop i xs) @ drop (Suc j - i) (drop i xs)"
    by (rule append_take_drop_id [symmetric])
  moreover have "drop (Suc j - i) (drop i xs) = drop (Suc j) xs" using assms by simp
  ultimately show ?thesis by (metis append_take_drop_id)
qed

lemma range_nonempty: "i \<le> j \<Longrightarrow> j < length xs \<Longrightarrow> take (Suc j - i) (drop i xs) \<noteq> []"
  by simp

subsection \<open>Invariant of the fold state\<close>

definition eligible_at :: "event list \<Rightarrow> int \<Rightarrow> bool" where
  "eligible_at es s = (0 \<le> s \<and> nat s < length es \<and> isSurfaceEvent (es ! nat s))"

definition surface_inv :: "event list \<Rightarrow> surface_state \<Rightarrow> bool" where
  "surface_inv es st = (distinct (nodes st) \<and> (\<forall>s \<in> set (nodes st). eligible_at es s))"

lemma surface_inv_empty [simp]: "surface_inv es createFoldState"
  by (simp add: surface_inv_def createFoldState_def)

lemma eligible_at_less: "eligible_at es s \<Longrightarrow> 0 \<le> s \<and> s < int (length es)"
  by (auto simp: eligible_at_def)

lemma eligible_at_append: "eligible_at es s \<Longrightarrow> eligible_at (es @ xs) s"
  by (auto simp: eligible_at_def nth_append)

lemma commit_mset:
  assumes "planSurfaceEvent st e k es b = Inr plan"
  shows "mset (nodes (commitPlan st plan))
      + (case planReplacement plan of None \<Rightarrow> {#} | Some r \<Rightarrow> mset (rep_shadowed r))
    = mset (nodes st) + (if isSurfaceEligible (ev_data e) then {#k#} else {#})"
  using assms
proof (cases rule: plan_cases)
  case none
  then show ?thesis
    by (simp add: commitPlan_def planReplacement_def surfaceOpOf_None)
next
  case app
  then show ?thesis
    by (simp add: commitPlan_def planReplacement_def surfaceOpOf_Some)
next
  case (rep s t i j sh)
  note r = replacementRange_Inr [OF rep(3)]
  have "mset (nodes st) = mset (take i (nodes st)) + mset sh + mset (drop (Suc j) (nodes st))"
    unfolding r(3) by (subst range_split [OF r(1,2)]) (simp del: append_take_drop_id)
  moreover have "i + (j - i + 1) = Suc j" using r(1) by simp
  ultimately show ?thesis
    using surfaceOpOf_Some [OF rep(2)]
    by (simp add: rep(1) commitPlan_def planReplacement_def splice_def)
qed

lemma commit_invariant:
  assumes plan: "planSurfaceEvent st e k es b = Inr plan"
    and inv: "surface_inv ls st" and k: "k = int (length ls)"
  shows "surface_inv (ls @ [e]) (commitPlan st plan)"
  using plan
proof (cases rule: plan_cases)
  case none
  then show ?thesis using inv by (auto simp: commitPlan_def surface_inv_def eligible_at_append)
next
  case app
  have "eligible_at (ls @ [e]) k"
    using surfaceOpOf_Some [OF app(2)] k by (simp add: eligible_at_def isSurfaceEvent_def)
  moreover have "k \<notin> set (nodes st)" using inv k by (auto simp: surface_inv_def dest: eligible_at_less)
  ultimately show ?thesis using app inv
    by (auto simp: commitPlan_def surface_inv_def eligible_at_append)
next
  case (rep s t i j sh)
  have "eligible_at (ls @ [e]) k"
    using surfaceOpOf_Some [OF rep(2)] k by (simp add: eligible_at_def isSurfaceEvent_def)
  moreover have "k \<notin> set (nodes st)" using inv k by (auto simp: surface_inv_def dest: eligible_at_less)
  moreover have "distinct (take i (nodes st) @ drop (i + (j - i + 1)) (nodes st))"
    using inv by (metis surface_inv_def add.commute distinct_append distinct_drop distinct_take
        inf.commute le_add1 set_take_disj_set_drop_if_distinct)
  ultimately show ?thesis using rep(1) inv
    by (auto simp: commitPlan_def surface_inv_def splice_def eligible_at_append
        dest: in_set_takeD in_set_dropD)
qed

subsection \<open>The fold as steps\<close>

lemma foldFrom_append:
  "foldFrom es b k (xs @ ys) st =
     bindE (foldFrom es b k xs st) (\<lambda>(st', rs).
     bindE (foldFrom es b (k + int (length xs)) ys st') (\<lambda>(st'', rs').
       Inr (st'', rs @ rs')))"
proof (induction xs arbitrary: st k)
  case Nil
  then show ?case by (cases "foldFrom es b k ys st") auto
next
  case (Cons x xs)
  have k: "k + 1 + int (length xs) = k + int (length (x # xs))" by simp
  show ?case
  proof (cases "applySurfaceEvent st x k es b")
    case (Inr p)
    obtain st1 r where p: "p = (st1, r)" by (cases p)
    show ?thesis
    proof (cases "foldFrom es b (k + 1) xs st1")
      case (Inr q)
      then obtain st2 rs where "q = (st2, rs)" by (cases q)
      with Inr p \<open>applySurfaceEvent st x k es b = Inr p\<close> show ?thesis
        by (cases "foldFrom es b (k + 1 + int (length xs)) ys st2")
          (auto simp: Cons.IH add.assoc split: option.splits)
    qed (simp add: p Inr Cons.IH)
  qed simp
qed

text \<open>Only the events below the fold position are read back, so a longer log changes nothing.\<close>

lemma event_at_append:
  "i < int (length es) \<Longrightarrow> event_at (es @ xs) i = event_at es i"
  by (auto simp: event_at_def nth_append)

lemma plan_log_extend:
  assumes "\<forall>s \<in> set (nodes st). s - b < int (length es)"
  shows "planSurfaceEvent st e k (es @ xs) b = planSurfaceEvent st e k es b"
proof -
  have "assertToolResultRewrite e sh (es @ xs) b = assertToolResultRewrite e sh es b"
    if "replacementRange st s t = Inr (i, j, sh)" for s t i j sh
  proof -
    have "set sh \<subseteq> set (nodes st)"
      using replacementRange_Inr(3) [OF that] by (auto dest: in_set_takeD in_set_dropD)
    then show ?thesis using assms
      by (auto simp: assertToolResultRewrite_def event_at_append split: list.splits)
  qed
  then have "planReplace st e s t (es @ xs) b = planReplace st e s t es b" for s t
    by (cases "replacementRange st s t") (auto simp: planReplace_def)
  then have "planOp st e op (es @ xs) b = planOp st e op es b" for op
    by (cases "(st, e, op, es, b)" rule: planOp.cases) simp_all
  then show ?thesis by (simp add: planSurfaceEvent_def)
qed

lemma apply_log_extend:
  "\<forall>s \<in> set (nodes st). s - b < int (length es) \<Longrightarrow>
   applySurfaceEvent st e k (es @ xs) b = applySurfaceEvent st e k es b"
  by (simp add: applySurfaceEvent_def plan_log_extend)

text \<open>A successful fold of a prefix keeps the invariant and conserves the eligible seqs.\<close>

definition eligible_seqs :: "event list \<Rightarrow> int list" where
  "eligible_seqs es =
     map int (filter (\<lambda>i. isSurfaceEligible (ev_data (es ! i))) [0..<length es])"

lemma eligible_seqs_snoc:
  "eligible_seqs (es @ [e]) = eligible_seqs es
     @ (if isSurfaceEligible (ev_data e) then [int (length es)] else [])"
proof -
  have "filter (\<lambda>i. isSurfaceEligible (ev_data ((es @ [e]) ! i))) [0..<length es]
      = filter (\<lambda>i. isSurfaceEligible (ev_data (es ! i))) [0..<length es]"
    by (rule filter_cong) (auto simp: nth_append)
  then show ?thesis by (simp add: eligible_seqs_def)
qed

lemma fold_prefix:
  assumes "foldFrom es 0 0 ls createFoldState = Inr (st, rs)"
  shows "surface_inv ls st
    \<and> mset (nodes st) + sum_list (map (\<lambda>r. mset (rep_shadowed r)) rs) = mset (eligible_seqs ls)
    \<and> replaceGeneration st = length rs"
  using assms
proof (induction ls arbitrary: st rs rule: rev_induct)
  case Nil
  then show ?case by (auto simp: createFoldState_def eligible_seqs_def surface_inv_def)
next
  case (snoc e ls)
  from snoc.prems obtain st' rs' r where
    1: "foldFrom es 0 0 ls createFoldState = Inr (st', rs')" and
    2: "applySurfaceEvent st' e (int (length ls)) es 0 = Inr (st, r)" and
    3: "rs = rs' @ (case r of None \<Rightarrow> [] | Some x \<Rightarrow> [x])"
    by (auto simp: foldFrom_append split: option.splits)
  from 2 obtain plan where plan: "planSurfaceEvent st' e (int (length ls)) es 0 = Inr plan"
    and st: "st = commitPlan st' plan" and r: "r = planReplacement plan"
    by (auto simp: applySurfaceEvent_def)
  have inv: "surface_inv (ls @ [e]) st"
    unfolding st using commit_invariant [OF plan] snoc.IH [OF 1] by simp
  have gen: "replaceGeneration st = length rs"
    using snoc.IH [OF 1]
    by (auto simp: st r 3 commitPlan_def planReplacement_def split: option.splits surface_plan.splits)
  have "mset (nodes st) + sum_list (map (\<lambda>r. mset (rep_shadowed r)) rs)
      = (mset (nodes st) + (case r of None \<Rightarrow> {#} | Some x \<Rightarrow> mset (rep_shadowed x)))
        + sum_list (map (\<lambda>r. mset (rep_shadowed r)) rs')"
    by (simp add: 3 split: option.splits)
  also have "\<dots> = mset (eligible_seqs (ls @ [e]))"
    using snoc.IH [OF 1] commit_mset [OF plan]
    by (simp add: st r eligible_seqs_snoc ac_simps)
  finally show ?case using inv gen by blast
qed

subsection \<open>Properties of the complete fold\<close>

lemma foldSurface_Inr:
  assumes "foldSurface es = Inr (ns, rs)"
  obtains st where "foldFrom es 0 0 es createFoldState = Inr (st, rs)" "nodes st = ns"
  using assms by (auto simp: foldSurface_def)

text \<open>
  C1: folding a log loses and duplicates nothing. Every message-producing
  event of the log is on the surface or was shadowed by a replacement, exactly one of the two and
  exactly once, and the surface never lists an event twice.
\<close>

theorem surface_fold_conserves:
  assumes "foldSurface es = Inr (ns, rs)"
  shows "mset ns + sum_list (map (\<lambda>r. mset (rep_shadowed r)) rs) = mset (eligible_seqs es)
    \<and> distinct ns"
proof -
  from assms obtain st where "foldFrom es 0 0 es createFoldState = Inr (st, rs)" "nodes st = ns"
    by (rule foldSurface_Inr)
  with fold_prefix [OF this(1)] show ?thesis by (simp add: surface_inv_def)
qed

definition demo_message :: "string \<Rightarrow> role \<Rightarrow> message_source \<Rightarrow> content_block list \<Rightarrow> message" where
  "demo_message i r s c = \<lparr>msg_id = i, msg_role = r, msg_content = c, msg_source = s\<rparr>"

definition append_event :: "int \<Rightarrow> event_data \<Rightarrow> event" where
  "append_event s d = (plain_event s 0 d)\<lparr>ev_surfaceOp := Some (JStr ''append'')\<rparr>"

definition replace_event :: "int \<Rightarrow> int \<Rightarrow> int \<Rightarrow> int list \<Rightarrow> event_data \<Rightarrow> event" where
  "replace_event s a b src d = (plain_event s 0 d)\<lparr>
     ev_surfaceOp := Some (JObj [(''op'', JStr ''replace''), (''start'', JInt a), (''end'', JInt b)]),
     ev_sourceEventSeqs := Some (JArr (map JInt src))\<rparr>"

definition demo_log :: "event list" where
  "demo_log =
     [plain_event 0 0 (TurnStart 1),
      append_event 1 (UserMessage (demo_message ''u1'' RoleUser SourceUser [TextBlock ''hi''])),
      append_event 2 (AssistantMessage 1 1
        (demo_message ''a1'' RoleAssistant (SourceModel ''p'' ''m'' None) [TextBlock ''yo'']) None),
      replace_event 3 1 2 [1, 2]
        (UserMessage (demo_message ''u2'' RoleUser (SourcePlugin ''c'' []) [TextBlock ''sum''])),
      append_event 4 (UserMessage (demo_message ''u3'' RoleUser SourceUser [TextBlock ''more'']))]"

lemma demo_fold:
  "foldSurface demo_log =
     Inr ([3, 4], [\<lparr>rep_seq = 3, rep_start = 1, rep_end = 2, rep_shadowed = [1, 2]\<rparr>])"
  by code_simp

theorem surface_fold_conserves_witness:
  "mset [3, 4] + sum_list (map (\<lambda>r. mset (rep_shadowed r))
      [\<lparr>rep_seq = 3, rep_start = 1, rep_end = 2, rep_shadowed = [1, 2]\<rparr>])
    = mset (eligible_seqs demo_log) \<and> distinct [3, 4::int]"
  by (rule surface_fold_conserves [OF demo_fold])

end
