(* ===== verification/Surface_Manager.thy ===== *)
theory Surface_Manager
  imports Surface_Facts
begin

text \<open>
  The incremental surface manager against the complete fold: whatever sequence of
  \<open>validateNext\<close> calls, log pushes and reads the session makes, what the manager reads is
  what \<open>foldSurface\<close> computes from the log, errors included. The operations stand behind an
  interface, \<open>incremental_view\<close>, that any cached projection of a growing log satisfies.
\<close>

subsection \<open>The interface of a cached view\<close>

text \<open>
  A cached view of a growing log: \<open>read\<close> brings the cache up to date and returns the view,
  \<open>push\<close> grows the log. The provider promises an invariant under which reading returns the
  reference projection of the log and changes nothing but the cache.
\<close>

locale incremental_view =
  fixes log_of :: "'m \<Rightarrow> 'e list"
    and push :: "'m \<Rightarrow> 'e \<Rightarrow> 'm"
    and read :: "'m \<Rightarrow> ('err, 'm \<times> 'v) result"
    and spec :: "'e list \<Rightarrow> ('err, 'v) result"
    and inv :: "'m \<Rightarrow> bool"
  assumes log_push: "log_of (push m e) = log_of m @ [e]"
    and inv_push: "inv m \<Longrightarrow> inv (push m e)"
    and read_spec: "inv m \<Longrightarrow> (case read m of Inl err \<Rightarrow> spec (log_of m) = Inl err
        | Inr (m', v) \<Rightarrow> spec (log_of m) = Inr v \<and> inv m' \<and> log_of m' = log_of m)"
begin

lemma read_value: "inv m \<Longrightarrow> res_map snd (read m) = spec (log_of m)"
  using read_spec [of m] by (auto split: sum.splits)

lemma read_again:
  "inv m \<Longrightarrow> read m = Inr (m', v) \<Longrightarrow> res_map snd (read m') = Inr v"
  using read_spec [of m] read_value [of m'] by simp

lemma log_foldl_push: "log_of (foldl push m es) = log_of m @ es"
  by (induction es arbitrary: m) (simp_all add: log_push)

lemma inv_foldl_push: "inv m \<Longrightarrow> inv (foldl push m es)"
  by (induction es arbitrary: m) (simp_all add: inv_push)

lemma read_after_pushes:
  "inv m \<Longrightarrow> res_map snd (read (foldl push m es)) = spec (log_of m @ es)"
  by (simp add: read_value inv_foldl_push log_foldl_push)

end

subsection \<open>The manager's invariant\<close>

definition fold_state :: "event list \<Rightarrow> (surface_error, surface_state) result" where
  "fold_state es = res_map fst (foldFrom es 0 0 es createFoldState)"

definition mgr_inv :: "surface_manager \<Rightarrow> bool" where
  "mgr_inv m =
     (let p = mgr_lastProcessedSeq m + 1 in
      mgr_baseSeq m = 0 \<and> 0 \<le> p \<and> p \<le> int (length (mgr_log m))
      \<and> (\<exists>rs. foldFrom (mgr_log m) 0 0 (take (nat p) (mgr_log m)) createFoldState
              = Inr (mgr_state m, rs))
      \<and> (case mgr_pending m of None \<Rightarrow> True
         | Some (pe, px, plan) \<Rightarrow> px = p
             \<and> planSurfaceEvent (mgr_state m) pe px (mgr_log m) 0 = Inr plan))"

lemma mgr_inv_new: "mgr_inv (newManager es 0)"
  by (simp add: mgr_inv_def newManager_def)

lemma fold_prefix_bound:
  assumes "foldFrom es 0 0 ls createFoldState = Inr (st, rs)"
  shows "\<forall>s \<in> set (nodes st). 0 \<le> s \<and> s < int (length ls)"
  using fold_prefix [OF assms] by (auto simp: surface_inv_def dest: eligible_at_less)

lemma bound_mono:
  "\<forall>s \<in> A. (0::int) \<le> s \<and> s < int n \<Longrightarrow> n \<le> k \<Longrightarrow> \<forall>s \<in> A. s - 0 < int k"
  by auto

lemma foldFrom_log_extend:
  assumes "length ls \<le> length es"
  shows "foldFrom (es @ xs) 0 0 ls createFoldState = foldFrom es 0 0 ls createFoldState"
  using assms
proof (induction ls rule: rev_induct)
  case Nil
  then show ?case by simp
next
  case (snoc e ls)
  then have IH: "foldFrom (es @ xs) 0 0 ls createFoldState = foldFrom es 0 0 ls createFoldState"
    by simp
  show ?case
  proof (cases "foldFrom es 0 0 ls createFoldState")
    case (Inr p)
    then obtain st rs where p: "foldFrom es 0 0 ls createFoldState = Inr (st, rs)" by (cases p) auto
    have "\<forall>s \<in> set (nodes st). s - 0 < int (length es)"
      using snoc.prems by (intro bound_mono [OF fold_prefix_bound [OF p]]) simp
    then have "applySurfaceEvent st e (int (length ls)) (es @ xs) 0
        = applySurfaceEvent st e (int (length ls)) es 0"
      by (rule apply_log_extend)
    then show ?thesis by (simp add: foldFrom_append IH p)
  qed (simp add: foldFrom_append IH)
qed

lemma mgr_inv_push: "mgr_inv m \<Longrightarrow> mgr_inv (pushLog m e)"
proof -
  assume inv: "mgr_inv m"
  let ?p = "nat (mgr_lastProcessedSeq m + 1)"
  from inv obtain rs where
    f: "foldFrom (mgr_log m) 0 0 (take ?p (mgr_log m)) createFoldState = Inr (mgr_state m, rs)"
    and le: "?p \<le> length (mgr_log m)"
    by (auto simp: mgr_inv_def Let_def)
  have "\<forall>s \<in> set (nodes (mgr_state m)). s - 0 < int (length (mgr_log m))"
    by (rule bound_mono [OF fold_prefix_bound [OF f]]) simp
  from plan_log_extend [OF this]
  have "planSurfaceEvent (mgr_state m) pe px (mgr_log m @ [e]) 0
      = planSurfaceEvent (mgr_state m) pe px (mgr_log m) 0" for pe px .
  moreover have "foldFrom (mgr_log m @ [e]) 0 0 (take ?p (mgr_log m @ [e])) createFoldState
      = Inr (mgr_state m, rs)"
    using f le by (simp add: foldFrom_log_extend)
  ultimately show ?thesis using inv
    by (auto simp: mgr_inv_def Let_def pushLog_def split: option.splits prod.splits)
qed

lemma fold_state_snoc:
  "fold_state (es @ [e]) = bindE (fold_state es) (\<lambda>st.
     res_map fst (applySurfaceEvent st e (int (length es)) es 0))"
proof (cases "foldFrom es 0 0 es createFoldState")
  case (Inl err)
  then show ?thesis by (simp add: fold_state_def foldFrom_append foldFrom_log_extend)
next
  case (Inr p)
  then obtain st rs where f: "foldFrom es 0 0 es createFoldState = Inr (st, rs)" by (cases p) auto
  have "\<forall>s \<in> set (nodes st). s - 0 < int (length es)"
    by (rule bound_mono [OF fold_prefix_bound [OF f]]) simp
  then have "applySurfaceEvent st e (int (length es)) (es @ [e]) 0
      = applySurfaceEvent st e (int (length es)) es 0"
    by (rule apply_log_extend)
  then show ?thesis
    by (cases "applySurfaceEvent st e (int (length es)) es 0")
      (auto simp: fold_state_def foldFrom_append foldFrom_log_extend f)
qed

lemma fold_state_plain:
  "\<not> isSurfaceEligible d \<Longrightarrow>
   fold_state (es @ [plain_event (int (length es)) t d]) = fold_state es"
  by (cases "fold_state es")
    (simp_all add: fold_state_snoc applySurfaceEvent_def planSurfaceEvent_def surfaceOpOf_def commitPlan_def)

lemma fold_state_seq:
  "fold_state es = Inr st \<Longrightarrow> es \<noteq> [] \<Longrightarrow> ev_seq (last es) + 1 = int (length es)"
  by (cases es rule: rev_cases)
    (auto simp: fold_state_snoc applySurfaceEvent_def dest: plan_seq)

text \<open>One step of the delta loop does what one step of the fold does.\<close>

lemma processOne_fold:
  assumes inv: "mgr_inv m" and more: "mgr_lastProcessedSeq m + 1 < int (length (mgr_log m))"
    and e: "e = mgr_log m ! nat (mgr_lastProcessedSeq m + 1)"
  shows "case processOne m e (mgr_lastProcessedSeq m + 1) of
      Inl err \<Rightarrow> applySurfaceEvent (mgr_state m) e (mgr_lastProcessedSeq m + 1) (mgr_log m) 0 = Inl err
    | Inr m' \<Rightarrow> mgr_inv m' \<and> mgr_log m' = mgr_log m
        \<and> mgr_lastProcessedSeq m' = mgr_lastProcessedSeq m + 1
        \<and> res_map fst (applySurfaceEvent (mgr_state m) e (mgr_lastProcessedSeq m + 1) (mgr_log m) 0)
            = Inr (mgr_state m')"
proof -
  define k where "k = mgr_lastProcessedSeq m + 1"
  from inv obtain rs where base: "mgr_baseSeq m = 0" and k0: "0 \<le> k"
    and f: "foldFrom (mgr_log m) 0 0 (take (nat k) (mgr_log m)) createFoldState
      = Inr (mgr_state m, rs)"
    by (auto simp: mgr_inv_def Let_def k_def)
  have pend: "px = k \<and> planSurfaceEvent (mgr_state m) pe px (mgr_log m) 0 = Inr plan"
    if "mgr_pending m = Some (pe, px, plan)" for pe px plan
    using inv that by (auto simp: mgr_inv_def Let_def k_def)
  have len: "nat k < length (mgr_log m)" using more k0 by (simp add: k_def)
  have idx: "int (length (take (nat k) (mgr_log m))) = k" using len k0 by simp
  have take: "take (nat (k + 1)) (mgr_log m) = take (nat k) (mgr_log m) @ [e]"
    using len k0 by (simp add: e k_def [symmetric] nat_add_distrib take_Suc_conv_app_nth)
  have step: "\<exists>rs. foldFrom (mgr_log m) 0 0 (take (nat (k + 1)) (mgr_log m)) createFoldState
        = Inr (st', rs)"
    if "applySurfaceEvent (mgr_state m) e k (mgr_log m) 0 = Inr (st', r)" for st' r
    unfolding take using that f idx by (simp add: foldFrom_append split: option.splits)
  have commit: "applySurfaceEvent (mgr_state m) e k (mgr_log m) 0
      = Inr (commitPlan (mgr_state m) plan, planReplacement plan)"
    if "mgr_pending m = Some (e, k, plan)" for plan
    using pend [OF that] by (simp add: applySurfaceEvent_def)
  define m' where "m' st = m\<lparr>mgr_state := st, mgr_pending := None, mgr_lastProcessedSeq := k\<rparr>" for st
  have one: "processOne m e k
      = bindE (applySurfaceEvent (mgr_state m) e k (mgr_log m) 0) (\<lambda>(st, _). Inr (m' st))"
  proof (cases "mgr_pending m")
    case None
    then show ?thesis by (simp add: processOne_def base m'_def)
  next
    case (Some q)
    obtain pe px plan where q: "q = (pe, px, plan)" by (cases q)
    with Some pend have "px = k" by blast
    with Some q commit [of plan] show ?thesis
      by (cases "pe = e") (simp_all add: processOne_def base m'_def)
  qed
  have inv': "mgr_inv (m' st')" if "applySurfaceEvent (mgr_state m) e k (mgr_log m) 0 = Inr (st', r)"
    for st' r
    using step [OF that] base k0 len by (auto simp: mgr_inv_def Let_def m'_def)
  show ?thesis
  proof (cases "applySurfaceEvent (mgr_state m) e k (mgr_log m) 0")
    case (Inl err)
    then show ?thesis by (simp add: one k_def [symmetric])
  next
    case (Inr q)
    then obtain st' r where q: "applySurfaceEvent (mgr_state m) e k (mgr_log m) 0 = Inr (st', r)"
      by (cases q) auto
    show ?thesis unfolding k_def [symmetric] one q
      using inv' [OF q] by (simp add: m'_def)
  qed
qed

lemma processList_fold:
  assumes "mgr_inv m"
    and "es = drop (nat (mgr_lastProcessedSeq m + 1)) (mgr_log m)"
  shows "case processList es m of
      Inl err \<Rightarrow> foldFrom (mgr_log m) 0 (mgr_lastProcessedSeq m + 1) es (mgr_state m) = Inl err
    | Inr m' \<Rightarrow> mgr_inv m' \<and> mgr_log m' = mgr_log m
        \<and> mgr_lastProcessedSeq m' + 1 = int (length (mgr_log m))
        \<and> res_map fst (foldFrom (mgr_log m) 0 (mgr_lastProcessedSeq m + 1) es (mgr_state m))
            = Inr (mgr_state m')"
  using assms
proof (induction es arbitrary: m)
  case Nil
  then show ?case by (auto simp: mgr_inv_def Let_def)
next
  case (Cons e es)
  let ?k = "mgr_lastProcessedSeq m + 1"
  from Cons.prems have k0: "0 \<le> ?k" and more: "?k < int (length (mgr_log m))"
    by (auto simp: mgr_inv_def Let_def intro: ccontr)
  have len: "nat ?k < length (mgr_log m)" using more k0 by linarith
  from Cons.prems(2) len have e: "e = mgr_log m ! nat ?k" and es: "es = drop (Suc (nat ?k)) (mgr_log m)"
    by (metis list.inject Cons_nth_drop_Suc)+
  note one = processOne_fold [OF Cons.prems(1) more e]
  show ?case
  proof (cases "processOne m e ?k")
    case (Inl err)
    with one show ?thesis by simp
  next
    case (Inr m')
    with one obtain r where inv': "mgr_inv m'" and log': "mgr_log m' = mgr_log m"
      and last': "mgr_lastProcessedSeq m' = ?k"
      and ap: "applySurfaceEvent (mgr_state m) e ?k (mgr_log m) 0 = Inr (mgr_state m', r)"
      by (cases "applySurfaceEvent (mgr_state m) e ?k (mgr_log m) 0") auto
    have "es = drop (nat (mgr_lastProcessedSeq m' + 1)) (mgr_log m')"
      using es log' last' Suc_nat_eq_nat_zadd1 [OF k0] by (simp add: add.commute)
    note rest = Cons.IH [OF inv' this, unfolded log' last']
    have "res_map fst (foldFrom (mgr_log m) 0 ?k (e # es) (mgr_state m))
        = res_map fst (foldFrom (mgr_log m) 0 (?k + 1) es (mgr_state m'))"
      by (cases "foldFrom (mgr_log m) 0 (?k + 1) es (mgr_state m')") (auto simp: ap)
    moreover have "foldFrom (mgr_log m) 0 (?k + 1) es (mgr_state m') = Inl err
        \<Longrightarrow> foldFrom (mgr_log m) 0 ?k (e # es) (mgr_state m) = Inl err" for err
      by (simp add: ap)
    moreover have "processList (e # es) m = processList es m'" using Inr by simp
    ultimately show ?thesis using rest log' by (auto split: sum.splits)
  qed
qed

lemma processDelta_fold:
  assumes inv: "mgr_inv m"
  shows "case processDelta m of
      Inl err \<Rightarrow> fold_state (mgr_log m) = Inl err
    | Inr m' \<Rightarrow> mgr_inv m' \<and> mgr_log m' = mgr_log m
        \<and> mgr_lastProcessedSeq m' + 1 = int (length (mgr_log m))
        \<and> fold_state (mgr_log m) = Inr (mgr_state m')"
proof -
  let ?k = "mgr_lastProcessedSeq m + 1"
  let ?d = "drop (nat ?k) (mgr_log m)"
  from inv obtain rs where base: "mgr_baseSeq m = 0" and k: "0 \<le> ?k" "?k \<le> int (length (mgr_log m))"
    and f: "foldFrom (mgr_log m) 0 0 (take (nat ?k) (mgr_log m)) createFoldState
      = Inr (mgr_state m, rs)"
    by (auto simp: mgr_inv_def Let_def)
  have "foldFrom (mgr_log m) 0 0 (take (nat ?k) (mgr_log m) @ ?d) createFoldState
      = bindE (foldFrom (mgr_log m) 0 ?k ?d (mgr_state m)) (\<lambda>(st, rs'). Inr (st, rs @ rs'))"
    using f k unfolding foldFrom_append by (simp add: min_def)
  then have split: "fold_state (mgr_log m)
      = res_map fst (foldFrom (mgr_log m) 0 ?k ?d (mgr_state m))"
    by (cases "foldFrom (mgr_log m) 0 ?k ?d (mgr_state m)") (auto simp: fold_state_def)
  have run: "processDelta m = processList ?d m"
    using k base by (simp add: processDelta_def tailSeq_def)
  from processList_fold [OF inv refl] show ?thesis
    unfolding run split by (auto split: sum.splits)
qed

lemma mgr_inv_validate:
  assumes inv: "mgr_inv m" and v: "validateNext m e = Inr m'"
  shows "mgr_inv m'" "mgr_log m' = mgr_log m"
proof -
  from v obtain m1 where d: "processDelta m = Inr m1"
    and rest: "bindE (planSurfaceEvent (mgr_state m1) e (mgr_baseSeq m1 + int (length (mgr_log m1)))
        (mgr_log m1) (mgr_baseSeq m1))
      (\<lambda>plan. Inr (m1\<lparr>mgr_pending := Some (e, mgr_baseSeq m1 + int (length (mgr_log m1)), plan)\<rparr>))
      = Inr m'"
    by (auto simp: validateNext_def Let_def)
  from processDelta_fold [OF inv] d have 1: "mgr_inv m1" "mgr_log m1 = mgr_log m"
    "mgr_lastProcessedSeq m1 + 1 = int (length (mgr_log m))" by simp_all
  with rest show "mgr_inv m'" "mgr_log m' = mgr_log m"
    by (auto simp: mgr_inv_def Let_def)
qed

interpretation surface_view: incremental_view
  mgr_log pushLog readSurface fold_state mgr_inv
proof unfold_locales
  fix m e
  show "mgr_log (pushLog m e) = mgr_log m @ [e]" by (simp add: pushLog_def)
  show "mgr_inv (pushLog m e)" if "mgr_inv m" using that by (rule mgr_inv_push)
  show "case readSurface m of Inl err \<Rightarrow> fold_state (mgr_log m) = Inl err
        | Inr (m', v) \<Rightarrow> fold_state (mgr_log m) = Inr v \<and> mgr_inv m' \<and> mgr_log m' = mgr_log m"
    if "mgr_inv m"
    using processDelta_fold [OF that] by (cases "processDelta m") (auto simp: readSurface_def)
qed

subsection \<open>Histories of the manager\<close>

text \<open>
  A history of calls on the shared log. A failing call leaves the caller with the error and
  the manager where a later call folds again from its last committed event.
\<close>

datatype mgr_call = CallValidate event | CallPush event | CallRead

definition keep_on_error :: "'a \<Rightarrow> ('e, 'a) result \<Rightarrow> 'a" where
  "keep_on_error old r = (case r of Inl _ \<Rightarrow> old | Inr x \<Rightarrow> x)"

fun mgr_call_step :: "surface_manager \<Rightarrow> mgr_call \<Rightarrow> surface_manager" where
  "mgr_call_step m (CallValidate e) = keep_on_error m (validateNext m e)"
| "mgr_call_step m (CallPush e) = pushLog m e"
| "mgr_call_step m CallRead = keep_on_error m (res_map fst (readSurface m))"

fun pushed :: "mgr_call list \<Rightarrow> event list" where
  "pushed [] = []"
| "pushed (CallPush e # cs) = e # pushed cs"
| "pushed (_ # cs) = pushed cs"

lemma mgr_call_step_inv: "mgr_inv m \<Longrightarrow> mgr_inv (mgr_call_step m c)"
  using surface_view.read_spec [of m]
  by (cases c) (auto simp: keep_on_error_def mgr_inv_push dest: mgr_inv_validate split: sum.splits)

lemma mgr_call_step_log: "mgr_inv m \<Longrightarrow> mgr_log (mgr_call_step m c) = mgr_log m @ pushed [c]"
  using surface_view.read_spec [of m]
  by (cases c) (auto simp: keep_on_error_def pushLog_def dest: mgr_inv_validate split: sum.splits)

lemma mgr_history:
  "mgr_inv m \<Longrightarrow> mgr_inv (foldl mgr_call_step m cs)
     \<and> mgr_log (foldl mgr_call_step m cs) = mgr_log m @ pushed cs"
proof (induction cs arbitrary: m)
  case Nil
  then show ?case by simp
next
  case (Cons c cs)
  have "pushed (c # cs) = pushed [c] @ pushed cs" by (cases c) simp_all
  then show ?case
    using Cons.IH [OF mgr_call_step_inv [OF Cons.prems]] mgr_call_step_log [OF Cons.prems, of c]
    by simp
qed

lemmas new_history = mgr_history [OF mgr_inv_new, of "[]"]


lemma validate_result:
  assumes inv: "mgr_inv m" and ok: "fold_state (mgr_log m) = Inr st"
  shows "res_map (\<lambda>_. ()) (validateNext m e) = res_map (\<lambda>_. ()) (fold_state (mgr_log m @ [e]))"
proof -
  let ?n = "int (length (mgr_log m))"
  from processDelta_fold [OF inv] ok obtain m1 where d: "processDelta m = Inr m1"
    and m1: "mgr_inv m1" "mgr_log m1 = mgr_log m" "mgr_state m1 = st"
    by (cases "processDelta m") auto
  from m1(1) have base: "mgr_baseSeq m1 = 0" by (simp add: mgr_inv_def Let_def)
  from ok obtain rs where f: "foldFrom (mgr_log m) 0 0 (mgr_log m) createFoldState = Inr (st, rs)"
    by (cases "foldFrom (mgr_log m) 0 0 (mgr_log m) createFoldState") (auto simp: fold_state_def)
  have "\<forall>s \<in> set (nodes st). s - 0 < int (length (mgr_log m))"
    using fold_prefix_bound [OF f] by simp
  note ext = plan_log_extend [OF this, of e ?n "[e]"]
  have v: "res_map (\<lambda>_. ()) (validateNext m e)
      = res_map (\<lambda>_. ()) (planSurfaceEvent st e ?n (mgr_log m) 0)"
    by (cases "planSurfaceEvent st e ?n (mgr_log m) 0")
      (simp_all add: validateNext_def d m1 base Let_def)
  have "res_map (\<lambda>_. ()) (fold_state (mgr_log m @ [e]))
      = res_map (\<lambda>_. ()) (planSurfaceEvent st e ?n (mgr_log m) 0)"
    using f ext
    by (cases "planSurfaceEvent st e ?n (mgr_log m) 0")
      (auto simp: fold_state_def foldFrom_append foldFrom_log_extend applySurfaceEvent_def)
  with v show ?thesis by simp
qed

text \<open>
  The append-boundary validation accepts exactly the events the
  complete fold accepts. On any history whose log folds, \<open>validateNext\<close> succeeds for a
  candidate if and only if the log extended by the candidate folds, and otherwise it rejects
  with the error the fold reports.
\<close>

theorem surface_accept_iff_fold:
  assumes "fold_state (pushed cs) = Inr st"
  shows "res_map (\<lambda>_. ()) (validateNext (foldl mgr_call_step (newManager [] 0) cs) e)
    = res_map (\<lambda>_. ()) (fold_state (pushed cs @ [e]))"
  using assms new_history [of cs] validate_result [of "foldl mgr_call_step (newManager [] 0) cs" st e]
  by (simp add: newManager_def)

theorem surface_accept_iff_fold_witness:
  "res_map (\<lambda>_. ()) (validateNext (foldl mgr_call_step (newManager [] 0) (map CallPush demo_log))
       (plain_event 1 0 (TurnStart 2)))
    = res_map (\<lambda>_. ()) (fold_state (demo_log @ [plain_event 1 0 (TurnStart 2)]))
   \<and> fold_state demo_log = Inr \<lparr>nodes = [3, 4], replaceGeneration = 1\<rparr>"
proof -
  have p: "pushed (map CallPush demo_log) = demo_log" by code_simp
  have f: "fold_state demo_log = Inr \<lparr>nodes = [3, 4], replaceGeneration = 1\<rparr>" by code_simp
  then have "fold_state (pushed (map CallPush demo_log)) = Inr \<lparr>nodes = [3, 4], replaceGeneration = 1\<rparr>"
    by (simp only: p)
  from surface_accept_iff_fold [OF this] p f show ?thesis by simp
qed

end
