(* ===== verification/Event_Json.thy ===== *)
theory Event_Json
  imports Session_Events
begin

text \<open>
  The run-time JSON shape of the typed values: what \<open>structuredClone\<close>, \<open>JSON.stringify\<close> and the
  seed validation see. Each encoder lists the properties of the source's interface under their
  own names (\<open>llm/llm/src/types.ts\<close>, \<open>llm/llm/src/message.ts\<close>, \<open>core/session/src/types.ts\<close>); an
  absent optional property is omitted.
\<close>

definition opt_field :: "string \<Rightarrow> ('a \<Rightarrow> json) \<Rightarrow> 'a option \<Rightarrow> (string \<times> json) list" where
  "opt_field k f v = (case v of None \<Rightarrow> [] | Some x \<Rightarrow> [(k, f x)])"

lemma opt_field_simps [simp]:
  "opt_field k f None = []"
  "opt_field k f (Some x) = [(k, f x)]"
  by (simp_all add: opt_field_def)

subsection \<open>Messages\<close>

primrec block_json :: "content_block \<Rightarrow> json" where
  "block_json (TextBlock t) = JObj [(''type'', JStr ''text''), (''text'', JStr t)]"
| "block_json (ReasoningBlock t) = JObj [(''type'', JStr ''reasoning''), (''text'', JStr t)]"
| "block_json (ImageBlock a) = JObj [(''type'', JStr ''image''), (''attachment'', a)]"
| "block_json (ToolCallBlock i n a) =
     JObj [(''type'', JStr ''tool-call''), (''id'', JStr i), (''name'', JStr n), (''arguments'', JStr a)]"
| "block_json (ToolResultBlock c bs err) =
     JObj ([(''type'', JStr ''tool-result''), (''toolCallId'', JStr c),
       (''content'', JArr (map block_json bs))] @ opt_field ''isError'' JBool err)"
| "block_json (OtherBlock t v) = JObj [(''type'', JStr t), (''value'', v)]"

fun source_json :: "message_source \<Rightarrow> json" where
  "source_json SourceUser = JObj [(''kind'', JStr ''user'')]"
| "source_json (SourcePlugin p rest) =
     JObj ([(''kind'', JStr ''plugin''), (''plugin'', JStr p)] @ rest)"
| "source_json (SourceModel p m replay) =
     JObj ([(''kind'', JStr ''model''), (''provider'', JStr p), (''model'', JStr m)]
       @ opt_field ''replayState'' id replay)"
| "source_json (SourceTool c) = JObj [(''kind'', JStr ''tool''), (''callId'', JStr c)]"
| "source_json (SourceGoal g r n) =
     JObj [(''kind'', JStr ''goal''), (''goalId'', g), (''revision'', JNum r), (''round'', JNum n)]"
| "source_json (SourceOther k v) = JObj [(''kind'', JStr k), (''value'', v)]"

fun role_name :: "role \<Rightarrow> string" where
  "role_name RoleSystem = ''system''"
| "role_name RoleUser = ''user''"
| "role_name RoleAssistant = ''assistant''"

definition message_json :: "message \<Rightarrow> json" where
  "message_json m = JObj [(''role'', JStr (role_name (msg_role m))),
     (''content'', JArr (map block_json (msg_content m))),
     (''source'', source_json (msg_source m)), (''id'', JStr (msg_id m))]"

subsection \<open>Stream values\<close>

definition failure_json :: "llm_failure \<Rightarrow> json" where
  "failure_json f = JObj ([(''message'', JStr (failure_message f)), (''code'', JStr (failure_code f))]
     @ opt_field ''status'' JInt (failure_status f)
     @ opt_field ''providerRetryAfterMs'' JNum (failure_retryAfterMs f)
     @ opt_field ''requestId'' JStr (failure_requestId f))"

fun finish_json :: "finish_reason \<Rightarrow> json" where
  "finish_json FinishStop = JObj [(''kind'', JStr ''stop'')]"
| "finish_json FinishToolCalls = JObj [(''kind'', JStr ''tool-calls'')]"
| "finish_json FinishMaxTokens = JObj [(''kind'', JStr ''max-tokens'')]"
| "finish_json (FinishAborted f) = JObj [(''kind'', JStr ''aborted''), (''failure'', failure_json f)]"
| "finish_json (FinishError f) = JObj [(''kind'', JStr ''error''), (''failure'', failure_json f)]"
| "finish_json (FinishOther k v) = JObj [(''kind'', JStr k), (''value'', v)]"

definition usage_json :: "token_usage \<Rightarrow> json" where
  "usage_json u = JObj ([(''inputTokens'', JInt (inputTokens u)), (''outputTokens'', JInt (outputTokens u))]
     @ opt_field ''cacheReadTokens'' JInt (cacheReadTokens u)
     @ opt_field ''cacheWriteTokens'' JInt (cacheWriteTokens u)
     @ opt_field ''reasoningTokens'' JInt (reasoningTokens u))"

fun chunk_json :: "stream_chunk \<Rightarrow> json" where
  "chunk_json (BlockStart i t) =
     JObj [(''type'', JStr ''block-start''), (''index'', JInt i), (''blockType'', JStr t)]"
| "chunk_json (TextDelta i t) =
     JObj [(''type'', JStr ''text-delta''), (''index'', JInt i), (''text'', JStr t)]"
| "chunk_json (ReasoningDelta i t) =
     JObj [(''type'', JStr ''reasoning-delta''), (''index'', JInt i), (''text'', JStr t)]"
| "chunk_json (ToolCallDelta i c n a) =
     JObj ([(''type'', JStr ''tool-call-delta''), (''index'', JInt i), (''id'', JStr c)]
       @ opt_field ''name'' JStr n @ [(''argumentsDelta'', JStr a)])"
| "chunk_json (BlockEnd i b) =
     JObj [(''type'', JStr ''block-end''), (''index'', JInt i), (''block'', block_json b)]"
| "chunk_json (UsageChunk u) = JObj [(''type'', JStr ''usage''), (''usage'', usage_json u)]"
| "chunk_json (FinishChunk r replay) =
     JObj ([(''type'', JStr ''finish''), (''reason'', finish_json r)] @ opt_field ''replayState'' id replay)"

subsection \<open>Request headers\<close>

definition config_json :: "call_config \<Rightarrow> json" where
  "config_json c = JObj ([(''provider'', JStr (cfg_provider c)), (''model'', JStr (cfg_model c))]
     @ opt_field ''reasoningEffort'' JStr (cfg_reasoningEffort c)
     @ opt_field ''temperature'' JNum (cfg_temperature c)
     @ opt_field ''maxTokens'' JNum (cfg_maxTokens c)
     @ opt_field ''stop'' (\<lambda>ss. JArr (map JStr ss)) (cfg_stop c))"

definition defaults_json :: "adapter_defaults \<Rightarrow> json" where
  "defaults_json d = JObj ((if def_reasoningEffort d then [(''reasoningEffort'', JBool True)] else [])
     @ (if def_maxTokens d then [(''maxTokens'', JBool True)] else []))"

definition schema_json :: "tool_schema \<Rightarrow> json" where
  "schema_json t = JObj [(''name'', JStr (schema_name t)),
     (''description'', JStr (schema_description t)), (''parameters'', schema_parameters t)]"

definition header_json :: "epoch_header \<Rightarrow> json" where
  "header_json h = JObj ([(''config'', config_json (hdr_config h))]
     @ opt_field ''adapterDefaults'' defaults_json (hdr_adapterDefaults h)
     @ opt_field ''system'' JStr (hdr_system h)
     @ opt_field ''tools'' (\<lambda>ts. JArr (map schema_json ts)) (hdr_tools h))"

fun reason_name :: "header_reason \<Rightarrow> string" where
  "reason_name ReasonInitial = ''initial''"
| "reason_name ReasonResume = ''resume''"
| "reason_name ReasonChange = ''change''"

definition context_json :: "request_context \<Rightarrow> json" where
  "context_json c = JObj ([(''provider'', JStr (ctx_provider c)), (''model'', JStr (ctx_model c))]
     @ opt_field ''contextWindow'' JNum (ctx_contextWindow c))"

subsection \<open>Event payloads\<close>

fun cause_json :: "cancel_cause \<Rightarrow> json" where
  "cause_json CancelUser = JObj [(''kind'', JStr ''user'')]"
| "cause_json CancelParent = JObj [(''kind'', JStr ''parent'')]"
| "cause_json (CancelHook r) = JObj [(''kind'', JStr ''hook''), (''reason'', JStr r)]"
| "cause_json CancelDisposed = JObj [(''kind'', JStr ''disposed'')]"
| "cause_json CancelLegacy = JObj [(''kind'', JStr ''legacy'')]"

fun turn_reason_json :: "turn_end_reason \<Rightarrow> json" where
  "turn_reason_json Completed = JObj [(''kind'', JStr ''completed'')]"
| "turn_reason_json (Aborted c) = JObj [(''kind'', JStr ''aborted''), (''reason'', cause_json c)]"
| "turn_reason_json Blocked = JObj [(''kind'', JStr ''blocked'')]"
| "turn_reason_json (TurnError f) = JObj [(''kind'', JStr ''error''), (''error'', failure_json f)]"
| "turn_reason_json MaxTokens = JObj [(''kind'', JStr ''max-tokens'')]"
| "turn_reason_json Interrupted = JObj [(''kind'', JStr ''interrupted'')]"
| "turn_reason_json (OtherReason k v) = JObj [(''kind'', JStr k), (''value'', v)]"

fun todo_status_name :: "todo_status \<Rightarrow> string" where
  "todo_status_name TodoPending = ''pending''"
| "todo_status_name TodoInProgress = ''in_progress''"
| "todo_status_name TodoCompleted = ''completed''"

fun target_name :: "inbox_target \<Rightarrow> string" where
  "target_name NextTurn = ''next-turn''"
| "target_name NextStep = ''next-step''"

definition splice_json :: "inbox_splice \<Rightarrow> json" where
  "splice_json s = JObj ([(''target'', JStr (target_name (sp_target s))), (''start'', JNum (sp_start s))]
     @ opt_field ''removedCount'' JNum (sp_removedCount s)
     @ [(''inserted'', JArr (map message_json (sp_inserted s)))]
     @ (if sp_canceled s then [(''outcome'', JStr ''canceled'')] else []))"

definition turn_step :: "int \<Rightarrow> int \<Rightarrow> (string \<times> json) list" where
  "turn_step t s = [(''turn'', JInt t), (''step'', JInt s)]"

definition range_json :: "int \<Rightarrow> int \<Rightarrow> json" where
  "range_json a b = JObj [(''start'', JInt a), (''end'', JInt b)]"

definition turn_owner_json :: "int option \<Rightarrow> json" where
  "turn_owner_json t = (case t of None \<Rightarrow> JNull | Some n \<Rightarrow> JInt n)"

definition life_fields :: "compaction_life \<Rightarrow> (string \<times> json) list" where
  "life_fields c = [(''compactionId'', JStr (cl_id c))]
     @ opt_field ''sourceCommandId'' JStr (cl_command c) @ [(''turn'', turn_owner_json (cl_turn c))]"

definition summary_json :: "compaction_summary \<Rightarrow> json" where
  "summary_json c = JObj ([(''compactionId'', JStr (cs_id c))]
     @ opt_field ''sourceCommandId'' JStr (cs_command c)
     @ [(''summary'', JArr (map block_json (cs_summary c)))]
     @ opt_field ''rawOutput'' (\<lambda>bs. JArr (map block_json bs)) (cs_rawOutput c)
     @ (if cs_llmStreamCall c then [(''llmStreamCall'', JBool True)] else [])
     @ [(''shadowedRange'', range_json (cs_start c) (cs_end c)),
        (''shadowedSeqs'', JArr (map JInt (cs_shadowed c))),
        (''shadowedTokenCount'', JNum (cs_tokens c)),
        (''provider'', JStr (cs_provider c)), (''model'', JStr (cs_model c))]
     @ opt_field ''maxTokens'' JNum (cs_maxTokens c)
     @ opt_field ''usage'' usage_json (cs_usage c))"

fun data_json :: "event_data \<Rightarrow> json" where
  "data_json (TurnStart t) = JObj [(''turn'', JInt t)]"
| "data_json (TurnEnd t r) = JObj [(''turn'', JInt t), (''reason'', turn_reason_json r)]"
| "data_json (StepStart t s) = JObj (turn_step t s)"
| "data_json (StepEnd t s) = JObj (turn_step t s)"
| "data_json (UserMessage m) = message_json m"
| "data_json (AssistantChunk t s c) = JObj (turn_step t s @ [(''chunk'', chunk_json c)])"
| "data_json (AssistantMessage t s m u) =
     JObj (turn_step t s @ [(''message'', message_json m)] @ opt_field ''usage'' usage_json u)"
| "data_json (ToolCall t s c n a) =
     JObj (turn_step t s @ [(''callId'', JStr c), (''name'', JStr n), (''arguments'', JStr a)])"
| "data_json (ToolResult t s m err meta) =
     JObj (turn_step t s @ [(''message'', message_json m)]
       @ opt_field ''error'' (\<lambda>(n, c). JObj [(''name'', JStr n), (''code'', JStr c)]) err
       @ opt_field ''meta'' id meta)"
| "data_json (TodoWrite ts) =
     JObj [(''todos'', JArr (map (\<lambda>t. JObj [(''content'', JStr (todo_content t)),
       (''status'', JStr (todo_status_name (todo_state t)))]) ts))]"
| "data_json (RequestHeader h r) =
     JObj [(''header'', header_json h), (''reason'', JStr (reason_name r))]"
| "data_json (RequestContext c) = context_json c"
| "data_json EndSeed = JObj []"
| "data_json (InboxSpliced s) = splice_json s"
| "data_json (GoalChange v) = v"
| "data_json (CompactionStart c) = JObj (life_fields c)"
| "data_json (CompactionSummary c) = summary_json c"
| "data_json (CompactionEnd c err) = JObj (life_fields c @ opt_field ''error'' JStr err)"
| "data_json (CompactionPrune a b seqs n) =
     JObj [(''shadowedRange'', range_json a b), (''shadowedSeqs'', JArr (map JInt seqs)),
       (''shadowedTokenCount'', JNum n)]"
| "data_json (OtherEvent t v) = v"

fun event_type :: "event_data \<Rightarrow> string" where
  "event_type (TurnStart _) = ''turn/start''"
| "event_type (TurnEnd _ _) = ''turn/end''"
| "event_type (StepStart _ _) = ''step/start''"
| "event_type (StepEnd _ _) = ''step/end''"
| "event_type (UserMessage _) = ''user/message''"
| "event_type (AssistantChunk _ _ _) = ''assistant/chunk''"
| "event_type (AssistantMessage _ _ _ _) = ''assistant/message''"
| "event_type (ToolCall _ _ _ _ _) = ''tool/call''"
| "event_type (ToolResult _ _ _ _ _) = ''tool/result''"
| "event_type (TodoWrite _) = ''todo/write''"
| "event_type (RequestHeader _ _) = ''request/header''"
| "event_type (RequestContext _) = ''request/context''"
| "event_type EndSeed = ''session/end-seed''"
| "event_type (InboxSpliced _) = ''agent/inbox/spliced''"
| "event_type (GoalChange _) = ''goal/change''"
| "event_type (CompactionStart _) = ''compaction/start''"
| "event_type (CompactionSummary _) = ''compaction/summary''"
| "event_type (CompactionEnd _ _) = ''compaction/end''"
| "event_type (CompactionPrune _ _ _ _) = ''compaction/prune''"
| "event_type (OtherEvent t _) = t"

definition event_json :: "event \<Rightarrow> json" where
  "event_json e = JObj ([(''type'', JStr (event_type (ev_data e))), (''seq'', JInt (ev_seq e)),
       (''time'', JInt (ev_time e)), (''data'', data_json (ev_data e))]
     @ opt_field ''sourceEventSeqs'' id (ev_sourceEventSeqs e)
     @ opt_field ''surfaceOp'' id (ev_surfaceOp e))"

subsection \<open>The text comparison of schemas\<close>

text \<open>
  The tree \<open>JSON.stringify\<close> prints: non-finite numbers print as \<open>null\<close> and negative zero as \<open>0\<close>.
  The printed text determines this tree, so two texts are equal when the trees are.
\<close>

primrec printed :: "json \<Rightarrow> json" where
  "printed JNull = JNull"
| "printed (JBool b) = JBool b"
| "printed (JNum n) = (if \<not> isFinite n then JNull else if n = NegZero then JInt 0 else JNum n)"
| "printed (JStr s) = JStr s"
| "printed (JArr xs) = JArr (map printed xs)"
| "printed (JObj kvs) = JObj (map (map_prod id printed) kvs)"

lemma printed_lossless: "isJsonValue v \<Longrightarrow> printed v = v"
proof (induction v)
  case (JNum n)
  then show ?case by (simp add: lossless_num_def)
next
  case (JArr xs)
  then show ?case by (simp add: map_idI)
next
  case (JObj kvs)
  then show ?case by (fastforce intro!: map_idI)
qed simp_all

end
