(* ===== verification/Request_Header.thy ===== *)
theory Request_Header
  imports Event_Json
begin

text \<open>
  Request headers (\<open>core/session/src/request-header.ts\<close>) and the configuration equality they
  rest on (\<open>callConfigEquals\<close> of \<open>llm/llm/src/call-config.ts\<close>).
\<close>

subsection \<open>Equality of configurations\<close>

definition opt_num_eq :: "jsnum option \<Rightarrow> jsnum option \<Rightarrow> bool" where
  "opt_num_eq a b =
     (case (a, b) of (None, None) \<Rightarrow> True | (Some x, Some y) \<Rightarrow> js_eq x y | _ \<Rightarrow> False)"

definition callConfigEquals :: "call_config \<Rightarrow> call_config \<Rightarrow> bool" where
  "callConfigEquals a b =
     (if cfg_provider a \<noteq> cfg_provider b \<or> cfg_model a \<noteq> cfg_model b
         \<or> cfg_reasoningEffort a \<noteq> cfg_reasoningEffort b
         \<or> \<not> opt_num_eq (cfg_temperature a) (cfg_temperature b)
         \<or> \<not> opt_num_eq (cfg_maxTokens a) (cfg_maxTokens b)
      then False
      else case (cfg_stop a, cfg_stop b) of
        (Some xs, Some ys) \<Rightarrow>
          length xs = length ys \<and> list_all (\<lambda>(x, y). x = y) (zip xs ys)
      | (x, y) \<Rightarrow> x = y)"

subsection \<open>Canonical headers\<close>

definition default_marks :: "adapter_defaults option \<Rightarrow> bool \<times> bool" where
  "default_marks d = (case d of None \<Rightarrow> (False, False)
     | Some x \<Rightarrow> (def_reasoningEffort x, def_maxTokens x))"

definition nonempty_opt :: "'a list option \<Rightarrow> 'a list option" where
  "nonempty_opt v = (case v of Some (x # xs) \<Rightarrow> Some (x # xs) | _ \<Rightarrow> None)"

definition canonicalHeader :: "epoch_header \<Rightarrow> epoch_header" where
  "canonicalHeader h =
     \<lparr>hdr_config = hdr_config h,
      hdr_adapterDefaults =
        (if fst (default_marks (hdr_adapterDefaults h)) \<or> snd (default_marks (hdr_adapterDefaults h))
         then hdr_adapterDefaults h else None),
      hdr_system = nonempty_opt (hdr_system h),
      hdr_tools = nonempty_opt (hdr_tools h)\<rparr>"

definition sameSchema :: "tool_schema \<Rightarrow> tool_schema \<Rightarrow> bool" where
  "sameSchema a b = (printed (schema_json a) = printed (schema_json b))"

definition tools_of :: "epoch_header \<Rightarrow> tool_schema list" where
  "tools_of h = (case hdr_tools h of None \<Rightarrow> [] | Some ts \<Rightarrow> ts)"

definition headerEquals :: "epoch_header \<Rightarrow> epoch_header \<Rightarrow> bool" where
  "headerEquals a b =
     (if \<not> callConfigEquals (hdr_config a) (hdr_config b)
         \<or> fst (default_marks (hdr_adapterDefaults a)) \<noteq> fst (default_marks (hdr_adapterDefaults b))
         \<or> snd (default_marks (hdr_adapterDefaults a)) \<noteq> snd (default_marks (hdr_adapterDefaults b))
         \<or> hdr_system a \<noteq> hdr_system b
      then False
      else length (tools_of a) = length (tools_of b)
        \<and> list_all (\<lambda>(x, y). sameSchema x y) (zip (tools_of a) (tools_of b)))"

primrec foldRequestHeader :: "event list \<Rightarrow> epoch_header option \<Rightarrow> epoch_header option" where
  "foldRequestHeader [] state = state"
| "foldRequestHeader (e # es) state =
     foldRequestHeader es
       (case ev_data e of RequestHeader h _ \<Rightarrow> Some (canonicalHeader h) | _ \<Rightarrow> state)"

subsection \<open>Facts\<close>

lemma foldRequestHeader_append:
  "foldRequestHeader (xs @ ys) s = foldRequestHeader ys (foldRequestHeader xs s)"
  by (induction xs arbitrary: s) simp_all

lemma nonempty_opt_idem [simp]: "nonempty_opt (nonempty_opt v) = nonempty_opt v"
  by (simp add: nonempty_opt_def split: option.splits list.splits)

lemma canonical_idem [simp]: "canonicalHeader (canonicalHeader h) = canonicalHeader h"
  by (simp add: canonicalHeader_def default_marks_def)

text \<open>
  Values a log can hold: the numbers of the configuration and the schemas' parameters are
  lossless JSON.
\<close>

definition num_lossless :: "jsnum option \<Rightarrow> bool" where
  "num_lossless v = (case v of None \<Rightarrow> True | Some n \<Rightarrow> lossless_num n)"

definition header_lossless :: "epoch_header \<Rightarrow> bool" where
  "header_lossless h =
     (num_lossless (cfg_temperature (hdr_config h)) \<and> num_lossless (cfg_maxTokens (hdr_config h))
      \<and> list_all (\<lambda>t. isJsonValue (schema_parameters t)) (tools_of h))"

lemma js_eq_lossless: "lossless_num a \<Longrightarrow> lossless_num b \<Longrightarrow> js_eq a b \<longleftrightarrow> a = b"
  by (cases a; cases b) (simp_all add: lossless_num_def)

lemma opt_num_eq_lossless: "num_lossless a \<Longrightarrow> num_lossless b \<Longrightarrow> opt_num_eq a b \<longleftrightarrow> a = b"
  by (auto simp: num_lossless_def opt_num_eq_def js_eq_lossless split: option.splits)

lemma list_all_zip_eq: "length xs = length ys \<Longrightarrow> list_all (\<lambda>(x, y). x = y) (zip xs ys) \<longleftrightarrow> xs = ys"
  by (induction xs ys rule: list_induct2) auto

lemma callConfigEquals_iff:
  assumes "num_lossless (cfg_temperature a)" "num_lossless (cfg_temperature b)"
    "num_lossless (cfg_maxTokens a)" "num_lossless (cfg_maxTokens b)"
  shows "callConfigEquals a b \<longleftrightarrow> a = b"
  using assms
  by (cases "cfg_stop a"; cases "cfg_stop b"; cases a; cases b)
    (auto simp: callConfigEquals_def opt_num_eq_lossless list_all_zip_eq)

lemma sameSchema_iff:
  "isJsonValue (schema_parameters a) \<Longrightarrow> isJsonValue (schema_parameters b)
    \<Longrightarrow> sameSchema a b \<longleftrightarrow> a = b"
  by (cases a; cases b) (auto simp: sameSchema_def schema_json_def printed_lossless)

lemma sameSchema_list:
  assumes "length xs = length ys" "list_all (\<lambda>t. isJsonValue (schema_parameters t)) xs"
    "list_all (\<lambda>t. isJsonValue (schema_parameters t)) ys"
  shows "list_all (\<lambda>(x, y). sameSchema x y) (zip xs ys) \<longleftrightarrow> xs = ys"
  using assms by (induction xs ys rule: list_induct2) (auto simp: sameSchema_iff)

lemma canonical_parts:
  assumes "canonicalHeader h = h"
  shows "hdr_tools h = (if tools_of h = [] then None else Some (tools_of h))"
    "hdr_adapterDefaults h = (if default_marks (hdr_adapterDefaults h) = (False, False) then None
       else hdr_adapterDefaults h)"
proof -
  from assms have "hdr_tools (canonicalHeader h) = hdr_tools h"
    and "hdr_adapterDefaults (canonicalHeader h) = hdr_adapterDefaults h" by simp_all
  then have t: "nonempty_opt (hdr_tools h) = hdr_tools h"
    and d: "(if fst (default_marks (hdr_adapterDefaults h)) \<or> snd (default_marks (hdr_adapterDefaults h))
        then hdr_adapterDefaults h else None) = hdr_adapterDefaults h"
    by (simp_all add: canonicalHeader_def)
  show "hdr_tools h = (if tools_of h = [] then None else Some (tools_of h))"
    using t by (cases "hdr_tools h"; cases "tools_of h") (auto simp: nonempty_opt_def tools_of_def)
  show "hdr_adapterDefaults h = (if default_marks (hdr_adapterDefaults h) = (False, False) then None
       else hdr_adapterDefaults h)"
    by (subst d [symmetric]) (simp add: prod_eq_iff)
qed

lemma default_marks_inj:
  "default_marks a = default_marks b \<Longrightarrow> default_marks b \<noteq> (False, False) \<Longrightarrow> a = b"
  by (cases a; cases b) (simp_all add: default_marks_def)

lemma headerEquals_canonical:
  assumes a: "canonicalHeader a = a" "header_lossless a"
    and b: "canonicalHeader b = b" "header_lossless b"
  shows "headerEquals a b \<longleftrightarrow> a = b"
proof
  assume eq: "headerEquals a b"
  then have c: "hdr_config a = hdr_config b" and s: "hdr_system a = hdr_system b"
    and m: "default_marks (hdr_adapterDefaults a) = default_marks (hdr_adapterDefaults b)"
    and len: "length (tools_of a) = length (tools_of b)"
    and all: "list_all (\<lambda>(x, y). sameSchema x y) (zip (tools_of a) (tools_of b))"
    using a(2) b(2)
    by (simp_all add: headerEquals_def header_lossless_def callConfigEquals_iff prod_eq_iff split: if_splits)
  have t: "tools_of a = tools_of b"
    using sameSchema_list [OF len] all a(2) b(2) by (simp add: header_lossless_def)
  have "hdr_tools a = hdr_tools b"
    using canonical_parts(1) [OF a(1)] canonical_parts(1) [OF b(1)] t by simp
  moreover have "hdr_adapterDefaults a = hdr_adapterDefaults b"
    using canonical_parts(2) [OF a(1)] canonical_parts(2) [OF b(1)] m
    by (cases "default_marks (hdr_adapterDefaults b) = (False, False)") (simp_all add: default_marks_inj)
  ultimately show "a = b" using c s by (cases a; cases b) simp
next
  assume "a = b"
  with b(2) show "headerEquals a b"
    by (auto simp: headerEquals_def header_lossless_def callConfigEquals_iff sameSchema_list)
qed

end
