(* ===== verification/Seed_Validation.thy ===== *)
theory Seed_Validation
  imports Event_Json Surface
begin

text \<open>
  The validation at the seed and storage boundary of \<open>core/session/src/index.ts\<close>: a session's
  creation header and the envelope of every event that enters through a seed, as run-time JSON.
  Only the checks' order and outcome are modelled; each message text is one error constructor.
\<close>

datatype session_error =
    HeaderNotRecord
  | HeaderBadVersion
  | HeaderIdMismatch
  | HeaderBadCreatedAt
  | HeaderCwdNotString
  | HeaderCwdNotAbsolute
  | HeaderBadParent
  | HeaderBadSeedLength
  | HeaderBadOrigin
  | HeaderBadDepth
  | HeaderBadPreset
  | HeaderNotJson
  | NotJson
  | MetadataNotJson
  | LegacyHeaderDelta
  | LegacyFallbackReason
  | InvalidEnvelope
  | LacksProviderModel
  | InvalidReasoningEffort
  | InvalidAdapterDefaults
  | LacksMessage
  | WrongRole
  | InvalidSource
  | InvalidContent
  | NotModelSource
  | NotToolSource
  | NotOneResultBlock
  | MismatchedCallIds
  | SeedNotContiguous
  | SurfaceRejected surface_error
  | AppendReentered
  | NotAnEvent

subsection \<open>Run-time type tests\<close>

fun is_object :: "json option \<Rightarrow> bool" where
  "is_object (Some (JObj _)) = True"
| "is_object (Some (JArr _)) = True"
| "is_object _ = False"

fun is_array :: "json option \<Rightarrow> bool" where
  "is_array (Some (JArr _)) = True"
| "is_array _ = False"

fun own_keys :: "json \<Rightarrow> string list" where
  "own_keys (JObj kvs) = map fst kvs"
| "own_keys (JArr xs) = map show_nat [0..<length xs]"
| "own_keys _ = []"

fun own_values :: "json \<Rightarrow> json list" where
  "own_values (JObj kvs) = map snd kvs"
| "own_values (JArr xs) = xs"
| "own_values _ = []"

fun elements :: "json option \<Rightarrow> json list" where
  "elements (Some (JArr xs)) = xs"
| "elements _ = []"

text \<open>\<open>record?.[key]\<close> of a value that may be absent.\<close>

definition sub :: "json option \<Rightarrow> string \<Rightarrow> json option" where
  "sub v k = (case v of None \<Rightarrow> None | Some j \<Rightarrow> field j k)"

definition nonempty_str :: "json option \<Rightarrow> bool" where
  "nonempty_str v = (is_str v \<and> get_str v \<noteq> [])"

definition natural_num :: "json option \<Rightarrow> bool" where
  "natural_num v = (is_safe_num v \<and> 0 \<le> num_to_int (get_num v))"

text \<open>\<open>path.isAbsolute\<close> of a POSIX host.\<close>

definition isAbsolute :: "string \<Rightarrow> bool" where
  "isAbsolute p = (case p of [] \<Rightarrow> False | c # _ \<Rightarrow> c = CHR ''/'')"

subsection \<open>Session headers\<close>

definition SESSION_FORMAT_VERSION :: int where
  "SESSION_FORMAT_VERSION = 0"

definition validateSessionHeader :: "string \<Rightarrow> json \<Rightarrow> (session_error, json) result" where
  "validateSessionHeader sid input =
     (if \<not> isRecord input then Inl HeaderNotRecord
      else if \<not> (is_num (field input ''version'')
          \<and> js_eq (get_num (field input ''version'')) (num_of_int SESSION_FORMAT_VERSION))
        then Inl HeaderBadVersion
      else if field input ''id'' \<noteq> Some (JStr sid) then Inl HeaderIdMismatch
      else if \<not> natural_num (field input ''createdAt'') then Inl HeaderBadCreatedAt
      else if field input ''cwd'' \<noteq> None \<and> \<not> is_str (field input ''cwd'') then Inl HeaderCwdNotString
      else if field input ''cwd'' \<noteq> None \<and> \<not> isAbsolute (get_str (field input ''cwd''))
        then Inl HeaderCwdNotAbsolute
      else if field input ''parentSession'' \<noteq> None \<and> \<not> is_str (field input ''parentSession'')
        then Inl HeaderBadParent
      else if field input ''seedLength'' \<noteq> None \<and> \<not> natural_num (field input ''seedLength'')
        then Inl HeaderBadSeedLength
      else if field input ''origin'' \<noteq> None \<and> field input ''origin'' \<noteq> Some (JStr ''subagent'')
        then Inl HeaderBadOrigin
      else if field input ''delegationDepth'' \<noteq> None \<and> \<not> natural_num (field input ''delegationDepth'')
        then Inl HeaderBadDepth
      else if field input ''agentPreset'' \<noteq> None \<and> \<not> is_str (field input ''agentPreset'')
        then Inl HeaderBadPreset
      else Inr input)"

text \<open>Plain JSON has the plain prototype, so restoring adds no case of its own.\<close>

definition validateRestoredSessionHeader :: "string \<Rightarrow> json \<Rightarrow> (session_error, json) result" where
  "validateRestoredSessionHeader sid input = validateSessionHeader sid input"

definition snapshotSessionHeader ::
  "string \<Rightarrow> json option \<Rightarrow> int \<Rightarrow> (session_error, json) result" where
  "snapshotSessionHeader sid source now =
     (let input = (case source of
        None \<Rightarrow> JObj [(''version'', JInt SESSION_FORMAT_VERSION), (''id'', JStr sid),
          (''createdAt'', JInt now)]
      | Some j \<Rightarrow> j)
      in if \<not> isJsonValue input then Inl HeaderNotJson else validateSessionHeader sid input)"

subsection \<open>Event envelopes\<close>

definition hasProviderModel :: "json option \<Rightarrow> bool" where
  "hasProviderModel v =
     (is_object v \<and> nonempty_str (sub v ''provider'') \<and> nonempty_str (sub v ''model''))"

definition assertAdapterDefaults :: "json option \<Rightarrow> json option \<Rightarrow> (session_error, unit) result" where
  "assertAdapterDefaults value config =
     (case value of
        None \<Rightarrow> Inr ()
      | Some defaults \<Rightarrow>
          if \<not> isRecord defaults then Inl InvalidAdapterDefaults
          else throw_if
            (list_ex (\<lambda>k. k \<notin> {''reasoningEffort'', ''maxTokens''}) (own_keys defaults)
             \<or> list_ex (\<lambda>m. m \<noteq> JBool True) (own_values defaults)
             \<or> (field defaults ''reasoningEffort'' = Some (JBool True) \<and> sub config ''reasoningEffort'' = None)
             \<or> (field defaults ''maxTokens'' = Some (JBool True) \<and> sub config ''maxTokens'' = None))
            InvalidAdapterDefaults)"

definition message_of_payload :: "string \<Rightarrow> json option \<Rightarrow> json option" where
  "message_of_payload type record = (if type = ''user/message'' then record else sub record ''message'')"

definition assertToolResultShape ::
  "json option \<Rightarrow> json option \<Rightarrow> (session_error, unit) result" where
  "assertToolResultShape source content =
     (if sub source ''kind'' \<noteq> Some (JStr ''tool'') \<or> \<not> nonempty_str (sub source ''callId'')
      then Inl NotToolSource
      else let block = (case elements content of [] \<Rightarrow> None | b # _ \<Rightarrow> Some b)
        in if length (elements content) \<noteq> 1 \<or> \<not> is_object block
             \<or> sub block ''type'' \<noteq> Some (JStr ''tool-result'') \<or> \<not> is_array (sub block ''content'')
           then Inl NotOneResultBlock
           else throw_if (sub block ''toolCallId'' \<noteq> sub source ''callId'') MismatchedCallIds)"

definition assertMessageEventShape :: "json \<Rightarrow> (session_error, unit) result" where
  "assertMessageEventShape event =
     (let type = get_str (field event ''type'') in
      if type \<noteq> ''user/message'' \<and> type \<noteq> ''assistant/message'' \<and> type \<noteq> ''tool/result''
      then Inr ()
      else let data = field event ''data'';
               record = (if is_object data then data else None);
               message = message_of_payload type record;
               source = sub message ''source''
        in if \<not> is_object message \<or> \<not> nonempty_str (sub message ''id'') then Inl LacksMessage
           else if sub message ''role''
               \<noteq> Some (JStr (if type = ''assistant/message'' then ''assistant'' else ''user''))
             then Inl WrongRole
           else if \<not> is_object source \<or> \<not> nonempty_str (sub source ''kind'') then Inl InvalidSource
           else if \<not> is_array (sub message ''content'') then Inl InvalidContent
           else if type = ''assistant/message''
             then throw_if (sub source ''kind'' \<noteq> Some (JStr ''model'') \<or> \<not> hasProviderModel source)
               NotModelSource
           else if type \<noteq> ''tool/result'' then Inr ()
           else assertToolResultShape source (sub message ''content''))"

definition assertRequestHeaderShape :: "json option \<Rightarrow> (session_error, unit) result" where
  "assertRequestHeaderShape record =
     (let header = sub record ''header'';
          headerRecord = (case header of Some (JObj kvs) \<Rightarrow> header | _ \<Rightarrow> None);
          config = sub headerRecord ''config'';
          effort = sub config ''reasoningEffort''
      in if \<not> hasProviderModel config then Inl LacksProviderModel
         else if effort \<noteq> None \<and> \<not> nonempty_str effort then Inl InvalidReasoningEffort
         else assertAdapterDefaults (sub headerRecord ''adapterDefaults'') config)"

definition assertCurrentLlmShape :: "json \<Rightarrow> (session_error, unit) result" where
  "assertCurrentLlmShape event =
     (let data = field event ''data'';
          record = (if is_object data then data else None)
      in bindE (if field event ''type'' = Some (JStr ''request/header'')
                then assertRequestHeaderShape record else Inr ())
         (\<lambda>_. assertMessageEventShape event))"

definition envelope_keys :: "string list" where
  "envelope_keys =
     [''type'', ''seq'', ''time'', ''data'', ''surfaceOp'', ''sourceEventSeqs'', ''ignorable'']"

definition assertSessionEventEnvelope :: "json \<Rightarrow> (session_error, unit) result" where
  "assertSessionEventEnvelope event =
     (if field event ''type'' = Some (JStr ''request/header-delta'') then Inl LegacyHeaderDelta
      else if list_ex (\<lambda>k. k \<notin> set envelope_keys) (own_keys event) then Inl InvalidEnvelope
      else if \<not> is_str (field event ''type'')
          \<or> \<not> natural_num (field event ''seq'')
          \<or> \<not> is_safe_num (field event ''time'')
          \<or> field event ''data'' = None
          \<or> (field event ''ignorable'' \<noteq> None \<and> field event ''ignorable'' \<noteq> Some (JBool True))
        then Inl InvalidEnvelope
      else if get_str (field event ''type'')
          \<in> {''request/header'', ''user/message'', ''assistant/message'', ''tool/result''}
        then assertCurrentLlmShape event
      else Inr ())"

definition assertSupportedRequestHeader :: "string \<Rightarrow> json \<Rightarrow> (session_error, unit) result" where
  "assertSupportedRequestHeader type data =
     (if type = ''request/header-delta'' then Inl LegacyHeaderDelta
      else throw_if (type = ''request/header'' \<and> isRecord data
          \<and> field data ''reason'' = Some (JStr ''fallback'')) LegacyFallbackReason)"

subsection \<open>Typed events pass\<close>

text \<open>
  What the event types of the source promise and the validation checks: identified messages of
  the role and source their event fixes, one result block that answers its own call, and
  adapter-default markers only for configured fields.
\<close>

definition header_typed :: "epoch_header \<Rightarrow> bool" where
  "header_typed h =
     (let c = hdr_config h; (e, t) = (case hdr_adapterDefaults h of None \<Rightarrow> (False, False)
          | Some d \<Rightarrow> (def_reasoningEffort d, def_maxTokens d))
      in cfg_provider c \<noteq> [] \<and> cfg_model c \<noteq> [] \<and> cfg_reasoningEffort c \<noteq> Some []
        \<and> (e \<longrightarrow> cfg_reasoningEffort c \<noteq> None) \<and> (t \<longrightarrow> cfg_maxTokens c \<noteq> None))"

fun source_kind :: "message_source \<Rightarrow> string" where
  "source_kind SourceUser = ''user''"
| "source_kind (SourcePlugin _ _) = ''plugin''"
| "source_kind (SourceModel _ _ _) = ''model''"
| "source_kind (SourceTool _) = ''tool''"
| "source_kind (SourceGoal _ _ _) = ''goal''"
| "source_kind (SourceOther k _) = k"

fun model_source :: "message_source \<Rightarrow> bool" where
  "model_source (SourceModel p m _) = (p \<noteq> [] \<and> m \<noteq> [])"
| "model_source _ = False"

fun answers_call :: "message_source \<Rightarrow> content_block list \<Rightarrow> bool" where
  "answers_call (SourceTool c) [ToolResultBlock c' _ _] = (c = c' \<and> c \<noteq> [])"
| "answers_call _ _ = False"

fun data_typed :: "event_data \<Rightarrow> bool" where
  "data_typed (UserMessage m) =
     (msg_id m \<noteq> [] \<and> msg_role m = RoleUser \<and> source_kind (msg_source m) \<noteq> [])"
| "data_typed (AssistantMessage _ _ m _) =
     (msg_id m \<noteq> [] \<and> msg_role m = RoleAssistant \<and> model_source (msg_source m))"
| "data_typed (ToolResult _ _ m _ _) =
     (msg_id m \<noteq> [] \<and> msg_role m = RoleUser \<and> answers_call (msg_source m) (msg_content m))"
| "data_typed (RequestHeader h _) = header_typed h"
| "data_typed (OtherEvent t _) =
     (t \<notin> {''request/header-delta'', ''request/header'', ''user/message'', ''assistant/message'',
        ''tool/result'', ''session/end-seed''})"
| "data_typed _ = True"

lemma event_json_fields [simp]:
  "field (event_json e) ''type'' = Some (JStr (event_type (ev_data e)))"
  "field (event_json e) ''seq'' = Some (JInt (ev_seq e))"
  "field (event_json e) ''time'' = Some (JInt (ev_time e))"
  "field (event_json e) ''data'' = Some (data_json (ev_data e))"
  "field (event_json e) ''ignorable'' = None"
  by (auto simp: event_json_def opt_field_def split: option.splits)

lemma event_json_keys: "set (own_keys (event_json e)) \<subseteq> set envelope_keys"
  by (auto simp: event_json_def opt_field_def envelope_keys_def split: option.splits)

lemma source_json_kind [simp]: "field (source_json s) ''kind'' = Some (JStr (source_kind s))"
  by (cases s) simp_all

lemma source_json_object [simp]: "is_object (Some (source_json s))"
  by (cases s) simp_all

lemma message_json_fields [simp]:
  "field (message_json m) ''id'' = Some (JStr (msg_id m))"
  "field (message_json m) ''role'' = Some (JStr (role_name (msg_role m)))"
  "field (message_json m) ''source'' = Some (source_json (msg_source m))"
  "field (message_json m) ''content'' = Some (JArr (map block_json (msg_content m)))"
  "is_object (Some (message_json m))"
  by (simp_all add: message_json_def)

lemma sub_Some [simp]: "sub (Some j) k = field j k" "sub None k = None"
  by (simp_all add: sub_def)

lemma user_shape:
  assumes "ev_data e = UserMessage m" "data_typed (ev_data e)"
  shows "assertMessageEventShape (event_json e) = Inr ()"
  using assms by (simp add: assertMessageEventShape_def message_of_payload_def nonempty_str_def)

lemma model_source_json:
  "model_source s \<Longrightarrow> hasProviderModel (Some (source_json s)) \<and> source_kind s = ''model''"
  by (cases s) (simp_all add: hasProviderModel_def nonempty_str_def opt_field_def split: option.splits)

lemma assistant_shape:
  assumes "ev_data e = AssistantMessage t s m u" "data_typed (ev_data e)"
  shows "assertMessageEventShape (event_json e) = Inr ()"
  using assms model_source_json [of "msg_source m"]
  by (simp add: assertMessageEventShape_def message_of_payload_def nonempty_str_def turn_step_def)

lemma answers_callE:
  assumes "answers_call s bs"
  obtains c bs' err where "s = SourceTool c" "bs = [ToolResultBlock c bs' err]" "c \<noteq> []"
  using assms by (elim answers_call.elims) auto

lemma result_shape:
  assumes "ev_data e = ToolResult t s m err meta" "data_typed (ev_data e)"
  shows "assertMessageEventShape (event_json e) = Inr ()"
proof -
  from assms have "answers_call (msg_source m) (msg_content m)" by simp
  then obtain c bs b where "msg_source m = SourceTool c" "msg_content m = [ToolResultBlock c bs b]" "c \<noteq> []"
    by (rule answers_callE)
  with assms show ?thesis
    by (simp add: assertMessageEventShape_def assertToolResultShape_def message_of_payload_def
        nonempty_str_def turn_step_def)
qed

lemma header_json_fields:
  "field (header_json h) ''config'' = Some (config_json (hdr_config h))"
  "field (header_json h) ''adapterDefaults'' = map_option defaults_json (hdr_adapterDefaults h)"
  "isRecord (header_json h)"
  by (auto simp: header_json_def opt_field_def split: option.splits)

lemma config_json_fields:
  "field (config_json c) ''provider'' = Some (JStr (cfg_provider c))"
  "field (config_json c) ''model'' = Some (JStr (cfg_model c))"
  "field (config_json c) ''reasoningEffort'' = map_option JStr (cfg_reasoningEffort c)"
  "field (config_json c) ''maxTokens'' = map_option JNum (cfg_maxTokens c)"
  "is_object (Some (config_json c))"
  by (auto simp: config_json_def opt_field_def split: option.splits)

lemma defaults_shape:
  assumes "header_typed h"
  shows "assertAdapterDefaults (map_option defaults_json (hdr_adapterDefaults h))
    (Some (config_json (hdr_config h))) = Inr ()"
  using assms
  by (cases "hdr_adapterDefaults h")
    (auto simp: header_typed_def Let_def assertAdapterDefaults_def defaults_json_def config_json_fields
      split: if_splits)

lemma header_shape:
  assumes "header_typed h"
  shows "assertRequestHeaderShape (Some (JObj [(''header'', header_json h), (''reason'', r)])) = Inr ()"
proof -
  obtain kvs where kvs: "header_json h = JObj kvs" by (simp add: header_json_def)
  note f = header_json_fields [of h, unfolded kvs]
  show ?thesis
    using assms defaults_shape [OF assms]
    by (cases "cfg_reasoningEffort (hdr_config h)")
      (simp_all add: assertRequestHeaderShape_def kvs f [simplified] config_json_fields
        hasProviderModel_def nonempty_str_def header_typed_def Let_def)
qed

lemma typed_envelope:
  assumes t: "data_typed (ev_data e)" and s: "0 \<le> ev_seq e" "safe_int (ev_seq e)" "safe_int (ev_time e)"
  shows "assertSessionEventEnvelope (event_json e) = Inr ()"
proof -
  have shape: "assertMessageEventShape (event_json e) = Inr ()"
  proof (cases "ev_data e")
    case (UserMessage m)
    then show ?thesis using t by (rule user_shape)
  next
    case (AssistantMessage a b m u)
    then show ?thesis using t by (rule assistant_shape)
  next
    case (ToolResult a b m err meta)
    then show ?thesis using t by (rule result_shape)
  qed (use t in \<open>simp_all add: assertMessageEventShape_def\<close>)
  have llm: "assertCurrentLlmShape (event_json e) = Inr ()"
  proof (cases "event_type (ev_data e) = ''request/header''")
    case True
    then obtain h r where "ev_data e = RequestHeader h r"
      using t by (cases "ev_data e") simp_all
    then show ?thesis using t shape
      by (simp add: assertCurrentLlmShape_def header_shape)
  qed (simp add: assertCurrentLlmShape_def shape)
  have "\<not> list_ex (\<lambda>k. k \<notin> set envelope_keys) (own_keys (event_json e))"
    using event_json_keys [of e] by (auto simp: list_ex_iff)
  moreover have "event_type (ev_data e) \<noteq> ''request/header-delta''"
    using t by (cases "ev_data e") simp_all
  ultimately show ?thesis using s llm
    by (simp add: assertSessionEventEnvelope_def natural_num_def)
qed

lemma typed_supported:
  assumes "data_typed d"
  shows "assertSupportedRequestHeader (event_type d) (data_json d) = Inr ()"
proof -
  have r: "reason_name r \<noteq> ''fallback''" for r by (cases r) simp_all
  show ?thesis using assms r by (cases d) (simp_all add: assertSupportedRequestHeader_def)
qed

end
