(* ===== verification/Session_Log.thy ===== *)
theory Session_Log
  imports Surface_Manager Request_Header Seed_Validation
begin

text \<open>
  The \<open>Session\<close> class of \<open>core/session/src/index.ts\<close>: an append-only event log that validates
  every event before it enters, and three cached projections of the log (the request header, the
  request context and the derived message history) next to its surface. Publication to observers
  belongs to the store.
\<close>

subsection \<open>State\<close>

record session =
  ses_header :: json
  ses_mgr :: surface_manager
  ses_firstLiveSeq :: nat
  ses_eventsSnapshot :: "event list option"
  ses_headerFold :: "epoch_header option"
  ses_headerFoldSeq :: nat
  ses_contextFold :: "request_context option"
  ses_contextFoldSeq :: nat
  ses_derived :: "message list"
  ses_derivedNodes :: nat
  ses_derivedGeneration :: nat

text \<open>The log array the session shares with its surface manager.\<close>

definition ses_log :: "session \<Rightarrow> event list" where
  "ses_log s = mgr_log (ses_mgr s)"

definition ses_id :: "session \<Rightarrow> string" where
  "ses_id s = get_str (field (ses_header s) ''id'')"

definition surface_res :: "(surface_error, 'a) result \<Rightarrow> (session_error, 'a) result" where
  "surface_res r = (case r of Inl e \<Rightarrow> Inl (SurfaceRejected e) | Inr x \<Rightarrow> Inr x)"

subsection \<open>Append\<close>

definition metadata_json :: "json option \<Rightarrow> json option \<Rightarrow> json" where
  "metadata_json op srcs = JObj (opt_field ''sourceEventSeqs'' id srcs @ opt_field ''surfaceOp'' id op)"

definition next_event ::
  "session \<Rightarrow> int \<Rightarrow> event_data \<Rightarrow> json option \<Rightarrow> json option \<Rightarrow> event" where
  "next_event s now d op srcs =
     \<lparr>ev_seq = int (length (ses_log s)), ev_time = now, ev_data = d, ev_surfaceOp = op,
      ev_sourceEventSeqs = srcs\<rparr>"

text \<open>
  The part of \<open>append\<close> before the log changes; \<open>appending\<close> is the reentrancy flag of the store
  entry, false for a detached session.
\<close>

definition acceptAppend ::
  "session \<Rightarrow> bool \<Rightarrow> int \<Rightarrow> event_data \<Rightarrow> json option \<Rightarrow> json option
     \<Rightarrow> (session_error, session \<times> event) result" where
  "acceptAppend s appending now d op srcs =
     bindE (throw_if (\<not> isJsonValue (data_json d)) NotJson) (\<lambda>_.
     bindE (assertSupportedRequestHeader (event_type d) (data_json d)) (\<lambda>_.
     bindE (throw_if (\<not> isJsonValue (metadata_json op srcs)) MetadataNotJson) (\<lambda>_.
     bindE (throw_if appending AppendReentered) (\<lambda>_.
     let event = next_event s now d op srcs in
     bindE (surface_res (validateNext (ses_mgr s) event)) (\<lambda>m.
       Inr (s\<lparr>ses_mgr := m\<rparr>, event))))))"

definition commitAppend :: "session \<Rightarrow> event \<Rightarrow> session" where
  "commitAppend s e = s\<lparr>ses_mgr := pushLog (ses_mgr s) e, ses_eventsSnapshot := None\<rparr>"

definition append_detached ::
  "session \<Rightarrow> int \<Rightarrow> event_data \<Rightarrow> json option \<Rightarrow> json option
     \<Rightarrow> (session_error, session \<times> event) result" where
  "append_detached s now d op srcs =
     bindE (acceptAppend s False now d op srcs) (\<lambda>(s', e). Inr (commitAppend s' e, e))"

subsection \<open>Construction\<close>

datatype seed_mode = SnapshotSeed | RestoreSeed

text \<open>The seed loop of the constructor, at the index of the next event.\<close>

primrec seedFrom ::
  "seed_mode \<Rightarrow> nat \<Rightarrow> event list \<Rightarrow> surface_manager \<Rightarrow> (session_error, surface_manager) result" where
  "seedFrom mode i [] m = Inr m"
| "seedFrom mode i (e # es) m =
     bindE (throw_if (mode = SnapshotSeed \<and> \<not> isJsonValue (event_json e)) NotJson) (\<lambda>_.
     bindE (assertSessionEventEnvelope (event_json e)) (\<lambda>_.
     bindE (assertSupportedRequestHeader (event_type (ev_data e)) (data_json (ev_data e))) (\<lambda>_.
     bindE (throw_if (ev_seq e \<noteq> int i) SeedNotContiguous) (\<lambda>_.
     bindE (surface_res (validateNext m e)) (\<lambda>m'.
       seedFrom mode (Suc i) es (pushLog m' e))))))"

definition fresh_session :: "json \<Rightarrow> surface_manager \<Rightarrow> session" where
  "fresh_session hdr m =
     \<lparr>ses_header = hdr, ses_mgr = m, ses_firstLiveSeq = length (mgr_log m),
      ses_eventsSnapshot = None, ses_headerFold = None, ses_headerFoldSeq = 0,
      ses_contextFold = None, ses_contextFoldSeq = 0, ses_derived = [], ses_derivedNodes = 0,
      ses_derivedGeneration = 0\<rparr>"

definition restoredHeader ::
  "seed_mode \<Rightarrow> string \<Rightarrow> json option \<Rightarrow> (session_error, json option) result" where
  "restoredHeader mode sid header =
     (if mode = RestoreSeed
      then (case header of None \<Rightarrow> Inl HeaderNotRecord
            | Some h \<Rightarrow> res_map Some (validateRestoredSessionHeader sid h))
      else Inr None)"

definition markSeed :: "event list option \<Rightarrow> int \<Rightarrow> session \<Rightarrow> (session_error, session) result" where
  "markSeed seed now s =
     (if seed \<noteq> None \<and> (ses_log s = [] \<or> ev_data (last (ses_log s)) \<noteq> EndSeed)
      then res_map fst (append_detached s now EndSeed None None) else Inr s)"

definition newSession ::
  "seed_mode \<Rightarrow> string \<Rightarrow> event list option \<Rightarrow> json option \<Rightarrow> int
     \<Rightarrow> (session_error, session) result" where
  "newSession mode sid seed header now =
     bindE (restoredHeader mode sid header) (\<lambda>restored.
     bindE (case seed of None \<Rightarrow> Inr (newManager [] 0)
            | Some es \<Rightarrow> seedFrom mode 0 es (newManager [] 0)) (\<lambda>m.
     bindE (case restored of Some h \<Rightarrow> Inr h | None \<Rightarrow> snapshotSessionHeader sid header now) (\<lambda>h.
       markSeed seed now (fresh_session h m))))"

subsection \<open>Cached projections\<close>

definition events :: "session \<Rightarrow> session \<times> event list" where
  "events s = (case ses_eventsSnapshot s of
      Some es \<Rightarrow> (s, es)
    | None \<Rightarrow> (s\<lparr>ses_eventsSnapshot := Some (ses_log s)\<rparr>, ses_log s))"

definition requestHeader :: "session \<Rightarrow> session \<times> epoch_header option" where
  "requestHeader s =
     (let s' = (if ses_headerFoldSeq s < length (ses_log s)
        then s\<lparr>ses_headerFold := foldRequestHeader (drop (ses_headerFoldSeq s) (ses_log s)) (ses_headerFold s),
               ses_headerFoldSeq := length (ses_log s)\<rparr>
        else s)
      in (s', ses_headerFold s'))"

primrec foldRequestContext :: "event list \<Rightarrow> request_context option \<Rightarrow> request_context option" where
  "foldRequestContext [] c = c"
| "foldRequestContext (e # es) c =
     foldRequestContext es (case ev_data e of RequestContext x \<Rightarrow> Some x | _ \<Rightarrow> c)"

definition requestContext :: "session \<Rightarrow> session \<times> request_context option" where
  "requestContext s =
     (let s' = (if ses_contextFoldSeq s < length (ses_log s)
        then s\<lparr>ses_contextFold := foldRequestContext (drop (ses_contextFoldSeq s) (ses_log s)) (ses_contextFold s),
               ses_contextFoldSeq := length (ses_log s)\<rparr>
        else s)
      in (s', ses_contextFold s'))"

text \<open>Projecting a list of nodes; a seq that is no event of the log would throw.\<close>

primrec projectNodes :: "event list \<Rightarrow> int list \<Rightarrow> (session_error, message list) result" where
  "projectNodes es [] = Inr []"
| "projectNodes es (n # ns) =
     (case event_at es n of
        None \<Rightarrow> Inl NotAnEvent
      | Some e \<Rightarrow> res_map (\<lambda>ms. case deriveEventMessage (ev_data e) of None \<Rightarrow> ms | Some m \<Rightarrow> m # ms)
          (projectNodes es ns))"

definition resetDerived :: "nat \<Rightarrow> session \<Rightarrow> session" where
  "resetDerived generation s =
     (if generation \<noteq> ses_derivedGeneration s
      then s\<lparr>ses_derived := [], ses_derivedNodes := 0, ses_derivedGeneration := generation\<rparr> else s)"

definition deriveMessages :: "session \<Rightarrow> (session_error, session \<times> message list) result" where
  "deriveMessages s =
     bindE (surface_res (readSurface (ses_mgr s))) (\<lambda>(m, st).
       let s1 = resetDerived (replaceGeneration st) (s\<lparr>ses_mgr := m\<rparr>) in
       bindE (projectNodes (ses_log s1) (drop (ses_derivedNodes s1) (nodes st))) (\<lambda>ms.
         Inr (s1\<lparr>ses_derived := ses_derived s1 @ ms, ses_derivedNodes := length (nodes st)\<rparr>,
              ses_derived s1 @ ms)))"

text \<open>The history a complete fold of the log derives: what the cache has to agree with.\<close>

definition derivedHistory :: "event list \<Rightarrow> (session_error, message list) result" where
  "derivedHistory es = bindE (surface_res (fold_state es)) (\<lambda>st. projectNodes es (nodes st))"

subsection \<open>Facts of the folds\<close>

lemma surface_res_simps [simp]:
  "surface_res (Inl e) = Inl (SurfaceRejected e)" "surface_res (Inr x) = Inr x"
  by (simp_all add: surface_res_def)

lemma surface_res_eq_Inr [simp]: "surface_res r = Inr x \<longleftrightarrow> r = Inr x"
  by (cases r) simp_all

lemma foldRequestContext_append:
  "foldRequestContext (xs @ ys) c = foldRequestContext ys (foldRequestContext xs c)"
  by (induction xs arbitrary: c) simp_all

lemma projectNodes_append:
  "projectNodes es (xs @ ys) = bindE (projectNodes es xs) (\<lambda>a. res_map (\<lambda>b. a @ b) (projectNodes es ys))"
proof (induction xs)
  case Nil
  then show ?case by (cases "projectNodes es ys") simp_all
next
  case (Cons x xs)
  show ?case
  proof (cases "event_at es x")
    case (Some e)
    with Cons.IH show ?thesis
      by (cases "projectNodes es xs"; cases "projectNodes es ys") (auto split: option.splits)
  qed simp
qed

lemma projectNodes_log_extend:
  "\<forall>n \<in> set ns. 0 \<le> n \<and> n < int (length es) \<Longrightarrow> projectNodes (es @ xs) ns = projectNodes es ns"
proof (induction ns)
  case (Cons n ns)
  then have "event_at (es @ xs) n = event_at es n"
    by (simp add: event_at_def nth_append nat_less_iff)
  with Cons show ?case by (simp split: option.split)
qed simp

lemma projectNodes_ok:
  "\<forall>n \<in> set ns. 0 \<le> n \<and> n < int (length es) \<Longrightarrow> \<exists>ms. projectNodes es ns = Inr ms"
  by (induction ns) (auto simp: event_at_def nat_less_iff)

lemma fold_state_bound:
  "fold_state es = Inr st \<Longrightarrow> \<forall>n \<in> set (nodes st). 0 \<le> n \<and> n < int (length es)"
  by (auto simp: fold_state_def dest: fold_prefix_bound)

lemma derivedHistory_ok: "fold_state es = Inr st \<Longrightarrow> \<exists>ms. derivedHistory es = Inr ms"
  by (simp add: derivedHistory_def projectNodes_ok fold_state_bound)

text \<open>What one more event does to the surface: it keeps the nodes as a prefix or counts a rewrite.\<close>

lemma commit_prefix:
  "replaceGeneration (commitPlan st plan) = replaceGeneration st
     \<and> (\<exists>ys. nodes (commitPlan st plan) = nodes st @ ys)
   \<or> replaceGeneration (commitPlan st plan) = Suc (replaceGeneration st)"
  by (auto simp: commitPlan_def split: option.splits surface_plan.splits)

lemma fold_state_snoc_cases:
  assumes "fold_state (es @ [e]) = Inr st'"
  obtains st where "fold_state es = Inr st"
    "replaceGeneration st' = replaceGeneration st \<and> (\<exists>ys. nodes st' = nodes st @ ys)
      \<or> replaceGeneration st' = Suc (replaceGeneration st)"
proof -
  from assms obtain st r where st: "fold_state es = Inr st"
    and ap: "applySurfaceEvent st e (int (length es)) es 0 = Inr (st', r)"
    by (auto simp: fold_state_snoc)
  from ap obtain plan where "st' = commitPlan st plan"
    by (auto simp: applySurfaceEvent_def)
  with that [OF st] commit_prefix [of st plan] show thesis by simp
qed

subsection \<open>The three caches as views\<close>

definition header_inv :: "session \<Rightarrow> bool" where
  "header_inv s = (ses_headerFoldSeq s \<le> length (ses_log s)
     \<and> ses_headerFold s = foldRequestHeader (take (ses_headerFoldSeq s) (ses_log s)) None)"

definition context_inv :: "session \<Rightarrow> bool" where
  "context_inv s = (ses_contextFoldSeq s \<le> length (ses_log s)
     \<and> ses_contextFold s = foldRequestContext (take (ses_contextFoldSeq s) (ses_log s)) None)"

definition derived_inv :: "session \<Rightarrow> bool" where
  "derived_inv s = (mgr_inv (ses_mgr s) \<and> (\<forall>st. fold_state (ses_log s) = Inr st \<longrightarrow>
     ses_derivedGeneration s \<le> replaceGeneration st
     \<and> (ses_derivedGeneration s = replaceGeneration st \<longrightarrow> ses_derivedNodes s \<le> length (nodes st)
        \<and> projectNodes (ses_log s) (take (ses_derivedNodes s) (nodes st)) = Inr (ses_derived s))))"

lemma commit_log [simp]: "ses_log (commitAppend s e) = ses_log s @ [e]"
  by (simp add: ses_log_def commitAppend_def pushLog_def)

lemma commit_fields [simp]:
  "ses_headerFold (commitAppend s e) = ses_headerFold s"
  "ses_headerFoldSeq (commitAppend s e) = ses_headerFoldSeq s"
  "ses_contextFold (commitAppend s e) = ses_contextFold s"
  "ses_contextFoldSeq (commitAppend s e) = ses_contextFoldSeq s"
  "ses_derived (commitAppend s e) = ses_derived s"
  "ses_derivedNodes (commitAppend s e) = ses_derivedNodes s"
  "ses_derivedGeneration (commitAppend s e) = ses_derivedGeneration s"
  "ses_eventsSnapshot (commitAppend s e) = None"
  "ses_mgr (commitAppend s e) = pushLog (ses_mgr s) e"
  by (simp_all add: commitAppend_def)

interpretation header_view: incremental_view
  ses_log commitAppend "\<lambda>s. Inr (requestHeader s)" "\<lambda>es. Inr (foldRequestHeader es None)" header_inv
proof unfold_locales
  show "ses_log (commitAppend s e) = ses_log s @ [e]" for s e by simp
  show "header_inv s \<Longrightarrow> header_inv (commitAppend s e)" for s e
    by (simp add: header_inv_def)
  fix s assume inv: "header_inv s"
  have "foldRequestHeader (ses_log s) None
      = foldRequestHeader (drop (ses_headerFoldSeq s) (ses_log s)) (ses_headerFold s)"
    using inv foldRequestHeader_append [of "take (ses_headerFoldSeq s) (ses_log s)"
      "drop (ses_headerFoldSeq s) (ses_log s)" None]
    by (simp add: header_inv_def)
  note ref = this
  have log: "ses_log (fst (requestHeader s)) = ses_log s"
    by (simp add: requestHeader_def ses_log_def Let_def)
  have "snd (requestHeader s) = foldRequestHeader (ses_log s) None \<and> header_inv (fst (requestHeader s))"
  proof (cases "ses_headerFoldSeq s < length (ses_log s)")
    case True
    then show ?thesis
      by (simp add: requestHeader_def header_inv_def ses_log_def ref [unfolded ses_log_def])
  next
    case False
    then have "requestHeader s = (s, ses_headerFold s)" "ses_headerFoldSeq s = length (ses_log s)"
      using inv by (simp_all add: requestHeader_def header_inv_def)
    then show ?thesis using inv by (simp add: header_inv_def)
  qed
  with log show "case Inr (requestHeader s) of Inl err \<Rightarrow> Inr (foldRequestHeader (ses_log s) None) = Inl err
      | Inr (m', v) \<Rightarrow> Inr (foldRequestHeader (ses_log s) None) = Inr v \<and> header_inv m' \<and> ses_log m' = ses_log s"
    by (cases "requestHeader s") simp
qed

interpretation context_view: incremental_view
  ses_log commitAppend "\<lambda>s. Inr (requestContext s)" "\<lambda>es. Inr (foldRequestContext es None)" context_inv
proof unfold_locales
  show "ses_log (commitAppend s e) = ses_log s @ [e]" for s e by simp
  show "context_inv s \<Longrightarrow> context_inv (commitAppend s e)" for s e
    by (simp add: context_inv_def)
  fix s assume inv: "context_inv s"
  have "foldRequestContext (ses_log s) None
      = foldRequestContext (drop (ses_contextFoldSeq s) (ses_log s)) (ses_contextFold s)"
    using inv foldRequestContext_append [of "take (ses_contextFoldSeq s) (ses_log s)"
      "drop (ses_contextFoldSeq s) (ses_log s)" None]
    by (simp add: context_inv_def)
  note ref = this
  have log: "ses_log (fst (requestContext s)) = ses_log s"
    by (simp add: requestContext_def ses_log_def Let_def)
  have "snd (requestContext s) = foldRequestContext (ses_log s) None \<and> context_inv (fst (requestContext s))"
  proof (cases "ses_contextFoldSeq s < length (ses_log s)")
    case True
    then show ?thesis
      by (simp add: requestContext_def context_inv_def ses_log_def ref [unfolded ses_log_def])
  next
    case False
    then have "requestContext s = (s, ses_contextFold s)" "ses_contextFoldSeq s = length (ses_log s)"
      using inv by (simp_all add: requestContext_def context_inv_def)
    then show ?thesis using inv by (simp add: context_inv_def)
  qed
  with log show "case Inr (requestContext s) of Inl err \<Rightarrow> Inr (foldRequestContext (ses_log s) None) = Inl err
      | Inr (m', v) \<Rightarrow> Inr (foldRequestContext (ses_log s) None) = Inr v \<and> context_inv m' \<and> ses_log m' = ses_log s"
    by (cases "requestContext s") simp
qed

lemma derived_inv_commit: "derived_inv s \<Longrightarrow> derived_inv (commitAppend s e)"
proof -
  assume inv: "derived_inv s"
  have "ses_derivedGeneration s \<le> replaceGeneration st'
     \<and> (ses_derivedGeneration s = replaceGeneration st' \<longrightarrow> ses_derivedNodes s \<le> length (nodes st')
        \<and> projectNodes (ses_log s @ [e]) (take (ses_derivedNodes s) (nodes st')) = Inr (ses_derived s))"
    if f: "fold_state (ses_log s @ [e]) = Inr st'" for st'
  proof -
    from f obtain st where st: "fold_state (ses_log s) = Inr st"
      and c: "replaceGeneration st' = replaceGeneration st \<and> (\<exists>ys. nodes st' = nodes st @ ys)
        \<or> replaceGeneration st' = Suc (replaceGeneration st)"
      by (rule fold_state_snoc_cases)
    have ext: "projectNodes (ses_log s @ [e]) (take k (nodes st)) = projectNodes (ses_log s) (take k (nodes st))" for k
      using fold_state_bound [OF st] by (intro projectNodes_log_extend) (auto dest: in_set_takeD)
    show ?thesis using inv st c ext by (auto simp: derived_inv_def)
  qed
  then show ?thesis using inv by (simp add: derived_inv_def mgr_inv_push)
qed

lemma derive_spec:
  assumes inv: "derived_inv s"
  shows "case deriveMessages s of Inl err \<Rightarrow> derivedHistory (ses_log s) = Inl err
    | Inr (s', v) \<Rightarrow> derivedHistory (ses_log s) = Inr v \<and> derived_inv s' \<and> ses_log s' = ses_log s"
proof -
  have mi: "mgr_inv (ses_mgr s)" using inv by (simp add: derived_inv_def)
  show ?thesis
  proof (cases "readSurface (ses_mgr s)")
    case (Inl err)
    with surface_view.read_spec [OF mi] show ?thesis
      by (simp add: deriveMessages_def derivedHistory_def ses_log_def)
  next
    case (Inr p)
    obtain m st where p: "p = (m, st)" by (cases p)
    with Inr surface_view.read_spec [OF mi]
    have st: "fold_state (ses_log s) = Inr st" and m: "mgr_inv m" "mgr_log m = ses_log s"
      by (simp_all add: ses_log_def)
    define s1 where "s1 = resetDerived (replaceGeneration st) (s\<lparr>ses_mgr := m\<rparr>)"
    have log1: "ses_log s1 = ses_log s" and gen1: "ses_derivedGeneration s1 = replaceGeneration st"
      and mgr1: "ses_mgr s1 = m"
      by (simp_all add: s1_def resetDerived_def ses_log_def m(2) [unfolded ses_log_def])
    have pre: "ses_derivedNodes s1 \<le> length (nodes st)"
      "projectNodes (ses_log s) (take (ses_derivedNodes s1) (nodes st)) = Inr (ses_derived s1)"
      using inv st by (auto simp: s1_def resetDerived_def derived_inv_def)
    obtain ms where ms: "projectNodes (ses_log s) (drop (ses_derivedNodes s1) (nodes st)) = Inr ms"
      using projectNodes_ok [of "drop (ses_derivedNodes s1) (nodes st)" "ses_log s"] fold_state_bound [OF st]
      by (auto dest: in_set_dropD)
    have all: "projectNodes (ses_log s) (nodes st) = Inr (ses_derived s1 @ ms)"
      using projectNodes_append [of "ses_log s" "take (ses_derivedNodes s1) (nodes st)"
          "drop (ses_derivedNodes s1) (nodes st)"] pre ms by simp
    let ?s2 = "s1\<lparr>ses_derived := ses_derived s1 @ ms, ses_derivedNodes := length (nodes st)\<rparr>"
    have run: "deriveMessages s = Inr (?s2, ses_derived s1 @ ms)"
      using ms by (simp add: deriveMessages_def Inr p Let_def s1_def [symmetric] log1)
    have log2: "ses_log ?s2 = ses_log s" using log1 by (simp add: ses_log_def)
    have "derived_inv ?s2" unfolding derived_inv_def log2
      using st m all by (simp add: gen1 mgr1)
    then show ?thesis using st all log2 by (simp add: run derivedHistory_def)
  qed
qed

interpretation derived_view: incremental_view
  ses_log commitAppend deriveMessages derivedHistory derived_inv
  by unfold_locales (simp_all add: derived_inv_commit derive_spec)

end
