(* ===== verification/Session_Facts.thy ===== *)
theory Session_Facts
  imports Session_Log
begin

text \<open>
  The session class over whole histories: what append accepts, what the cached getters return
  after any sequence of calls, and that a session's own log is a valid seed.
\<close>

subsection \<open>Accepted logs\<close>

definition session_inv :: "session \<Rightarrow> bool" where
  "session_inv s =
     (header_inv s \<and> context_inv s \<and> derived_inv s \<and> is_ok (fold_state (ses_log s))
      \<and> (ses_eventsSnapshot s = None \<or> ses_eventsSnapshot s = Some (ses_log s)))"

lemma session_invD:
  assumes "session_inv s"
  shows "header_inv s" "context_inv s" "derived_inv s" "mgr_inv (ses_mgr s)"
    "\<exists>st. fold_state (mgr_log (ses_mgr s)) = Inr st"
  using assms by (simp_all add: session_inv_def derived_inv_def is_ok_iff ses_log_def)

lemma validate_accepts:
  assumes inv: "mgr_inv m" and st: "fold_state (mgr_log m) = Inr st"
  shows "is_ok (validateNext m e) \<longleftrightarrow> is_ok (fold_state (mgr_log m @ [e]))"
  using validate_result [OF inv st, of e]
  by (cases "validateNext m e"; cases "fold_state (mgr_log m @ [e])") simp_all

lemma metadata_isJson:
  "isJsonValue (metadata_json op srcs)
    \<longleftrightarrow> (\<forall>v. op = Some v \<longrightarrow> isJsonValue v) \<and> (\<forall>v. srcs = Some v \<longrightarrow> isJsonValue v)"
  by (auto simp: metadata_json_def opt_field_def split: option.splits)

lemma event_isJson:
  "isJsonValue (event_json e) \<longleftrightarrow> isJsonValue (data_json (ev_data e))
     \<and> isJsonValue (metadata_json (ev_surfaceOp e) (ev_sourceEventSeqs e))"
  by (auto simp: event_json_def metadata_json_def opt_field_def lossless_num_def split: option.splits)

text \<open>The checks of the append boundary, as one condition.\<close>

definition append_allowed :: "session \<Rightarrow> int \<Rightarrow> event_data \<Rightarrow> json option \<Rightarrow> json option \<Rightarrow> bool" where
  "append_allowed s now d op srcs =
     (isJsonValue (data_json d) \<and> is_ok (assertSupportedRequestHeader (event_type d) (data_json d))
      \<and> isJsonValue (metadata_json op srcs)
      \<and> is_ok (fold_state (ses_log s @ [next_event s now d op srcs])))"

lemma acceptAppend_cases:
  assumes inv: "session_inv s"
  shows "acceptAppend s False now d op srcs = Inr (s', e) \<Longrightarrow>
      append_allowed s now d op srcs \<and> e = next_event s now d op srcs
      \<and> (\<exists>m. s' = s\<lparr>ses_mgr := m\<rparr> \<and> mgr_inv m \<and> mgr_log m = ses_log s)"
    and "append_allowed s now d op srcs \<Longrightarrow> \<exists>r. acceptAppend s False now d op srcs = Inr r"
proof -
  from session_invD [OF inv] obtain st where st: "fold_state (mgr_log (ses_mgr s)) = Inr st"
    and mi: "mgr_inv (ses_mgr s)" by blast
  note acc = validate_accepts [OF mi st]
  {
    assume "acceptAppend s False now d op srcs = Inr (s', e)"
    then obtain m where j: "isJsonValue (data_json d)"
      "assertSupportedRequestHeader (event_type d) (data_json d) = Inr ()"
      "isJsonValue (metadata_json op srcs)"
      and v: "validateNext (ses_mgr s) (next_event s now d op srcs) = Inr m"
      and r: "s' = s\<lparr>ses_mgr := m\<rparr>" "e = next_event s now d op srcs"
      by (auto simp: acceptAppend_def Let_def)
    from v acc [of "next_event s now d op srcs"] have "is_ok (fold_state (ses_log s @ [next_event s now d op srcs]))"
      by (simp add: ses_log_def)
    with j r mgr_inv_validate [OF mi v] show "append_allowed s now d op srcs \<and> e = next_event s now d op srcs
        \<and> (\<exists>m. s' = s\<lparr>ses_mgr := m\<rparr> \<and> mgr_inv m \<and> mgr_log m = ses_log s)"
      by (auto simp: append_allowed_def ses_log_def)
  }
  assume "append_allowed s now d op srcs"
  then show "\<exists>r. acceptAppend s False now d op srcs = Inr r"
    using acc [of "next_event s now d op srcs"]
    by (cases "validateNext (ses_mgr s) (next_event s now d op srcs)";
        cases "assertSupportedRequestHeader (event_type d) (data_json d)")
      (auto simp: append_allowed_def acceptAppend_def Let_def ses_log_def)
qed

lemma session_inv_mgr:
  "session_inv s \<Longrightarrow> mgr_inv m \<Longrightarrow> mgr_log m = ses_log s \<Longrightarrow> session_inv (s\<lparr>ses_mgr := m\<rparr>)"
  by (simp add: session_inv_def header_inv_def context_inv_def derived_inv_def ses_log_def)

lemma session_inv_commit:
  assumes "session_inv s" "is_ok (fold_state (ses_log s @ [e]))"
  shows "session_inv (commitAppend s e)"
  using assms header_view.inv_push [of s e] context_view.inv_push [of s e] derived_view.inv_push [of s e]
  by (simp add: session_inv_def)

lemma append_inv:
  assumes inv: "session_inv s" and a: "append_detached s now d op srcs = Inr (s', e)"
  shows "session_inv s' \<and> ses_log s' = ses_log s @ [e] \<and> e = next_event s now d op srcs
    \<and> append_allowed s now d op srcs \<and> ses_header s' = ses_header s
    \<and> ses_firstLiveSeq s' = ses_firstLiveSeq s"
proof -
  from a obtain s1 where a1: "acceptAppend s False now d op srcs = Inr (s1, e)"
    and s': "s' = commitAppend s1 e"
    by (auto simp: append_detached_def)
  from acceptAppend_cases(1) [OF inv a1] obtain m where m: "s1 = s\<lparr>ses_mgr := m\<rparr>" "mgr_inv m" "mgr_log m = ses_log s"
    and ok: "append_allowed s now d op srcs" "e = next_event s now d op srcs" by blast
  have log: "ses_log s1 = ses_log s" using m by (simp add: ses_log_def)
  have "session_inv s'"
    unfolding s' using session_inv_commit [OF session_inv_mgr [OF inv m(2,3)]] ok m(1) log
    by (simp add: append_allowed_def)
  then show ?thesis using ok log m(1) by (simp add: s' commitAppend_def ses_log_def pushLog_def)
qed

subsection \<open>Histories\<close>

datatype session_call =
    CallAppend int event_data "json option" "json option"
  | CallEvents
  | CallRequestHeader
  | CallRequestContext
  | CallDeriveMessages

text \<open>One call on the session; a throwing append leaves the session as it was.\<close>

fun session_step :: "session \<Rightarrow> session_call \<Rightarrow> session" where
  "session_step s (CallAppend now d op srcs) = keep_on_error s (res_map fst (append_detached s now d op srcs))"
| "session_step s CallEvents = fst (events s)"
| "session_step s CallRequestHeader = fst (requestHeader s)"
| "session_step s CallRequestContext = fst (requestContext s)"
| "session_step s CallDeriveMessages = keep_on_error s (res_map fst (deriveMessages s))"

lemma requestHeader_fields:
  "ses_mgr (fst (requestHeader s)) = ses_mgr s"
  "ses_contextFold (fst (requestHeader s)) = ses_contextFold s"
  "ses_contextFoldSeq (fst (requestHeader s)) = ses_contextFoldSeq s"
  "ses_derived (fst (requestHeader s)) = ses_derived s"
  "ses_derivedNodes (fst (requestHeader s)) = ses_derivedNodes s"
  "ses_derivedGeneration (fst (requestHeader s)) = ses_derivedGeneration s"
  "ses_eventsSnapshot (fst (requestHeader s)) = ses_eventsSnapshot s"
  by (simp_all add: requestHeader_def Let_def)

lemma requestContext_fields:
  "ses_mgr (fst (requestContext s)) = ses_mgr s"
  "ses_headerFold (fst (requestContext s)) = ses_headerFold s"
  "ses_headerFoldSeq (fst (requestContext s)) = ses_headerFoldSeq s"
  "ses_derived (fst (requestContext s)) = ses_derived s"
  "ses_derivedNodes (fst (requestContext s)) = ses_derivedNodes s"
  "ses_derivedGeneration (fst (requestContext s)) = ses_derivedGeneration s"
  "ses_eventsSnapshot (fst (requestContext s)) = ses_eventsSnapshot s"
  by (simp_all add: requestContext_def Let_def)

lemma requestHeader_others:
  "context_inv (fst (requestHeader s)) = context_inv s"
  "derived_inv (fst (requestHeader s)) = derived_inv s"
  "ses_log (fst (requestHeader s)) = ses_log s"
  by (simp_all add: context_inv_def derived_inv_def ses_log_def requestHeader_fields)

lemma requestContext_others:
  "header_inv (fst (requestContext s)) = header_inv s"
  "derived_inv (fst (requestContext s)) = derived_inv s"
  "ses_log (fst (requestContext s)) = ses_log s"
  by (simp_all add: header_inv_def derived_inv_def ses_log_def requestContext_fields)

lemma requestHeader_inv:
  assumes inv: "session_inv s" shows "session_inv (fst (requestHeader s))"
proof -
  have "header_inv (fst (requestHeader s))"
    using header_view.read_spec [of s] session_invD(1) [OF inv] by (simp add: case_prod_unfold)
  then show ?thesis using inv
    by (simp add: session_inv_def requestHeader_others requestHeader_fields(7))
qed

lemma requestContext_inv:
  assumes inv: "session_inv s" shows "session_inv (fst (requestContext s))"
proof -
  have "context_inv (fst (requestContext s))"
    using context_view.read_spec [of s] session_invD(2) [OF inv] by (simp add: case_prod_unfold)
  then show ?thesis using inv
    by (simp add: session_inv_def requestContext_others requestContext_fields(7))
qed

lemma resetDerived_fields:
  "ses_headerFold (resetDerived g s) = ses_headerFold s"
  "ses_headerFoldSeq (resetDerived g s) = ses_headerFoldSeq s"
  "ses_contextFold (resetDerived g s) = ses_contextFold s"
  "ses_contextFoldSeq (resetDerived g s) = ses_contextFoldSeq s"
  "ses_eventsSnapshot (resetDerived g s) = ses_eventsSnapshot s"
  by (simp_all add: resetDerived_def)

lemma deriveMessages_state:
  assumes "deriveMessages s = Inr (s', ms)"
  obtains g m ds n where "s' = (resetDerived g (s\<lparr>ses_mgr := m\<rparr>))\<lparr>ses_derived := ds, ses_derivedNodes := n\<rparr>"
  using assms by (cases "readSurface (ses_mgr s)") (auto simp: deriveMessages_def Let_def)

lemma deriveMessages_inv: "session_inv s \<Longrightarrow> deriveMessages s = Inr (s', ms) \<Longrightarrow> session_inv s'"
proof -
  assume inv: "session_inv s" and d: "deriveMessages s = Inr (s', ms)"
  from derived_view.read_spec [of s] inv d have v: "derived_inv s'" "ses_log s' = ses_log s"
    by (simp_all add: session_inv_def)
  from d have "ses_headerFold s' = ses_headerFold s" "ses_headerFoldSeq s' = ses_headerFoldSeq s"
    "ses_contextFold s' = ses_contextFold s" "ses_contextFoldSeq s' = ses_contextFoldSeq s"
    "ses_eventsSnapshot s' = ses_eventsSnapshot s"
    by (elim deriveMessages_state; simp add: resetDerived_fields)+
  then have "header_inv s' = header_inv s" "context_inv s' = context_inv s"
    "ses_eventsSnapshot s' = ses_eventsSnapshot s"
    by (simp_all only: header_inv_def context_inv_def v(2))
  then show ?thesis using v inv by (simp add: session_inv_def)
qed

lemma events_inv: "session_inv s \<Longrightarrow> session_inv (fst (events s))"
  by (auto simp: session_inv_def events_def header_inv_def context_inv_def derived_inv_def ses_log_def
      split: option.splits)

lemma session_step_inv: "session_inv s \<Longrightarrow> session_inv (session_step s c)"
proof (cases c)
  case (CallAppend now d op srcs)
  assume "session_inv s"
  then show ?thesis
    by (auto simp: CallAppend keep_on_error_def dest: append_inv split: sum.splits)
qed (auto simp: keep_on_error_def events_inv requestHeader_inv requestContext_inv
    dest: deriveMessages_inv split: sum.splits)

lemma session_run_inv: "session_inv s \<Longrightarrow> session_inv (foldl session_step s cs)"
  by (induction cs arbitrary: s) (simp_all add: session_step_inv)

subsection \<open>Construction\<close>

lemma fresh_inv:
  assumes "mgr_inv m" "is_ok (fold_state (mgr_log m))"
  shows "session_inv (fresh_session hdr m)"
  using assms by (simp add: session_inv_def fresh_session_def header_inv_def context_inv_def
      derived_inv_def ses_log_def)

lemma fold_state_Nil [simp]: "fold_state [] = Inr createFoldState"
  by (simp add: fold_state_def)

lemma seedFrom_inv:
  assumes "mgr_inv m" "is_ok (fold_state (mgr_log m))" "seedFrom mode i es m = Inr m'"
  shows "mgr_inv m' \<and> is_ok (fold_state (mgr_log m')) \<and> mgr_log m' = mgr_log m @ es
    \<and> (mode = SnapshotSeed \<longrightarrow> (\<forall>e \<in> set es. isJsonValue (event_json e)))"
  using assms
proof (induction es arbitrary: i m)
  case Nil
  then show ?case by simp
next
  case (Cons e es)
  from Cons.prems(3) obtain m1 where v: "validateNext m e = Inr m1"
    and rest: "seedFrom mode (Suc i) es (pushLog m1 e) = Inr m'"
    and j: "mode = SnapshotSeed \<longrightarrow> isJsonValue (event_json e)"
    by auto
  from Cons.prems(2) obtain st where st: "fold_state (mgr_log m) = Inr st" by (auto simp: is_ok_iff)
  note m1 = mgr_inv_validate [OF Cons.prems(1) v]
  have "is_ok (fold_state (mgr_log m @ [e]))"
    using validate_accepts [OF Cons.prems(1) st, of e] v by simp
  then have "is_ok (fold_state (mgr_log (pushLog m1 e)))" by (simp add: pushLog_def m1)
  from Cons.IH [OF mgr_inv_push [OF m1(1)] this rest] j show ?case
    by (auto simp: pushLog_def m1)
qed

lemma mark_inv:
  assumes "session_inv s" "markSeed seed now s = Inr s'"
  shows "session_inv s' \<and> ses_firstLiveSeq s' = ses_firstLiveSeq s \<and> ses_header s' = ses_header s
    \<and> (ses_log s' = ses_log s \<or> ses_log s' = ses_log s @ [next_event s now EndSeed None None])"
  using assms by (auto simp: markSeed_def split: if_splits dest: append_inv)

lemma newSession_inv:
  assumes "newSession mode sid seed header now = Inr s"
  shows "session_inv s"
    and "mode = SnapshotSeed \<Longrightarrow> \<forall>e \<in> set (ses_log s). isJsonValue (event_json e)"
proof -
  from assms obtain m h where m: "(case seed of None \<Rightarrow> Inr (newManager [] 0)
      | Some es \<Rightarrow> seedFrom mode 0 es (newManager [] 0)) = Inr m"
    and s: "markSeed seed now (fresh_session h m) = Inr s"
    by (auto simp: newSession_def)
  have new: "mgr_inv (newManager [] 0)" "is_ok (fold_state (mgr_log (newManager [] 0)))"
    "mgr_log (newManager [] 0) = []"
    by (simp_all only: mgr_inv_new) (simp_all add: newManager_def)
  have mi: "mgr_inv m \<and> is_ok (fold_state (mgr_log m))
      \<and> (mode = SnapshotSeed \<longrightarrow> (\<forall>e \<in> set (mgr_log m). isJsonValue (event_json e)))"
  proof (cases seed)
    case None
    with m new show ?thesis by auto
  next
    case (Some es)
    with m seedFrom_inv [OF new(1,2), of mode 0 es m] new(3) show ?thesis by auto
  qed
  then have fi: "session_inv (fresh_session h m)" by (simp add: fresh_inv)
  note mk = mark_inv [OF fi s]
  show "session_inv s" using mk by simp
  have "isJsonValue (event_json (next_event (fresh_session h m) now EndSeed None None))"
    by (simp add: event_isJson next_event_def metadata_json_def)
  then show "\<forall>e \<in> set (ses_log s). isJsonValue (event_json e)" if "mode = SnapshotSeed"
    using mk mi that by (auto simp: ses_log_def fresh_session_def)
qed

text \<open>
  C6: whatever appends and reads a session has been through, its cached getters
  return what a complete fold of its log computes: the latest canonical request header, the latest
  request context, the derived message history, and the log itself; and the log still folds, so
  deriving the history never throws.
\<close>

theorem session_reads_agree:
  assumes "newSession mode sid seed header now = Inr s0" and s_def: "s = foldl session_step s0 cs"
  shows "snd (requestHeader s) = foldRequestHeader (ses_log s) None
    \<and> snd (requestContext s) = foldRequestContext (ses_log s) None
    \<and> res_map snd (deriveMessages s) = derivedHistory (ses_log s) \<and> is_ok (deriveMessages s)
    \<and> snd (events s) = ses_log s"
proof -
  have inv: "session_inv s"
    unfolding s_def by (rule session_run_inv [OF newSession_inv(1) [OF assms(1)]])
  note v = session_invD [OF inv]
  obtain st where st: "fold_state (ses_log s) = Inr st" using v(5) by (auto simp: ses_log_def)
  obtain ms where ms: "derivedHistory (ses_log s) = Inr ms" using derivedHistory_ok [OF st] by blast
  have d: "res_map snd (deriveMessages s) = Inr ms"
    using derived_view.read_value [OF v(3)] ms by simp
  have "snd (events s) = ses_log s"
    using inv by (auto simp: session_inv_def events_def split: option.splits)
  with d ms show ?thesis
    using header_view.read_value [OF v(1)] context_view.read_value [OF v(2)] by auto
qed

text \<open>
  An append is accepted exactly when its payload and metadata are lossless
  JSON, it is no obsolete header vocabulary, and the log extended by the event folds; then the log
  grows by exactly that event, numbered with the log's length, and header, earlier events and
  first live seq are unchanged.
\<close>

theorem session_append_iff:
  assumes "newSession mode sid seed header now = Inr s0" and s_def: "s = foldl session_step s0 cs"
  shows "(is_ok (append_detached s t d op srcs) \<longleftrightarrow> append_allowed s t d op srcs)
    \<and> (\<forall>s' e. append_detached s t d op srcs = Inr (s', e) \<longrightarrow>
      ses_log s' = ses_log s @ [e] \<and> ev_seq e = int (length (ses_log s)) \<and> ev_data e = d
      \<and> ses_header s' = ses_header s \<and> ses_firstLiveSeq s' = ses_firstLiveSeq s)"
proof (intro conjI allI impI)
  have inv: "session_inv s"
    unfolding s_def by (rule session_run_inv [OF newSession_inv(1) [OF assms(1)]])
  show "is_ok (append_detached s t d op srcs) \<longleftrightarrow> append_allowed s t d op srcs"
    using acceptAppend_cases [OF inv, of t d op srcs]
    by (cases "acceptAppend s False t d op srcs") (auto simp: append_detached_def split: prod.splits)
next
  fix s' e
  assume a: "append_detached s t d op srcs = Inr (s', e)"
  have inv: "session_inv s"
    unfolding s_def by (rule session_run_inv [OF newSession_inv(1) [OF assms(1)]])
  note r = append_inv [OF inv a]
  show "ses_log s' = ses_log s @ [e]" "ses_header s' = ses_header s" "ses_firstLiveSeq s' = ses_firstLiveSeq s"
    using r by simp_all
  show "ev_seq e = int (length (ses_log s))" "ev_data e = d"
    using r by (simp_all add: next_event_def)
qed

subsection \<open>A session's own log is a seed\<close>

lemma append_json:
  assumes "session_inv s" "append_detached s now d op srcs = Inr (s', e)"
  shows "isJsonValue (event_json e)"
  using append_inv [OF assms] by (simp add: event_isJson append_allowed_def next_event_def)

lemma read_logs:
  "ses_log (fst (events s)) = ses_log s"
  "ses_log (fst (requestHeader s)) = ses_log s"
  "ses_log (fst (requestContext s)) = ses_log s"
  by (simp_all add: events_def ses_log_def requestHeader_fields requestContext_fields split: option.splits)

lemma append_logs:
  assumes "session_inv s" "\<forall>e \<in> set (ses_log s). isJsonValue (event_json e)"
    and a: "append_detached s now d op srcs = Inr (s', e)"
  shows "\<forall>e \<in> set (ses_log s'). isJsonValue (event_json e)"
proof -
  have "ses_log s' = ses_log s @ [e]" using append_inv [OF assms(1) a] by blast
  then show ?thesis using assms(2) append_json [OF assms(1) a] by simp
qed

lemma derive_logs: "session_inv s \<Longrightarrow> deriveMessages s = Inr (s', ms) \<Longrightarrow> ses_log s' = ses_log s"
  using derived_view.read_spec [of s] session_invD(3) [of s] by simp

lemma step_json:
  assumes inv: "session_inv s" and j: "\<forall>e \<in> set (ses_log s). isJsonValue (event_json e)"
  shows "\<forall>e \<in> set (ses_log (session_step s c)). isJsonValue (event_json e)"
proof (cases c)
  case (CallAppend now d op srcs)
  then show ?thesis
    using append_logs [OF inv j, of now d op srcs] j
    by (cases "append_detached s now d op srcs") (auto simp: keep_on_error_def)
next
  case CallDeriveMessages
  then show ?thesis
    using derive_logs [OF inv] j
    by (cases "deriveMessages s") (auto simp: keep_on_error_def)
qed (use j in \<open>simp_all add: read_logs\<close>)

lemma run_json:
  "session_inv s \<Longrightarrow> \<forall>e \<in> set (ses_log s). isJsonValue (event_json e)
    \<Longrightarrow> \<forall>e \<in> set (ses_log (foldl session_step s cs)). isJsonValue (event_json e)"
proof (induction cs arbitrary: s)
  case (Cons c cs)
  from Cons.IH [OF session_step_inv [OF Cons.prems(1)] step_json [OF Cons.prems]] show ?case by simp
qed simp

lemma fold_prefix_ok:
  "is_ok (fold_state (xs @ ys)) \<Longrightarrow> is_ok (fold_state xs)"
proof (induction ys rule: rev_induct)
  case (snoc y ys)
  have "xs @ ys @ [y] = (xs @ ys) @ [y]" by simp
  with snoc.prems show ?case using snoc.IH by (auto simp: fold_state_snoc is_ok_iff simp del: append_assoc)
qed simp

definition event_typed :: "event \<Rightarrow> bool" where
  "event_typed e = (data_typed (ev_data e) \<and> safe_int (ev_time e))"

lemma fold_state_last_seq:
  "fold_state (es @ [e]) = Inr st \<Longrightarrow> ev_seq e = int (length es)"
  using fold_state_seq [of "es @ [e]" st] by simp

lemma fold_state_nth_seq:
  assumes "fold_state es = Inr st" "i < length es"
  shows "ev_seq (es ! i) = int i"
proof -
  have "es = (take i es @ [es ! i]) @ drop (Suc i) es"
    using assms(2) by (simp add: id_take_nth_drop [symmetric])
  then have "is_ok (fold_state (take i es @ [es ! i]))"
    using assms(1) by (metis fold_prefix_ok is_ok_simps(1))
  then show ?thesis using fold_state_last_seq [of "take i es" "es ! i"] assms(2)
    by (auto simp: is_ok_iff)
qed

lemma fold_state_inv: "fold_state es = Inr st \<Longrightarrow> surface_inv es st"
  by (auto simp: fold_state_def dest: fold_prefix)

lemma seedFrom_accepts:
  assumes "mgr_inv m" "is_ok (fold_state (mgr_log m @ es))" "i = length (mgr_log m)"
    and "\<forall>e \<in> set es. event_typed e \<and> isJsonValue (event_json e)"
    and "int (length (mgr_log m @ es)) \<le> MAX_SAFE_INTEGER"
  shows "\<exists>m'. seedFrom mode i es m = Inr m'"
  using assms
proof (induction es arbitrary: i m)
  case Nil
  then show ?case by simp
next
  case (Cons e es)
  have whole: "is_ok (fold_state ((mgr_log m @ [e]) @ es))" using Cons.prems(2) by simp
  then have one: "is_ok (fold_state (mgr_log m @ [e]))" by (rule fold_prefix_ok)
  then have "is_ok (fold_state (mgr_log m))" by (rule fold_prefix_ok)
  then obtain st where st: "fold_state (mgr_log m) = Inr st" by (auto simp: is_ok_iff)
  have seq: "ev_seq e = int i" using one Cons.prems(3) fold_state_last_seq by (auto simp: is_ok_iff)
  obtain m1 where v: "validateNext m e = Inr m1"
    using validate_accepts [OF Cons.prems(1) st, of e] one by (auto simp: is_ok_iff)
  note m1 = mgr_inv_validate [OF Cons.prems(1) v]
  have "safe_int (ev_seq e)" using seq Cons.prems(3,5) by (simp add: safe_int_def)
  then have env: "assertSessionEventEnvelope (event_json e) = Inr ()"
    using typed_envelope [of e] Cons.prems(4) seq by (simp add: event_typed_def)
  have sup: "assertSupportedRequestHeader (event_type (ev_data e)) (data_json (ev_data e)) = Inr ()"
    using typed_supported Cons.prems(4) by (simp add: event_typed_def)
  have log: "mgr_log (pushLog m1 e) = mgr_log m @ [e]" by (simp add: pushLog_def m1)
  have "\<exists>m'. seedFrom mode (Suc i) es (pushLog m1 e) = Inr m'"
    using Cons.prems whole by (intro Cons.IH mgr_inv_push [OF m1(1)]) (simp_all add: log)
  then show ?case using Cons.prems(4) env sup seq v by simp
qed

lemma next_end_seed:
  "next_event s now EndSeed None None = plain_event (int (length (ses_log s))) now EndSeed"
  by (simp add: next_event_def plain_event_def)

lemma mark_ok:
  assumes inv: "session_inv s"
  shows "\<exists>s'. markSeed (Some es) now s = Inr s' \<and> ses_log s' = ses_log s @
    (if ses_log s \<noteq> [] \<and> ev_data (last (ses_log s)) = EndSeed then []
     else [plain_event (int (length (ses_log s))) now EndSeed])"
proof -
  have "append_allowed s now EndSeed None None"
    using inv by (simp add: append_allowed_def next_end_seed fold_state_plain metadata_json_def
        assertSupportedRequestHeader_def session_inv_def)
  from acceptAppend_cases(2) [OF inv this] obtain s1 e where "append_detached s now EndSeed None None = Inr (s1, e)"
    by (auto simp: append_detached_def)
  with append_inv [OF inv this] show ?thesis by (auto simp: markSeed_def next_end_seed)
qed

text \<open>
  A session's own log is a valid seed. The log any snapshot-created session has
  reached, with typed events and safe times, re-seeds a new session in either mode (a fork, a
  resume): the copy holds the same events and at most the end-of-seed mark after them, its first
  live seq is the seed's length, and its surface is the original's.
\<close>

theorem session_reseed:
  assumes "newSession SnapshotSeed sid seed header now = Inr s0" and s_def: "s = foldl session_step s0 cs"
    and typed: "\<forall>e \<in> set (ses_log s). event_typed e"
    and len: "int (length (ses_log s)) \<le> MAX_SAFE_INTEGER"
    and hdr: "validateSessionHeader cid h = Inr h" "isJsonValue h"
  shows "\<exists>s'. newSession mode cid (Some (ses_log s)) (Some h) t = Inr s'
    \<and> ses_log s' = ses_log s @ (if ses_log s \<noteq> [] \<and> ev_data (last (ses_log s)) = EndSeed then []
        else [plain_event (int (length (ses_log s))) t EndSeed])
    \<and> ses_firstLiveSeq s' = length (ses_log s) \<and> ses_header s' = h
    \<and> fold_state (ses_log s') = fold_state (ses_log s)"
proof -
  note new = newSession_inv [OF assms(1)]
  have inv: "session_inv s" unfolding s_def by (rule session_run_inv [OF new(1)])
  have json: "\<forall>e \<in> set (ses_log s). isJsonValue (event_json e)"
    unfolding s_def using run_json [OF new(1)] new(2) by simp
  have m0: "mgr_log (newManager [] 0) = []" by (simp add: newManager_def)
  have "\<exists>m. seedFrom mode 0 (ses_log s) (newManager [] 0) = Inr m"
    using inv typed json len
    by (intro seedFrom_accepts mgr_inv_new) (simp_all add: m0 session_inv_def)
  then obtain m where m: "seedFrom mode 0 (ses_log s) (newManager [] 0) = Inr m" by blast
  have mi: "mgr_inv m" "is_ok (fold_state (mgr_log m))" "mgr_log m = ses_log s"
    using seedFrom_inv [OF mgr_inv_new _ m] by (auto simp: m0)
  note fi = fresh_inv [OF mi(1,2), of h]
  have log: "ses_log (fresh_session h m) = ses_log s" "ses_firstLiveSeq (fresh_session h m) = length (ses_log s)"
    "ses_header (fresh_session h m) = h"
    by (simp_all add: fresh_session_def ses_log_def mi(3) [unfolded ses_log_def])
  obtain s' where mark: "markSeed (Some (ses_log s)) t (fresh_session h m) = Inr s'"
    and l': "ses_log s' = ses_log s @ (if ses_log s \<noteq> [] \<and> ev_data (last (ses_log s)) = EndSeed then []
        else [plain_event (int (length (ses_log s))) t EndSeed])"
    using mark_ok [OF fi, of "ses_log s" t] log by auto
  have "newSession mode cid (Some (ses_log s)) (Some h) t = Inr s'"
    using m mark hdr
    by (cases mode) (simp_all add: newSession_def restoredHeader_def validateRestoredSessionHeader_def
        snapshotSessionHeader_def)
  moreover have "ses_firstLiveSeq s' = length (ses_log s)" "ses_header s' = h"
    using mark_inv [OF fi mark] log by simp_all
  ultimately show ?thesis using l' by (auto simp: fold_state_plain)
qed

subsection \<open>A concrete session\<close>

definition demo_new :: "(session_error, session) result" where
  "demo_new = newSession SnapshotSeed ''s1'' (Some demo_log) None 9"

definition demo_calls :: "session_call list" where
  "demo_calls = [CallDeriveMessages,
     CallAppend 10 (TurnStart 2) None None,
     CallAppend 11 (UserMessage (demo_message ''u4'' RoleUser SourceUser [TextBlock ''ok'']))
       (Some (JStr ''append'')) None,
     CallAppend 12 (UserMessage (demo_message ''u5'' RoleUser SourceUser [])) None None,
     CallRequestHeader]"

definition demo_header :: json where
  "demo_header = JObj [(''version'', JInt 0), (''id'', JStr ''s2''), (''createdAt'', JInt 7),
     (''cwd'', JStr ''/w'')]"

lemma demo_new_facts:
  "case demo_new of Inl _ \<Rightarrow> False
   | Inr s0 \<Rightarrow> let s = foldl session_step s0 demo_calls in
       length (ses_log s) = 8 \<and> list_all event_typed (ses_log s)
       \<and> ev_data (last (ses_log s)) \<noteq> EndSeed"
  by code_simp

lemma demo_session:
  obtains s0 where "newSession SnapshotSeed ''s1'' (Some demo_log) None 9 = Inr s0"
    "length (ses_log (foldl session_step s0 demo_calls)) = 8"
    "\<forall>e \<in> set (ses_log (foldl session_step s0 demo_calls)). event_typed e"
  using demo_new_facts
  by (cases demo_new) (auto simp: demo_new_def list_all_iff Let_def)

theorem session_reads_agree_witness:
  "\<exists>s0. newSession SnapshotSeed ''s1'' (Some demo_log) None 9 = Inr s0
    \<and> is_ok (deriveMessages (foldl session_step s0 demo_calls))
    \<and> length (snd (events (foldl session_step s0 demo_calls))) = 8"
proof -
  obtain s0 where s0: "newSession SnapshotSeed ''s1'' (Some demo_log) None 9 = Inr s0"
    and l: "length (ses_log (foldl session_step s0 demo_calls)) = 8"
    by (rule demo_session)
  from session_reads_agree [OF s0 refl, of demo_calls] s0 l show ?thesis by metis
qed

theorem session_append_iff_witness:
  "\<exists>s0. newSession SnapshotSeed ''s1'' (Some demo_log) None 9 = Inr s0
    \<and> (is_ok (append_detached (foldl session_step s0 demo_calls) 13 (TurnStart 3) None None)
      \<longleftrightarrow> append_allowed (foldl session_step s0 demo_calls) 13 (TurnStart 3) None None)"
proof -
  obtain s0 where s0: "newSession SnapshotSeed ''s1'' (Some demo_log) None 9 = Inr s0"
    by (rule demo_session)
  from session_append_iff [OF s0 refl, of demo_calls 13 "TurnStart 3" None None] s0
  show ?thesis by blast
qed

theorem session_reseed_witness:
  "\<exists>s0 s'. newSession SnapshotSeed ''s1'' (Some demo_log) None 9 = Inr s0
    \<and> newSession RestoreSeed ''s2'' (Some (ses_log (foldl session_step s0 demo_calls)))
        (Some demo_header) 20 = Inr s'
    \<and> ses_firstLiveSeq s' = 8"
proof -
  obtain s0 where s0: "newSession SnapshotSeed ''s1'' (Some demo_log) None 9 = Inr s0"
    and l: "length (ses_log (foldl session_step s0 demo_calls)) = 8"
    and t: "\<forall>e \<in> set (ses_log (foldl session_step s0 demo_calls)). event_typed e"
    by (rule demo_session)
  have len: "int (length (ses_log (foldl session_step s0 demo_calls))) \<le> MAX_SAFE_INTEGER"
    using l by (simp add: MAX_SAFE_INTEGER_def)
  have h: "validateSessionHeader ''s2'' demo_header = Inr demo_header" "isJsonValue demo_header"
    by code_simp+
  from session_reseed [OF s0 refl t len h, of RestoreSeed 20] s0 l show ?thesis by metis
qed

end
