(* ===== verification/Inbox.thy ===== *)
theory Inbox
  imports Session_Facts
begin

text \<open>
  The agent inbox (\<open>core/agent/src/inbox.ts\<close>): two lists of pending user messages, a projection
  of the durable splice events of a session. A mutation is normalized, validated, appended to the
  session and only then applied to the lists; a new inbox replays the session's splices.
\<close>

subsection \<open>State\<close>

record inbox_lists =
  ib_nextTurn :: "message list"
  ib_nextStep :: "message list"

datatype inbox_notice =
    NoticeInserted message
  | NoticeDiscarded message
  | NoticeClaimed message int

record inbox =
  ib_lists :: inbox_lists
  ib_session :: session
  ib_notices :: "inbox_notice list"

datatype inbox_error =
    InvalidSplice
  | AlreadyPending string
  | InvalidPersisted int
  | AppendFailed session_error

definition empty_lists :: inbox_lists where
  "empty_lists = \<lparr>ib_nextTurn = [], ib_nextStep = []\<rparr>"

fun pending_list :: "inbox_target \<Rightarrow> inbox_lists \<Rightarrow> message list" where
  "pending_list NextTurn l = ib_nextTurn l"
| "pending_list NextStep l = ib_nextStep l"

fun set_pending :: "inbox_target \<Rightarrow> message list \<Rightarrow> inbox_lists \<Rightarrow> inbox_lists" where
  "set_pending NextTurn ms l = l\<lparr>ib_nextTurn := ms\<rparr>"
| "set_pending NextStep ms l = l\<lparr>ib_nextStep := ms\<rparr>"

definition hasPending :: "inbox_lists \<Rightarrow> bool" where
  "hasPending l = (0 < length (ib_nextTurn l) \<or> 0 < length (ib_nextStep l))"

subsection \<open>Validation and replay\<close>

text \<open>The first identity the loop meets a second time.\<close>

primrec first_duplicate :: "'a set \<Rightarrow> 'a list \<Rightarrow> 'a option" where
  "first_duplicate ids [] = None"
| "first_duplicate ids (x # xs) = (if x \<in> ids then Some x else first_duplicate (insert x ids) xs)"

definition removed_count :: "inbox_splice \<Rightarrow> jsnum" where
  "removed_count sp = (case sp_removedCount sp of None \<Rightarrow> num_of_int 0 | Some n \<Rightarrow> n)"

definition spliced :: "inbox_splice \<Rightarrow> message list \<Rightarrow> message list" where
  "spliced sp xs = splice (nat (num_to_int (sp_start sp))) (nat (num_to_int (removed_count sp)))
     (sp_inserted sp) xs"

definition cut_out :: "inbox_splice \<Rightarrow> message list \<Rightarrow> message list" where
  "cut_out sp xs = take (nat (num_to_int (removed_count sp))) (drop (nat (num_to_int (sp_start sp))) xs)"

definition pending_ids :: "inbox_target \<Rightarrow> message list \<Rightarrow> inbox_lists \<Rightarrow> string list" where
  "pending_ids target candidate l =
     map msg_id (if target = NextTurn then candidate @ ib_nextStep l else ib_nextTurn l @ candidate)"

definition validate_splice :: "inbox_splice \<Rightarrow> inbox_lists \<Rightarrow> (inbox_error, unit) result" where
  "validate_splice sp l =
     (let inbox = pending_list (sp_target sp) l;
          start = num_to_int (sp_start sp); removed = num_to_int (removed_count sp) in
      if \<not> isSafeInteger (sp_start sp) \<or> start < 0 \<or> int (length inbox) < start
         \<or> \<not> isSafeInteger (removed_count sp) \<or> removed < 0 \<or> int (length inbox) < start + removed
      then Inl InvalidSplice
      else case first_duplicate {} (pending_ids (sp_target sp) (spliced sp inbox) l) of
        Some i \<Rightarrow> Inl (AlreadyPending i)
      | None \<Rightarrow> Inr ())"

definition apply_splice :: "inbox_splice \<Rightarrow> inbox_lists \<Rightarrow> (inbox_error, inbox_lists) result" where
  "apply_splice sp l =
     bindE (validate_splice sp l) (\<lambda>_.
       Inr (set_pending (sp_target sp) (spliced sp (pending_list (sp_target sp) l)) l))"

primrec replay :: "event list \<Rightarrow> inbox_lists \<Rightarrow> (inbox_error, inbox_lists) result" where
  "replay [] l = Inr l"
| "replay (e # es) l =
     (case ev_data e of
        InboxSpliced sp \<Rightarrow>
          (case apply_splice sp l of
             Inl _ \<Rightarrow> Inl (InvalidPersisted (ev_seq e))
           | Inr l' \<Rightarrow> replay es l')
      | _ \<Rightarrow> replay es l)"

definition seed_length :: "session \<Rightarrow> nat" where
  "seed_length s = (case field (ses_header s) ''seedLength'' of
      Some (JNum n) \<Rightarrow> nat (num_to_int n) | _ \<Rightarrow> 0)"

definition newInbox :: "session \<Rightarrow> (inbox_error, inbox) result" where
  "newInbox s = res_map (\<lambda>l. \<lparr>ib_lists = l, ib_session = s, ib_notices = []\<rparr>)
     (replay (drop (seed_length s) (snd (events s))) empty_lists)"

subsection \<open>Mutations\<close>

text \<open>The coordinates \<open>mutate\<close> normalizes, in JavaScript arithmetic.\<close>

definition actualStart :: "jsnum \<Rightarrow> nat \<Rightarrow> jsnum" where
  "actualStart start len =
     (let truncated = js_trunc start;
          offset = (if isNaN truncated then num_of_int 0 else truncated)
      in if js_lt offset (num_of_int 0) then js_max (js_add (num_of_int (int len)) offset) (num_of_int 0)
         else js_min offset (num_of_int (int len)))"

definition actualDeleteCount :: "jsnum \<Rightarrow> jsnum \<Rightarrow> nat \<Rightarrow> jsnum" where
  "actualDeleteCount deleteCount start len =
     (let truncated = js_trunc deleteCount
      in js_min (js_max (if isNaN truncated then num_of_int 0 else truncated) (num_of_int 0))
           (js_add (num_of_int (int len)) (num_of_int (- num_to_int start))))"

definition normalized ::
  "inbox_target \<Rightarrow> jsnum \<Rightarrow> jsnum \<Rightarrow> message list \<Rightarrow> bool \<Rightarrow> nat \<Rightarrow> inbox_splice" where
  "normalized target start deleteCount inserted discardRemoved len =
     (let s = actualStart start len; d = actualDeleteCount deleteCount s len in
      \<lparr>sp_target = target, sp_start = s,
       sp_removedCount = (if js_eq d (num_of_int 0) then None else Some d),
       sp_inserted = inserted,
       sp_canceled = (discardRemoved \<and> js_lt (num_of_int 0) d)\<rparr>)"

text \<open>
  One committed mutation: the inbox afterwards and what it removed, or the error with the inbox
  unchanged. \<open>now\<close> is the clock of the session append.
\<close>

definition mutate ::
  "inbox_target \<Rightarrow> jsnum \<Rightarrow> jsnum \<Rightarrow> message list \<Rightarrow> bool \<Rightarrow> int \<Rightarrow> inbox
     \<Rightarrow> inbox \<times> (inbox_error, message list) result" where
  "mutate target start deleteCount inserted discardRemoved now ib =
     (let list = pending_list target (ib_lists ib);
          sp = normalized target start deleteCount inserted discardRemoved (length list)
      in if sp_removedCount sp = None \<and> inserted = [] then (ib, Inr [])
         else case validate_splice sp (ib_lists ib) of
           Inl err \<Rightarrow> (ib, Inl err)
         | Inr _ \<Rightarrow>
             (case append_detached (ib_session ib) now (InboxSpliced sp) None None of
                Inl err \<Rightarrow> (ib, Inl (AppendFailed err))
              | Inr (s, _) \<Rightarrow>
                  let removed = cut_out sp list in
                  (\<lparr>ib_lists = set_pending target (spliced sp list) (ib_lists ib),
                    ib_session = s,
                    ib_notices = ib_notices ib
                      @ (if discardRemoved then map NoticeDiscarded removed else [])
                      @ map NoticeInserted inserted\<rparr>, Inr removed)))"

definition inbox_splice ::
  "inbox_target \<Rightarrow> jsnum \<Rightarrow> jsnum \<Rightarrow> message list \<Rightarrow> int \<Rightarrow> inbox
     \<Rightarrow> inbox \<times> (inbox_error, message list) result" where
  "inbox_splice target start deleteCount inserted now ib =
     mutate target start deleteCount inserted True now ib"

definition len_num :: "inbox_target \<Rightarrow> inbox \<Rightarrow> jsnum" where
  "len_num target ib = num_of_int (int (length (pending_list target (ib_lists ib))))"

text \<open>Sequencing of operations on the inbox; an error stops.\<close>

definition then_do ::
  "inbox \<times> (inbox_error, 'a) result \<Rightarrow> ('a \<Rightarrow> inbox \<Rightarrow> inbox \<times> (inbox_error, 'b) result)
     \<Rightarrow> inbox \<times> (inbox_error, 'b) result" where
  "then_do p f = (case p of (ib, Inl err) \<Rightarrow> (ib, Inl err) | (ib, Inr x) \<Rightarrow> f x ib)"

definition clear_inbox :: "int \<Rightarrow> inbox \<Rightarrow> inbox \<times> (inbox_error, unit) result" where
  "clear_inbox now ib =
     then_do (inbox_splice NextStep (num_of_int 0) (len_num NextStep ib) [] now ib) (\<lambda>_ ib1.
     then_do (inbox_splice NextTurn (num_of_int 0) (len_num NextTurn ib1) [] now ib1) (\<lambda>_ ib2.
       (ib2, Inr ())))"

definition claim ::
  "inbox_target \<Rightarrow> int \<Rightarrow> int \<Rightarrow> inbox \<Rightarrow> inbox \<times> (inbox_error, message list) result" where
  "claim target turn now ib =
     then_do (mutate NextStep (num_of_int 0) (len_num NextStep ib) [] False now ib) (\<lambda>steps ib1.
     then_do (if target = NextTurn
              then mutate NextTurn (num_of_int 0) (num_of_int 1) [] False now ib1
              else (ib1, Inr [])) (\<lambda>turns ib2.
       (ib2\<lparr>ib_notices := ib_notices ib2 @ map (\<lambda>m. NoticeClaimed m turn) (steps @ turns)\<rparr>,
        Inr (steps @ turns))))"

definition append_message :: "inbox_target \<Rightarrow> message \<Rightarrow> int \<Rightarrow> inbox \<Rightarrow> inbox \<times> (inbox_error, message list) result" where
  "append_message target m now ib = inbox_splice target (len_num target ib) (num_of_int 0) [m] now ib"

definition prepend_message :: "inbox_target \<Rightarrow> message \<Rightarrow> int \<Rightarrow> inbox \<Rightarrow> inbox \<times> (inbox_error, message list) result" where
  "prepend_message target m now ib = inbox_splice target (num_of_int 0) (num_of_int 0) [m] now ib"

definition locate :: "string \<Rightarrow> inbox_lists \<Rightarrow> (inbox_target \<times> nat) option" where
  "locate messageId l =
     (case find_index (\<lambda>m. msg_id m = messageId) (ib_nextTurn l) of
        Some i \<Rightarrow> Some (NextTurn, i)
      | None \<Rightarrow> map_option (\<lambda>i. (NextStep, i)) (find_index (\<lambda>m. msg_id m = messageId) (ib_nextStep l)))"

definition replace_message ::
  "string \<Rightarrow> message \<Rightarrow> int \<Rightarrow> inbox \<Rightarrow> inbox \<times> (inbox_error, bool) result" where
  "replace_message messageId m now ib =
     (case locate messageId (ib_lists ib) of
        None \<Rightarrow> (ib, Inr False)
      | Some (target, i) \<Rightarrow>
          then_do (inbox_splice target (num_of_int (int i)) (num_of_int 1) [m] now ib)
            (\<lambda>_ ib1. (ib1, Inr True)))"

definition remove_message :: "string \<Rightarrow> int \<Rightarrow> inbox \<Rightarrow> inbox \<times> (inbox_error, bool) result" where
  "remove_message messageId now ib =
     (case locate messageId (ib_lists ib) of
        None \<Rightarrow> (ib, Inr False)
      | Some (target, i) \<Rightarrow>
          then_do (inbox_splice target (num_of_int (int i)) (num_of_int 1) [] now ib)
            (\<lambda>_ ib1. (ib1, Inr True)))"

end
