(* ===== verification/Tool_Scheduler.thy ===== *)
theory Tool_Scheduler
  imports Inbox
begin

text \<open>
  The scheduler of one assistant step's tool calls (\<open>core/agent-loop/src/tool-calls.ts\<close>). An exclusive
  call is a group of its own; consecutive parallel calls share a pool of bounded size. The bodies of a
  pool overlap, while the call records, the results and the contexts they add are committed in model
  order. The coroutine is cut at its awaits: a transition runs the code from one await to the next, and
  between two of them dispatched bodies settle and the rest of the program acts on the same agent.
  The tool runtime (\<open>prepare\<close>, \<open>dispatch\<close>, \<open>finalize\<close>, \<open>finish\<close>) is a parameter: its answers are inputs.
\<close>

subsection \<open>Calls, results and errors\<close>

record tool_call =
  tc_id :: string
  tc_name :: string
  tc_arguments :: string

text \<open>A settled execution (\<open>ToolExecutionResult\<close>); \<open>te_error\<close> is the \<open>info\<close> of its failure.\<close>

record tool_execution =
  te_content :: "content_block list"
  te_isError :: bool
  te_error :: "(string \<times> string) option"
  te_meta :: "json option"
  te_contexts :: "message list"
  te_concludes :: bool

record slot =
  sl_result :: tool_execution
  sl_needsPost :: bool

datatype preparation = PrepDispatch | PrepPost tool_execution | PrepFinal tool_execution

datatype tool_error =
    ToolThrew string
  | ToolAppend session_error
  | ToolContext inbox_error
  | UncommittedCalls

text \<open>The world a transition reads: the clock, fresh message ids, the tool registry and the signal.\<close>

record sched_env =
  se_now :: int
  se_ids :: "nat \<Rightarrow> string"
  se_resolve :: "tool_call \<Rightarrow> (tool_call \<Rightarrow> bool option) option"
  se_finish :: "tool_execution \<Rightarrow> (tool_error, tool_execution) result"
  se_aborted :: bool

text \<open>
  \<open>executionMode\<close>: parallel when the resolved tool has a predicate, it does not throw (\<open>None\<close>) and it
  answers \<open>true\<close> for this call.
\<close>

definition parallel_mode :: "sched_env \<Rightarrow> tool_call \<Rightarrow> bool" where
  "parallel_mode env c =
     (case se_resolve env c of
        None \<Rightarrow> False
      | Some isConcurrencySafe \<Rightarrow> isConcurrencySafe c = Some True)"

subsection \<open>The records of a call\<close>

text \<open>An append to the session the inbox shares; it throws what the session throws.\<close>

definition append_on ::
  "int \<Rightarrow> event_data \<Rightarrow> json option \<Rightarrow> json option \<Rightarrow> inbox \<Rightarrow> inbox \<times> (session_error, int) result" where
  "append_on now d op srcs ib =
     (case append_detached (ib_session ib) now d op srcs of
        Inl err \<Rightarrow> (ib, Inl err)
      | Inr (s, e) \<Rightarrow> (ib\<lparr>ib_session := s\<rparr>, Inr (ev_seq e)))"

definition appendToolCall ::
  "int \<Rightarrow> int \<Rightarrow> int \<Rightarrow> tool_call \<Rightarrow> inbox \<Rightarrow> inbox \<times> (session_error, int) result" where
  "appendToolCall now turn step c ib =
     append_on now (ToolCall turn step (tc_id c) (tc_name c) (tc_arguments c)) None None ib"

definition createToolResultMessage :: "string \<Rightarrow> string \<Rightarrow> content_block list \<Rightarrow> bool \<Rightarrow> message" where
  "createToolResultMessage mid callId content err =
     \<lparr>msg_id = mid, msg_role = RoleUser, msg_content = [ToolResultBlock callId content (Some err)],
      msg_source = SourceTool callId\<rparr>"

definition appendToolResult ::
  "int \<Rightarrow> string \<Rightarrow> int \<Rightarrow> int \<Rightarrow> tool_call \<Rightarrow> tool_execution \<Rightarrow> int \<Rightarrow> inbox
     \<Rightarrow> inbox \<times> (session_error, int) result" where
  "appendToolResult now mid turn step c r callSeq ib =
     append_on now
       (ToolResult turn step (createToolResultMessage mid (tc_id c) (te_content r) (te_isError r))
         (te_error r) (te_meta r))
       (Some (JStr ''append'')) (Some (JArr [JInt callSeq])) ib"

definition TOOL_ABORTED_BEFORE_DISPATCH :: string where
  "TOOL_ABORTED_BEFORE_DISPATCH = ''ABORTED_BEFORE_DISPATCH''"

definition skipped_result :: tool_execution where
  "skipped_result =
     \<lparr>te_content = [TextBlock ''Error: tool call aborted before dispatch''], te_isError = True,
      te_error = Some (''AbortError'', TOOL_ABORTED_BEFORE_DISPATCH), te_meta = None,
      te_contexts = [], te_concludes = False\<rparr>"

definition appendSkippedToolCall ::
  "int \<Rightarrow> string \<Rightarrow> int \<Rightarrow> int \<Rightarrow> tool_call \<Rightarrow> inbox \<Rightarrow> inbox \<times> (session_error, int) result" where
  "appendSkippedToolCall now mid turn step c ib =
     (case appendToolCall now turn step c ib of
        (ib1, Inl err) \<Rightarrow> (ib1, Inl err)
      | (ib1, Inr callSeq) \<Rightarrow> appendToolResult now mid turn step c skipped_result callSeq ib1)"

fun skip_calls ::
  "int \<Rightarrow> (nat \<Rightarrow> string) \<Rightarrow> int \<Rightarrow> int \<Rightarrow> tool_call list \<Rightarrow> inbox \<Rightarrow> inbox \<times> (session_error, unit) result" where
  "skip_calls now ids turn step [] ib = (ib, Inr ())"
| "skip_calls now ids turn step (c # cs) ib =
     (case appendSkippedToolCall now (ids (length cs)) turn step c ib of
        (ib1, Inl err) \<Rightarrow> (ib1, Inl err)
      | (ib1, Inr _) \<Rightarrow> skip_calls now ids turn step cs ib1)"

text \<open>The caller's acceptor: the context joins the end of the next-step inbox.\<close>

fun accept_contexts :: "int \<Rightarrow> message list \<Rightarrow> inbox \<Rightarrow> inbox \<times> (inbox_error, unit) result" where
  "accept_contexts now [] ib = (ib, Inr ())"
| "accept_contexts now (m # ms) ib =
     (case append_message NextStep m now ib of
        (ib1, Inl err) \<Rightarrow> (ib1, Inl err)
      | (ib1, Inr _) \<Rightarrow> accept_contexts now ms ib1)"

subsection \<open>One group\<close>

text \<open>
  The two call sites of \<open>commitReady\<close> and \<open>throwSchedulerFailure\<close>, and the points where the group waits:
  for the first microtask after a nested async function, for \<open>prepare\<close>, for \<open>finalize\<close>, for the race
  of the dispatched bodies, and for all of them after a failure.
\<close>

datatype commit_site = FillSite | RaceSite

datatype pool_pc =
    AtPrepare
  | AtStarted
  | AtFinalize commit_site
  | AtCommitted commit_site
  | AtFilled
  | AtRace
  | AtDrain
  | GroupDone nat bool
  | GroupFailed tool_error

record pool =
  po_turn :: int
  po_step :: int
  po_group :: "tool_call list"
  po_parallel :: bool
  po_limit :: nat
  po_slots :: "nat \<Rightarrow> slot option"
  po_callSeqs :: "nat \<Rightarrow> int"
  po_nextToStart :: nat
  po_committed :: nat
  po_started :: nat
  po_aborted :: bool
  po_concluded :: bool
  po_failure :: "tool_error option"
  po_inFlight :: "nat list"
  po_settled :: "nat list"
  po_pc :: pool_pc

type_synonym pool_state = "pool \<times> inbox"

text \<open>The \<open>catch\<close>: the first failure is kept and the dispatched bodies are awaited.\<close>

definition group_fail :: "tool_error \<Rightarrow> pool_state \<Rightarrow> pool_state" where
  "group_fail err st =
     (case st of (p, ib) \<Rightarrow>
       (p\<lparr>po_failure := (case po_failure p of None \<Rightarrow> Some err | Some f \<Rightarrow> Some f), po_pc := AtDrain\<rparr>, ib))"

definition throwSchedulerFailure :: "(pool_state \<Rightarrow> pool_state) \<Rightarrow> pool_state \<Rightarrow> pool_state" where
  "throwSchedulerFailure k st =
     (case po_failure (fst st) of Some err \<Rightarrow> group_fail err st | None \<Rightarrow> k st)"

text \<open>\<open>startCall\<close> up to its await of \<open>prepare\<close>.\<close>

definition start_call :: "sched_env \<Rightarrow> pool_state \<Rightarrow> pool_state" where
  "start_call env st =
     (case st of (p, ib) \<Rightarrow>
       let i = po_nextToStart p in
       (case appendToolCall (se_now env) (po_turn p) (po_step p) (po_group p ! i) ib of
          (ib1, Inl err) \<Rightarrow> group_fail (ToolAppend err) (p, ib1)
        | (ib1, Inr seq) \<Rightarrow>
            (p\<lparr>po_callSeqs := (po_callSeqs p)(i := seq), po_started := po_started p + 1,
               po_pc := AtPrepare\<rparr>, ib1)))"

text \<open>The head of the loop of \<open>fillPool\<close>.\<close>

definition fill_pool :: "sched_env \<Rightarrow> pool_state \<Rightarrow> pool_state" where
  "fill_pool env st =
     (let p = fst st in
      if \<not> po_aborted p \<and> po_nextToStart p < length (po_group p) \<and> length (po_inFlight p) < po_limit p
      then if 0 < po_nextToStart p \<and> po_parallel p
              \<and> \<not> parallel_mode env (po_group p ! po_nextToStart p)
           then (p\<lparr>po_pc := AtFilled\<rparr>, snd st)
           else start_call env st
      else (p\<lparr>po_pc := AtFilled\<rparr>, snd st))"

text \<open>Recording one final result: its event, the contexts it adds, then the cursor.\<close>

definition commit_result :: "sched_env \<Rightarrow> tool_execution \<Rightarrow> pool_state \<Rightarrow> pool_state \<times> (tool_error, unit) result" where
  "commit_result env r st =
     (case st of (p, ib) \<Rightarrow>
       let i = po_committed p in
       (case appendToolResult (se_now env) (se_ids env i) (po_turn p) (po_step p) (po_group p ! i) r
               (po_callSeqs p i) ib of
          (ib1, Inl err) \<Rightarrow> ((p, ib1), Inl (ToolAppend err))
        | (ib1, Inr _) \<Rightarrow>
            (case accept_contexts (se_now env) (te_contexts r) ib1 of
               (ib2, Inl err) \<Rightarrow> ((p, ib2), Inl (ToolContext err))
             | (ib2, Inr _) \<Rightarrow>
                 ((p\<lparr>po_concluded := (po_concluded p \<or> te_concludes r), po_committed := po_committed p + 1\<rparr>, ib2),
                  Inr ()))))"

text \<open>
  \<open>commitReady\<close> over at most \<open>n\<close> calls: it commits contiguous settled slots and stops at the first
  missing one or at the await of \<open>finalize\<close>.
\<close>

primrec commit_ready :: "sched_env \<Rightarrow> commit_site \<Rightarrow> nat \<Rightarrow> pool_state \<Rightarrow> pool_state" where
  "commit_ready env site 0 st = ((fst st)\<lparr>po_pc := AtCommitted site\<rparr>, snd st)"
| "commit_ready env site (Suc n) st =
     (case po_slots (fst st) (po_committed (fst st)) of
        None \<Rightarrow> ((fst st)\<lparr>po_pc := AtCommitted site\<rparr>, snd st)
      | Some s \<Rightarrow>
          if sl_needsPost s then ((fst st)\<lparr>po_pc := AtFinalize site\<rparr>, snd st)
          else (case se_finish env (sl_result s) of
            Inl err \<Rightarrow> group_fail err st
          | Inr r \<Rightarrow>
              (case commit_result env r st of
                 (st1, Inl err) \<Rightarrow> group_fail err st1
               | (st1, Inr _) \<Rightarrow> commit_ready env site n st1)))"

definition commitReady :: "sched_env \<Rightarrow> commit_site \<Rightarrow> pool_state \<Rightarrow> pool_state" where
  "commitReady env site st =
     commit_ready env site (length (po_group (fst st)) - po_committed (fst st)) st"

text \<open>After the \<open>try\<close>: skipped calls get their records, or the group reports what it consumed.\<close>

definition group_result :: "sched_env \<Rightarrow> pool_state \<Rightarrow> pool_state" where
  "group_result env st =
     (case st of (p, ib) \<Rightarrow>
       if po_aborted p
       then (case skip_calls (se_now env) (se_ids env) (po_turn p) (po_step p) (drop (po_started p) (po_group p)) ib of
          (ib1, Inl err) \<Rightarrow> (p\<lparr>po_pc := GroupFailed (ToolAppend err)\<rparr>, ib1)
        | (ib1, Inr _) \<Rightarrow> (p\<lparr>po_pc := GroupDone (length (po_group p)) True\<rparr>, ib1))
       else if po_committed p \<noteq> po_started p then (p\<lparr>po_pc := GroupFailed UncommittedCalls\<rparr>, ib)
       else (p\<lparr>po_pc := GroupDone (po_started p) False\<rparr>, ib))"

text \<open>The call of \<open>runGroup\<close>, which runs to the first await.\<close>

definition begin_group ::
  "sched_env \<Rightarrow> nat \<Rightarrow> int \<Rightarrow> int \<Rightarrow> tool_call list \<Rightarrow> bool \<Rightarrow> inbox \<Rightarrow> pool_state" where
  "begin_group env limit turn step grp par ib =
     fill_pool env
       (\<lparr>po_turn = turn, po_step = step, po_group = grp, po_parallel = par, po_limit = limit,
         po_slots = (\<lambda>_. None), po_callSeqs = (\<lambda>_. - 1), po_nextToStart = 0, po_committed = 0,
         po_started = 0, po_aborted = se_aborted env, po_concluded = False, po_failure = None,
         po_inFlight = [], po_settled = [], po_pc = AtFilled\<rparr>, ib)"

text \<open>
  What the group waits for. A dispatched body settles with its slot or a failure; the race returns some
  settled body (the choice of \<open>Promise.race\<close> is left open).
\<close>

datatype pool_input =
    Prepared "(tool_error, preparation) result"
  | Finalized "(tool_error, tool_execution) result"
  | Raced nat
  | Resume
  | Settled nat "(tool_error, slot) result"

definition all_settled :: "pool \<Rightarrow> bool" where
  "all_settled p = list_all (\<lambda>i. i \<in> set (po_settled p)) (po_inFlight p)"

text \<open>The rest of \<open>startCall\<close>, once \<open>prepare\<close> has answered for the call at \<open>nextToStart\<close>.\<close>

definition place_prepared :: "preparation \<Rightarrow> pool_state \<Rightarrow> pool_state" where
  "place_prepared prep st =
     (let p = fst st; i = po_nextToStart p in
      (case prep of
         PrepDispatch \<Rightarrow> p\<lparr>po_inFlight := po_inFlight p @ [i], po_pc := AtStarted\<rparr>
       | PrepPost r \<Rightarrow>
           p\<lparr>po_slots := (po_slots p)(i \<mapsto> \<lparr>sl_result = r, sl_needsPost = True\<rparr>), po_pc := AtStarted\<rparr>
       | PrepFinal r \<Rightarrow>
           p\<lparr>po_slots := (po_slots p)(i \<mapsto> \<lparr>sl_result = r, sl_needsPost = False\<rparr>), po_pc := AtStarted\<rparr>,
       snd st))"

definition observe_abort :: "sched_env \<Rightarrow> pool_state \<Rightarrow> pool_state" where
  "observe_abort env st =
     (if se_aborted env then ((fst st)\<lparr>po_aborted := True\<rparr>, snd st) else st)"

definition settle :: "nat \<Rightarrow> (tool_error, slot) result \<Rightarrow> pool \<Rightarrow> pool" where
  "settle i outcome p =
     (case outcome of
        Inr s \<Rightarrow> p\<lparr>po_slots := (po_slots p)(i \<mapsto> s), po_settled := po_settled p @ [i]\<rparr>
      | Inl err \<Rightarrow> p\<lparr>po_failure := (case po_failure p of None \<Rightarrow> Some err | Some f \<Rightarrow> Some f),
                    po_settled := po_settled p @ [i]\<rparr>)"

fun pool_step :: "sched_env \<Rightarrow> pool_input \<Rightarrow> pool_state \<Rightarrow> pool_state option" where
  "pool_step env (Settled i outcome) st =
     (if i \<in> set (po_inFlight (fst st)) \<and> i \<notin> set (po_settled (fst st))
      then Some (settle i outcome (fst st), snd st) else None)"
| "pool_step env (Prepared answer) st =
     (if po_pc (fst st) \<noteq> AtPrepare then None
      else Some (case answer of
          Inl err \<Rightarrow> group_fail err st
        | Inr prep \<Rightarrow> throwSchedulerFailure (place_prepared prep) st))"
| "pool_step env (Finalized answer) st =
     (case po_pc (fst st) of
        AtFinalize site \<Rightarrow>
          Some (case answer of
              Inl err \<Rightarrow> group_fail err st
            | Inr r \<Rightarrow>
                (case commit_result env r st of
                   (st1, Inl err) \<Rightarrow> group_fail err st1
                 | (st1, Inr _) \<Rightarrow> commitReady env site st1))
      | _ \<Rightarrow> None)"
| "pool_step env (Raced i) st =
     (if po_pc (fst st) = AtRace \<and> i \<in> set (po_inFlight (fst st)) \<and> i \<in> set (po_settled (fst st))
      then Some (throwSchedulerFailure (commitReady env RaceSite)
             ((fst st)\<lparr>po_inFlight := removeAll i (po_inFlight (fst st))\<rparr>, snd st))
      else None)"
| "pool_step env Resume st =
     (case po_pc (fst st) of
        AtStarted \<Rightarrow>
          Some (throwSchedulerFailure (commitReady env FillSite)
            ((fst st)\<lparr>po_nextToStart := po_nextToStart (fst st) + 1\<rparr>, snd st))
      | AtCommitted site \<Rightarrow>
          Some (throwSchedulerFailure (\<lambda>st1. fill_pool env (observe_abort env st1)) st)
      | AtFilled \<Rightarrow>
          Some (if po_inFlight (fst st) \<noteq> [] then ((fst st)\<lparr>po_pc := AtRace\<rparr>, snd st)
                else group_result env st)
      | AtDrain \<Rightarrow>
          (if all_settled (fst st)
           then Some ((fst st)\<lparr>po_pc := GroupFailed (the (po_failure (fst st)))\<rparr>, snd st) else None)
      | _ \<Rightarrow> None)"

subsection \<open>All calls of a step\<close>

datatype tool_outcome = ToolsRunning | ToolsReturned bool | ToolsFailed tool_error

record calls_run =
  tx_turn :: int
  tx_step :: int
  tx_calls :: "tool_call list"
  tx_next :: nat
  tx_concluded :: bool
  tx_pool :: pool
  tx_outcome :: tool_outcome

type_synonym run_state = "calls_run \<times> inbox"

text \<open>The head of the loop of \<open>executeToolCalls\<close>: the next group, classified now, or the return.\<close>

definition next_group :: "sched_env \<Rightarrow> nat \<Rightarrow> run_state \<Rightarrow> run_state" where
  "next_group env limit st =
     (case st of (x, ib) \<Rightarrow>
       if tx_next x < length (tx_calls x)
       then let first = tx_calls x ! tx_next x; par = parallel_mode env first;
                grp = (if par then drop (tx_next x) (tx_calls x) else [first]) in
            (case begin_group env limit (tx_turn x) (tx_step x) grp par ib of
               (p, ib1) \<Rightarrow> (x\<lparr>tx_pool := p\<rparr>, ib1))
       else (x\<lparr>tx_outcome := ToolsReturned (tx_concluded x)\<rparr>, ib))"

definition idle_pool :: pool where
  "idle_pool = \<lparr>po_turn = 0, po_step = 0, po_group = [], po_parallel = False, po_limit = 0,
     po_slots = (\<lambda>_. None), po_callSeqs = (\<lambda>_. - 1), po_nextToStart = 0, po_committed = 0,
     po_started = 0, po_aborted = False, po_concluded = False, po_failure = None,
     po_inFlight = [], po_settled = [], po_pc = AtFilled\<rparr>"

definition executeToolCalls ::
  "sched_env \<Rightarrow> nat \<Rightarrow> int \<Rightarrow> int \<Rightarrow> tool_call list \<Rightarrow> inbox \<Rightarrow> run_state" where
  "executeToolCalls env limit turn step calls ib =
     next_group env limit
       (\<lparr>tx_turn = turn, tx_step = step, tx_calls = calls, tx_next = 0, tx_concluded = False,
         tx_pool = idle_pool, tx_outcome = ToolsRunning\<rparr>, ib)"

text \<open>The await of \<open>runGroup\<close> returns: account for the group, then skip the rest or go on.\<close>

definition after_group :: "sched_env \<Rightarrow> nat \<Rightarrow> nat \<Rightarrow> bool \<Rightarrow> run_state \<Rightarrow> run_state" where
  "after_group env limit consumed aborted st =
     (case st of (x, ib) \<Rightarrow>
       let x1 = x\<lparr>tx_next := tx_next x + consumed,
                  tx_concluded := (tx_concluded x \<or> po_concluded (tx_pool x))\<rparr> in
       if aborted
       then (case skip_calls (se_now env) (se_ids env) (tx_turn x) (tx_step x) (drop (tx_next x1) (tx_calls x)) ib of
          (ib1, Inl err) \<Rightarrow> (x1\<lparr>tx_outcome := ToolsFailed (ToolAppend err)\<rparr>, ib1)
        | (ib1, Inr _) \<Rightarrow> (x1\<lparr>tx_outcome := ToolsReturned (tx_concluded x1)\<rparr>, ib1))
       else next_group env limit (x1, ib))"

text \<open>One transition; \<open>limit\<close> is the configured cap, read when a group begins.\<close>

definition tool_step :: "sched_env \<Rightarrow> nat \<Rightarrow> pool_input \<Rightarrow> run_state \<Rightarrow> run_state option" where
  "tool_step env limit i st =
     (case st of (x, ib) \<Rightarrow>
       if tx_outcome x \<noteq> ToolsRunning then None
       else case po_pc (tx_pool x) of
         GroupDone consumed aborted \<Rightarrow>
           (if i = Resume then Some (after_group env limit consumed aborted (x, ib)) else None)
       | GroupFailed err \<Rightarrow>
           (if i = Resume then Some (x\<lparr>tx_outcome := ToolsFailed err\<rparr>, ib) else None)
       | _ \<Rightarrow>
           (case pool_step env i (tx_pool x, ib) of
              None \<Rightarrow> None
            | Some (p, ib1) \<Rightarrow> Some (x\<lparr>tx_pool := p\<rparr>, ib1)))"

end
