(* ===== verification/Inbox_Facts.thy ===== *)
theory Inbox_Facts
  imports Inbox
begin

text \<open>
  The inbox against its durable record: the live lists are always what replaying the session's
  splices gives, message identities stay unique, and the normalized coordinates are those of
  \<open>Array.prototype.splice\<close>.
\<close>

subsection \<open>Validation\<close>

lemma first_duplicate_None:
  "first_duplicate ids xs = None \<longleftrightarrow> distinct xs \<and> set xs \<inter> ids = {}"
  by (induction xs arbitrary: ids) auto

lemma validate_splice_Inr:
  "validate_splice sp l = Inr () \<longleftrightarrow>
     isSafeInteger (sp_start sp) \<and> isSafeInteger (removed_count sp)
     \<and> 0 \<le> num_to_int (sp_start sp) \<and> 0 \<le> num_to_int (removed_count sp)
     \<and> num_to_int (sp_start sp) + num_to_int (removed_count sp) \<le> int (length (pending_list (sp_target sp) l))
     \<and> distinct (pending_ids (sp_target sp) (spliced sp (pending_list (sp_target sp) l)) l)"
  using first_duplicate_None [of "{}"
      "pending_ids (sp_target sp) (spliced sp (pending_list (sp_target sp) l)) l"]
  by (auto simp: validate_splice_def Let_def split: option.splits)

definition unique_ids :: "inbox_lists \<Rightarrow> bool" where
  "unique_ids l = distinct (map msg_id (ib_nextTurn l @ ib_nextStep l))"

lemma apply_unique: "apply_splice sp l = Inr l' \<Longrightarrow> unique_ids l'"
  by (cases "sp_target sp")
    (clarsimp simp: apply_splice_def validate_splice_Inr unique_ids_def pending_ids_def; blast)+

lemma replay_append:
  "replay (xs @ ys) l = bindE (replay xs l) (\<lambda>l'. replay ys l')"
  by (induction xs arbitrary: l) (auto split: event_data.splits sum.splits)

lemma replay_unique: "replay es l = Inr l' \<Longrightarrow> unique_ids l \<Longrightarrow> unique_ids l'"
  by (induction es arbitrary: l) (auto dest: apply_unique split: event_data.splits sum.splits)

subsection \<open>Appending a splice to the session\<close>

lemma message_json_wf: "isJsonValue (message_json m) \<longleftrightarrow>
    (\<forall>b \<in> set (msg_content m). isJsonValue (block_json b)) \<and> isJsonValue (source_json (msg_source m))"
  by (auto simp: message_json_def)

lemma splice_event_ok:
  assumes inv: "session_inv s"
  shows "is_ok (append_detached s now (InboxSpliced sp) None None) \<longleftrightarrow> isJsonValue (splice_json sp)"
proof -
  have "is_ok (fold_state (ses_log s @ [next_event s now (InboxSpliced sp) None None]))"
    using inv fold_state_plain [of "InboxSpliced sp" "ses_log s" now]
    by (simp add: session_inv_def next_event_def plain_event_def)
  then have al: "append_allowed s now (InboxSpliced sp) None None \<longleftrightarrow> isJsonValue (splice_json sp)"
    by (simp add: append_allowed_def metadata_isJson assertSupportedRequestHeader_def)
  show ?thesis unfolding al [symmetric]
    using acceptAppend_cases [OF inv, of now "InboxSpliced sp" None None]
    by (cases "acceptAppend s False now (InboxSpliced sp) None None")
      (auto simp: append_detached_def split: prod.splits)
qed

lemma splice_json_iff:
  "isJsonValue (splice_json sp) \<longleftrightarrow> lossless_num (sp_start sp)
     \<and> (\<forall>n. sp_removedCount sp = Some n \<longrightarrow> lossless_num n)
     \<and> (\<forall>m \<in> set (sp_inserted sp). isJsonValue (message_json m))"
  by (auto simp: splice_json_def opt_field_def split: option.splits)

lemma pending_set:
  "pending_list target (set_pending target ys l) = ys"
  "other \<noteq> target \<Longrightarrow> pending_list other (set_pending target ys l) = pending_list other l"
  by (cases target; simp) (cases target; cases other; simp)

subsection \<open>One mutation\<close>

lemma mutate_cases:
  assumes inv: "session_inv (ib_session ib)"
  obtains (rejected) err where "mutate target start del ins dr now ib = (ib, Inl err)"
  | (noop) "mutate target start del ins dr now ib = (ib, Inr [])"
      "sp_removedCount (normalized target start del ins dr (length (pending_list target (ib_lists ib)))) = None"
      "ins = []"
  | (committed) sp s e where
      "sp = normalized target start del ins dr (length (pending_list target (ib_lists ib)))"
      "validate_splice sp (ib_lists ib) = Inr ()"
      "append_detached (ib_session ib) now (InboxSpliced sp) None None = Inr (s, e)"
      "mutate target start del ins dr now ib =
        (\<lparr>ib_lists = set_pending target (spliced sp (pending_list target (ib_lists ib))) (ib_lists ib),
          ib_session = s,
          ib_notices = ib_notices ib
            @ (if dr then map NoticeDiscarded (cut_out sp (pending_list target (ib_lists ib))) else [])
            @ map NoticeInserted ins\<rparr>, Inr (cut_out sp (pending_list target (ib_lists ib))))"
proof -
  define sp where "sp = normalized target start del ins dr (length (pending_list target (ib_lists ib)))"
  show thesis
  proof (cases "sp_removedCount sp = None \<and> ins = []")
    case True
    show thesis
    proof (rule noop)
      show "mutate target start del ins dr now ib = (ib, Inr [])"
        unfolding mutate_def Let_def sp_def [symmetric] using True by simp
      show "sp_removedCount (normalized target start del ins dr (length (pending_list target (ib_lists ib)))) = None"
        unfolding sp_def [symmetric] using True by blast
      show "ins = []" using True by blast
    qed
  next
    case False
    show thesis
    proof (cases "validate_splice sp (ib_lists ib)")
      case (Inl err)
      then show thesis using rejected [of err] False
        by (auto simp: mutate_def sp_def [symmetric])
    next
      case v: (Inr u)
      show thesis
      proof (cases "append_detached (ib_session ib) now (InboxSpliced sp) None None")
        case (Inl err)
        then show thesis using rejected [of "AppendFailed err"] False v
          by (auto simp: mutate_def sp_def [symmetric])
      next
        case (Inr p)
        obtain s e where p: "p = (s, e)" by (cases p)
        have "validate_splice sp (ib_lists ib) = Inr ()" using v by simp
        moreover have "append_detached (ib_session ib) now (InboxSpliced sp) None None = Inr (s, e)"
          using Inr p by simp
        ultimately show thesis
          using False by (intro committed [OF sp_def]) (auto simp: mutate_def sp_def [symmetric] Let_def)
      qed
    qed
  qed
qed

lemma normalized_target [simp]: "sp_target (normalized target start del ins dr n) = target"
  "sp_inserted (normalized target start del ins dr n) = ins"
  by (simp_all add: normalized_def Let_def)

subsection \<open>The invariant\<close>

definition inbox_inv :: "inbox \<Rightarrow> bool" where
  "inbox_inv ib =
     (session_inv (ib_session ib) \<and> seed_length (ib_session ib) \<le> length (ses_log (ib_session ib))
      \<and> replay (drop (seed_length (ib_session ib)) (ses_log (ib_session ib))) empty_lists = Inr (ib_lists ib))"

lemma inbox_inv_unique: "inbox_inv ib \<Longrightarrow> unique_ids (ib_lists ib)"
  unfolding inbox_inv_def using replay_unique [of _ empty_lists "ib_lists ib"]
  by (auto simp: unique_ids_def empty_lists_def)

text \<open>Any event the session appends, and what it does to the replay.\<close>

lemma inbox_inv_append:
  assumes inv: "inbox_inv ib" and a: "append_detached (ib_session ib) now d op srcs = Inr (s, e)"
    and l: "replay [e] (ib_lists ib) = Inr l"
  shows "inbox_inv (\<lparr>ib_lists = l, ib_session = s, ib_notices = ns\<rparr>)"
proof -
  have si: "session_inv (ib_session ib)" using inv by (simp add: inbox_inv_def)
  note r = append_inv [OF si a]
  have sl: "seed_length s = seed_length (ib_session ib)" using r by (simp add: seed_length_def)
  have log: "ses_log s = ses_log (ib_session ib) @ [e]" using r by blast
  show ?thesis using inv r l by (simp add: inbox_inv_def sl log replay_append del: replay.simps)
qed

lemma mutate_inv:
  assumes inv: "inbox_inv ib"
  shows "inbox_inv (fst (mutate target start del ins dr now ib))"
proof -
  have si: "session_inv (ib_session ib)" using inv by (simp add: inbox_inv_def)
  show ?thesis
  proof (rule mutate_cases [OF si, of target start del ins dr now])
    fix sp s e
    assume sp: "sp = normalized target start del ins dr (length (pending_list target (ib_lists ib)))"
      and v: "validate_splice sp (ib_lists ib) = Inr ()"
      and a: "append_detached (ib_session ib) now (InboxSpliced sp) None None = Inr (s, e)"
      and m: "mutate target start del ins dr now ib =
        (\<lparr>ib_lists = set_pending target (spliced sp (pending_list target (ib_lists ib))) (ib_lists ib),
          ib_session = s,
          ib_notices = ib_notices ib
            @ (if dr then map NoticeDiscarded (cut_out sp (pending_list target (ib_lists ib))) else [])
            @ map NoticeInserted ins\<rparr>, Inr (cut_out sp (pending_list target (ib_lists ib))))"
    have d: "ev_data e = InboxSpliced sp" using append_inv [OF si a] by (simp add: next_event_def)
    have t: "sp_target sp = target" by (simp add: sp)
    have "replay [e] (ib_lists ib)
        = Inr (set_pending target (spliced sp (pending_list target (ib_lists ib))) (ib_lists ib))"
      by (simp add: d apply_splice_def v t)
    from inbox_inv_append [OF inv a this] show ?thesis by (simp add: m)
  qed (use inv in simp_all)
qed

lemma then_do_inv:
  assumes "P (fst p)" "\<And>x ib. P ib \<Longrightarrow> P (fst (f x ib))"
  shows "P (fst (then_do p f))"
  using assms by (cases p) (auto simp: then_do_def split: sum.splits)

lemma inbox_inv_notices [simp]: "inbox_inv (ib\<lparr>ib_notices := ns\<rparr>) = inbox_inv ib"
  by (simp add: inbox_inv_def)

subsection \<open>Histories\<close>

text \<open>Calls on the inbox, and the session's other events, which are no splices.\<close>

datatype inbox_call =
    CallSplice inbox_target jsnum jsnum "message list"
  | CallClear
  | CallClaim inbox_target int
  | CallAppendMessage inbox_target message
  | CallPrependMessage inbox_target message
  | CallReplace string message
  | CallRemove string
  | CallOtherEvent event_data "json option" "json option"

fun is_splice :: "event_data \<Rightarrow> bool" where
  "is_splice (InboxSpliced _) = True"
| "is_splice _ = False"

fun inbox_step :: "inbox \<Rightarrow> int \<times> inbox_call \<Rightarrow> inbox" where
  "inbox_step ib (now, CallSplice target start del ins) = fst (inbox_splice target start del ins now ib)"
| "inbox_step ib (now, CallClear) = fst (clear_inbox now ib)"
| "inbox_step ib (now, CallClaim target turn) = fst (claim target turn now ib)"
| "inbox_step ib (now, CallAppendMessage target m) = fst (append_message target m now ib)"
| "inbox_step ib (now, CallPrependMessage target m) = fst (prepend_message target m now ib)"
| "inbox_step ib (now, CallReplace i m) = fst (replace_message i m now ib)"
| "inbox_step ib (now, CallRemove i) = fst (remove_message i now ib)"
| "inbox_step ib (now, CallOtherEvent d op srcs) =
     (if is_splice d then ib
      else case append_detached (ib_session ib) now d op srcs of
        Inl _ \<Rightarrow> ib
      | Inr (s, _) \<Rightarrow> ib\<lparr>ib_session := s\<rparr>)"

lemma other_inv:
  assumes inv: "inbox_inv ib" and n: "\<not> is_splice d"
    and a: "append_detached (ib_session ib) now d op srcs = Inr (s, e)"
  shows "inbox_inv (ib\<lparr>ib_session := s\<rparr>)"
proof -
  have "ev_data e = d"
    using append_inv [OF _ a] inv by (simp add: inbox_inv_def next_event_def)
  then have "replay [e] (ib_lists ib) = Inr (ib_lists ib)" using n by (cases d) simp_all
  from inbox_inv_append [OF inv a this, of "ib_notices ib"] show ?thesis by (cases ib) simp
qed

lemma inbox_step_inv: "inbox_inv ib \<Longrightarrow> inbox_inv (inbox_step ib (now, c))"
proof (cases c)
  case (CallOtherEvent d op srcs)
  assume "inbox_inv ib"
  then show ?thesis by (auto simp: CallOtherEvent dest: other_inv split: sum.splits)
qed (auto simp: inbox_splice_def clear_inbox_def claim_def append_message_def prepend_message_def
    replace_message_def remove_message_def intro!: mutate_inv then_do_inv [where P = inbox_inv]
    split: option.splits)

lemma inbox_run_inv: "inbox_inv ib \<Longrightarrow> inbox_inv (foldl inbox_step ib cs)"
  by (induction cs arbitrary: ib) (auto simp: inbox_step_inv)

lemma newInbox_inv:
  assumes "session_inv s" "seed_length s \<le> length (ses_log s)" "newInbox s = Inr ib"
  shows "inbox_inv ib"
proof -
  have "snd (events s) = ses_log s"
    using assms(1) by (auto simp: session_inv_def events_def split: option.splits)
  with assms show ?thesis by (auto simp: newInbox_def inbox_inv_def)
qed

text \<open>
  C8: the durable record is complete. After any history of inbox calls, with
  any other events of the session in between, constructing a new inbox over the session replays to
  exactly the live lists, and no message identity is pending twice, in one list or across both.
\<close>

theorem inbox_replay_is_live:
  assumes "newSession mode sid seed header now = Inr s0" "seed_length s0 \<le> length (ses_log s0)"
    and "newInbox s0 = Inr ib0"
  shows "res_map ib_lists (newInbox (ib_session (foldl inbox_step ib0 cs)))
      = Inr (ib_lists (foldl inbox_step ib0 cs))
    \<and> unique_ids (ib_lists (foldl inbox_step ib0 cs))"
proof -
  have inv: "inbox_inv (foldl inbox_step ib0 cs)"
    by (intro inbox_run_inv newInbox_inv [OF newSession_inv(1) [OF assms(1)] assms(2,3)])
  let ?s = "ib_session (foldl inbox_step ib0 cs)"
  have "snd (events ?s) = ses_log ?s"
    using inv by (auto simp: inbox_inv_def session_inv_def events_def split: option.splits)
  with inv inbox_inv_unique [OF inv] show ?thesis by (simp add: newInbox_def inbox_inv_def)
qed

subsection \<open>The normalized coordinates\<close>

text \<open>
  \<open>Array.prototype.splice\<close> of the language standard: the relative start and the delete count go
  through \<open>ToIntegerOrInfinity\<close>, which sends NaN and both zeros to 0 and truncates, and are then
  clamped to the list.
\<close>

datatype int_or_inf = MinusInf | IntVal int | PlusInf

fun toIntegerOrInfinity :: "jsnum \<Rightarrow> int_or_inf" where
  "toIntegerOrInfinity NaN = IntVal 0"
| "toIntegerOrInfinity NegZero = IntVal 0"
| "toIntegerOrInfinity PosInf = PlusInf"
| "toIntegerOrInfinity NegInf = MinusInf"
| "toIntegerOrInfinity (Fin r) = IntVal (if 0 \<le> r then \<lfloor>r\<rfloor> else \<lceil>r\<rceil>)"

fun standardStart :: "int_or_inf \<Rightarrow> int \<Rightarrow> int" where
  "standardStart MinusInf len = 0"
| "standardStart PlusInf len = len"
| "standardStart (IntVal i) len = (if i < 0 then max (len + i) 0 else min i len)"

fun standardCount :: "int_or_inf \<Rightarrow> int \<Rightarrow> int" where
  "standardCount MinusInf room = 0"
| "standardCount PlusInf room = room"
| "standardCount (IntVal i) room = min (max i 0) room"

text \<open>Integers as numbers, kept folded so that the arithmetic stays on \<open>int\<close>.\<close>

definition inum :: "int \<Rightarrow> jsnum" where
  "inum i = num_of_int i"

lemma inum_ops [simp]:
  "js_lt (inum a) (inum b) \<longleftrightarrow> a < b"
  "js_max (inum a) (inum b) = inum (max a b)"
  "js_min (inum a) (inum b) = inum (min a b)"
  "js_add (inum a) (inum b) = inum (a + b)"
  "\<not> isNaN (inum a)"
  "num_to_int (inum a) = a"
  "js_lt NegZero (inum 0) \<longleftrightarrow> False"
  "0 \<le> a \<Longrightarrow> js_min NegZero (inum a) = NegZero"
  "js_max NegZero (inum 0) = inum 0"
  "js_min PosInf (inum a) = inum a"
  "js_max PosInf (inum a) = PosInf"
  "js_max NegInf (inum a) = inum a"
  "js_lt PosInf (inum a) \<longleftrightarrow> False"
  "js_lt NegInf (inum a) \<longleftrightarrow> True"
  "js_add (inum a) NegInf = NegInf"
  "js_eq (inum a) (inum b) \<longleftrightarrow> a = b"
  "isSafeInteger (inum a) \<longleftrightarrow> safe_int a"
  "lossless_num (inum a)"
  "inum a \<noteq> NegZero"
  by (simp_all add: inum_def min_def max_def lossless_num_def)

lemma trunc_cases:
  obtains (negzero) "js_trunc n = NegZero" "toIntegerOrInfinity n = IntVal 0"
  | (nan) "js_trunc n = NaN" "toIntegerOrInfinity n = IntVal 0"
  | (pos) "js_trunc n = PosInf" "toIntegerOrInfinity n = PlusInf"
  | (neg) "js_trunc n = NegInf" "toIntegerOrInfinity n = MinusInf"
  | (int) i where "js_trunc n = inum i" "toIntegerOrInfinity n = IntVal i"
proof (cases n)
  case (Fin r)
  show thesis
  proof (cases "r < 0 \<and> \<lceil>r\<rceil> = 0")
    case True
    then show thesis using negzero Fin by simp
  next
    case False
    then show thesis using int [of "if 0 \<le> r then \<lfloor>r\<rfloor> else \<lceil>r\<rceil>"] Fin by (simp add: inum_def)
  qed
qed (use negzero nan pos neg in simp_all)

lemma actualStart_standard:
  "js_trunc start \<noteq> NegZero \<Longrightarrow>
    actualStart start len = inum (standardStart (toIntegerOrInfinity start) (int len))"
  unfolding actualStart_def Let_def inum_def [symmetric]
  by (rule trunc_cases [of start]) simp_all

lemma actualStart_negzero:
  "js_trunc start = NegZero \<Longrightarrow> actualStart start len = NegZero"
  unfolding actualStart_def Let_def inum_def [symmetric] by simp

lemma actualStart_value:
  "num_to_int (actualStart start len) = standardStart (toIntegerOrInfinity start) (int len)"
  by (rule trunc_cases [of start])
    (simp_all add: actualStart_standard actualStart_negzero)

lemma standardStart_range: "0 \<le> standardStart i (int len) \<and> standardStart i (int len) \<le> int len"
  by (cases i) auto

lemma standardCount_range: "0 \<le> k \<Longrightarrow> 0 \<le> standardCount i k \<and> standardCount i k \<le> k"
  by (cases i) auto

lemma actualDeleteCount_standard:
  assumes "num_to_int s \<le> int len"
  shows "actualDeleteCount del s len
    = inum (standardCount (toIntegerOrInfinity del) (int len - num_to_int s))"
  using assms unfolding actualDeleteCount_def Let_def inum_def [symmetric]
  by (rule_tac trunc_cases [of del]) simp_all

definition std_start :: "jsnum \<Rightarrow> nat \<Rightarrow> nat" where
  "std_start start len = nat (standardStart (toIntegerOrInfinity start) (int len))"

definition std_count :: "jsnum \<Rightarrow> jsnum \<Rightarrow> nat \<Rightarrow> nat" where
  "std_count start del len =
     nat (standardCount (toIntegerOrInfinity del) (int len - int (std_start start len)))"

lemma std_bounds: "std_start start len + std_count start del len \<le> len"
proof -
  note a = standardStart_range [of "toIntegerOrInfinity start" len]
  then have "int (std_start start len) \<le> int len" by (simp add: std_start_def)
  then have "int (std_start start len + std_count start del len) \<le> int len"
    using standardCount_range [of "int len - int (std_start start len)" "toIntegerOrInfinity del"]
    by (simp add: std_count_def)
  then show ?thesis by linarith
qed

lemma normalized_values:
  "nat (num_to_int (sp_start (normalized target start del ins dr len))) = std_start start len"
  "nat (num_to_int (removed_count (normalized target start del ins dr len))) = std_count start del len"
  "sp_removedCount (normalized target start del ins dr len) = None \<longleftrightarrow> std_count start del len = 0"
proof -
  let ?s = "actualStart start len"
  have v: "num_to_int ?s = int (std_start start len)"
    using standardStart_range [of "toIntegerOrInfinity start" len]
    by (simp add: actualStart_value std_start_def)
  have le: "num_to_int ?s \<le> int len" using standardStart_range by (simp add: actualStart_value)
  have d: "actualDeleteCount del ?s len = inum (int (std_count start del len))"
    using standardCount_range [of "int len - int (std_start start len)" "toIntegerOrInfinity del"] le v
    by (simp add: actualDeleteCount_standard std_count_def)
  have n: "normalized target start del ins dr len =
      \<lparr>sp_target = target, sp_start = ?s,
       sp_removedCount = (if std_count start del len = 0 then None else Some (inum (int (std_count start del len)))),
       sp_inserted = ins, sp_canceled = (dr \<and> 0 < std_count start del len)\<rparr>"
    unfolding normalized_def Let_def d inum_def [symmetric] by simp
  show "nat (num_to_int (sp_start (normalized target start del ins dr len))) = std_start start len"
    by (simp add: n v)
  show "nat (num_to_int (removed_count (normalized target start del ins dr len))) = std_count start del len"
    by (simp add: n removed_count_def)
  show "sp_removedCount (normalized target start del ins dr len) = None \<longleftrightarrow> std_count start del len = 0"
    by (simp add: n)
qed

text \<open>
  A splice that returns has standard \<open>Array.prototype.splice\<close> semantics,
  for every JavaScript start and delete count (NaN, infinities, fractions, negative, out of range):
  the same messages are removed and returned, the same list results, and the other list is
  unchanged.
\<close>

theorem inbox_splice_standard:
  assumes "inbox_inv ib" and r: "inbox_splice target start del ins now ib = (ib', Inr removed)"
  defines "xs \<equiv> pending_list target (ib_lists ib)"
  shows "pending_list target (ib_lists ib') =
      splice (std_start start (length xs)) (std_count start del (length xs)) ins xs
    \<and> removed = take (std_count start del (length xs)) (drop (std_start start (length xs)) xs)
    \<and> (\<forall>other. other \<noteq> target \<longrightarrow> pending_list other (ib_lists ib') = pending_list other (ib_lists ib))"
proof -
  have si: "session_inv (ib_session ib)" using assms(1) by (simp add: inbox_inv_def)
  note m = r [unfolded inbox_splice_def]
  show ?thesis
  proof (rule mutate_cases [OF si, of target start del ins True now])
    fix err assume "mutate target start del ins True now ib = (ib, Inl err)"
    with m show ?thesis by simp
  next
    assume "mutate target start del ins True now ib = (ib, Inr [])" and i: "ins = []"
      and "sp_removedCount (normalized target start del ins True (length (pending_list target (ib_lists ib)))) = None"
    then have "ib' = ib" "removed = []" "std_count start del (length xs) = 0"
      using m by (simp_all only: normalized_values xs_def prod.inject sum.inject)
    then show ?thesis using i by (simp add: xs_def)
  next
    fix sp s e
    assume sp: "sp = normalized target start del ins True (length (pending_list target (ib_lists ib)))"
      and mm: "mutate target start del ins True now ib =
        (\<lparr>ib_lists = set_pending target (spliced sp (pending_list target (ib_lists ib))) (ib_lists ib),
          ib_session = s,
          ib_notices = ib_notices ib
            @ (if True then map NoticeDiscarded (cut_out sp (pending_list target (ib_lists ib))) else [])
            @ map NoticeInserted ins\<rparr>, Inr (cut_out sp (pending_list target (ib_lists ib))))"
    have "ib_lists ib' = set_pending target (spliced sp xs) (ib_lists ib)" "removed = cut_out sp xs"
      using m mm by (auto simp: xs_def)
    then show ?thesis
      by (simp add: pending_set spliced_def cut_out_def sp normalized_values xs_def)
  qed
qed

text \<open>
  Where the code departs from standard semantics. A start that
  truncates to negative zero (any fraction between -1 and 0, or negative zero itself) should mean
  position 0, but the normalized coordinate stays negative zero, which no lossless-JSON event can
  hold: whenever the splice would change anything it throws and the inbox is unchanged.
\<close>

theorem inbox_splice_negative_zero:
  assumes "inbox_inv ib" "js_trunc start = NegZero"
    and "ins \<noteq> [] \<or> std_count start del (length (pending_list target (ib_lists ib))) \<noteq> 0"
  shows "\<exists>err. inbox_splice target start del ins now ib = (ib, Inl err)"
proof -
  have si: "session_inv (ib_session ib)" using assms(1) by (simp add: inbox_inv_def)
  have "\<exists>err. mutate target start del ins True now ib = (ib, Inl err)"
  proof (rule mutate_cases [OF si, of target start del ins True now])
    fix sp s e
    assume sp: "sp = normalized target start del ins True (length (pending_list target (ib_lists ib)))"
      and a: "append_detached (ib_session ib) now (InboxSpliced sp) None None = Inr (s, e)"
    have "sp_start sp = NegZero"
      by (simp add: sp normalized_def Let_def actualStart_negzero [OF assms(2)])
    then have "\<not> isJsonValue (splice_json sp)" by (simp add: splice_json_iff lossless_num_def)
    then show "\<exists>err. mutate target start del ins True now ib = (ib, Inl err)"
      using splice_event_ok [OF si, of now sp] a by simp
  qed (use assms(3) in \<open>auto simp: normalized_values\<close>)
  then show ?thesis by (simp add: inbox_splice_def)
qed

subsection \<open>Claims and insertions\<close>

lemma inum_convert [simp]:
  "toIntegerOrInfinity (inum i) = IntVal i"
  "js_trunc (inum i) = inum i"
  by (simp_all add: inum_def)

lemma Fin_zero: "Fin 0 = inum 0"
  by (simp add: inum_def)

lemma std_at_int:
  "std_start (inum (int k)) n = min k n"
  "std_count (inum (int k)) (inum (int d)) n = min d (n - k)"
  by (auto simp: std_start_def std_count_def min_def)

lemma normalized_int:
  "normalized target (inum (int k)) (inum (int d)) ins dr n =
     \<lparr>sp_target = target, sp_start = inum (int (min k n)),
      sp_removedCount = (if min d (n - k) = 0 then None else Some (inum (int (min d (n - k))))),
      sp_inserted = ins, sp_canceled = (dr \<and> 0 < min d (n - k))\<rparr>"
proof -
  have s: "actualStart (inum (int k)) n = inum (int (min k n))"
    by (simp add: actualStart_standard min_def)
  have d: "actualDeleteCount (inum (int d)) (inum (int (min k n))) n = inum (int (min d (n - k)))"
  proof -
    have "min (max (int d) 0) (int n - int (min k n)) = int (min d (n - k))" by arith
    then show ?thesis by (subst actualDeleteCount_standard) simp_all
  qed
  show ?thesis unfolding normalized_def Let_def s d inum_def [symmetric] by simp
qed

lemma spliced_int:
  "spliced (normalized target (inum (int k)) (inum (int d)) ins dr (length xs)) xs
    = splice (min k (length xs)) (min d (length xs - k)) ins xs"
  "cut_out (normalized target (inum (int k)) (inum (int d)) ins dr (length xs)) xs
    = take (min d (length xs - k)) (drop (min k (length xs)) xs)"
  unfolding spliced_def cut_out_def normalized_values std_at_int normalized_target by simp_all

text \<open>A mutation at integer coordinates succeeds when identities stay unique and messages are JSON.\<close>

lemma mutate_int:
  assumes inv: "inbox_inv ib" and xs: "xs = pending_list target (ib_lists ib)"
    and k: "k \<le> length xs" and safe: "int (length xs) \<le> MAX_SAFE_INTEGER"
    and u: "unique_ids (set_pending target (splice k (min d (length xs - k)) ins xs) (ib_lists ib))"
    and j: "\<forall>m \<in> set ins. isJsonValue (message_json m)"
  shows "\<exists>s. mutate target (inum (int k)) (inum (int d)) ins dr now ib =
     (\<lparr>ib_lists = set_pending target (splice k (min d (length xs - k)) ins xs) (ib_lists ib),
       ib_session = s,
       ib_notices = ib_notices ib
         @ (if dr then map NoticeDiscarded (take (min d (length xs - k)) (drop k xs)) else [])
         @ map NoticeInserted ins\<rparr>, Inr (take (min d (length xs - k)) (drop k xs)))"
proof -
  have si: "session_inv (ib_session ib)" using inv by (simp add: inbox_inv_def)
  define sp where "sp = normalized target (inum (int k)) (inum (int d)) ins dr (length xs)"
  have cuts: "spliced sp xs = splice k (min d (length xs - k)) ins xs"
    "cut_out sp xs = take (min d (length xs - k)) (drop k xs)"
    using k by (simp_all only: sp_def spliced_int) (simp_all add: min_absorb1)
  have t: "sp_target sp = target" by (simp add: sp_def)
  have ids: "distinct (pending_ids target (spliced sp xs) (ib_lists ib))"
    using u by (cases target) (simp_all add: cuts pending_ids_def unique_ids_def)
  have rc: "removed_count sp = inum (int (min d (length xs - k)))"
    by (simp add: sp_def normalized_int removed_count_def Fin_zero)
  have st: "sp_start sp = inum (int k)" using k by (simp add: sp_def normalized_int min_absorb1)
  have v: "validate_splice sp (ib_lists ib) = Inr ()"
  proof -
    have b: "int k + int (min d (length xs - k)) \<le> int (length xs)" using k by arith
    then have "int k \<le> MAX_SAFE_INTEGER" "int (min d (length xs - k)) \<le> MAX_SAFE_INTEGER"
      using safe by linarith+
    then have "safe_int (int k)" "safe_int (int (min d (length xs - k)))"
      unfolding safe_int_def by (simp_all add: MAX_SAFE_INTEGER_def)
    then show ?thesis unfolding validate_splice_Inr t xs [symmetric] rc st inum_ops
      by (intro conjI ids b of_nat_0_le_iff)
  qed
  have "isJsonValue (splice_json sp)"
    using j by (simp add: splice_json_iff st, simp add: sp_def normalized_int)
  then obtain s e where a: "append_detached (ib_session ib) now (InboxSpliced sp) None None = Inr (s, e)"
    using splice_event_ok [OF si, of now sp] by (auto simp: is_ok_iff)
  note defs = mutate_def Let_def xs [symmetric] sp_def [symmetric]
  show ?thesis
  proof (cases "sp_removedCount sp = None \<and> ins = []")
    case False
    then show ?thesis using v a by (auto simp: defs cuts)
  next
    case True
    have "min d (length xs - k) = 0"
      using True by (simp add: sp_def normalized_int split: if_splits)
    moreover have "set_pending target xs (ib_lists ib) = ib_lists ib" by (cases target) (simp_all add: xs)
    ultimately show ?thesis using True
      by (intro exI [of _ "ib_session ib"]) (simp add: defs, simp add: sp_def normalized_int)
  qed
qed

lemma disjoint_mono: "A' \<subseteq> A \<Longrightarrow> B' \<subseteq> B \<Longrightarrow> A \<inter> B = {} \<Longrightarrow> A' \<inter> B' = {}"
  by blast

lemma unique_drop:
  "unique_ids l \<Longrightarrow> unique_ids (set_pending target (splice 0 n [] (pending_list target l)) l)"
proof -
  assume u: "unique_ids l"
  have d: "distinct (map msg_id (drop n xs))" if "distinct (map msg_id xs)" for xs
    unfolding drop_map [symmetric] using that by (rule distinct_drop)
  have i: "msg_id ` set (drop n xs) \<subseteq> msg_id ` set xs" for xs
    by (rule image_mono) (rule set_drop_subset)
  show ?thesis
  proof (cases target)
    case NextTurn
    have "distinct (map msg_id (drop n (ib_nextTurn l)))"
      by (rule d) (use u in \<open>simp add: unique_ids_def\<close>)
    moreover have "msg_id ` set (drop n (ib_nextTurn l)) \<inter> msg_id ` set (ib_nextStep l) = {}"
      by (rule disjoint_mono [OF i subset_refl]) (use u in \<open>simp add: unique_ids_def\<close>)
    ultimately show ?thesis using u NextTurn by (simp add: unique_ids_def splice_def)
  next
    case NextStep
    have "distinct (map msg_id (drop n (ib_nextStep l)))"
      by (rule d) (use u in \<open>simp add: unique_ids_def\<close>)
    moreover have "msg_id ` set (ib_nextTurn l) \<inter> msg_id ` set (drop n (ib_nextStep l)) = {}"
      by (rule disjoint_mono [OF subset_refl i]) (use u in \<open>simp add: unique_ids_def\<close>)
    ultimately show ?thesis using u NextStep by (simp add: unique_ids_def splice_def)
  qed
qed

text \<open>
  A step-boundary claim always succeeds. It returns every pending next-step
  message in order, followed by the oldest queued turn when the boundary also opens one, removes
  exactly these from the lists, and publishes each as claimed by the turn, discarding none.
\<close>

theorem inbox_claim_batch:
  assumes inv: "inbox_inv ib"
    and safe: "int (length (ib_nextStep (ib_lists ib))) \<le> MAX_SAFE_INTEGER"
      "int (length (ib_nextTurn (ib_lists ib))) \<le> MAX_SAFE_INTEGER"
    and ms_def: "ms = ib_nextStep (ib_lists ib)
      @ (if target = NextTurn then take 1 (ib_nextTurn (ib_lists ib)) else [])"
  shows "\<exists>ib'. claim target turn now ib = (ib', Inr ms)
    \<and> ib_nextStep (ib_lists ib') = []
    \<and> ib_nextTurn (ib_lists ib') = (if target = NextTurn then drop 1 (ib_nextTurn (ib_lists ib))
        else ib_nextTurn (ib_lists ib))
    \<and> ib_notices ib' = ib_notices ib @ map (\<lambda>m. NoticeClaimed m turn) ms"
proof -
  let ?steps = "ib_nextStep (ib_lists ib)" and ?turns = "ib_nextTurn (ib_lists ib)"
  have "\<exists>s. mutate NextStep (inum (int 0)) (inum (int (length ?steps))) [] False now ib =
     (\<lparr>ib_lists = set_pending NextStep (splice 0 (min (length ?steps) (length ?steps - 0)) [] ?steps) (ib_lists ib),
       ib_session = s,
       ib_notices = ib_notices ib
         @ (if False then map NoticeDiscarded (take (min (length ?steps) (length ?steps - 0)) (drop 0 ?steps)) else [])
         @ map NoticeInserted []\<rparr>, Inr (take (min (length ?steps) (length ?steps - 0)) (drop 0 ?steps)))"
    using unique_drop [OF inbox_inv_unique [OF inv], of NextStep "length ?steps"] safe(1)
    by (intro mutate_int [OF inv]) simp_all
  then obtain s where m1: "mutate NextStep (inum (int 0)) (inum (int (length ?steps))) [] False now ib
    = (\<lparr>ib_lists = (ib_lists ib)\<lparr>ib_nextStep := []\<rparr>, ib_session = s, ib_notices = ib_notices ib\<rparr>, Inr ?steps)"
    by auto
  define ib1 where "ib1 = \<lparr>ib_lists = (ib_lists ib)\<lparr>ib_nextStep := []\<rparr>, ib_session = s, ib_notices = ib_notices ib\<rparr>"
  have inv1: "inbox_inv ib1"
    using mutate_inv [OF inv, of NextStep "inum (int 0)" "inum (int (length ?steps))" "[]" False now] m1
    by (simp add: ib1_def)
  have t1: "pending_list NextTurn (ib_lists ib1) = ?turns" by (simp add: ib1_def)
  have "\<exists>s. mutate NextTurn (inum (int 0)) (inum (int 1)) [] False now ib1 =
     (\<lparr>ib_lists = set_pending NextTurn (splice 0 (min 1 (length ?turns - 0)) [] ?turns) (ib_lists ib1),
       ib_session = s,
       ib_notices = ib_notices ib1
         @ (if False then map NoticeDiscarded (take (min 1 (length ?turns - 0)) (drop 0 ?turns)) else [])
         @ map NoticeInserted []\<rparr>, Inr (take (min 1 (length ?turns - 0)) (drop 0 ?turns)))"
    using unique_drop [OF inbox_inv_unique [OF inv1], of NextTurn "min 1 (length ?turns)"] safe(2) t1
    by (intro mutate_int [OF inv1]) simp_all
  then obtain s' where m2: "mutate NextTurn (inum (int 0)) (inum (int 1)) [] False now ib1
    = (\<lparr>ib_lists = (ib_lists ib1)\<lparr>ib_nextTurn := drop 1 ?turns\<rparr>, ib_session = s', ib_notices = ib_notices ib\<rparr>,
       Inr (take 1 ?turns))"
    by (cases ?turns) (auto simp: splice_def ib1_def)
  have c1: "mutate NextStep (inum 0) (inum (int (length ?steps))) [] False now ib = (ib1, Inr ?steps)"
    using m1 by (simp add: ib1_def)
  note call = claim_def len_num_def inum_def [symmetric] pending_list.simps
  show ?thesis
  proof (cases "target = NextTurn")
    case True
    have "mutate NextTurn (inum 0) (inum 1) [] False now ib1
      = (\<lparr>ib_lists = (ib_lists ib1)\<lparr>ib_nextTurn := drop 1 ?turns\<rparr>, ib_session = s', ib_notices = ib_notices ib\<rparr>,
         Inr (take 1 ?turns))"
      using m2 by simp
    then show ?thesis using True unfolding call ms_def
      by (simp add: then_do_def c1) (simp add: ib1_def)
  next
    case False
    then show ?thesis unfolding call ms_def by (simp add: then_do_def c1) (simp add: ib1_def)
  qed
qed

lemma first_duplicate_hit:
  "distinct ys \<Longrightarrow> set ys \<inter> A = {} \<Longrightarrow> x \<in> set ys \<union> A \<Longrightarrow> first_duplicate A (ys @ x # zs) = Some x"
proof (induction ys arbitrary: A)
  case (Cons y ys)
  have "first_duplicate (insert y A) (ys @ x # zs) = Some x"
    using Cons.prems by (intro Cons.IH) auto
  then show ?case using Cons.prems(2) by simp
qed simp

lemma first_duplicate_skip:
  "distinct ys \<Longrightarrow> set ys \<inter> A = {} \<Longrightarrow> first_duplicate A (ys @ zs) = first_duplicate (A \<union> set ys) zs"
proof (induction ys arbitrary: A)
  case (Cons y ys)
  have "first_duplicate A ((y # ys) @ zs) = first_duplicate (insert y A) (ys @ zs)"
    using Cons.prems by auto
  also have "\<dots> = first_duplicate (insert y A \<union> set ys) zs"
    using Cons.prems by (intro Cons.IH) auto
  finally show ?case by simp
qed simp

text \<open>
  Appending a message succeeds exactly when its identity is not pending in
  either list; it then ends the target list, is published as inserted, and the other list is
  unchanged. A duplicate identity is refused by name and nothing changes.
\<close>

theorem inbox_append_message:
  assumes inv: "inbox_inv ib" and j: "isJsonValue (message_json m)"
    and safe: "int (length (pending_list target (ib_lists ib))) \<le> MAX_SAFE_INTEGER"
  shows "if msg_id m \<in> msg_id ` set (ib_nextTurn (ib_lists ib) @ ib_nextStep (ib_lists ib))
    then append_message target m now ib = (ib, Inl (AlreadyPending (msg_id m)))
    else \<exists>s. append_message target m now ib =
      (\<lparr>ib_lists = set_pending target (pending_list target (ib_lists ib) @ [m]) (ib_lists ib),
        ib_session = s, ib_notices = ib_notices ib @ [NoticeInserted m]\<rparr>, Inr [])"
proof -
  let ?xs = "pending_list target (ib_lists ib)"
  let ?dup = "msg_id m \<in> msg_id ` set (ib_nextTurn (ib_lists ib) @ ib_nextStep (ib_lists ib))"
  note u = inbox_inv_unique [OF inv]
  have call: "append_message target m now ib
      = mutate target (inum (int (length ?xs))) (inum (int 0)) [m] True now ib"
    unfolding append_message_def inbox_splice_def len_num_def inum_def [symmetric] by simp
  show ?thesis
  proof (cases ?dup)
    case False
    have "\<exists>s. mutate target (inum (int (length ?xs))) (inum (int 0)) [m] True now ib =
     (\<lparr>ib_lists = set_pending target (splice (length ?xs) (min 0 (length ?xs - length ?xs)) [m] ?xs) (ib_lists ib),
       ib_session = s,
       ib_notices = ib_notices ib
         @ (if True then map NoticeDiscarded (take (min 0 (length ?xs - length ?xs)) (drop (length ?xs) ?xs)) else [])
         @ map NoticeInserted [m]\<rparr>, Inr (take (min 0 (length ?xs - length ?xs)) (drop (length ?xs) ?xs)))"
      using False u j safe
      by (intro mutate_int [OF inv]) (simp_all, cases target, auto simp: unique_ids_def splice_def)
    then show ?thesis using False unfolding call by (simp add: splice_def)
  next
    case True
    define sp where "sp = normalized target (inum (int (length ?xs))) (inum (int 0)) [m] True (length ?xs)"
    have sp: "sp_target sp = target" "sp_start sp = inum (int (length ?xs))" "removed_count sp = inum 0"
      "spliced sp ?xs = ?xs @ [m]"
      by (simp_all only: sp_def spliced_int)
        (simp_all add: normalized_int removed_count_def splice_def Fin_zero del: of_nat_0)
    have dup: "first_duplicate {} (pending_ids target (?xs @ [m]) (ib_lists ib)) = Some (msg_id m)"
    proof -
      let ?t = "map msg_id (ib_nextTurn (ib_lists ib))" and ?s = "map msg_id (ib_nextStep (ib_lists ib))"
      have d: "distinct ?t" "distinct ?s" "set ?t \<inter> set ?s = {}"
        using u by (simp_all add: unique_ids_def)
      have mem: "msg_id m \<in> set ?t \<or> msg_id m \<in> set ?s" using True by auto
      show ?thesis
      proof (cases target)
        case NextStep
        have "first_duplicate {} ((?t @ ?s) @ msg_id m # []) = Some (msg_id m)"
          using d mem by (intro first_duplicate_hit) auto
        then show ?thesis using NextStep by (simp add: pending_ids_def)
      next
        case NextTurn
        have "first_duplicate {} (?t @ msg_id m # ?s) = Some (msg_id m)"
        proof (cases "msg_id m \<in> set ?t")
          case True
          then show ?thesis using d by (intro first_duplicate_hit) auto
        next
          case False
          with mem obtain ys zs where yz: "?s = ys @ msg_id m # zs" by (meson split_list)
          have "first_duplicate {} (?t @ msg_id m # ?s) = first_duplicate (set ?t) (msg_id m # ?s)"
            using first_duplicate_skip [OF d(1), of "{}"] by simp
          also have "\<dots> = first_duplicate (insert (msg_id m) (set ?t)) (ys @ msg_id m # zs)"
            using False yz by simp
          also have "\<dots> = Some (msg_id m)"
            using d(2,3) yz by (intro first_duplicate_hit) auto
          finally show ?thesis .
        qed
        then show ?thesis using NextTurn by (simp add: pending_ids_def)
      qed
    qed
    have "validate_splice sp (ib_lists ib) = Inl (AlreadyPending (msg_id m))"
      using safe dup by (simp add: validate_splice_def Let_def sp safe_int_def)
    then have "append_message target m now ib = (ib, Inl (AlreadyPending (msg_id m)))"
      unfolding call mutate_def Let_def sp_def [symmetric] by simp
    then show ?thesis using True by simp
  qed
qed

subsection \<open>A concrete inbox\<close>

definition msg_a :: message where "msg_a = demo_message ''a'' RoleUser SourceUser [TextBlock ''one'']"
definition msg_b :: message where "msg_b = demo_message ''b'' RoleUser SourceUser [TextBlock ''two'']"
definition msg_c :: message where "msg_c = demo_message ''c'' RoleUser SourceUser [TextBlock ''three'']"

definition inbox_demo_calls :: "(int \<times> inbox_call) list" where
  "inbox_demo_calls = [(1, CallAppendMessage NextTurn msg_a), (2, CallOtherEvent (TurnStart 1) None None),
     (3, CallPrependMessage NextTurn msg_b), (4, CallAppendMessage NextStep msg_c),
     (5, CallAppendMessage NextStep msg_a), (6, CallRemove ''a'')]"

definition inbox_demo :: "(inbox_error, inbox) result" where
  "inbox_demo = (case newSession SnapshotSeed ''s'' None None 0 of
      Inl err \<Rightarrow> Inl (AppendFailed err)
    | Inr s \<Rightarrow> res_map (\<lambda>ib. foldl inbox_step ib inbox_demo_calls) (newInbox s))"

lemma inbox_demo_facts:
  "case newSession SnapshotSeed ''s'' None None 0 of Inl _ \<Rightarrow> False
   | Inr s \<Rightarrow> seed_length s \<le> length (ses_log s)
     \<and> (case newInbox s of Inl _ \<Rightarrow> False
        | Inr ib0 \<Rightarrow> ib_lists (foldl inbox_step ib0 inbox_demo_calls)
            = \<lparr>ib_nextTurn = [msg_b], ib_nextStep = [msg_c]\<rparr>)"
  by code_simp

lemma inbox_demo_obtain:
  obtains s ib0 where "newSession SnapshotSeed ''s'' None None 0 = Inr s"
    "seed_length s \<le> length (ses_log s)" "newInbox s = Inr ib0"
    "ib_lists (foldl inbox_step ib0 inbox_demo_calls) = \<lparr>ib_nextTurn = [msg_b], ib_nextStep = [msg_c]\<rparr>"
    "inbox_inv (foldl inbox_step ib0 inbox_demo_calls)"
proof -
  obtain s ib0 where s: "newSession SnapshotSeed ''s'' None None 0 = Inr s"
    "seed_length s \<le> length (ses_log s)" "newInbox s = Inr ib0"
    "ib_lists (foldl inbox_step ib0 inbox_demo_calls) = \<lparr>ib_nextTurn = [msg_b], ib_nextStep = [msg_c]\<rparr>"
    using inbox_demo_facts by (auto split: sum.splits)
  then show thesis
    by (intro that [OF s] inbox_run_inv newInbox_inv [OF newSession_inv(1) [OF s(1)] s(2,3)])
qed

theorem inbox_replay_is_live_witness:
  "\<exists>s ib0. newSession SnapshotSeed ''s'' None None 0 = Inr s \<and> newInbox s = Inr ib0
    \<and> res_map ib_lists (newInbox (ib_session (foldl inbox_step ib0 inbox_demo_calls)))
      = Inr \<lparr>ib_nextTurn = [msg_b], ib_nextStep = [msg_c]\<rparr>"
proof -
  obtain s ib0 where s: "newSession SnapshotSeed ''s'' None None 0 = Inr s"
    "seed_length s \<le> length (ses_log s)" "newInbox s = Inr ib0"
    and l: "ib_lists (foldl inbox_step ib0 inbox_demo_calls) = \<lparr>ib_nextTurn = [msg_b], ib_nextStep = [msg_c]\<rparr>"
    by (rule inbox_demo_obtain)
  from inbox_replay_is_live [OF s, of inbox_demo_calls] l s show ?thesis by auto
qed

theorem inbox_splice_standard_witness:
  "\<exists>ib ib' removed. inbox_inv ib
    \<and> inbox_splice NextTurn NegInf (Fin (3 / 2)) [msg_a] 9 ib = (ib', Inr removed)
    \<and> removed = [msg_b] \<and> pending_list NextTurn (ib_lists ib') = [msg_a]"
proof -
  obtain s ib0 where l: "ib_lists (foldl inbox_step ib0 inbox_demo_calls) = \<lparr>ib_nextTurn = [msg_b], ib_nextStep = [msg_c]\<rparr>"
    and inv: "inbox_inv (foldl inbox_step ib0 inbox_demo_calls)"
    and s: "newSession SnapshotSeed ''s'' None None 0 = Inr s" "newInbox s = Inr ib0"
    by (rule inbox_demo_obtain)
  let ?ib = "foldl inbox_step ib0 inbox_demo_calls"
  have "case newSession SnapshotSeed ''s'' None None 0 of Inl _ \<Rightarrow> False
     | Inr s \<Rightarrow> (case newInbox s of Inl _ \<Rightarrow> False
        | Inr ib0 \<Rightarrow> is_ok (snd (inbox_splice NextTurn NegInf (Fin (3 / 2)) [msg_a] 9
            (foldl inbox_step ib0 inbox_demo_calls))))"
    by code_simp
  then have "is_ok (snd (inbox_splice NextTurn NegInf (Fin (3 / 2)) [msg_a] 9 ?ib))"
    using s by simp
  then obtain ib' removed where r: "inbox_splice NextTurn NegInf (Fin (3 / 2)) [msg_a] 9 ?ib = (ib', Inr removed)"
    by (cases "inbox_splice NextTurn NegInf (Fin (3 / 2)) [msg_a] 9 ?ib") (auto simp: is_ok_iff)
  have "std_start NegInf 1 = 0" "std_count NegInf (Fin (3 / 2)) 1 = 1" by code_simp+
  with inbox_splice_standard [OF inv r] l r inv show ?thesis by (auto simp: splice_def)
qed

theorem inbox_splice_negative_zero_witness:
  "\<exists>ib err. inbox_inv ib \<and> hasPending (ib_lists ib)
    \<and> inbox_splice NextTurn (Fin (- 1 / 2)) (num_of_int 1) [] 9 ib = (ib, Inl err)"
proof -
  obtain s ib0 where l: "ib_lists (foldl inbox_step ib0 inbox_demo_calls) = \<lparr>ib_nextTurn = [msg_b], ib_nextStep = [msg_c]\<rparr>"
    and inv: "inbox_inv (foldl inbox_step ib0 inbox_demo_calls)"
    by (rule inbox_demo_obtain)
  have z: "js_trunc (Fin (- 1 / 2)) = NegZero" "std_count (Fin (- 1 / 2)) (num_of_int 1) 1 \<noteq> 0"
    by code_simp+
  from inbox_splice_negative_zero [OF inv z(1), of "[]" "num_of_int 1" NextTurn 9] z(2) l inv
  show ?thesis by (auto simp: hasPending_def)
qed

theorem inbox_claim_batch_witness:
  "\<exists>ib ib'. inbox_inv ib \<and> claim NextTurn 1 9 ib = (ib', Inr [msg_c, msg_b])
    \<and> \<not> hasPending (ib_lists ib')"
proof -
  obtain s ib0 where l: "ib_lists (foldl inbox_step ib0 inbox_demo_calls) = \<lparr>ib_nextTurn = [msg_b], ib_nextStep = [msg_c]\<rparr>"
    and inv: "inbox_inv (foldl inbox_step ib0 inbox_demo_calls)"
    by (rule inbox_demo_obtain)
  have "int (length (ib_nextStep (ib_lists (foldl inbox_step ib0 inbox_demo_calls)))) \<le> MAX_SAFE_INTEGER"
    "int (length (ib_nextTurn (ib_lists (foldl inbox_step ib0 inbox_demo_calls)))) \<le> MAX_SAFE_INTEGER"
    by (simp_all add: l MAX_SAFE_INTEGER_def)
  from inbox_claim_batch [OF inv this refl, of NextTurn 1 9] l inv
  show ?thesis by (auto simp: hasPending_def)
qed

theorem inbox_append_message_witness:
  "\<exists>ib s. inbox_inv ib
    \<and> append_message NextStep msg_b 9 ib = (ib, Inl (AlreadyPending ''b''))
    \<and> append_message NextStep msg_a 9 ib =
      (\<lparr>ib_lists = \<lparr>ib_nextTurn = [msg_b], ib_nextStep = [msg_c, msg_a]\<rparr>, ib_session = s,
        ib_notices = ib_notices ib @ [NoticeInserted msg_a]\<rparr>, Inr [])"
proof -
  obtain s ib0 where l: "ib_lists (foldl inbox_step ib0 inbox_demo_calls) = \<lparr>ib_nextTurn = [msg_b], ib_nextStep = [msg_c]\<rparr>"
    and inv: "inbox_inv (foldl inbox_step ib0 inbox_demo_calls)"
    by (rule inbox_demo_obtain)
  have j: "isJsonValue (message_json msg_a)" "isJsonValue (message_json msg_b)" by code_simp+
  have safe: "int (length (pending_list NextStep (ib_lists (foldl inbox_step ib0 inbox_demo_calls)))) \<le> MAX_SAFE_INTEGER"
    by (simp add: l MAX_SAFE_INTEGER_def)
  have ids: "msg_id msg_a = ''a''" "msg_id msg_b = ''b''" "msg_id msg_c = ''c''" by code_simp+
  from inbox_append_message [OF inv j(1) safe, of 9] inbox_append_message [OF inv j(2) safe, of 9] l inv
  show ?thesis by (auto simp: ids)
qed

end
