(* ===== verification/Session_Trace.thy ===== *)
theory Session_Trace
  imports Session_Events
begin

text \<open>
  The relational invariant of a session log (\<open>core/session/src/invariant.ts\<close>): turns and steps
  nest and are numbered from one, execution events name the open step, and a tool result answers
  a call of its step. An event is validated against the committed trace first; the transition is
  applied after the event commits.
\<close>

record session_trace =
  tr_lastSeq :: int
  tr_openTurn :: "int option"
  tr_openStep :: "int option"
  tr_nextTurn :: int
  tr_nextStep :: int
  tr_pendingCalls :: "string set"

datatype pending_change = PendingNone | PendingAdd string | PendingDelete string | PendingClear

record trace_transition =
  tt_lastSeq :: int
  tt_openTurn :: "int option"
  tt_openStep :: "int option"
  tt_nextTurn :: int
  tt_nextStep :: int
  tt_pending :: pending_change

datatype trace_error =
    SeqNotIncreasing
  | TurnStillOpen
  | UnexpectedTurn
  | TurnMismatch
  | StepStillOpen
  | UnexpectedStep
  | NotOpenStep
  | OutsideTurn
  | NoPriorCall

definition freshTrace :: session_trace where
  "freshTrace = \<lparr>tr_lastSeq = - 1, tr_openTurn = None, tr_openStep = None,
     tr_nextTurn = 1, tr_nextStep = 1, tr_pendingCalls = {}\<rparr>"

definition TOOL_NOT_STARTED :: string where
  "TOOL_NOT_STARTED = ''TOOL_NOT_STARTED''"

definition TOOL_OUTCOME_UNKNOWN :: string where
  "TOOL_OUTCOME_UNKNOWN = ''TOOL_OUTCOME_UNKNOWN''"

definition requireOpenStep :: "session_trace \<Rightarrow> int \<Rightarrow> int \<Rightarrow> (trace_error, unit) result" where
  "requireOpenStep tr turn step =
     throw_if (tr_openTurn tr \<noteq> Some turn \<or> tr_openStep tr \<noteq> Some step) NotOpenStep"

text \<open>The transition that only advances the sequence number.\<close>

definition keep_scalars :: "session_trace \<Rightarrow> event \<Rightarrow> trace_transition" where
  "keep_scalars tr e = \<lparr>tt_lastSeq = ev_seq e, tt_openTurn = tr_openTurn tr,
     tt_openStep = tr_openStep tr, tt_nextTurn = tr_nextTurn tr, tt_nextStep = tr_nextStep tr,
     tt_pending = PendingNone\<rparr>"

fun block_is_error :: "content_block list \<Rightarrow> bool" where
  "block_is_error (ToolResultBlock _ _ (Some True) # _) = True"
| "block_is_error _ = False"

definition synthetic_not_started :: "message \<Rightarrow> (string \<times> string) option \<Rightarrow> bool" where
  "synthetic_not_started m err =
     (block_is_error (msg_content m)
      \<and> (case err of Some (_, code) \<Rightarrow> code = TOOL_NOT_STARTED | None \<Rightarrow> False))"

fun validateByType ::
  "session_trace \<Rightarrow> event \<Rightarrow> event_data \<Rightarrow> (trace_error, trace_transition) result" where
  "validateByType tr e (TurnStart turn) =
     bindE (throw_if (tr_openTurn tr \<noteq> None) TurnStillOpen) (\<lambda>_.
     bindE (throw_if (turn \<noteq> tr_nextTurn tr) UnexpectedTurn) (\<lambda>_.
       Inr ((keep_scalars tr e)\<lparr>tt_openTurn := Some turn, tt_nextStep := 1\<rparr>)))"
| "validateByType tr e (TurnEnd turn reason) =
     bindE (throw_if (tr_openTurn tr \<noteq> Some turn) TurnMismatch) (\<lambda>_.
     bindE (throw_if (tr_openStep tr \<noteq> None) StepStillOpen) (\<lambda>_.
       Inr ((keep_scalars tr e)\<lparr>tt_openTurn := None, tt_nextTurn := tr_nextTurn tr + 1\<rparr>)))"
| "validateByType tr e (StepStart turn step) =
     bindE (throw_if (tr_openTurn tr \<noteq> Some turn) TurnMismatch) (\<lambda>_.
     bindE (throw_if (tr_openStep tr \<noteq> None) StepStillOpen) (\<lambda>_.
     bindE (throw_if (step \<noteq> tr_nextStep tr) UnexpectedStep) (\<lambda>_.
       Inr ((keep_scalars tr e)\<lparr>tt_openStep := Some step\<rparr>))))"
| "validateByType tr e (StepEnd turn step) =
     bindE (requireOpenStep tr turn step) (\<lambda>_.
       Inr ((keep_scalars tr e)\<lparr>tt_openStep := None, tt_nextStep := tr_nextStep tr + 1,
              tt_pending := PendingClear\<rparr>))"
| "validateByType tr e (AssistantChunk turn step c) =
     bindE (requireOpenStep tr turn step) (\<lambda>_. Inr (keep_scalars tr e))"
| "validateByType tr e (AssistantMessage turn step m u) =
     bindE (requireOpenStep tr turn step) (\<lambda>_. Inr (keep_scalars tr e))"
| "validateByType tr e (ToolCall turn step callId nm args) =
     bindE (requireOpenStep tr turn step) (\<lambda>_.
       Inr ((keep_scalars tr e)\<lparr>tt_pending := PendingAdd callId\<rparr>))"
| "validateByType tr e (ToolResult turn step m err meta) =
     (if ev_surfaceOp e \<noteq> Some (JStr ''append'') then
        bindE (throw_if (tr_openTurn tr = None) OutsideTurn) (\<lambda>_. Inr (keep_scalars tr e))
      else
        bindE (requireOpenStep tr turn step) (\<lambda>_.
        bindE (throw_if (result_call_id m \<notin> tr_pendingCalls tr \<and> \<not> synthetic_not_started m err)
                 NoPriorCall) (\<lambda>_.
          Inr ((keep_scalars tr e)\<lparr>tt_pending := PendingDelete (result_call_id m)\<rparr>))))"
| "validateByType tr e (TodoWrite ts) =
     bindE (throw_if (tr_openTurn tr = None) OutsideTurn) (\<lambda>_. Inr (keep_scalars tr e))"
| "validateByType tr e (RequestHeader h r) =
     bindE (throw_if (tr_openTurn tr = None) OutsideTurn) (\<lambda>_. Inr (keep_scalars tr e))"
| "validateByType tr e (RequestContext c) =
     bindE (throw_if (tr_openTurn tr = None) OutsideTurn) (\<lambda>_. Inr (keep_scalars tr e))"
| "validateByType tr e _ = Inr (keep_scalars tr e)"

definition validateEvent :: "session_trace \<Rightarrow> event \<Rightarrow> (trace_error, trace_transition) result" where
  "validateEvent tr e =
     bindE (throw_if (ev_seq e \<le> tr_lastSeq tr) SeqNotIncreasing) (\<lambda>_.
       validateByType tr e (ev_data e))"

fun change_pending :: "pending_change \<Rightarrow> string set \<Rightarrow> string set" where
  "change_pending PendingNone s = s"
| "change_pending (PendingAdd c) s = insert c s"
| "change_pending (PendingDelete c) s = s - {c}"
| "change_pending PendingClear s = {}"

definition applyTransition :: "session_trace \<Rightarrow> trace_transition \<Rightarrow> session_trace" where
  "applyTransition tr t =
     \<lparr>tr_lastSeq = tt_lastSeq t, tr_openTurn = tt_openTurn t, tr_openStep = tt_openStep t,
      tr_nextTurn = tt_nextTurn t, tr_nextStep = tt_nextStep t,
      tr_pendingCalls = change_pending (tt_pending t) (tr_pendingCalls tr)\<rparr>"

definition traceStep :: "session_trace \<Rightarrow> event \<Rightarrow> (trace_error, session_trace) result" where
  "traceStep tr e = bindE (validateEvent tr e) (\<lambda>t. Inr (applyTransition tr t))"

text \<open>\<open>seedSession\<close>: the trace of a whole log.\<close>

definition traceOf :: "event list \<Rightarrow> (trace_error, session_trace) result" where
  "traceOf es = foldE traceStep freshTrace es"

subsection \<open>The invariant of accepted traces\<close>

definition trace_inv :: "session_trace \<Rightarrow> bool" where
  "trace_inv tr =
     ((tr_openTurn tr = None \<longrightarrow> tr_openStep tr = None)
      \<and> (case tr_openTurn tr of None \<Rightarrow> True | Some t \<Rightarrow> t = tr_nextTurn tr)
      \<and> (case tr_openStep tr of None \<Rightarrow> True | Some s \<Rightarrow> s = tr_nextStep tr)
      \<and> 1 \<le> tr_nextTurn tr \<and> 1 \<le> tr_nextStep tr
      \<and> (tr_openStep tr = None \<longrightarrow> tr_pendingCalls tr = {}))"

lemmas trace_defs = traceStep_def validateEvent_def applyTransition_def keep_scalars_def
  requireOpenStep_def

lemma trace_inv_fresh [simp]: "trace_inv freshTrace"
  by (simp add: trace_inv_def freshTrace_def)

lemma trace_step_inv:
  assumes "trace_inv tr" "traceStep tr e = Inr tr'"
  shows "trace_inv tr'"
  using assms
  by (cases "(tr, e, ev_data e)" rule: validateByType.cases)
    (auto simp: trace_defs trace_inv_def split: if_splits option.splits)

lemma traceOf_snoc: "traceOf (es @ [e]) = bindE (traceOf es) (\<lambda>tr. traceStep tr e)"
  by (cases "traceOf es") (auto simp: traceOf_def foldE_append bindE_def split: sum.splits)

lemma traceOf_append: "traceOf (es @ xs) = bindE (traceOf es) (\<lambda>tr. foldE traceStep tr xs)"
  by (simp add: traceOf_def foldE_append)

lemma traceOf_inv: "traceOf es = Inr tr \<Longrightarrow> trace_inv tr"
  unfolding traceOf_def
  by (rule foldE_invariant [where I = trace_inv]) (auto intro: trace_step_inv)

end
