(* ===== verification/Driver_Trace.thy ===== *)
theory Driver_Trace
  imports Tool_Scheduler Inbox_Facts Session_Trace
begin

text \<open>
  What the agent's own appends and everybody else's do to the trace of its log: the turn and step that
  are open, the calls waiting for a result, and the records of one step's tool calls. Between the
  appends of the driver the log grows by events that are neutral for the trace.
\<close>

subsection \<open>Neutral growth\<close>

text \<open>
  Events other plugins and the inbox append. The driver's own kinds are not among them; a todo list is
  written inside a turn only.
\<close>

fun neutral :: "bool \<Rightarrow> event_data \<Rightarrow> bool" where
  "neutral opened (UserMessage _) = True"
| "neutral opened (TodoWrite _) = opened"
| "neutral opened EndSeed = True"
| "neutral opened (InboxSpliced _) = True"
| "neutral opened (GoalChange _) = True"
| "neutral opened (CompactionStart _) = True"
| "neutral opened (CompactionSummary _) = True"
| "neutral opened (CompactionEnd _ _) = True"
| "neutral opened (CompactionPrune _ _ _ _) = True"
| "neutral opened (OtherEvent _ _) = True"
| "neutral opened _ = False"

definition inbox_log :: "inbox \<Rightarrow> event list" where
  "inbox_log ib = ses_log (ib_session ib)"

definition grows_by :: "(event_data \<Rightarrow> bool) \<Rightarrow> inbox \<Rightarrow> inbox \<Rightarrow> bool" where
  "grows_by Q ib ib' =
     (inbox_inv ib' \<and> (\<exists>es. inbox_log ib' = inbox_log ib @ es \<and> (\<forall>e \<in> set es. Q (ev_data e))))"

abbreviation grows :: "bool \<Rightarrow> inbox \<Rightarrow> inbox \<Rightarrow> bool" where
  "grows opened \<equiv> grows_by (neutral opened)"

lemma grows_refl [simp, intro]: "inbox_inv ib \<Longrightarrow> grows_by Q ib ib"
  by (simp add: grows_by_def)

lemma grows_trans: "grows_by Q x y \<Longrightarrow> grows_by Q y z \<Longrightarrow> grows_by Q x z"
  by (fastforce simp: grows_by_def)

lemma grows_inv: "grows_by Q x y \<Longrightarrow> inbox_inv y"
  by (simp add: grows_by_def)

lemma grows_notices: "grows_by Q x y \<Longrightarrow> grows_by Q x (y\<lparr>ib_notices := ns\<rparr>)"
  by (simp add: grows_by_def inbox_log_def)

subsection \<open>Appends on the inbox's session\<close>

lemma append_on_cases:
  assumes inv: "inbox_inv ib" and n: "\<not> is_splice d"
  obtains err where "append_on now d op srcs ib = (ib, Inl err)"
  | s where "append_on now d op srcs ib = (ib\<lparr>ib_session := s\<rparr>, Inr (int (length (inbox_log ib))))"
      "inbox_inv (ib\<lparr>ib_session := s\<rparr>)"
      "ses_log s = inbox_log ib @ [next_event (ib_session ib) now d op srcs]"
proof (cases "append_detached (ib_session ib) now d op srcs")
  case (Inl err)
  then show thesis using that(1) by (simp add: append_on_def)
next
  case (Inr r)
  obtain s e where r: "r = (s, e)" by (cases r)
  have si: "session_inv (ib_session ib)" using inv by (simp add: inbox_inv_def)
  note a = append_inv [OF si Inr [unfolded r]]
  have seq: "ev_seq e = int (length (inbox_log ib))" using a by (simp add: next_event_def inbox_log_def)
  show thesis
  proof (rule that(2))
    show "append_on now d op srcs ib = (ib\<lparr>ib_session := s\<rparr>, Inr (int (length (inbox_log ib))))"
      by (simp add: append_on_def Inr r seq)
    show "inbox_inv (ib\<lparr>ib_session := s\<rparr>)" by (rule other_inv [OF inv n Inr [unfolded r]])
    show "ses_log s = inbox_log ib @ [next_event (ib_session ib) now d op srcs]"
      using a by (simp add: inbox_log_def)
  qed
qed

lemma next_event_sel [simp]:
  "ev_data (next_event s now d op srcs) = d" "ev_surfaceOp (next_event s now d op srcs) = op"
  "ev_sourceEventSeqs (next_event s now d op srcs) = srcs"
  "ev_seq (next_event s now d op srcs) = int (length (ses_log s))"
  by (simp_all add: next_event_def)

lemma mutate_grows:
  assumes inv: "inbox_inv ib" and Q: "\<And>sp. Q (InboxSpliced sp)"
  shows "grows_by Q ib (fst (mutate target start del ins dr now ib))"
proof -
  have si: "session_inv (ib_session ib)" using inv by (simp add: inbox_inv_def)
  note inv' = mutate_inv [OF inv, of target start del ins dr now]
  show ?thesis
  proof (rule mutate_cases [OF si, of target start del ins dr now])
    fix sp s e
    assume "append_detached (ib_session ib) now (InboxSpliced sp) None None = Inr (s, e)"
      and m: "mutate target start del ins dr now ib =
        (\<lparr>ib_lists = set_pending target (spliced sp (pending_list target (ib_lists ib))) (ib_lists ib),
          ib_session = s,
          ib_notices = ib_notices ib
            @ (if dr then map NoticeDiscarded (cut_out sp (pending_list target (ib_lists ib))) else [])
            @ map NoticeInserted ins\<rparr>, Inr (cut_out sp (pending_list target (ib_lists ib))))"
    then show ?thesis using inv' Q append_inv [OF si] by (fastforce simp: grows_by_def inbox_log_def)
  qed (use inv in \<open>simp_all\<close>)
qed

lemma then_do_grows:
  assumes "grows_by Q ib (fst p)" "\<And>x ib'. grows_by Q ib ib' \<Longrightarrow> grows_by Q ib (fst (f x ib'))"
  shows "grows_by Q ib (fst (then_do p f))"
  using assms by (cases p) (auto simp: then_do_def split: sum.splits)

lemma mutate_grows':
  "grows_by Q ib ib' \<Longrightarrow> (\<And>sp. Q (InboxSpliced sp)) \<Longrightarrow> grows_by Q ib (fst (mutate target start del ins dr now ib'))"
  by (rule grows_trans [OF _ mutate_grows]) (auto dest: grows_inv)

lemma inbox_ops_grow_by:
  assumes inv: "inbox_inv ib" and Q: "\<And>sp. Q (InboxSpliced sp)"
  shows "grows_by Q ib (fst (inbox_splice target start del ins now ib))"
    "grows_by Q ib (fst (append_message target m now ib))"
    "grows_by Q ib (fst (clear_inbox now ib))"
    "grows_by Q ib (fst (claim target turn now ib))"
  by (auto simp: inbox_splice_def append_message_def clear_inbox_def claim_def inv Q
      intro!: then_do_grows mutate_grows mutate_grows' grows_notices)

lemma inbox_ops_grow:
  assumes inv: "inbox_inv ib"
  shows "grows b ib (fst (inbox_splice target start del ins now ib))"
    "grows b ib (fst (append_message target m now ib))"
    "grows b ib (fst (clear_inbox now ib))"
    "grows b ib (fst (claim target turn now ib))"
  by (rule inbox_ops_grow_by [OF inv], simp)+

text \<open>Every call of the inbox interface, and any other event of the given kind.\<close>

fun other_event :: "inbox_call \<Rightarrow> event_data option" where
  "other_event (CallOtherEvent d op srcs) = Some d"
| "other_event _ = None"

fun outside_ok :: "bool \<Rightarrow> inbox_call \<Rightarrow> bool" where
  "outside_ok b (CallOtherEvent d op srcs) = (neutral b d \<and> \<not> is_splice d)"
| "outside_ok b _ = True"

lemma outside_grows_by:
  assumes inv: "inbox_inv ib" and Q: "\<And>sp. Q (InboxSpliced sp)"
    and ok: "\<And>d. other_event c = Some d \<Longrightarrow> Q d \<and> \<not> is_splice d"
  shows "grows_by Q ib (inbox_step ib (now, c))"
proof (cases c)
  case (CallOtherEvent d op srcs)
  with ok have n: "\<not> is_splice d" "Q d" by simp_all
  show ?thesis
  proof (cases "append_detached (ib_session ib) now d op srcs")
    case (Inl err)
    then show ?thesis using inv n by (simp add: CallOtherEvent)
  next
    case (Inr r)
    obtain s e where r: "r = (s, e)" by (cases r)
    have si: "session_inv (ib_session ib)" using inv by (simp add: inbox_inv_def)
    note a = append_inv [OF si Inr [unfolded r]]
    have "inbox_inv (ib\<lparr>ib_session := s\<rparr>)" by (rule other_inv [OF inv n(1) Inr [unfolded r]])
    moreover have "inbox_log (ib\<lparr>ib_session := s\<rparr>) = inbox_log ib @ [e]" "ev_data e = d"
      using a by (simp_all add: inbox_log_def)
    ultimately show ?thesis using n by (auto simp: CallOtherEvent Inr r grows_by_def)
  qed
qed (auto simp: inbox_splice_def clear_inbox_def claim_def append_message_def prepend_message_def
    replace_message_def remove_message_def inv Q intro!: mutate_grows mutate_grows' then_do_grows grows_notices
    split: option.splits)

lemma outside_grows:
  assumes inv: "inbox_inv ib" and ok: "outside_ok b c"
  shows "grows b ib (inbox_step ib (now, c))"
  by (rule outside_grows_by [OF inv]) (use ok in \<open>cases c; simp\<close>)+

subsection \<open>The trace of the log\<close>

text \<open>The trace without its last seq: the open turn, the open step, the next numbers, the waiting calls.\<close>

definition traced :: "inbox \<Rightarrow> int option \<Rightarrow> int option \<Rightarrow> int \<Rightarrow> int \<Rightarrow> string set \<Rightarrow> bool" where
  "traced ib t s nt ns P =
     (inbox_inv ib \<and> (\<exists>tr. traceOf (inbox_log ib) = Inr tr \<and> tr_openTurn tr = t \<and> tr_openStep tr = s
        \<and> tr_nextTurn tr = nt \<and> tr_nextStep tr = ns \<and> tr_pendingCalls tr = P))"

lemma traced_inv: "traced ib t s nt ns P \<Longrightarrow> inbox_inv ib"
  by (simp add: traced_def)

lemma validate_lastSeq: "validateByType tr e d = Inr x \<Longrightarrow> tt_lastSeq x = ev_seq e"
  by (cases "(tr, e, d)" rule: validateByType.cases)
    (auto simp: keep_scalars_def requireOpenStep_def split: if_splits)

lemma log_lastSeq:
  "traceOf es = Inr tr \<Longrightarrow> tr_lastSeq tr = (if es = [] then - 1 else ev_seq (last es))"
proof (induction es arbitrary: tr rule: rev_induct)
  case Nil
  then show ?case by (auto simp: traceOf_def freshTrace_def)
next
  case (snoc e es)
  then obtain tr0 where "traceOf es = Inr tr0" "traceStep tr0 e = Inr tr" by (auto simp: traceOf_snoc)
  then show ?case by (auto simp: traceStep_def validateEvent_def applyTransition_def validate_lastSeq)
qed

lemma trace_next:
  assumes inv: "inbox_inv ib" and tr: "traceOf (inbox_log ib) = Inr tr"
  shows "tr_lastSeq tr < int (length (inbox_log ib))"
proof (cases "inbox_log ib = []")
  case True
  then show ?thesis using log_lastSeq [OF tr] by simp
next
  case False
  have si: "session_inv (ib_session ib)" using inv by (simp add: inbox_inv_def)
  then obtain st where "fold_state (inbox_log ib) = Inr st"
    by (auto simp: session_inv_def is_ok_iff inbox_log_def)
  from fold_state_seq [OF this False] log_lastSeq [OF tr] False show ?thesis by simp
qed

lemma trace_snoc:
  assumes inv: "inbox_inv ib" and tr: "traceOf (inbox_log ib) = Inr tr"
    and e: "ev_seq e = int (length (inbox_log ib))" and v: "validateByType tr e (ev_data e) = Inr x"
  shows "traceOf (inbox_log ib @ [e]) = Inr (applyTransition tr x)"
  using trace_next [OF inv tr] v by (simp add: traceOf_snoc tr traceStep_def validateEvent_def e)

lemma neutral_step:
  assumes "neutral (tr_openTurn tr \<noteq> None) (ev_data e)"
  shows "validateByType tr e (ev_data e) = Inr (keep_scalars tr e)"
  using assms by (cases "(tr, e, ev_data e)" rule: validateByType.cases) auto

lemma keep_apply [simp]:
  "tr_openTurn (applyTransition tr (keep_scalars tr e)) = tr_openTurn tr"
  "tr_openStep (applyTransition tr (keep_scalars tr e)) = tr_openStep tr"
  "tr_nextTurn (applyTransition tr (keep_scalars tr e)) = tr_nextTurn tr"
  "tr_nextStep (applyTransition tr (keep_scalars tr e)) = tr_nextStep tr"
  "tr_pendingCalls (applyTransition tr (keep_scalars tr e)) = tr_pendingCalls tr"
  by (simp_all add: applyTransition_def keep_scalars_def)

lemma fold_state_seqs:
  assumes "inbox_inv ib" "i < length (inbox_log ib)"
  shows "ev_seq (inbox_log ib ! i) = int i"
proof -
  obtain st where "fold_state (inbox_log ib) = Inr st"
    using assms(1) by (auto simp: inbox_inv_def session_inv_def is_ok_iff inbox_log_def)
  from fold_state_nth_seq [OF this assms(2)] show ?thesis .
qed

lemma foldE_neutral:
  assumes "\<forall>e \<in> set es. neutral (tr_openTurn tr \<noteq> None) (ev_data e)"
    and "\<forall>i < length es. ev_seq (es ! i) = k + int i" and "tr_lastSeq tr < k"
  shows "\<exists>tr'. foldE traceStep tr es = Inr tr' \<and> tr_openTurn tr' = tr_openTurn tr
    \<and> tr_openStep tr' = tr_openStep tr \<and> tr_nextTurn tr' = tr_nextTurn tr
    \<and> tr_nextStep tr' = tr_nextStep tr \<and> tr_pendingCalls tr' = tr_pendingCalls tr"
  using assms
proof (induction es arbitrary: tr k)
  case Nil
  then show ?case by simp
next
  case (Cons e es)
  let ?tr = "applyTransition tr (keep_scalars tr e)"
  from Cons.prems(2) have "ev_seq ((e # es) ! 0) = k + int 0" by blast
  then have s: "ev_seq e = k" by simp
  have "traceStep tr e = Inr ?tr"
    using Cons.prems(1,3) s by (simp add: traceStep_def validateEvent_def neutral_step)
  moreover have "tr_lastSeq ?tr < k + 1"
    by (simp add: applyTransition_def keep_scalars_def s)
  moreover have "\<forall>i < length es. ev_seq (es ! i) = k + 1 + int i"
  proof (intro allI impI)
    fix i assume "i < length es"
    then have "ev_seq ((e # es) ! Suc i) = k + int (Suc i)"
      using Cons.prems(2) by (metis Suc_less_eq length_Cons)
    then show "ev_seq (es ! i) = k + 1 + int i" by simp
  qed
  ultimately show ?case using Cons.IH [of ?tr "k + 1"] Cons.prems(1) by simp
qed

lemma traced_grows:
  assumes t: "traced ib t s nt ns P" and g: "grows b ib ib'" and b: "b \<longrightarrow> t \<noteq> None"
  shows "traced ib' t s nt ns P"
proof -
  from t obtain tr where inv: "inbox_inv ib" and tr: "traceOf (inbox_log ib) = Inr tr"
    and v: "tr_openTurn tr = t" "tr_openStep tr = s" "tr_nextTurn tr = nt" "tr_nextStep tr = ns"
      "tr_pendingCalls tr = P"
    by (auto simp: traced_def)
  from g obtain es where inv': "inbox_inv ib'" and log: "inbox_log ib' = inbox_log ib @ es"
    and n: "\<forall>e \<in> set es. neutral b (ev_data e)"
    by (auto simp: grows_by_def)
  have mono: "neutral b d \<Longrightarrow> neutral (t \<noteq> None) d" for d using b by (cases d) auto
  have seqs: "\<forall>i < length es. ev_seq (es ! i) = int (length (inbox_log ib)) + int i"
  proof (intro allI impI)
    fix i assume "i < length es"
    then show "ev_seq (es ! i) = int (length (inbox_log ib)) + int i"
      using fold_state_seqs [OF inv', of "length (inbox_log ib) + i"] by (simp add: log)
  qed
  have "\<exists>tr'. foldE traceStep tr es = Inr tr' \<and> tr_openTurn tr' = tr_openTurn tr
    \<and> tr_openStep tr' = tr_openStep tr \<and> tr_nextTurn tr' = tr_nextTurn tr
    \<and> tr_nextStep tr' = tr_nextStep tr \<and> tr_pendingCalls tr' = tr_pendingCalls tr"
    by (rule foldE_neutral [OF _ seqs trace_next [OF inv tr]]) (use n mono v(1) in blast)
  then show ?thesis using inv' v by (auto simp: traced_def log traceOf_append tr)
qed

text \<open>One append of the driver itself.\<close>

lemma traced_append:
  assumes t: "traced ib t s nt ns P" and n: "\<not> is_splice d"
    and a: "append_on now d op srcs ib = (ib', Inr seq)"
    and v: "\<And>tr. tr_openTurn tr = t \<Longrightarrow> tr_openStep tr = s \<Longrightarrow> tr_nextTurn tr = nt
      \<Longrightarrow> tr_nextStep tr = ns \<Longrightarrow> tr_pendingCalls tr = P \<Longrightarrow> trace_inv tr
      \<Longrightarrow> \<exists>x. validateByType tr (next_event (ib_session ib) now d op srcs) d = Inr x
        \<and> tt_openTurn x = t' \<and> tt_openStep x = s' \<and> tt_nextTurn x = nt' \<and> tt_nextStep x = ns'
        \<and> change_pending (tt_pending x) P = P'"
  shows "traced ib' t' s' nt' ns' P'"
proof -
  from t obtain tr where inv: "inbox_inv ib" and tr: "traceOf (inbox_log ib) = Inr tr"
    and w: "tr_openTurn tr = t" "tr_openStep tr = s" "tr_nextTurn tr = nt" "tr_nextStep tr = ns"
      "tr_pendingCalls tr = P"
    by (auto simp: traced_def)
  let ?e = "next_event (ib_session ib) now d op srcs"
  from v [OF w traceOf_inv [OF tr]] obtain x where x: "validateByType tr ?e d = Inr x"
    and r: "tt_openTurn x = t'" "tt_openStep x = s'" "tt_nextTurn x = nt'" "tt_nextStep x = ns'"
      "change_pending (tt_pending x) P = P'" by blast
  show ?thesis
  proof (rule append_on_cases [OF inv n, of now op srcs])
    fix err assume "append_on now d op srcs ib = (ib, Inl err)"
    with a show ?thesis by simp
  next
    fix ss
    assume b: "append_on now d op srcs ib = (ib\<lparr>ib_session := ss\<rparr>, Inr (int (length (inbox_log ib))))"
      and i: "inbox_inv (ib\<lparr>ib_session := ss\<rparr>)" and l: "ses_log ss = inbox_log ib @ [?e]"
    have "traceOf (inbox_log ib @ [?e]) = Inr (applyTransition tr x)"
      by (rule trace_snoc [OF inv tr]) (simp_all add: inbox_log_def x)
    then show ?thesis using a b i l r w(5)
      by (auto simp: traced_def inbox_log_def applyTransition_def)
  qed
qed

lemma append_on_fail: "append_on now d op srcs ib = (ib', Inl err) \<Longrightarrow> ib' = ib"
  by (auto simp: append_on_def split: sum.splits)

end
