(* ===== verification/Tool_Scheduler_Facts.thy ===== *)
theory Tool_Scheduler_Facts
  imports Driver_Trace
begin

text \<open>
  What the scheduler guarantees for one step's calls, whatever the tools answer, whenever their bodies
  settle and whatever else happens on the agent meanwhile: records in model order, every call answered
  with a citation of its own record, a bounded pool, and an end.
\<close>

subsection \<open>The shape of a pool\<close>

text \<open>
  \<open>placed_in b p\<close>: the calls below \<open>b\<close> have left \<open>startCall\<close>. Each of them is committed, settled or
  in flight, and a failure keeps its body in flight (\<open>covered\<close>); a slot that waits for its commit waits for a race (\<open>no_gap\<close>).
\<close>

definition placed_in :: "nat \<Rightarrow> pool \<Rightarrow> bool" where
  "placed_in b p =
     (po_committed p \<le> b \<and> b \<le> po_started p \<and> po_started p \<le> length (po_group p)
      \<and> distinct (po_inFlight p) \<and> length (po_inFlight p) \<le> po_limit p
      \<and> set (po_inFlight p) \<subseteq> {..<b} \<and> set (po_settled p) \<subseteq> {..<b}
      \<and> (\<forall>i. po_slots p i \<noteq> None \<longrightarrow> i < b)
      \<and> (\<forall>i \<in> set (po_inFlight p). i \<notin> set (po_settled p) \<longrightarrow> po_slots p i = None \<and> po_committed p \<le> i)
      \<and> (\<forall>i \<in> set (po_inFlight p). i \<in> set (po_settled p) \<longrightarrow> po_slots p i \<noteq> None \<or> po_failure p \<noteq> None)
      \<and> (\<not> po_parallel p \<longrightarrow> length (po_group p) = 1))"

definition covered :: "nat \<Rightarrow> pool \<Rightarrow> bool" where
  "covered b p = ((\<forall>k < b. k < po_committed p \<or> po_slots p k \<noteq> None \<or> k \<in> set (po_inFlight p))
     \<and> (po_failure p \<noteq> None \<longrightarrow> po_inFlight p \<noteq> []))"

definition no_gap :: "pool \<Rightarrow> bool" where
  "no_gap p = (po_slots p (po_committed p) = None \<or> po_committed p \<in> set (po_inFlight p))"

definition begun :: "pool \<Rightarrow> bool" where
  "begun p = (po_aborted p \<or> 0 < po_started p \<or> po_limit p = 0 \<or> po_group p = [])"

definition settled_pool :: "pool \<Rightarrow> bool" where
  "settled_pool p = (placed_in (po_started p) p \<and> covered (po_started p) p \<and> po_nextToStart p = po_started p)"

definition pool_shape :: "pool \<Rightarrow> bool" where
  "pool_shape p =
     (case po_pc p of
        AtPrepare \<Rightarrow> placed_in (po_nextToStart p) p \<and> covered (po_nextToStart p) p
          \<and> po_started p = Suc (po_nextToStart p) \<and> length (po_inFlight p) < po_limit p
      | AtStarted \<Rightarrow> placed_in (po_started p) p \<and> covered (po_started p) p
          \<and> po_started p = Suc (po_nextToStart p)
      | AtFinalize site \<Rightarrow> settled_pool p \<and> po_slots p (po_committed p) \<noteq> None
      | AtCommitted site \<Rightarrow> settled_pool p \<and> no_gap p \<and> 0 < po_started p
      | AtFilled \<Rightarrow> settled_pool p \<and> no_gap p \<and> begun p
      | AtRace \<Rightarrow> settled_pool p \<and> no_gap p \<and> po_inFlight p \<noteq> []
      | AtDrain \<Rightarrow> placed_in (po_started p) p \<and> po_failure p \<noteq> None
      | GroupDone n aborted \<Rightarrow> n \<le> length (po_group p)
          \<and> (if aborted then n = length (po_group p) else 0 < n \<or> po_limit p = 0 \<or> po_group p = [])
      | GroupFailed err \<Rightarrow> True)"

text \<open>The work left: a bound on the transitions to come, the pc's share last.\<close>

definition unsettled :: "pool \<Rightarrow> nat list" where
  "unsettled p = filter (\<lambda>i. i \<notin> set (po_settled p)) (po_inFlight p)"

definition pool_work :: "pool \<Rightarrow> nat" where
  "pool_work p = 12 * (length (po_group p) - po_started p) + (length (po_group p) - po_committed p)
     + 4 * length (po_inFlight p) + length (unsettled p)"

fun pc_work :: "pool_pc \<Rightarrow> nat" where
  "pc_work AtPrepare = 13"
| "pc_work AtStarted = 6"
| "pc_work (AtFinalize site) = 5"
| "pc_work (AtCommitted site) = 4"
| "pc_work AtFilled = 3"
| "pc_work AtRace = 2"
| "pc_work AtDrain = 1"
| "pc_work (GroupDone n b) = 0"
| "pc_work (GroupFailed e) = 0"

definition pool_total :: "pool \<Rightarrow> nat" where
  "pool_total p = pool_work p + pc_work (po_pc p)"

lemmas shape_defs = placed_in_def covered_def no_gap_def begun_def settled_pool_def

lemma pc_update [simp]:
  "placed_in b (p\<lparr>po_pc := c\<rparr>) = placed_in b p" "covered b (p\<lparr>po_pc := c\<rparr>) = covered b p"
  "no_gap (p\<lparr>po_pc := c\<rparr>) = no_gap p" "begun (p\<lparr>po_pc := c\<rparr>) = begun p"
  "settled_pool (p\<lparr>po_pc := c\<rparr>) = settled_pool p" "pool_work (p\<lparr>po_pc := c\<rparr>) = pool_work p"
  "unsettled (p\<lparr>po_pc := c\<rparr>) = unsettled p"
  by (simp_all add: shape_defs pool_work_def unsettled_def)

text \<open>A pool with the failure recorded drains.\<close>

lemma fail_shape:
  assumes "placed_in b p"
  shows "pool_shape (fst (group_fail err (p, ib))) \<and> pool_total (fst (group_fail err (p, ib))) \<le> pool_work p + 1"
  using assms
  by (auto simp: group_fail_def pool_shape_def placed_in_def pool_total_def pool_work_def unsettled_def
      split: option.splits)

text \<open>A settling body only fills its slot or records the first failure.\<close>

lemma filter_drop_one:
  assumes "i \<in> set xs" "distinct xs" "i \<notin> A"
  shows "Suc (length (filter (\<lambda>j. j \<notin> A \<and> j \<noteq> i) xs)) = length (filter (\<lambda>j. j \<notin> A) xs)"
proof -
  have "{j \<in> set xs. j \<notin> A} = insert i {j \<in> set xs. j \<notin> A \<and> j \<noteq> i}" using assms by auto
  then show ?thesis using assms(2) by (simp add: distinct_card [symmetric] flip: card_insert_disjoint)
qed

lemma settle_keeps:
  assumes "i \<in> set (po_inFlight p)" "i \<notin> set (po_settled p)"
  shows "placed_in b p \<Longrightarrow> placed_in b (settle i outcome p)"
    "covered b p \<Longrightarrow> covered b (settle i outcome p)"
    "no_gap p \<Longrightarrow> no_gap (settle i outcome p)" "begun p \<Longrightarrow> begun (settle i outcome p)"
    "distinct (po_inFlight p) \<Longrightarrow> Suc (pool_work (settle i outcome p)) = pool_work p"
proof -
  show "placed_in b p \<Longrightarrow> placed_in b (settle i outcome p)"
    using assms by (cases outcome) (auto simp: settle_def placed_in_def split: option.splits)
  show "covered b p \<Longrightarrow> covered b (settle i outcome p)"
    using assms by (cases outcome) (auto simp: settle_def covered_def)
  show "no_gap p \<Longrightarrow> no_gap (settle i outcome p)" "begun p \<Longrightarrow> begun (settle i outcome p)"
    using assms by (cases outcome; auto simp: settle_def no_gap_def begun_def)+
  assume "distinct (po_inFlight p)"
  from filter_drop_one [OF assms(1) this assms(2)]
  show "Suc (pool_work (settle i outcome p)) = pool_work p"
    by (cases outcome) (simp_all add: settle_def pool_work_def unsettled_def conj_commute)
qed

lemma settle_fields [simp]:
  "po_pc (settle i outcome p) = po_pc p" "po_nextToStart (settle i outcome p) = po_nextToStart p"
  "po_started (settle i outcome p) = po_started p" "po_committed (settle i outcome p) = po_committed p"
  "po_group (settle i outcome p) = po_group p" "po_limit (settle i outcome p) = po_limit p"
  "po_inFlight (settle i outcome p) = po_inFlight p" "po_callSeqs (settle i outcome p) = po_callSeqs p"
  "po_turn (settle i outcome p) = po_turn p" "po_step (settle i outcome p) = po_step p"
  "po_parallel (settle i outcome p) = po_parallel p" "po_aborted (settle i outcome p) = po_aborted p"
  by (cases outcome; simp add: settle_def)+

lemma settle_keeps_slot: "po_slots p k \<noteq> None \<Longrightarrow> po_slots (settle i outcome p) k \<noteq> None"
  by (cases outcome) (auto simp: settle_def)

lemma settle_shape:
  assumes "pool_shape p" "i \<in> set (po_inFlight p)" "i \<notin> set (po_settled p)"
  shows "pool_shape (settle i outcome p)"
  using assms(1) settle_keeps(1,2) [OF assms(2,3), of _ outcome] settle_keeps(3,4) [OF assms(2,3), of outcome]
    settle_keeps_slot [of p _ i outcome]
  by (cases "po_pc p"; cases outcome)
    (auto simp: pool_shape_def settled_pool_def settle_def split: option.splits if_splits)

lemma shape_distinct:
  "pool_shape p \<Longrightarrow> (\<And>n b. po_pc p \<noteq> GroupDone n b) \<Longrightarrow> (\<And>e. po_pc p \<noteq> GroupFailed e)
    \<Longrightarrow> distinct (po_inFlight p)"
  by (cases "po_pc p") (auto simp: pool_shape_def shape_defs)

text \<open>An answer of \<open>prepare\<close> puts the call in flight or settles its slot.\<close>

lemma place_shape:
  assumes "pool_shape p" "po_pc p = AtPrepare" "po_failure p = None"
  shows "pool_shape (fst (place_prepared prep (p, ib)))"
    "pool_total (fst (place_prepared prep (p, ib))) < pool_total p"
proof -
  let ?i = "po_nextToStart p"
  have f: "?i \<notin> set (po_inFlight p)" "?i \<notin> set (po_settled p)" "po_slots p ?i = None" "po_committed p \<le> ?i"
    using assms by (auto simp: pool_shape_def placed_in_def)
  show "pool_shape (fst (place_prepared prep (p, ib)))"
    using assms f by (cases prep) (auto simp: place_prepared_def pool_shape_def placed_in_def covered_def Let_def less_Suc_eq)
  have "pool_work (fst (place_prepared prep (p, ib))) \<le> pool_work p + 5"
    using f by (cases prep) (auto simp: place_prepared_def pool_work_def unsettled_def Let_def)
  then show "pool_total (fst (place_prepared prep (p, ib))) < pool_total p"
    by (cases prep) (auto simp: place_prepared_def pool_total_def Let_def assms(2))
qed

subsection \<open>The ledger of calls\<close>

text \<open>
  What a group keeps true of the agent while it appends: after \<open>S\<close> calls and \<open>C\<close> results are recorded,
  with the seqs of the recorded calls. The scheduler's proofs rest on these laws alone.
\<close>

locale tool_ledger =
  fixes turn step :: int and cs :: "tool_call list"
    and R :: "(nat \<Rightarrow> int) \<Rightarrow> nat \<Rightarrow> nat \<Rightarrow> inbox \<Rightarrow> bool"
  assumes R_inv: "R seqs S C ib \<Longrightarrow> inbox_inv ib"
    and R_seqs: "R seqs S C ib \<Longrightarrow> (\<And>k. k < S \<Longrightarrow> seqs' k = seqs k) \<Longrightarrow> R seqs' S C ib"
    and R_grows: "R seqs S C ib \<Longrightarrow> grows True ib ib' \<Longrightarrow> R seqs S C ib'"
    and R_call: "R seqs S C ib \<Longrightarrow> S < length cs
      \<Longrightarrow> appendToolCall now turn step (cs ! S) ib = (ib', Inr seq) \<Longrightarrow> R (seqs(S := seq)) (Suc S) C ib'"
    and R_result: "R seqs S C ib \<Longrightarrow> C < S \<Longrightarrow> S \<le> length cs
      \<Longrightarrow> appendToolResult now mid turn step (cs ! C) r (seqs C) ib = (ib', Inr seq) \<Longrightarrow> R seqs S (Suc C) ib'"
begin

definition recorded_some :: "inbox \<Rightarrow> bool" where
  "recorded_some ib = (\<exists>seqs S C. C \<le> S \<and> S \<le> length cs \<and> R seqs S C ib)"

definition held :: "nat \<Rightarrow> pool \<Rightarrow> inbox \<Rightarrow> bool" where
  "held off p ib = (\<exists>seqs. R seqs (off + po_started p) (off + po_committed p) ib
     \<and> (\<forall>k < po_started p. seqs (off + k) = po_callSeqs p k))"

definition of_calls :: "nat \<Rightarrow> pool \<Rightarrow> bool" where
  "of_calls off p = (po_turn p = turn \<and> po_step p = step \<and> off + length (po_group p) \<le> length cs
     \<and> (\<forall>k < length (po_group p). po_group p ! k = cs ! (off + k)))"

definition ledger :: "nat \<Rightarrow> pool \<Rightarrow> inbox \<Rightarrow> bool" where
  "ledger off p ib = (of_calls off p \<and>
     (case po_pc p of
        AtDrain \<Rightarrow> recorded_some ib
      | GroupFailed err \<Rightarrow> recorded_some ib
      | GroupDone n aborted \<Rightarrow> (\<exists>seqs. R seqs (off + n) (off + n) ib)
      | _ \<Rightarrow> held off p ib))"

lemma held_pc [simp]: "held off (p\<lparr>po_pc := c\<rparr>) ib = held off p ib"
  by (simp add: held_def)

lemma of_calls_pc [simp]: "of_calls off (p\<lparr>po_pc := c\<rparr>) = of_calls off p"
  by (simp add: of_calls_def)

lemma held_some:
  assumes "held off p ib" "of_calls off p" "po_committed p \<le> po_started p" "po_started p \<le> length (po_group p)"
  shows "recorded_some ib"
  using assms unfolding held_def recorded_some_def of_calls_def
  by (metis add_le_cancel_left le_trans)

lemma append_call_cases:
  assumes "R seqs S C ib" "S < length cs"
  obtains err where "appendToolCall now turn step (cs ! S) ib = (ib, Inl err)"
  | ib' seq where "appendToolCall now turn step (cs ! S) ib = (ib', Inr seq)" "R (seqs(S := seq)) (Suc S) C ib'"
proof (cases "appendToolCall now turn step (cs ! S) ib")
  case (Pair ib' r)
  then show thesis
    using that R_call [OF assms] by (cases r) (auto simp: appendToolCall_def dest: append_on_fail)
qed

lemma append_result_cases:
  assumes "R seqs S C ib" "C < S" "S \<le> length cs"
  obtains err where "appendToolResult now mid turn step (cs ! C) r (seqs C) ib = (ib, Inl err)"
  | ib' q where "appendToolResult now mid turn step (cs ! C) r (seqs C) ib = (ib', Inr q)" "R seqs S (Suc C) ib'"
proof (cases "appendToolResult now mid turn step (cs ! C) r (seqs C) ib")
  case (Pair ib' q)
  then show thesis
    using that R_result [OF assms] by (cases q) (auto simp: appendToolResult_def dest: append_on_fail)
qed

lemma accept_grows: "inbox_inv ib \<Longrightarrow> grows True ib (fst (accept_contexts now ms ib))"
proof (induction ms arbitrary: ib)
  case (Cons m ms)
  note g = inbox_ops_grow(2) [OF Cons.prems, of True NextStep m now]
  show ?case
    using g Cons.IH [OF grows_inv [OF g]]
    by (auto split: prod.splits sum.splits intro: grows_trans)
qed simp

text \<open>Skipping: each remaining call gets its pair of records; a failure leaves a record prefix.\<close>

lemma skip_ledger:
  assumes "R seqs S S ib" "S + length sk \<le> length cs" "\<forall>k < length sk. sk ! k = cs ! (S + k)"
  shows "case skip_calls now ids turn step sk ib of
      (ib', Inl err) \<Rightarrow> recorded_some ib'
    | (ib', Inr _) \<Rightarrow> \<exists>seqs'. R seqs' (S + length sk) (S + length sk) ib'"
  using assms
proof (induction sk arbitrary: seqs S ib)
  case Nil
  then show ?case by auto
next
  case (Cons c sk)
  have c: "c = cs ! S" and lt: "S < length cs" using Cons.prems(2,3) by force+
  note appendSkippedToolCall_def [simp]
  show ?case
  proof (rule append_call_cases [OF Cons.prems(1) lt, of now])
    fix err assume a: "appendToolCall now turn step (cs ! S) ib = (ib, Inl err)"
    have "recorded_some ib" using Cons.prems(1) lt unfolding recorded_some_def
      by (intro exI [of _ seqs] exI [of _ S]) simp
    then show ?thesis using a c by simp
  next
    fix ib1 seq assume a: "appendToolCall now turn step (cs ! S) ib = (ib1, Inr seq)"
      and r1: "R (seqs(S := seq)) (Suc S) S ib1"
    show ?thesis
    proof (rule append_result_cases [OF r1, of now "ids (length sk)" skipped_result])
      fix err assume b: "appendToolResult now (ids (length sk)) turn step (cs ! S) skipped_result ((seqs(S := seq)) S) ib1 = (ib1, Inl err)"
      have "recorded_some ib1" using r1 lt unfolding recorded_some_def
        by (intro exI [of _ "seqs(S := seq)"] exI [of _ "Suc S"] exI [of _ S]) simp
      then show ?thesis using a b c by simp
    next
      fix ib2 q assume b: "appendToolResult now (ids (length sk)) turn step (cs ! S) skipped_result ((seqs(S := seq)) S) ib1 = (ib2, Inr q)"
        and r2: "R (seqs(S := seq)) (Suc S) (Suc S) ib2"
      have "\<forall>k < length sk. sk ! k = cs ! (Suc S + k)" using Cons.prems(3) by force
      from Cons.IH [OF r2 _ this] Cons.prems(2) show ?thesis using a b c
        by (simp split: prod.splits sum.splits)
    qed (use lt in simp_all)
  qed
qed

lemma settled_step:
  assumes "settled_pool p" "po_slots p (po_committed p) \<noteq> None"
  shows "po_committed p < po_started p"
    "settled_pool (p\<lparr>po_concluded := c, po_committed := Suc (po_committed p)\<rparr>)"
    "Suc (pool_work (p\<lparr>po_concluded := c, po_committed := Suc (po_committed p)\<rparr>)) = pool_work p"
proof -
  show lt: "po_committed p < po_started p" using assms by (auto simp: shape_defs)
  show "settled_pool (p\<lparr>po_concluded := c, po_committed := Suc (po_committed p)\<rparr>)"
  proof -
    have "placed_in (po_started p) p" "covered (po_started p) p" using assms(1) by (simp_all add: settled_pool_def)
    note d = this(1) [unfolded placed_in_def] this(2) [unfolded covered_def]
    have "Suc (po_committed p) \<le> i" if i: "i \<in> set (po_inFlight p)" "i \<notin> set (po_settled p)" for i
    proof -
      have "po_slots p i = None" "po_committed p \<le> i" using d(1) i by blast+
      moreover have "i \<noteq> po_committed p" using \<open>po_slots p i = None\<close> assms(2) by metis
      ultimately show ?thesis by simp
    qed
    then have "placed_in (po_started p) (p\<lparr>po_concluded := c, po_committed := Suc (po_committed p)\<rparr>)"
      using d(1) lt by (simp add: placed_in_def)
    moreover have "covered (po_started p) (p\<lparr>po_concluded := c, po_committed := Suc (po_committed p)\<rparr>)"
      using d(2) by (simp add: covered_def) (meson less_SucI)
    ultimately show ?thesis using assms(1) by (simp add: settled_pool_def)
  qed
  show "Suc (pool_work (p\<lparr>po_concluded := c, po_committed := Suc (po_committed p)\<rparr>)) = pool_work p"
    using assms lt by (auto simp: pool_work_def unsettled_def shape_defs)
qed

lemma commit_result_cases:
  assumes sh: "settled_pool p" "po_slots p (po_committed p) \<noteq> None"
    and oc: "of_calls off p" and h: "held off p ib"
  obtains err ib1 where "commit_result env r (p, ib) = ((p, ib1), Inl err)" "recorded_some ib1"
  | ib1 c where "commit_result env r (p, ib) = ((p\<lparr>po_concluded := c, po_committed := Suc (po_committed p)\<rparr>, ib1), Inr ())"
      "held off (p\<lparr>po_concluded := c, po_committed := Suc (po_committed p)\<rparr>) ib1"
proof -
  let ?k = "po_committed p"
  have lt: "?k < po_started p" "po_started p \<le> length (po_group p)"
    using settled_step(1) [OF sh] sh(1) by (simp_all add: shape_defs)
  from h obtain seqs where s: "R seqs (off + po_started p) (off + ?k) ib"
    and k: "\<forall>k < po_started p. seqs (off + k) = po_callSeqs p k" by (auto simp: held_def)
  have call: "po_group p ! ?k = cs ! (off + ?k)" "po_turn p = turn" "po_step p = step"
    "po_callSeqs p ?k = seqs (off + ?k)" "off + po_started p \<le> length cs"
    using oc lt k by (auto simp: of_calls_def)
  have some: "recorded_some ib" by (rule held_some [OF h oc]) (use lt in simp_all)
  note cr = commit_result_def Let_def call
  show thesis
  proof (rule append_result_cases [OF s, of "se_now env" "se_ids env ?k" r])
    fix err
    assume "appendToolResult (se_now env) (se_ids env ?k) turn step (cs ! (off + ?k)) r (seqs (off + ?k)) ib = (ib, Inl err)"
    then show thesis using that(1) some by (simp add: cr)
  next
    fix ib1 q
    assume a: "appendToolResult (se_now env) (se_ids env ?k) turn step (cs ! (off + ?k)) r (seqs (off + ?k)) ib = (ib1, Inr q)"
      and r1: "R seqs (off + po_started p) (Suc (off + ?k)) ib1"
    let ?acc = "accept_contexts (se_now env) (te_contexts r) ib1"
    have r2: "R seqs (off + po_started p) (Suc (off + ?k)) (fst ?acc)"
      by (rule R_grows [OF r1 accept_grows [OF R_inv [OF r1]]])
    show thesis
    proof (cases ?acc)
      case (Pair ib2 res)
      show thesis
      proof (cases res)
        case (Inl err)
        have "recorded_some ib2" unfolding recorded_some_def using r2 lt call(5) Pair
          by (intro exI [of _ seqs] exI [of _ "off + po_started p"] exI [of _ "Suc (off + ?k)"]) simp
        then show thesis using that(1) a Pair Inl by (simp add: cr)
      next
        case (Inr u)
        show thesis
        proof (rule that(2))
          show "commit_result env r (p, ib) = ((p\<lparr>po_concluded := po_concluded p \<or> te_concludes r,
              po_committed := Suc (po_committed p)\<rparr>, ib2), Inr ())"
            using a Pair Inr by (simp add: cr)
          show "held off (p\<lparr>po_concluded := po_concluded p \<or> te_concludes r,
              po_committed := Suc (po_committed p)\<rparr>) ib2"
            using r2 k Pair by (auto simp: held_def)
        qed
      qed
    qed
  qed (use lt call(5) in simp_all)
qed

text \<open>The three loops reach a wait with the shape, the ledger and less work.\<close>

definition reaches :: "nat \<Rightarrow> nat \<Rightarrow> pool_state \<Rightarrow> bool" where
  "reaches off w st = (pool_shape (fst st) \<and> ledger off (fst st) (snd st) \<and> pool_total (fst st) \<le> w)"

lemma fail_reaches:
  assumes "placed_in b p" "of_calls off p" "recorded_some ib" "pool_work p < w"
  shows "reaches off w (group_fail err (p, ib))"
  using fail_shape [OF assms(1), of err ib] assms(2-4)
  by (auto simp: reaches_def ledger_def group_fail_def of_calls_def)

lemma fill_reaches:
  assumes sh: "settled_pool p" "no_gap p" and oc: "of_calls off p" and h: "held off p ib"
  shows "reaches off (pool_work p + 3) (fill_pool env (p, ib))"
proof (cases "\<not> po_aborted p \<and> po_nextToStart p < length (po_group p) \<and> length (po_inFlight p) < po_limit p
    \<and> \<not> (0 < po_nextToStart p \<and> po_parallel p \<and> \<not> parallel_mode env (po_group p ! po_nextToStart p))")
  case False
  have "begun p"
  proof (rule ccontr)
    assume nb: "\<not> begun p"
    then have "po_started p = 0" "\<not> po_aborted p" "0 < po_limit p" "po_group p \<noteq> []"
      by (auto simp: begun_def)
    moreover have "po_inFlight p = []" "po_nextToStart p = 0" using sh(1) \<open>po_started p = 0\<close>
      by (auto simp: shape_defs)
    ultimately show False using False by auto
  qed
  moreover have "fill_pool env (p, ib) = (p\<lparr>po_pc := AtFilled\<rparr>, ib)"
    using False by (auto simp: fill_pool_def Let_def)
  ultimately show ?thesis using sh oc h
    by (simp add: reaches_def pool_shape_def ledger_def pool_total_def)
next
  case True
  let ?i = "po_nextToStart p"
  have i: "po_started p = ?i" using sh(1) by (simp add: settled_pool_def)
  have fp: "fill_pool env (p, ib) = start_call env (p, ib)" using True by (auto simp: fill_pool_def Let_def)
  from h obtain seqs where s: "R seqs (off + ?i) (off + po_committed p) ib"
    and k: "\<forall>k < ?i. seqs (off + k) = po_callSeqs p k" by (auto simp: held_def i)
  have call: "po_group p ! ?i = cs ! (off + ?i)" "po_turn p = turn" "po_step p = step" "off + ?i < length cs"
    using oc True by (auto simp: of_calls_def)
  have pl: "placed_in ?i p" using sh(1) by (simp add: settled_pool_def i)
  have some: "recorded_some ib" by (rule held_some [OF h oc]) (use pl in \<open>simp_all add: placed_in_def\<close>)
  show ?thesis
  proof (rule append_call_cases [OF s call(4), of "se_now env"])
    fix err assume "appendToolCall (se_now env) turn step (cs ! (off + ?i)) ib = (ib, Inl err)"
    then have "fill_pool env (p, ib) = group_fail (ToolAppend err) (p, ib)"
      by (simp add: fp start_call_def Let_def call)
    then show ?thesis using fail_reaches [OF pl oc some] by simp
  next
    fix ib1 seq
    assume a: "appendToolCall (se_now env) turn step (cs ! (off + ?i)) ib = (ib1, Inr seq)"
      and r: "R (seqs(off + ?i := seq)) (Suc (off + ?i)) (off + po_committed p) ib1"
    let ?p = "p\<lparr>po_callSeqs := (po_callSeqs p)(?i := seq), po_started := po_started p + 1, po_pc := AtPrepare\<rparr>"
    have st: "fill_pool env (p, ib) = (?p, ib1)" using a by (simp add: fp start_call_def Let_def call)
    have "pool_shape ?p"
      using sh(1) True by (auto simp: pool_shape_def shape_defs)
    moreover have "held off ?p ib1"
      unfolding held_def using r k i by (intro exI [of _ "seqs(off + ?i := seq)"]) (auto simp: less_Suc_eq)
    moreover have "of_calls off ?p" using oc by (simp add: of_calls_def)
    moreover have "pool_total ?p \<le> pool_work p + 3"
      using True i Suc_diff_Suc [of "po_started p" "length (po_group p)"]
      by (auto simp: pool_total_def pool_work_def unsettled_def)
    ultimately show ?thesis by (simp add: reaches_def st ledger_def)
  qed
qed

lemma commit_reaches:
  assumes "settled_pool p" "0 < po_started p" "of_calls off p" "held off p ib"
    and "n = length (po_group p) - po_committed p"
  shows "reaches off (pool_work p + 5) (commit_ready env site n (p, ib))"
  using assms
proof (induction n arbitrary: p ib)
  case 0
  then have "po_slots p (po_committed p) = None" by (auto simp: shape_defs)
  with 0 show ?case by (simp add: reaches_def pool_shape_def no_gap_def ledger_def pool_total_def)
next
  case (Suc n)
  show ?case
  proof (cases "po_slots p (po_committed p)")
    case None
    with Suc.prems(1-4) show ?thesis
      by (simp add: reaches_def pool_shape_def no_gap_def ledger_def pool_total_def)
  next
    case (Some s)
    have pl: "placed_in (po_started p) p" using Suc.prems(1) by (simp add: settled_pool_def)
    have some: "recorded_some ib"
      by (rule held_some [OF Suc.prems(4,3)]) (use pl in \<open>simp_all add: placed_in_def\<close>)
    note fail = fail_reaches [OF pl Suc.prems(3)]
    show ?thesis
    proof (cases "sl_needsPost s")
      case True
      with Suc.prems(1-4) Some show ?thesis
        by (simp add: reaches_def pool_shape_def ledger_def pool_total_def)
    next
      case False
      show ?thesis
      proof (cases "se_finish env (sl_result s)")
        case (Inl err)
        then show ?thesis using Some False fail [OF some] by simp
      next
        case (Inr r)
        have ns: "po_slots p (po_committed p) \<noteq> None" by (simp add: Some)
        show ?thesis
        proof (rule commit_result_cases [OF Suc.prems(1) ns Suc.prems(3,4), of env r])
          fix err ib1 assume "commit_result env r (p, ib) = ((p, ib1), Inl err)" "recorded_some ib1"
          then show ?thesis using Some False Inr fail by simp
        next
          fix ib1 c
          let ?p = "p\<lparr>po_concluded := c, po_committed := Suc (po_committed p)\<rparr>"
          assume cr: "commit_result env r (p, ib) = ((?p, ib1), Inr ())" and h: "held off ?p ib1"
          note st = settled_step(2,3) [OF Suc.prems(1) ns, of c]
          have "reaches off (pool_work ?p + 5) (commit_ready env site n (?p, ib1))"
            by (rule Suc.IH [OF st(1) _ _ h]) (use Suc.prems in \<open>auto simp: of_calls_def\<close>)
          then show ?thesis using Some False Inr cr st(2)
            by (simp add: reaches_def)
        qed
      qed
    qed
  qed
qed

lemma commitReady_reaches:
  assumes "settled_pool p" "0 < po_started p" "of_calls off p" "held off p ib"
  shows "reaches off (pool_work p + 5) (commitReady env site (p, ib))"
  unfolding commitReady_def fst_conv by (rule commit_reaches [OF assms refl])

text \<open>Every transition of a group that waits keeps shape and ledger and does some of the work.\<close>

lemma reaches_mono: "reaches off w st \<Longrightarrow> w \<le> w' \<Longrightarrow> reaches off w' st"
  by (auto simp: reaches_def)

lemma group_result_reaches:
  assumes sh: "settled_pool p" "no_gap p" "begun p" "po_inFlight p = []"
    and oc: "of_calls off p" and h: "held off p ib"
  shows "reaches off (pool_work p) (group_result env (p, ib))"
proof -
  have "\<not> po_committed p < po_started p"
    using sh(1,2,4) by (auto simp: shape_defs)
  then have cs: "po_committed p = po_started p" using sh(1) by (auto simp: shape_defs)
  have len: "po_started p \<le> length (po_group p)" using sh(1) by (simp add: shape_defs)
  from h obtain seqs where s: "R seqs (off + po_started p) (off + po_started p) ib" by (auto simp: held_def cs)
  show ?thesis
  proof (cases "po_aborted p")
    case False
    then show ?thesis using sh(3) oc s len cs
      by (auto simp: group_result_def reaches_def pool_shape_def ledger_def pool_total_def begun_def of_calls_def)
  next
    case True
    let ?sk = "drop (po_started p) (po_group p)"
    have t: "po_turn p = turn" "po_step p = step" using oc by (simp_all add: of_calls_def)
    have skip: "case skip_calls (se_now env) (se_ids env) turn step ?sk ib of
        (ib', Inl err) \<Rightarrow> recorded_some ib'
      | (ib', Inr _) \<Rightarrow> \<exists>seqs'. R seqs' (off + po_started p + length ?sk) (off + po_started p + length ?sk) ib'"
      by (rule skip_ledger [OF s]) (use oc len in \<open>auto simp: of_calls_def add.assoc\<close>)
    have n: "off + po_started p + length ?sk = off + length (po_group p)" using len by simp
    show ?thesis
      using skip True oc unfolding n
      by (auto simp: group_result_def t reaches_def pool_shape_def ledger_def pool_total_def of_calls_def
          split: prod.splits sum.splits)
  qed
qed

lemma step_reaches:
  assumes sh: "pool_shape p" and lg: "ledger off p ib" and st: "pool_step env i (p, ib) = Some st'"
    and live: "\<And>n b. po_pc p \<noteq> GroupDone n b" "\<And>e. po_pc p \<noteq> GroupFailed e"
  shows "\<exists>w < pool_total p. reaches off w st'"
proof (cases "\<exists>j outcome. i = Settled j outcome")
  case True
  then obtain j outcome where i: "i = Settled j outcome" by blast
  with st have j: "j \<in> set (po_inFlight p)" "j \<notin> set (po_settled p)" and s': "st' = (settle j outcome p, ib)"
    by (auto split: if_splits)
  have "Suc (pool_total (settle j outcome p)) = pool_total p"
    using settle_keeps(5) [OF j shape_distinct [OF sh live], of outcome] by (simp add: pool_total_def)
  moreover have "ledger off (settle j outcome p) ib"
    using lg live by (cases "po_pc p") (simp_all add: ledger_def of_calls_def held_def)
  ultimately show ?thesis using settle_shape [OF sh j, of outcome] s'
    by (intro exI [of _ "pool_total (settle j outcome p)"]) (simp add: reaches_def)
next
  case not_settled: False
  have oc: "of_calls off p" using lg by (simp add: ledger_def)
  show ?thesis
  proof (cases "po_pc p")
    case AtPrepare
    have h: "held off p ib" using lg AtPrepare by (simp add: ledger_def)
    have pl: "placed_in (po_nextToStart p) p" using sh AtPrepare by (simp add: pool_shape_def)
    have some: "recorded_some ib" by (rule held_some [OF h oc]) (use pl in \<open>simp_all add: placed_in_def\<close>)
    have fail: "reaches off (pool_work p + 1) (group_fail err (p, ib))" for err
      by (rule fail_reaches [OF pl oc some]) simp
    from st AtPrepare not_settled obtain answer where i: "i = Prepared answer"
      by (cases i) (auto split: if_splits)
    show ?thesis
    proof (cases answer)
      case (Inl err)
      then show ?thesis using st i AtPrepare fail [of err] by (intro exI [of _ "pool_work p + 1"]) (auto simp: pool_total_def)
    next
      case (Inr prep)
      show ?thesis
      proof (cases "po_failure p")
        case (Some err)
        then show ?thesis using st i AtPrepare Inr fail [of err]
          by (intro exI [of _ "pool_work p + 1"]) (auto simp: pool_total_def throwSchedulerFailure_def)
      next
        case None
        have "st' = place_prepared prep (p, ib)" using st i AtPrepare Inr None by (simp add: throwSchedulerFailure_def)
        moreover have "ledger off (fst (place_prepared prep (p, ib))) ib"
          using h oc by (cases prep) (simp_all add: place_prepared_def ledger_def Let_def of_calls_def held_def)
        ultimately show ?thesis using place_shape [OF sh AtPrepare None, of prep ib]
          by (intro exI [of _ "pool_total (fst (place_prepared prep (p, ib)))"])
            (simp add: reaches_def, simp add: place_prepared_def Let_def)
      qed
    qed
  next
    case AtStarted
    have h: "held off p ib" using lg AtStarted by (simp add: ledger_def)
    let ?p = "p\<lparr>po_nextToStart := po_nextToStart p + 1\<rparr>"
    have pl: "placed_in (po_started p) ?p" and se: "settled_pool ?p" "0 < po_started ?p"
      using sh AtStarted by (auto simp: pool_shape_def shape_defs)
    have ocp: "of_calls off ?p" and hp: "held off ?p ib" using oc h by (simp_all add: of_calls_def held_def)
    have some: "recorded_some ib" by (rule held_some [OF h oc]) (use pl in \<open>simp_all add: placed_in_def\<close>)
    have w: "pool_work ?p = pool_work p" by (simp add: pool_work_def unsettled_def)
    from st AtStarted not_settled have s': "st' = throwSchedulerFailure (commitReady env FillSite) (?p, ib)"
      by (cases i) (auto split: if_splits)
    have "reaches off (pool_work p + 5) st'"
    proof (cases "po_failure p")
      case None
      then show ?thesis using commitReady_reaches [OF se ocp hp, of env FillSite] w
        by (simp add: s' throwSchedulerFailure_def)
    next
      case (Some err)
      have "reaches off (pool_work p + 5) (group_fail err (?p, ib))"
        by (rule fail_reaches [OF pl ocp some]) (use w in simp)
      with Some show ?thesis by (simp add: s' throwSchedulerFailure_def)
    qed
    then show ?thesis by (intro exI [of _ "pool_work p + 5"]) (simp add: pool_total_def AtStarted)
  next
    case (AtFinalize site)
    have h: "held off p ib" using lg AtFinalize by (simp add: ledger_def)
    have se: "settled_pool p" "po_slots p (po_committed p) \<noteq> None" using sh AtFinalize by (simp_all add: pool_shape_def)
    have pl: "placed_in (po_started p) p" using se(1) by (simp add: settled_pool_def)
    have some: "recorded_some ib" by (rule held_some [OF h oc]) (use pl in \<open>simp_all add: placed_in_def\<close>)
    have fail: "recorded_some ib1 \<Longrightarrow> reaches off (pool_work p + 4) (group_fail err (p, ib1))" for err ib1
      by (rule fail_reaches [OF pl oc]) simp_all
    from st AtFinalize not_settled obtain answer where i: "i = Finalized answer"
      by (cases i) (auto split: if_splits)
    have "reaches off (pool_work p + 4) st'"
    proof (cases answer)
      case (Inl err)
      then show ?thesis using st i AtFinalize fail [OF some, of err] by auto
    next
      case (Inr r)
      show ?thesis
      proof (rule commit_result_cases [OF se oc h, of env r])
        fix err ib1 assume "commit_result env r (p, ib) = ((p, ib1), Inl err)" "recorded_some ib1"
        then show ?thesis using st i AtFinalize Inr fail [of ib1 err] by auto
      next
        fix ib1 c
        let ?p = "p\<lparr>po_concluded := c, po_committed := Suc (po_committed p)\<rparr>"
        assume cr: "commit_result env r (p, ib) = ((?p, ib1), Inr ())" and hp: "held off ?p ib1"
        note ss = settled_step(1) [OF se] settled_step(2,3) [OF se, of c]
        have "reaches off (pool_work ?p + 5) (commitReady env site (?p, ib1))"
          by (rule commitReady_reaches [OF ss(2) _ _ hp]) (use ss(1) oc in \<open>auto simp: of_calls_def\<close>)
        then show ?thesis using st i AtFinalize Inr cr ss(3)
          by (auto elim: reaches_mono)
      qed
    qed
    then show ?thesis by (intro exI [of _ "pool_work p + 4"]) (simp add: pool_total_def AtFinalize)
  next
    case (AtCommitted site)
    have h: "held off p ib" using lg AtCommitted by (simp add: ledger_def)
    have se: "settled_pool p" "no_gap p" using sh AtCommitted by (simp_all add: pool_shape_def)
    have pl: "placed_in (po_started p) p" using se(1) by (simp add: settled_pool_def)
    have some: "recorded_some ib" by (rule held_some [OF h oc]) (use pl in \<open>simp_all add: placed_in_def\<close>)
    from st AtCommitted not_settled
    have s': "st' = throwSchedulerFailure (\<lambda>st1. fill_pool env (observe_abort env st1)) (p, ib)"
      by (cases i) (auto split: if_splits)
    have "reaches off (pool_work p + 3) st'"
    proof (cases "po_failure p")
      case (Some err)
      then show ?thesis using fail_reaches [OF pl oc some, of "pool_work p + 3" err]
        by (simp add: s' throwSchedulerFailure_def)
    next
      case None
      let ?p = "fst (observe_abort env (p, ib))"
      have q: "settled_pool ?p" "no_gap ?p" "of_calls off ?p" "held off ?p ib" "pool_work ?p = pool_work p"
        using se oc h by (auto simp: observe_abort_def shape_defs of_calls_def held_def pool_work_def unsettled_def)
      have "observe_abort env (p, ib) = (?p, ib)" by (simp add: observe_abort_def)
      then show ?thesis using fill_reaches [OF q(1-4), of env] None q(5)
        by (simp add: s' throwSchedulerFailure_def)
    qed
    then show ?thesis by (intro exI [of _ "pool_work p + 3"]) (simp add: pool_total_def AtCommitted)
  next
    case AtFilled
    have h: "held off p ib" using lg AtFilled by (simp add: ledger_def)
    have se: "settled_pool p" "no_gap p" "begun p" using sh AtFilled by (simp_all add: pool_shape_def)
    from st AtFilled not_settled
    have s': "st' = (if po_inFlight p \<noteq> [] then (p\<lparr>po_pc := AtRace\<rparr>, ib) else group_result env (p, ib))"
      by (cases i) (auto split: if_splits)
    have "reaches off (pool_work p + 2) st'"
    proof (cases "po_inFlight p = []")
      case True
      with group_result_reaches [OF se True oc h, of env] show ?thesis by (simp add: s' reaches_def)
    next
      case False
      then show ?thesis using se h oc by (simp add: s' reaches_def pool_shape_def ledger_def pool_total_def)
    qed
    then show ?thesis by (intro exI [of _ "pool_work p + 2"]) (simp add: pool_total_def AtFilled)
  next
    case AtRace
    have h: "held off p ib" using lg AtRace by (simp add: ledger_def)
    have se: "settled_pool p" using sh AtRace by (simp add: pool_shape_def)
    from st AtRace not_settled obtain j where i: "i = Raced j" and j: "j \<in> set (po_inFlight p)" "j \<in> set (po_settled p)"
      by (cases i) (auto split: if_splits)
    let ?p = "p\<lparr>po_inFlight := removeAll j (po_inFlight p)\<rparr>"
    have s': "st' = throwSchedulerFailure (commitReady env RaceSite) (?p, ib)"
      using st i j AtRace by simp
    have d: "distinct (po_inFlight p)" using se by (simp add: shape_defs)
    have len: "Suc (length (removeAll j (po_inFlight p))) = length (po_inFlight p)"
      using d j(1) by (metis One_nat_def Suc_pred distinct_remove1_removeAll length_pos_if_in_set length_remove1)
    have "unsettled ?p = unsettled p" using j(2) by (simp add: unsettled_def removeAll_filter_not_eq) (metis (lifting))
    then have w: "pool_work ?p + 4 = pool_work p" using len by (simp add: pool_work_def)
    have pl: "placed_in (po_started p) ?p"
      using se len by (auto simp: shape_defs distinct_removeAll)
    have st0: "0 < po_started p" using se j(1) by (auto simp: shape_defs)
    have ocp: "of_calls off ?p" and hp: "held off ?p ib" using oc h by (simp_all add: of_calls_def held_def)
    have some: "recorded_some ib" by (rule held_some [OF h oc]) (use pl in \<open>simp_all add: placed_in_def\<close>)
    have "reaches off (pool_work p + 1) st'"
    proof (cases "po_failure p")
      case (Some err)
      have "reaches off (pool_work p + 1) (group_fail err (?p, ib))"
        by (rule fail_reaches [OF pl ocp some]) (use w in simp)
      with Some show ?thesis by (simp add: s' throwSchedulerFailure_def)
    next
      case None
      have "settled_pool ?p" using se pl j None by (auto simp: settled_pool_def covered_def placed_in_def)
      from commitReady_reaches [OF this _ ocp hp, of env RaceSite] st0 None w
      show ?thesis by (auto simp: s' throwSchedulerFailure_def elim: reaches_mono)
    qed
    then show ?thesis by (intro exI [of _ "pool_work p + 1"]) (simp add: pool_total_def AtRace)
  next
    case AtDrain
    from st AtDrain not_settled have s': "st' = (p\<lparr>po_pc := GroupFailed (the (po_failure p))\<rparr>, ib)"
      by (cases i) (auto split: if_splits)
    have "reaches off (pool_work p) st'"
      using lg AtDrain by (simp add: s' reaches_def pool_shape_def ledger_def pool_total_def)
    then show ?thesis by (intro exI [of _ "pool_work p"]) (simp add: pool_total_def AtDrain)
  qed (use live in blast)+
qed

end

end
