(* ===== verification/Tool_Run_Facts.thy ===== *)
theory Tool_Run_Facts
  imports Tool_Scheduler_Facts
begin

text \<open>
  Whole runs of the scheduler: the groups of one step, one after the other, with the rest of the program
  acting on the agent between the transitions. The two ledgers the runs are read in are the records in
  the log and the trace of the log.
\<close>

subsection \<open>Runs\<close>

datatype tool_move = ToolMove sched_env nat pool_input | OutsideMove int inbox_call

text \<open>The configured cap is positive; what others append while a step is open is neutral.\<close>

fun move_ok :: "tool_move \<Rightarrow> bool" where
  "move_ok (ToolMove env limit i) = (0 < limit)"
| "move_ok (OutsideMove now c) = outside_ok True c"

fun move_tools :: "tool_move \<Rightarrow> run_state \<Rightarrow> run_state option" where
  "move_tools (ToolMove env limit i) st = tool_step env limit i st"
| "move_tools (OutsideMove now c) st = Some (fst st, inbox_step (snd st) (now, c))"

fun tool_moves :: "tool_move list \<Rightarrow> run_state \<Rightarrow> run_state option" where
  "tool_moves [] st = Some st"
| "tool_moves (m # ms) st = (case move_tools m st of None \<Rightarrow> None | Some st' \<Rightarrow> tool_moves ms st')"

fun is_tool_move :: "tool_move \<Rightarrow> bool" where
  "is_tool_move (ToolMove env limit i) = True"
| "is_tool_move (OutsideMove now c) = False"

subsection \<open>What a group never changes\<close>

definition same_group :: "pool \<Rightarrow> pool \<Rightarrow> bool" where
  "same_group p q = (po_group q = po_group p \<and> po_limit q = po_limit p \<and> po_parallel q = po_parallel p)"

lemma same_group_trans: "same_group p q \<Longrightarrow> same_group q r \<Longrightarrow> same_group p r"
  by (simp add: same_group_def)

lemma group_fail_same [simp]: "same_group p (fst (group_fail err (p, ib)))"
  by (simp add: group_fail_def same_group_def)

lemma fill_same: "same_group (fst st) (fst (fill_pool env st))"
  by (cases st) (auto simp: fill_pool_def start_call_def group_fail_def same_group_def Let_def
      split: prod.splits sum.splits)

lemma commit_result_same: "same_group (fst st) (fst (fst (commit_result env r st)))"
  by (cases st) (auto simp: commit_result_def same_group_def Let_def split: prod.splits sum.splits)

lemma commit_ready_same: "same_group (fst st) (fst (commit_ready env site n st))"
proof (induction n arbitrary: st)
  case (Suc n)
  show ?case
  proof (cases "po_slots (fst st) (po_committed (fst st))")
    case (Some s)
    obtain p ib where st: "st = (p, ib)" by (cases st)
    show ?thesis
    proof (cases "se_finish env (sl_result s)")
      case (Inr r)
      obtain st1 res where cr: "commit_result env r st = (st1, res)" by (cases "commit_result env r st")
      note c = commit_result_same [of st env r, unfolded cr fst_conv]
      have "same_group (fst st) (fst (group_fail err st1))" for err
        using same_group_trans [OF c] by (cases st1) simp
      moreover have "same_group (fst st) (fst (commit_ready env site n st1))"
        by (rule same_group_trans [OF c Suc.IH])
      ultimately show ?thesis using Some Inr cr by (cases res) (simp_all add: same_group_def)
    qed (use Some st in \<open>simp add: same_group_def group_fail_def\<close>)
  qed (simp add: same_group_def)
qed (simp add: same_group_def)

lemma pool_step_same:
  assumes "pool_step env i st = Some st'"
  shows "same_group (fst st) (fst st')"
proof -
  obtain p ib where st: "st = (p, ib)" by (cases st)
  have thrown: "same_group (fst st1) (fst (throwSchedulerFailure k st1))"
    if "same_group (fst st1) (fst (k st1))" for k and st1 :: pool_state
    using that by (cases st1) (auto simp: throwSchedulerFailure_def split: option.splits)
  have c: "same_group q (fst (commitReady env site (q, ib1)))" for q ib1 site
    using commit_ready_same [of "(q, ib1)"] by (simp add: commitReady_def)
  have placed: "same_group p (fst (place_prepared prep (p, ib)))" for prep
    by (cases prep) (simp_all add: place_prepared_def same_group_def Let_def)
  show ?thesis
  proof (cases i)
    case (Prepared answer)
    then show ?thesis using assms thrown [of "(p, ib)" "place_prepared _"] placed
      by (auto simp: st split: if_splits sum.splits)
  next
    case (Finalized answer)
    have "same_group p (fst (case commit_result env r (p, ib) of
        (st1, Inl err) \<Rightarrow> group_fail err st1 | (st1, Inr _) \<Rightarrow> commitReady env site st1))" for r site
    proof (cases "commit_result env r (p, ib)")
      case (Pair st1 res)
      have c1: "same_group p (fst st1)" using commit_result_same [of "(p, ib)" env r] Pair by simp
      show ?thesis using same_group_trans [OF c1] c [of "fst st1" site "snd st1"]
        by (cases res; cases st1) (auto simp: Pair)
    qed
    then show ?thesis using assms Finalized by (auto simp: st split: pool_pc.splits sum.splits)
  next
    case (Raced j)
    let ?q = "p\<lparr>po_inFlight := removeAll j (po_inFlight p)\<rparr>"
    have "same_group p ?q" by (simp add: same_group_def)
    then show ?thesis
      using assms Raced thrown [of "(?q, ib)" "commitReady env RaceSite"] c [of ?q RaceSite ib]
      by (auto simp: st split: if_splits elim: same_group_trans)
  next
    case Resume
    let ?q = "p\<lparr>po_nextToStart := po_nextToStart p + 1\<rparr>"
    have q: "same_group p ?q" by (simp add: same_group_def)
    have o: "same_group p (fst (fill_pool env (observe_abort env (p, ib))))"
      by (rule same_group_trans [OF _ fill_same]) (simp add: observe_abort_def same_group_def)
    have g: "same_group p (fst (group_result env (p, ib)))"
      by (auto simp: group_result_def same_group_def split: prod.splits sum.splits)
    show ?thesis
      using assms Resume thrown [of "(?q, ib)" "commitReady env FillSite"] c [of ?q FillSite ib] q
        thrown [of "(p, ib)" "\<lambda>st1. fill_pool env (observe_abort env st1)"] o g
      by (auto simp: st same_group_def split: pool_pc.splits if_splits)
  qed (use assms in \<open>auto simp: st settle_fields same_group_def split: if_splits\<close>)
qed

subsection \<open>The invariant of a run\<close>

definition run_total :: "calls_run \<Rightarrow> nat" where
  "run_total x = (13 * length (tx_calls x) + 4) * (length (tx_calls x) - tx_next x)
     + (if tx_outcome x = ToolsRunning then Suc (pool_total (tx_pool x)) else 0)"

context tool_ledger
begin

definition run_ok :: "calls_run \<Rightarrow> inbox \<Rightarrow> bool" where
  "run_ok x ib = (tx_turn x = turn \<and> tx_step x = step \<and> tx_calls x = cs \<and>
     (case tx_outcome x of
        ToolsRunning \<Rightarrow> pool_shape (tx_pool x) \<and> ledger (tx_next x) (tx_pool x) ib
          \<and> po_group (tx_pool x) \<noteq> [] \<and> 0 < po_limit (tx_pool x)
      | ToolsReturned concluded \<Rightarrow> (\<exists>seqs. R seqs (length cs) (length cs) ib)
      | ToolsFailed err \<Rightarrow> recorded_some ib))"

lemma next_group_ok:
  assumes x: "tx_turn x = turn" "tx_step x = step" "tx_calls x = cs" "tx_outcome x = ToolsRunning"
    and n: "tx_next x \<le> length cs" and r: "R seqs (tx_next x) (tx_next x) ib" and l: "0 < limit"
    and res: "next_group env limit (x, ib) = (x', ib')"
  shows "run_ok x' ib' \<and> run_total x' \<le> (13 * length cs + 4) * (length cs - tx_next x) + (13 * length cs + 4)"
proof (cases "tx_next x < length cs")
  case False
  then show ?thesis using assms by (auto simp: next_group_def run_ok_def run_total_def)
next
  case True
  let ?par = "parallel_mode env (cs ! tx_next x)"
  let ?grp = "if ?par then drop (tx_next x) cs else [cs ! tx_next x]"
  obtain p ib1 where bg: "begin_group env limit turn step ?grp ?par ib = (p, ib1)"
    by (cases "begin_group env limit turn step ?grp ?par ib")
  define p0 where "p0 = \<lparr>po_turn = turn, po_step = step, po_group = ?grp, po_parallel = ?par, po_limit = limit,
    po_slots = (\<lambda>_. None), po_callSeqs = (\<lambda>_. - 1), po_nextToStart = 0, po_committed = 0,
    po_started = 0, po_aborted = se_aborted env, po_concluded = False, po_failure = None,
    po_inFlight = [], po_settled = [], po_pc = AtFilled\<rparr>"
  have fp: "fill_pool env (p0, ib) = (p, ib1)" using bg by (simp add: begin_group_def p0_def)
  have "settled_pool p0" "no_gap p0" by (simp_all add: shape_defs p0_def)
  moreover have "of_calls (tx_next x) p0" using True by (simp add: of_calls_def p0_def)
  moreover have "held (tx_next x) p0 ib" using r by (auto simp: held_def p0_def)
  ultimately have re: "reaches (tx_next x) (pool_work p0 + 3) (p, ib1)"
    using fill_reaches [of p0 "tx_next x" ib env] by (simp add: fp)
  have w: "pool_work p0 \<le> 13 * length cs" using True by (simp add: pool_work_def unsettled_def p0_def)
  have same: "same_group p0 p" using fill_same [of "(p0, ib)" env] by (simp add: fp)
  have x': "x' = x\<lparr>tx_pool := p\<rparr>" "ib' = ib1"
    using res True bg by (simp_all add: next_group_def Let_def x cong: if_cong)
  have "po_group p \<noteq> []" "0 < po_limit p" using same True l by (auto simp: same_group_def p0_def)
  then show ?thesis using re w x by (simp add: x' run_ok_def run_total_def reaches_def)
qed

lemma tool_step_ok:
  assumes ok: "run_ok x ib" and l: "0 < limit" and st: "tool_step env limit i (x, ib) = Some (x', ib')"
  shows "run_ok x' ib' \<and> run_total x' < run_total x"
proof -
  from st have run: "tx_outcome x = ToolsRunning" by (auto simp: tool_step_def split: if_splits)
  with ok have x: "tx_turn x = turn" "tx_step x = step" "tx_calls x = cs"
    and sh: "pool_shape (tx_pool x)" and lg: "ledger (tx_next x) (tx_pool x) ib"
    and g: "po_group (tx_pool x) \<noteq> []" "0 < po_limit (tx_pool x)" by (simp_all add: run_ok_def)
  have oc: "of_calls (tx_next x) (tx_pool x)" using lg by (simp add: ledger_def)
  show ?thesis
  proof (cases "\<exists>n b. po_pc (tx_pool x) = GroupDone n b")
    case True
    then obtain n b where d: "po_pc (tx_pool x) = GroupDone n b" by blast
    with st run have ag: "after_group env limit n b (x, ib) = (x', ib')"
      by (auto simp: tool_step_def split: if_splits)
    from sh d g have n: "0 < n" "n \<le> length (po_group (tx_pool x))"
      by (auto simp: pool_shape_def split: if_splits)
    from lg d obtain seqs where r: "R seqs (tx_next x + n) (tx_next x + n) ib" by (auto simp: ledger_def)
    have le: "tx_next x + n \<le> length cs" using oc n(2) by (simp add: of_calls_def)
    let ?x1 = "x\<lparr>tx_next := tx_next x + n, tx_concluded := tx_concluded x \<or> po_concluded (tx_pool x)\<rparr>"
    have less: "(13 * length cs + 4) * (length cs - (tx_next x + n)) + (13 * length cs + 4)
        \<le> (13 * length cs + 4) * (length cs - tx_next x)"
    proof -
      have "Suc (length cs - (tx_next x + n)) \<le> length cs - tx_next x" using n(1) le by simp
      then have "(13 * length cs + 4) * Suc (length cs - (tx_next x + n)) \<le> (13 * length cs + 4) * (length cs - tx_next x)"
        by (rule mult_le_mono2)
      then show ?thesis by simp
    qed
    show ?thesis
    proof (cases b)
      case False
      then have "next_group env limit (?x1, ib) = (x', ib')" using ag by (simp add: after_group_def Let_def)
      from next_group_ok [OF _ _ _ _ _ _ l this, of seqs] x run le r less
      show ?thesis by (auto simp: run_total_def)
    next
      case True
      let ?sk = "drop (tx_next x + n) cs"
      have skip: "case skip_calls (se_now env) (se_ids env) turn step ?sk ib of
          (ib', Inl err) \<Rightarrow> recorded_some ib'
        | (ib', Inr _) \<Rightarrow> \<exists>seqs'. R seqs' (tx_next x + n + length ?sk) (tx_next x + n + length ?sk) ib'"
        by (rule skip_ledger [OF r]) (use le in simp_all)
      have "tx_next x + n + length ?sk = length cs" using le by simp
      with skip ag True x le less show ?thesis
        by (auto simp: after_group_def Let_def run_ok_def run_total_def run split: prod.splits sum.splits)
    qed
  next
    case not_done: False
    show ?thesis
    proof (cases "\<exists>err. po_pc (tx_pool x) = GroupFailed err")
      case True
      with st run lg x show ?thesis
        by (auto simp: tool_step_def run_ok_def run_total_def ledger_def split: if_splits)
    next
      case False
      with not_done st run obtain p where ps: "pool_step env i (tx_pool x, ib) = Some (p, ib')"
        and x': "x' = x\<lparr>tx_pool := p\<rparr>"
        by (cases "po_pc (tx_pool x)") (auto simp: tool_step_def split: option.splits)
      from step_reaches [OF sh lg ps] False not_done obtain w where "w < pool_total (tx_pool x)"
        "reaches (tx_next x) w (p, ib')" by blast
      moreover have "same_group (tx_pool x) p" using pool_step_same [OF ps] by simp
      ultimately show ?thesis using x run g
        by (auto simp: x' run_ok_def run_total_def reaches_def same_group_def)
    qed
  qed
qed

lemma recorded_grows: "recorded_some ib \<Longrightarrow> grows True ib ib' \<Longrightarrow> recorded_some ib'"
  unfolding recorded_some_def by (blast intro: R_grows)

lemma recorded_inv: "recorded_some ib \<Longrightarrow> inbox_inv ib"
  unfolding recorded_some_def by (blast dest: R_inv)

lemma ledger_grows: "ledger off p ib \<Longrightarrow> grows True ib ib' \<Longrightarrow> ledger off p ib'"
  by (cases "po_pc p") (auto simp: ledger_def held_def intro: R_grows recorded_grows)

lemma ledger_inv: "ledger off p ib \<Longrightarrow> inbox_inv ib"
  by (cases "po_pc p") (auto simp: ledger_def held_def dest: R_inv recorded_inv)

lemma run_ok_inv: "run_ok x ib \<Longrightarrow> inbox_inv ib"
proof -
  assume ok: "run_ok x ib"
  show ?thesis
  proof (cases "tx_outcome x")
    case ToolsRunning
    with ok have "ledger (tx_next x) (tx_pool x) ib" by (simp add: run_ok_def)
    then show ?thesis by (rule ledger_inv)
  next
    case (ToolsReturned concluded)
    with ok show ?thesis by (auto simp: run_ok_def intro: R_inv)
  next
    case (ToolsFailed err)
    with ok have "recorded_some ib" by (simp add: run_ok_def)
    then show ?thesis by (rule recorded_inv)
  qed
qed

lemma run_ok_grows: "run_ok x ib \<Longrightarrow> grows True ib ib' \<Longrightarrow> run_ok x ib'"
proof -
  assume ok: "run_ok x ib" and g: "grows True ib ib'"
  show ?thesis
  proof (cases "tx_outcome x")
    case ToolsRunning
    with ok have "ledger (tx_next x) (tx_pool x) ib" by (simp add: run_ok_def)
    from ledger_grows [OF this g] ok ToolsRunning show ?thesis by (simp add: run_ok_def)
  next
    case (ToolsReturned concluded)
    with ok g show ?thesis by (auto simp: run_ok_def intro: R_grows)
  next
    case (ToolsFailed err)
    with ok have "recorded_some ib" by (simp add: run_ok_def)
    from recorded_grows [OF this g] ok ToolsFailed show ?thesis by (simp add: run_ok_def)
  qed
qed

lemma moves_ok:
  assumes "run_ok x ib" "\<forall>m \<in> set ms. move_ok m" "tool_moves ms (x, ib) = Some (x', ib')"
  shows "run_ok x' ib' \<and> run_total x' + length (filter is_tool_move ms) \<le> run_total x"
  using assms
proof (induction ms arbitrary: x ib)
  case (Cons m ms)
  from Cons.prems(3) obtain x1 ib1 where m: "move_tools m (x, ib) = Some (x1, ib1)"
    and ms: "tool_moves ms (x1, ib1) = Some (x', ib')" by (auto split: option.splits)
  show ?case
  proof (cases m)
    case (ToolMove env limit i)
    then have "run_ok x1 ib1 \<and> run_total x1 < run_total x"
      using tool_step_ok [OF Cons.prems(1), of limit env i x1 ib1] m Cons.prems(2) by simp
    with Cons.IH [OF _ _ ms] Cons.prems(2) show ?thesis by (auto simp: ToolMove)
  next
    case (OutsideMove now c)
    have "run_ok x (inbox_step ib (now, c))"
      using Cons.prems(1,2) OutsideMove outside_grows [OF run_ok_inv [OF Cons.prems(1)], of True c now]
      by (auto intro: run_ok_grows)
    with m OutsideMove have "run_ok x1 ib1" "x1 = x" by simp_all
    with Cons.IH [OF _ _ ms] Cons.prems(2) show ?thesis by (simp add: OutsideMove)
  qed
qed simp

lemma execute_ok:
  assumes "R seqs 0 0 ib" "0 < limit" "executeToolCalls env limit turn step cs ib = (x, ib')"
  shows "run_ok x ib' \<and> run_total x \<le> (13 * length cs + 4) * (length cs + 1)"
  using next_group_ok [OF _ _ _ _ _ _ assms(2) assms(3) [unfolded executeToolCalls_def], of seqs] assms(1)
  by (simp add: algebra_simps)

text \<open>A running run can always go on: each wait has an answer, or a body in flight that may settle.\<close>

lemma run_enabled:
  assumes ok: "run_ok x ib" and run: "tx_outcome x = ToolsRunning"
  shows "\<exists>i. tool_step env limit i (x, ib) \<noteq> None"
proof -
  let ?p = "tx_pool x"
  have sh: "pool_shape ?p" using ok run by (simp add: run_ok_def)
  have go: "\<exists>i. tool_step env limit i (x, ib) \<noteq> None"
    if "\<And>n b. po_pc ?p \<noteq> GroupDone n b" "\<And>e. po_pc ?p \<noteq> GroupFailed e" "pool_step env i (?p, ib) \<noteq> None" for i
    using that run by (intro exI [of _ i]) (cases "pool_step env i (?p, ib)"; auto simp: tool_step_def split: pool_pc.splits)
  have open_body: "\<exists>i. tool_step env limit i (x, ib) \<noteq> None"
    if "\<And>n b. po_pc ?p \<noteq> GroupDone n b" "\<And>e. po_pc ?p \<noteq> GroupFailed e"
      "j \<in> set (po_inFlight ?p)" "j \<notin> set (po_settled ?p)" for j
    using go [of "Settled j (Inl (ToolThrew []))"] that by simp
  show ?thesis
  proof (cases "po_pc ?p")
    case AtPrepare
    then show ?thesis by (intro go [of "Prepared (Inr PrepDispatch)"]) simp_all
  next
    case AtStarted
    then show ?thesis by (intro go [of Resume]) simp_all
  next
    case (AtFinalize site)
    then show ?thesis by (intro go [of "Finalized (Inl (ToolThrew []))"]) simp_all
  next
    case (AtCommitted site)
    then show ?thesis by (intro go [of Resume]) simp_all
  next
    case AtFilled
    then show ?thesis by (intro go [of Resume]) simp_all
  next
    case AtRace
    with sh obtain j where j: "j \<in> set (po_inFlight ?p)" by (cases "po_inFlight ?p") (auto simp: pool_shape_def)
    show ?thesis
    proof (cases "j \<in> set (po_settled ?p)")
      case True
      with j AtRace show ?thesis by (intro go [of "Raced j"]) simp_all
    next
      case False
      with j AtRace show ?thesis by (intro open_body [of j]) simp_all
    qed
  next
    case AtDrain
    show ?thesis
    proof (cases "all_settled ?p")
      case True
      with AtDrain show ?thesis by (intro go [of Resume]) simp_all
    next
      case False
      then obtain j where "j \<in> set (po_inFlight ?p)" "j \<notin> set (po_settled ?p)"
        by (auto simp: all_settled_def list_all_iff)
      with AtDrain show ?thesis by (intro open_body [of j]) simp_all
    qed
  next
    case (GroupDone n b)
    then show ?thesis using run by (intro exI [of _ Resume]) (simp add: tool_step_def)
  next
    case (GroupFailed e)
    then show ?thesis using run by (intro exI [of _ Resume]) (simp add: tool_step_def)
  qed
qed

end

end
