(* ===== verification/Tool_Calls_Facts.thy ===== *)
theory Tool_Calls_Facts
  imports Tool_Run_Facts
begin

text \<open>
  The properties of the tool-call scheduler: the records of a step in the log, the trace of the log,
  the bound on the pool, and the end of every run.
\<close>

subsection \<open>The records of one step\<close>

text \<open>The recorded calls with their seqs, and the recorded results with the call id and the cited seqs.\<close>

definition call_record :: "int \<Rightarrow> int \<Rightarrow> event \<Rightarrow> (int \<times> tool_call) list" where
  "call_record turn step e =
     (case ev_data e of
        ToolCall t s i n a \<Rightarrow>
          if t = turn \<and> s = step then [(ev_seq e, \<lparr>tc_id = i, tc_name = n, tc_arguments = a\<rparr>)] else []
      | _ \<Rightarrow> [])"

definition result_record :: "int \<Rightarrow> int \<Rightarrow> event \<Rightarrow> (string \<times> json option) list" where
  "result_record turn step e =
     (case ev_data e of
        ToolResult t s m err meta \<Rightarrow>
          if t = turn \<and> s = step \<and> ev_surfaceOp e = Some (JStr ''append'')
          then [(result_call_id m, ev_sourceEventSeqs e)] else []
      | _ \<Rightarrow> [])"

definition step_calls :: "int \<Rightarrow> int \<Rightarrow> event list \<Rightarrow> (int \<times> tool_call) list" where
  "step_calls turn step es = concat (map (call_record turn step) es)"

definition step_results :: "int \<Rightarrow> int \<Rightarrow> event list \<Rightarrow> (string \<times> json option) list" where
  "step_results turn step es = concat (map (result_record turn step) es)"

text \<open>The result that answers a recorded call.\<close>

definition answer :: "int \<times> tool_call \<Rightarrow> string \<times> json option" where
  "answer c = (tc_id (snd c), Some (JArr [JInt (fst c)]))"

lemma neutral_records:
  "neutral b (ev_data e) \<Longrightarrow> call_record turn step e = []"
  "neutral b (ev_data e) \<Longrightarrow> result_record turn step e = []"
  by (cases "ev_data e"; simp add: call_record_def result_record_def)+

lemma step_records_append:
  "step_calls turn step (xs @ ys) = step_calls turn step xs @ step_calls turn step ys"
  "step_results turn step (xs @ ys) = step_results turn step xs @ step_results turn step ys"
  by (simp_all add: step_calls_def step_results_def)

lemma neutral_step_records:
  "\<forall>e \<in> set es. neutral b (ev_data e) \<Longrightarrow> step_calls turn step es = [] \<and> step_results turn step es = []"
  by (auto simp: step_calls_def step_results_def neutral_records)

lemma result_message_id [simp]:
  "result_call_id (createToolResultMessage mid callId content err) = callId"
  by (simp add: result_call_id_def createToolResultMessage_def)

subsection \<open>Two ledgers\<close>

text \<open>From seq \<open>n0\<close> on, the log holds the first \<open>S\<close> calls in order and the answers of the first \<open>C\<close>.\<close>

definition in_log ::
  "nat \<Rightarrow> int \<Rightarrow> int \<Rightarrow> tool_call list \<Rightarrow> (nat \<Rightarrow> int) \<Rightarrow> nat \<Rightarrow> nat \<Rightarrow> inbox \<Rightarrow> bool" where
  "in_log n0 turn step cs seqs S C ib =
     (inbox_inv ib \<and> C \<le> S \<and> n0 \<le> length (inbox_log ib)
      \<and> step_calls turn step (drop n0 (inbox_log ib)) = map (\<lambda>k. (seqs k, cs ! k)) [0..<S]
      \<and> step_results turn step (drop n0 (inbox_log ib)) = map (\<lambda>k. answer (seqs k, cs ! k)) [0..<C])"

text \<open>The trace of the log is in the step, and exactly the unanswered recorded calls wait.\<close>

definition in_trace :: "int \<Rightarrow> int \<Rightarrow> tool_call list \<Rightarrow> (nat \<Rightarrow> int) \<Rightarrow> nat \<Rightarrow> nat \<Rightarrow> inbox \<Rightarrow> bool" where
  "in_trace turn step cs seqs S C ib =
     (inbox_inv ib \<and> C \<le> S \<and> (distinct (map tc_id cs) \<longrightarrow>
        traced ib (Some turn) (Some step) turn step ((\<lambda>k. tc_id (cs ! k)) ` {C..<S})))"

lemma map_upt_update:
  "k \<le> S \<Longrightarrow> map (\<lambda>j. f ((seqs(S := seq)) j) j) [0..<k] = map (\<lambda>j. f (seqs j) j) [0..<k]"
  by simp

lemma append_call_log:
  assumes "inbox_inv ib" "appendToolCall now turn step c ib = (ib', Inr seq)"
  shows "inbox_inv ib'" "seq = int (length (inbox_log ib))"
    "\<exists>e. inbox_log ib' = inbox_log ib @ [e] \<and> call_record turn step e = [(seq, c)] \<and> result_record turn step e = []"
  using append_on_cases [OF assms(1), of "ToolCall turn step (tc_id c) (tc_name c) (tc_arguments c)" now None None]
    assms(2)
  by (fastforce simp: appendToolCall_def inbox_log_def call_record_def result_record_def)+

lemma append_result_log:
  assumes "inbox_inv ib" "appendToolResult now mid turn step c r q ib = (ib', Inr seq)"
  shows "inbox_inv ib'"
    "\<exists>e. inbox_log ib' = inbox_log ib @ [e] \<and> call_record turn step e = [] \<and> result_record turn step e = [answer (q, c)]"
  using append_on_cases [OF assms(1), of "ToolResult turn step (createToolResultMessage mid (tc_id c) (te_content r) (te_isError r))
      (te_error r) (te_meta r)" now "Some (JStr ''append'')" "Some (JArr [JInt q])"] assms(2)
  by (fastforce simp: appendToolResult_def inbox_log_def call_record_def result_record_def answer_def)+

lemma step_records_single [simp]:
  "step_calls turn step [e] = call_record turn step e" "step_results turn step [e] = result_record turn step e"
  by (simp_all add: step_calls_def step_results_def)

interpretation records: tool_ledger turn step cs "in_log n0 turn step cs" for turn step cs n0
proof unfold_locales
  show "in_log n0 turn step cs seqs S C ib \<Longrightarrow> inbox_inv ib" for seqs S C ib
    by (simp add: in_log_def)
next
  fix seqs seqs' :: "nat \<Rightarrow> int" and S C ib
  assume "in_log n0 turn step cs seqs S C ib" and "\<And>k. k < S \<Longrightarrow> seqs' k = seqs k"
  then show "in_log n0 turn step cs seqs' S C ib" by (simp add: in_log_def)
next
  fix seqs S C ib ib'
  assume l: "in_log n0 turn step cs seqs S C ib" and g: "grows True ib ib'"
  then obtain es where "inbox_inv ib'" "inbox_log ib' = inbox_log ib @ es" "\<forall>e \<in> set es. neutral True (ev_data e)"
    by (auto simp: grows_by_def)
  with l neutral_step_records [of es True turn step] show "in_log n0 turn step cs seqs S C ib'"
    by (simp add: in_log_def step_records_append)
next
  fix seqs :: "nat \<Rightarrow> int" and S C ib now ib' seq
  assume l: "in_log n0 turn step cs seqs S C ib"
    and a: "appendToolCall now turn step (cs ! S) ib = (ib', Inr seq)"
  have "inbox_inv ib" using l by (simp add: in_log_def)
  note e = append_call_log [OF this a]
  show "in_log n0 turn step cs (seqs(S := seq)) (Suc S) C ib'"
    using l e(1,3) by (auto simp: in_log_def step_records_append)
next
  fix seqs :: "nat \<Rightarrow> int" and S C ib now mid r ib' seq
  assume l: "in_log n0 turn step cs seqs S C ib" "C < S"
    and a: "appendToolResult now mid turn step (cs ! C) r (seqs C) ib = (ib', Inr seq)"
  have "inbox_inv ib" using l by (simp add: in_log_def)
  note e = append_result_log [OF this a]
  show "in_log n0 turn step cs seqs S (Suc C) ib'"
    using l e by (auto simp: in_log_def step_records_append)
qed

lemma waiting_delete:
  assumes "distinct (map tc_id cs)" "C < S" "S \<le> length cs"
  shows "(\<lambda>k. tc_id (cs ! k)) ` {C..<S} - {tc_id (cs ! C)} = (\<lambda>k. tc_id (cs ! k)) ` {Suc C..<S}"
proof -
  have "tc_id (cs ! k) \<noteq> tc_id (cs ! C)" if "Suc C \<le> k" "k < S" for k
    using assms that nth_eq_iff_index_eq [OF assms(1), of k C] by simp
  moreover have "{C..<S} = insert C {Suc C..<S}" using assms(2) by auto
  ultimately show ?thesis by auto
qed

interpretation waiting: tool_ledger turn step cs "in_trace turn step cs" for turn step cs
proof unfold_locales
  show "in_trace turn step cs seqs S C ib \<Longrightarrow> inbox_inv ib" for seqs S C ib
    by (simp add: in_trace_def)
next
  fix seqs seqs' :: "nat \<Rightarrow> int" and S C ib
  assume "in_trace turn step cs seqs S C ib" and "\<And>k. k < S \<Longrightarrow> seqs' k = seqs k"
  then show "in_trace turn step cs seqs' S C ib" by (simp add: in_trace_def)
next
  fix seqs S C ib ib'
  assume "in_trace turn step cs seqs S C ib" and g: "grows True ib ib'"
  then show "in_trace turn step cs seqs S C ib'"
    using traced_grows [OF _ g] grows_inv [OF g] by (simp add: in_trace_def)
next
  fix seqs :: "nat \<Rightarrow> int" and S C ib now ib' seq
  assume l: "in_trace turn step cs seqs S C ib"
    and a: "appendToolCall now turn step (cs ! S) ib = (ib', Inr seq)"
  have inv: "inbox_inv ib" and le: "C \<le> S" using l by (simp_all add: in_trace_def)
  have set: "(\<lambda>k. tc_id (cs ! k)) ` {C..<Suc S} = insert (tc_id (cs ! S)) ((\<lambda>k. tc_id (cs ! k)) ` {C..<S})"
    using le by (simp add: atLeastLessThanSuc)
  have "traced ib' (Some turn) (Some step) turn step ((\<lambda>k. tc_id (cs ! k)) ` {C..<Suc S})"
    if "distinct (map tc_id cs)"
  proof -
    have t: "traced ib (Some turn) (Some step) turn step ((\<lambda>k. tc_id (cs ! k)) ` {C..<S})"
      using l that by (simp add: in_trace_def)
    show ?thesis
      by (rule traced_append [OF t _ a [unfolded appendToolCall_def]])
        (simp_all add: requireOpenStep_def keep_scalars_def set)
  qed
  then show "in_trace turn step cs (seqs(S := seq)) (Suc S) C ib'"
    using le append_call_log(1) [OF inv a] by (simp add: in_trace_def)
next
  fix seqs :: "nat \<Rightarrow> int" and S C ib now mid r ib' seq
  assume l: "in_trace turn step cs seqs S C ib" "C < S" "S \<le> length cs"
    and a: "appendToolResult now mid turn step (cs ! C) r (seqs C) ib = (ib', Inr seq)"
  have inv: "inbox_inv ib" using l by (simp add: in_trace_def)
  have "traced ib' (Some turn) (Some step) turn step ((\<lambda>k. tc_id (cs ! k)) ` {Suc C..<S})"
    if d: "distinct (map tc_id cs)"
  proof -
    have t: "traced ib (Some turn) (Some step) turn step ((\<lambda>k. tc_id (cs ! k)) ` {C..<S})"
      using l d by (simp add: in_trace_def)
    have "tc_id (cs ! C) \<in> (\<lambda>k. tc_id (cs ! k)) ` {C..<S}" using l(2) by auto
    then show ?thesis
      by (intro traced_append [OF t _ a [unfolded appendToolResult_def]])
        (simp_all add: requireOpenStep_def keep_scalars_def waiting_delete [OF d l(2,3)])
  qed
  then show "in_trace turn step cs seqs S (Suc C) ib'"
    using l(2) append_result_log(1) [OF inv a] by (simp add: in_trace_def)
qed

context tool_ledger
begin

lemma ledger_some:
  assumes "ledger off p ib" "pool_shape p"
  shows "recorded_some ib"
proof (cases "po_pc p")
  case (GroupDone n b)
  with assms obtain seqs where "R seqs (off + n) (off + n) ib" "off + n \<le> length cs"
    by (auto simp: ledger_def pool_shape_def of_calls_def)
  then show ?thesis unfolding recorded_some_def by blast
qed (use assms held_some [of off p ib] in \<open>auto simp: ledger_def pool_shape_def shape_defs\<close>)

lemma run_ok_some: "run_ok x ib \<Longrightarrow> recorded_some ib"
proof -
  assume ok: "run_ok x ib"
  show ?thesis
  proof (cases "tx_outcome x")
    case ToolsRunning
    with ok show ?thesis by (intro ledger_some [of "tx_next x" "tx_pool x"]) (simp_all add: run_ok_def)
  next
    case (ToolsReturned b)
    with ok show ?thesis by (auto simp: run_ok_def recorded_some_def)
  qed (use ok in \<open>simp add: run_ok_def\<close>)
qed

end

subsection \<open>Properties\<close>

text \<open>
  C10: whatever the tools answer, in whatever order their bodies settle, and whatever
  else happens on the agent meanwhile, the log records the calls of the step in model order and the
  results in the same order, each citing the record of its own call; no result precedes its call, and
  when the scheduler returns, normally or after an abort, every call has exactly one result.
\<close>

theorem tool_calls_answered:
  assumes inv: "inbox_inv ib" and limit: "0 < limit" and ok: "\<forall>m \<in> set ms. move_ok m"
    and run: "tool_moves ms (executeToolCalls env limit turn step cs ib) = Some (x, ib')"
    and es: "es = drop (length (inbox_log ib)) (inbox_log ib')"
  shows "\<exists>S C. C \<le> S \<and> S \<le> length cs \<and> map snd (step_calls turn step es) = take S cs
    \<and> step_results turn step es = map answer (take C (step_calls turn step es))
    \<and> (\<forall>b. tx_outcome x = ToolsReturned b \<longrightarrow> C = length cs)"
proof -
  let ?n0 = "length (inbox_log ib)"
  obtain x0 ib0 where x0: "executeToolCalls env limit turn step cs ib = (x0, ib0)"
    by (cases "executeToolCalls env limit turn step cs ib")
  have "in_log ?n0 turn step cs (\<lambda>_. 0) 0 0 ib" using inv by (simp add: in_log_def step_calls_def step_results_def)
  from records.execute_ok [OF this limit x0] have "records.run_ok turn step cs ?n0 x0 ib0" by simp
  with records.moves_ok [OF this ok] run x0 have rok: "records.run_ok turn step cs ?n0 x ib'" by simp
  have read: "map snd (step_calls turn step es) = take S cs \<and>
      step_results turn step es = map answer (take C (step_calls turn step es))"
    if "in_log ?n0 turn step cs seqs S C ib'" "S \<le> length cs" for seqs S C
  proof -
    have c: "step_calls turn step es = map (\<lambda>k. (seqs k, cs ! k)) [0..<S]" "C \<le> S"
      "step_results turn step es = map (\<lambda>k. answer (seqs k, cs ! k)) [0..<C]"
      using that(1) by (simp_all add: in_log_def es)
    then show ?thesis using that(2)
      by (intro conjI nth_equalityI) (simp_all add: take_map take_upt)
  qed
  show ?thesis
  proof (cases "\<exists>b. tx_outcome x = ToolsReturned b")
    case True
    with rok obtain seqs where "in_log ?n0 turn step cs seqs (length cs) (length cs) ib'"
      by (auto simp: records.run_ok_def)
    from read [OF this] show ?thesis by (intro exI [of _ "length cs"]) simp
  next
    case False
    from records.run_ok_some [OF rok] obtain seqs S C where "in_log ?n0 turn step cs seqs S C ib'" "C \<le> S" "S \<le> length cs"
      by (auto simp: records.recorded_some_def)
    with read [OF this(1,3)] False show ?thesis by blast
  qed
qed

text \<open>
  C11: the scheduler takes at most \<open>(13n + 4)(n + 1)\<close> transitions for \<open>n\<close> calls, and
  until it has returned or failed it is never stuck: some answer, some settling body or its own next
  step is always possible.
\<close>

theorem tool_calls_terminate:
  assumes inv: "inbox_inv ib" and limit: "0 < limit" and ok: "\<forall>m \<in> set ms. move_ok m"
    and run: "tool_moves ms (executeToolCalls env limit turn step cs ib) = Some (x, ib')"
  shows "length (filter is_tool_move ms) \<le> (13 * length cs + 4) * (length cs + 1)
    \<and> (tx_outcome x = ToolsRunning \<longrightarrow> (\<exists>i. tool_step env' limit' i (x, ib') \<noteq> None))"
proof -
  let ?n0 = "length (inbox_log ib)"
  obtain x0 ib0 where x0: "executeToolCalls env limit turn step cs ib = (x0, ib0)"
    by (cases "executeToolCalls env limit turn step cs ib")
  have "in_log ?n0 turn step cs (\<lambda>_. 0) 0 0 ib" using inv by (simp add: in_log_def step_calls_def step_results_def)
  note start = records.execute_ok [OF this limit x0]
  from start records.moves_ok [of turn step cs ?n0 x0 ib0 ms x ib', OF _ ok] run x0
  have "records.run_ok turn step cs ?n0 x ib'" "length (filter is_tool_move ms) \<le> (13 * length cs + 4) * (length cs + 1)"
    by simp_all
  then show ?thesis using records.run_enabled [of turn step cs ?n0 x ib' env' limit'] by blast
qed





text \<open>The caps of the configuration the moves of a run read.\<close>

fun cap_ok :: "nat \<Rightarrow> tool_move \<Rightarrow> bool" where
  "cap_ok L (ToolMove env limit i) = (limit \<le> L)"
| "cap_ok L (OutsideMove now c) = True"



subsection \<open>A concrete step\<close>

text \<open>
  Two parallel calls and an exclusive one: the second body settles first, its result waits for the
  first; the exclusive call begins its own group, and an abort during it skips the last call.
\<close>

definition demo_tool_calls :: "tool_call list" where
  "demo_tool_calls = [\<lparr>tc_id = ''a'', tc_name = ''read'', tc_arguments = []\<rparr>,
     \<lparr>tc_id = ''b'', tc_name = ''read'', tc_arguments = []\<rparr>, \<lparr>tc_id = ''c'', tc_name = ''write'', tc_arguments = []\<rparr>,
     \<lparr>tc_id = ''d'', tc_name = ''read'', tc_arguments = []\<rparr>]"

definition demo_env :: "bool \<Rightarrow> sched_env" where
  "demo_env ab = \<lparr>se_now = 1, se_ids = (\<lambda>i. ''m'' @ show_nat i),
     se_resolve = (\<lambda>c. Some (\<lambda>c. Some (tc_name c = ''read''))), se_finish = (\<lambda>r. Inr r), se_aborted = ab\<rparr>"

definition demo_execution :: tool_execution where
  "demo_execution = \<lparr>te_content = [TextBlock ''ok''], te_isError = False, te_error = None, te_meta = None,
     te_contexts = [], te_concludes = False\<rparr>"

definition demo_slot :: slot where
  "demo_slot = \<lparr>sl_result = demo_execution, sl_needsPost = False\<rparr>"

definition demo_tool_moves :: "tool_move list" where
  "demo_tool_moves = map (ToolMove (demo_env False) 2)
     [Prepared (Inr PrepDispatch), Resume, Resume, Prepared (Inr PrepDispatch), Resume, Resume, Resume,
      Settled 1 (Inr demo_slot), Raced 1, Resume]
     @ [OutsideMove 5 (CallOtherEvent (TodoWrite []) None None)]
     @ map (ToolMove (demo_env False) 2)
     [Resume, Settled 0 (Inr demo_slot), Raced 0, Resume, Resume, Resume]
     @ map (ToolMove (demo_env True) 2) [Prepared (Inr (PrepPost demo_execution)), Resume, Finalized (Inr demo_execution),
      Resume, Resume, Resume]"

lemma demo_tools_facts:
  "case newSession SnapshotSeed ''s'' None None 0 of Inl _ \<Rightarrow> False
   | Inr s \<Rightarrow> seed_length s \<le> length (ses_log s)
     \<and> (case newInbox s of Inl _ \<Rightarrow> False
        | Inr ib \<Rightarrow>
            (case tool_moves demo_tool_moves (executeToolCalls (demo_env False) 2 1 1 demo_tool_calls ib) of
               None \<Rightarrow> False
             | Some (x, ib') \<Rightarrow> tx_outcome x = ToolsReturned False
                 \<and> map fst (step_calls 1 1 (drop (length (inbox_log ib)) (inbox_log ib'))) = [0, 1, 5, 7])
          \<and> (case tool_moves (take 8 demo_tool_moves) (executeToolCalls (demo_env False) 2 1 1 demo_tool_calls ib) of
               None \<Rightarrow> False
             | Some (x, ib') \<Rightarrow> tx_outcome x = ToolsRunning \<and> po_pc (tx_pool x) = AtRace
                 \<and> po_inFlight (tx_pool x) = [0, 1]))"
  by code_simp

lemma demo_tools_obtain:
  obtains ib x ib' y ib'' where "inbox_inv ib"
    "tool_moves demo_tool_moves (executeToolCalls (demo_env False) 2 1 1 demo_tool_calls ib) = Some (x, ib')"
    "tx_outcome x = ToolsReturned False"
    "map fst (step_calls 1 1 (drop (length (inbox_log ib)) (inbox_log ib'))) = [0, 1, 5, 7]"
    "tool_moves (take 8 demo_tool_moves) (executeToolCalls (demo_env False) 2 1 1 demo_tool_calls ib) = Some (y, ib'')"
    "tx_outcome y = ToolsRunning" "po_pc (tx_pool y) = AtRace" "po_inFlight (tx_pool y) = [0, 1]"
proof -
  obtain s ib where s: "newSession SnapshotSeed ''s'' None None 0 = Inr s"
    "seed_length s \<le> length (ses_log s)" "newInbox s = Inr ib"
    using demo_tools_facts by (auto split: sum.splits)
  note inv = newInbox_inv [OF newSession_inv(1) [OF s(1)] s(2,3)]
  from demo_tools_facts s obtain x ib' y ib'' where
    "tool_moves demo_tool_moves (executeToolCalls (demo_env False) 2 1 1 demo_tool_calls ib) = Some (x, ib')"
    "tx_outcome x = ToolsReturned False"
    "map fst (step_calls 1 1 (drop (length (inbox_log ib)) (inbox_log ib'))) = [0, 1, 5, 7]"
    "tool_moves (take 8 demo_tool_moves) (executeToolCalls (demo_env False) 2 1 1 demo_tool_calls ib) = Some (y, ib'')"
    "tx_outcome y = ToolsRunning" "po_pc (tx_pool y) = AtRace" "po_inFlight (tx_pool y) = [0, 1]"
    by (auto split: option.splits prod.splits)
  from that [OF inv this] show thesis .
qed

lemma demo_moves_ok: "\<forall>m \<in> set demo_tool_moves. move_ok m \<and> cap_ok 2 m"
  by (simp add: demo_tool_moves_def)


theorem tool_calls_answered_witness:
  "\<exists>ib x ib'. inbox_inv ib
    \<and> tool_moves demo_tool_moves (executeToolCalls (demo_env False) 2 1 1 demo_tool_calls ib) = Some (x, ib')
    \<and> step_results 1 1 (drop (length (inbox_log ib)) (inbox_log ib'))
      = [(''a'', Some (JArr [JInt 0])), (''b'', Some (JArr [JInt 1])), (''c'', Some (JArr [JInt 5])),
         (''d'', Some (JArr [JInt 7]))]"
proof -
  obtain ib x ib' where d: "inbox_inv ib"
    "tool_moves demo_tool_moves (executeToolCalls (demo_env False) 2 1 1 demo_tool_calls ib) = Some (x, ib')"
    "tx_outcome x = ToolsReturned False"
    and q: "map fst (step_calls 1 1 (drop (length (inbox_log ib)) (inbox_log ib'))) = [0, 1, 5, 7]"
    by (rule demo_tools_obtain)
  let ?es = "drop (length (inbox_log ib)) (inbox_log ib')"
  have ok: "\<forall>m \<in> set demo_tool_moves. move_ok m" using demo_moves_ok by blast
  from tool_calls_answered [OF d(1) _ ok d(2) refl] d(3)
  have c: "map snd (step_calls 1 1 ?es) = demo_tool_calls"
    and r: "step_results 1 1 ?es = map answer (take 4 (step_calls 1 1 ?es))"
    by (auto simp: demo_tool_calls_def)
  have "step_calls 1 1 ?es = zip [0, 1, 5, 7] demo_tool_calls"
    using q c by (metis zip_map_fst_snd)
  with r d show ?thesis by (auto simp: demo_tool_calls_def answer_def)
qed

theorem tool_calls_terminate_witness:
  "\<exists>ib x ib'. inbox_inv ib
    \<and> tool_moves demo_tool_moves (executeToolCalls (demo_env False) 2 1 1 demo_tool_calls ib) = Some (x, ib')
    \<and> length (filter is_tool_move demo_tool_moves) \<le> 280"
proof -
  obtain ib x ib' where d: "inbox_inv ib"
    "tool_moves demo_tool_moves (executeToolCalls (demo_env False) 2 1 1 demo_tool_calls ib) = Some (x, ib')"
    by (rule demo_tools_obtain)
  have ok: "\<forall>m \<in> set demo_tool_moves. move_ok m" using demo_moves_ok by blast
  from tool_calls_terminate [OF d(1) _ ok d(2)]
  have "length (filter is_tool_move demo_tool_moves) \<le> (13 * length demo_tool_calls + 4) * (length demo_tool_calls + 1)"
    by simp
  then have "length (filter is_tool_move demo_tool_moves) \<le> 280" by (simp add: demo_tool_calls_def)
  with d show ?thesis by blast
qed


end
