(* ===== verification/Runtime_Context.thy ===== *)
theory Runtime_Context
  imports Session_Facts
begin

text \<open>
  The runtime-context projection of an agent (\<open>core/agent-loop/src/runtime-context.ts\<close>): which snapshot
  of the dynamic context the conversation still shows, restored from the log once and then followed
  event by event, so that a new snapshot is proposed only when it differs.
\<close>

subsection \<open>State\<close>

definition CONTEXT_SOURCE :: string where
  "CONTEXT_SOURCE = ''@coco-harness/cch-system-prompt''"

definition CLEARED :: string where
  "CLEARED = ''Current runtime context: none. Earlier runtime-context snapshots no longer apply.''"

definition isOwned :: "message \<Rightarrow> bool" where
  "isOwned m = (case msg_source m of SourcePlugin p _ \<Rightarrow> p = CONTEXT_SOURCE | _ \<Rightarrow> False)"

definition textOf :: "message \<Rightarrow> string option" where
  "textOf m = (case msg_content m of [TextBlock t] \<Rightarrow> Some t | _ \<Rightarrow> None)"

text \<open>\<open>undefined\<close>, \<open>null\<close>, or the seq and text of the retained snapshot.\<close>

datatype retained = NeverRetained | NothingRetained | Retained int "string option"

fun owned_message :: "event_data \<Rightarrow> message option" where
  "owned_message (UserMessage m) = (if isOwned m then Some m else None)"
| "owned_message _ = None"

subsection \<open>Operations\<close>

text \<open>The constructor's scan from the end of the log; \<open>nodes\<close> is the surface.\<close>

primrec scan_back :: "int list \<Rightarrow> event list \<Rightarrow> retained \<Rightarrow> retained" where
  "scan_back ns [] r = r"
| "scan_back ns (e # es) r =
     (case owned_message (ev_data e) of
        None \<Rightarrow> scan_back ns es r
      | Some m \<Rightarrow>
          if ev_seq e \<in> set ns then Retained (ev_seq e) (textOf m) else scan_back ns es NothingRetained)"

definition restoreContext :: "int list \<Rightarrow> event list \<Rightarrow> retained" where
  "restoreContext ns es = scan_back ns (rev es) NeverRetained"

definition cites :: "event \<Rightarrow> int \<Rightarrow> bool" where
  "cites e s = (case ev_sourceEventSeqs e of
      Some (JArr raw) \<Rightarrow> list_ex (\<lambda>j. isEventSeq j \<and> json_seq j = s) raw
    | _ \<Rightarrow> False)"

text \<open>The listener on the session's events.\<close>

definition followContext :: "retained \<Rightarrow> event \<Rightarrow> retained" where
  "followContext r e =
     (case owned_message (ev_data e) of
        Some m \<Rightarrow> Retained (ev_seq e) (textOf m)
      | None \<Rightarrow>
          (case r of
             Retained s t \<Rightarrow> if isReplacementSurfaceEvent e \<and> cites e s then NothingRetained else r
           | _ \<Rightarrow> r))"

definition section_json :: "string \<times> string \<Rightarrow> json" where
  "section_json s = JObj [(''name'', JStr (fst s)), (''text'', JStr (snd s))]"

text \<open>The candidate snapshot, when the retained one does not already say it.\<close>

definition projectContext :: "string \<Rightarrow> retained \<Rightarrow> string \<Rightarrow> (string \<times> string) list \<Rightarrow> message option" where
  "projectContext mid r current sections =
     (if r = NeverRetained \<and> current = [] then None
      else let snapshot = (if current = [] then CLEARED else current) in
        if (case r of Retained s t \<Rightarrow> t = Some snapshot | _ \<Rightarrow> False) then None
        else Some \<lparr>msg_id = mid, msg_role = RoleUser, msg_content = [TextBlock snapshot],
               msg_source = SourcePlugin CONTEXT_SOURCE
                 (if sections = [] then []
                  else [(''form'', JStr ''snapshot''), (''sections'', JArr (map section_json sections))])\<rparr>)"

text \<open>\<open>joinContextSections\<close> of the system-prompt package: the text of the full snapshot.\<close>

primrec join_sections :: "string list \<Rightarrow> string" where
  "join_sections [] = []"
| "join_sections (t # ts) = t @ (if ts = [] then [] else CHR 0x0A # CHR 0x0A # join_sections ts)"

definition joinContextSections :: "(string \<times> string) list \<Rightarrow> string" where
  "joinContextSections sections =
     (let body = join_sections (map snd sections) in
      if body = [] then []
      else ''Current runtime context. This snapshot supersedes earlier runtime-context snapshots.''
        @ [CHR 0x0A, CHR 0x0A] @ body)"

end
