(* ===== verification/Block_Assembler.thy ===== *)
theory Block_Assembler
  imports Session_Events
begin

text \<open>
  The chunk-to-message assembler (\<open>llm/llm/src/assembler.ts\<close>): partial blocks by index in order of
  first appearance, closed by the first \<open>block-end\<close>. Interleaving the chunks of different blocks
  changes nothing: every block is what its own chunks alone assemble to.
\<close>

subsection \<open>State\<close>

record partial_block =
  pb_type :: string
  pb_text :: string
  pb_callId :: "string option"
  pb_callName :: "string option"
  pb_arguments :: string
  pb_block :: "content_block option"

record assembler =
  as_partials :: "int \<rightharpoonup> partial_block"
  as_order :: "int list"
  as_usage :: "token_usage option"
  as_finish :: "finish_reason option"
  as_replayState :: "json option"

definition new_assembler :: assembler where
  "new_assembler = \<lparr>as_partials = Map.empty, as_order = [], as_usage = None, as_finish = None,
     as_replayState = None\<rparr>"

definition open_partial :: "string \<Rightarrow> partial_block" where
  "open_partial t = \<lparr>pb_type = t, pb_text = [], pb_callId = None, pb_callName = None,
     pb_arguments = [], pb_block = None\<rparr>"

fun block_type :: "content_block \<Rightarrow> string" where
  "block_type (TextBlock _) = ''text''"
| "block_type (ReasoningBlock _) = ''reasoning''"
| "block_type (ImageBlock _) = ''image''"
| "block_type (ToolCallBlock _ _ _) = ''tool-call''"
| "block_type (ToolResultBlock _ _ _) = ''tool-result''"
| "block_type (OtherBlock t _) = t"

subsection \<open>Operations\<close>

definition ensure :: "int \<Rightarrow> string \<Rightarrow> assembler \<Rightarrow> assembler" where
  "ensure i t a =
     (case as_partials a i of
        Some _ \<Rightarrow> a
      | None \<Rightarrow> a\<lparr>as_partials := (as_partials a)(i \<mapsto> open_partial t), as_order := as_order a @ [i]\<rparr>)"

text \<open>Mutating the partial of an index, unless \<open>block-end\<close> has closed it.\<close>

definition update_open :: "int \<Rightarrow> (partial_block \<Rightarrow> partial_block) \<Rightarrow> assembler \<Rightarrow> assembler" where
  "update_open i f a =
     (case as_partials a i of
        None \<Rightarrow> a
      | Some p \<Rightarrow> if pb_block p \<noteq> None then a else a\<lparr>as_partials := (as_partials a)(i \<mapsto> f p)\<rparr>)"

definition add_call_delta :: "string \<Rightarrow> string option \<Rightarrow> string \<Rightarrow> partial_block \<Rightarrow> partial_block" where
  "add_call_delta c n args p =
     p\<lparr>pb_callId := Some c,
       pb_callName := (case n of None \<Rightarrow> pb_callName p | Some x \<Rightarrow> if x = [] then pb_callName p else Some x),
       pb_arguments := pb_arguments p @ args\<rparr>"

fun push_chunk :: "assembler \<Rightarrow> stream_chunk \<Rightarrow> assembler" where
  "push_chunk a (BlockStart i t) = ensure i t a"
| "push_chunk a (TextDelta i t) =
     update_open i (\<lambda>p. p\<lparr>pb_text := pb_text p @ t\<rparr>) (ensure i ''text'' a)"
| "push_chunk a (ReasoningDelta i t) =
     update_open i (\<lambda>p. p\<lparr>pb_text := pb_text p @ t\<rparr>) (ensure i ''reasoning'' a)"
| "push_chunk a (ToolCallDelta i c n args) =
     update_open i (add_call_delta c n args) (ensure i ''tool-call'' a)"
| "push_chunk a (BlockEnd i b) =
     update_open i (\<lambda>p. p\<lparr>pb_block := Some b\<rparr>) (ensure i (block_type b) a)"
| "push_chunk a (UsageChunk u) = a\<lparr>as_usage := Some u\<rparr>"
| "push_chunk a (FinishChunk r replay) = a\<lparr>as_finish := Some r, as_replayState := replay\<rparr>"

datatype assembly_error = IncompleteBlock string | MissingPartial int

definition assemble_partial :: "partial_block \<Rightarrow> int \<Rightarrow> (assembly_error, content_block) result" where
  "assemble_partial p i =
     (case pb_block p of
        Some b \<Rightarrow> Inr b
      | None \<Rightarrow>
          if pb_type p = ''text'' then Inr (TextBlock (pb_text p))
          else if pb_type p = ''reasoning'' then Inr (ReasoningBlock (pb_text p))
          else if pb_type p = ''tool-call''
          then Inr (ToolCallBlock (case pb_callId p of Some c \<Rightarrow> c | None \<Rightarrow> ''call-'' @ show_int i)
            (case pb_callName p of Some n \<Rightarrow> n | None \<Rightarrow> []) (pb_arguments p))
          else Inl (IncompleteBlock (pb_type p)))"

definition mustGet :: "assembler \<Rightarrow> int \<Rightarrow> (assembly_error, partial_block) result" where
  "mustGet a i = (case as_partials a i of None \<Rightarrow> Inl (MissingPartial i) | Some p \<Rightarrow> Inr p)"

primrec assemble_all :: "assembler \<Rightarrow> int list \<Rightarrow> (assembly_error, content_block list) result" where
  "assemble_all a [] = Inr []"
| "assemble_all a (i # is) =
     bindE (mustGet a i) (\<lambda>p. bindE (assemble_partial p i) (\<lambda>b.
       res_map (\<lambda>bs. b # bs) (assemble_all a is)))"

definition finish_of :: "assembler \<Rightarrow> finish_reason" where
  "finish_of a = (case as_finish a of None \<Rightarrow> FinishStop | Some r \<Rightarrow> r)"

definition blocks :: "assembler \<Rightarrow> (assembly_error, content_block list) result" where
  "blocks a = res_map (\<lambda>bs. if finish_of a = FinishMaxTokens then filter (\<lambda>b. \<not> is_tool_call b) bs else bs)
     (assemble_all a (as_order a))"

subsection \<open>A block from its own chunks\<close>

fun chunk_index :: "stream_chunk \<Rightarrow> int option" where
  "chunk_index (BlockStart i _) = Some i"
| "chunk_index (TextDelta i _) = Some i"
| "chunk_index (ReasoningDelta i _) = Some i"
| "chunk_index (ToolCallDelta i _ _ _) = Some i"
| "chunk_index (BlockEnd i _) = Some i"
| "chunk_index _ = None"

fun chunk_type :: "stream_chunk \<Rightarrow> string" where
  "chunk_type (BlockStart _ t) = t"
| "chunk_type (TextDelta _ _) = ''text''"
| "chunk_type (ReasoningDelta _ _) = ''reasoning''"
| "chunk_type (ToolCallDelta _ _ _ _) = ''tool-call''"
| "chunk_type (BlockEnd _ b) = block_type b"
| "chunk_type _ = []"

fun end_block :: "stream_chunk \<Rightarrow> content_block option" where
  "end_block (BlockEnd _ b) = Some b"
| "end_block _ = None"

fun delta_text :: "stream_chunk \<Rightarrow> string" where
  "delta_text (TextDelta _ t) = t"
| "delta_text (ReasoningDelta _ t) = t"
| "delta_text _ = []"

fun delta_arguments :: "stream_chunk \<Rightarrow> string" where
  "delta_arguments (ToolCallDelta _ _ _ x) = x"
| "delta_arguments _ = []"

fun delta_callId :: "stream_chunk \<Rightarrow> string option" where
  "delta_callId (ToolCallDelta _ c _ _) = Some c"
| "delta_callId _ = None"

fun delta_callName :: "stream_chunk \<Rightarrow> string option" where
  "delta_callName (ToolCallDelta _ _ (Some n) _) = (if n = [] then None else Some n)"
| "delta_callName _ = None"

definition own_chunks :: "int \<Rightarrow> stream_chunk list \<Rightarrow> stream_chunk list" where
  "own_chunks i cs = filter (\<lambda>c. chunk_index c = Some i) cs"

definition before_end :: "stream_chunk list \<Rightarrow> stream_chunk list" where
  "before_end os = takeWhile (\<lambda>c. end_block c = None) os"

primrec last_some :: "('a \<Rightarrow> 'b option) \<Rightarrow> 'a list \<Rightarrow> 'b option" where
  "last_some f [] = None"
| "last_some f (x # xs) = (case last_some f xs of Some y \<Rightarrow> Some y | None \<Rightarrow> f x)"

definition first_end :: "stream_chunk list \<Rightarrow> content_block option" where
  "first_end os = (case find (\<lambda>c. end_block c \<noteq> None) os of None \<Rightarrow> None | Some c \<Rightarrow> end_block c)"

text \<open>The partial block the chunks of one index add up to.\<close>

definition partial_of :: "stream_chunk list \<Rightarrow> partial_block" where
  "partial_of os =
     (let pre = before_end os in
      \<lparr>pb_type = chunk_type (hd os), pb_text = concat (map delta_text pre),
       pb_callId = last_some delta_callId pre, pb_callName = last_some delta_callName pre,
       pb_arguments = concat (map delta_arguments pre), pb_block = first_end os\<rparr>)"

primrec first_seen :: "int list \<Rightarrow> stream_chunk list \<Rightarrow> int list" where
  "first_seen seen [] = []"
| "first_seen seen (c # cs) =
     (case chunk_index c of
        None \<Rightarrow> first_seen seen cs
      | Some i \<Rightarrow> if i \<in> set seen then first_seen seen cs else i # first_seen (i # seen) cs)"

definition seen_indexes :: "stream_chunk list \<Rightarrow> int list" where
  "seen_indexes cs = first_seen [] cs"

fun finish_chunk :: "stream_chunk \<Rightarrow> finish_reason option" where
  "finish_chunk (FinishChunk r _) = Some r"
| "finish_chunk _ = None"

fun usage_chunk :: "stream_chunk \<Rightarrow> token_usage option" where
  "usage_chunk (UsageChunk u) = Some u"
| "usage_chunk _ = None"

lemma last_some_snoc: "last_some f (xs @ [x]) = (case f x of Some y \<Rightarrow> Some y | None \<Rightarrow> last_some f xs)"
  by (induction xs) (auto split: option.splits)

lemma first_seen_snoc:
  "first_seen seen (cs @ [c]) = first_seen seen cs @
     (case chunk_index c of None \<Rightarrow> [] | Some i \<Rightarrow>
        if i \<in> set seen \<or> own_chunks i cs \<noteq> [] then [] else [i])"
  by (induction cs arbitrary: seen) (auto simp: own_chunks_def split: option.splits)

lemma own_chunks_snoc:
  "own_chunks i (cs @ [c]) = own_chunks i cs @ (if chunk_index c = Some i then [c] else [])"
  by (simp add: own_chunks_def)

lemma first_end_simps [simp]:
  "first_end [] = None" "first_end [c] = end_block c"
  by (simp_all add: first_end_def)

lemma first_end_snoc:
  "first_end (os @ [c]) = (case first_end os of Some b \<Rightarrow> Some b | None \<Rightarrow> end_block c)"
  by (induction os) (auto simp: first_end_def split: option.splits)

lemma before_end_snoc:
  "before_end (os @ [c]) = (if first_end os = None \<and> end_block c = None then before_end os @ [c] else before_end os)"
  by (induction os) (auto simp: before_end_def first_end_def split: option.splits if_splits)

lemma before_end_open: "first_end os = None \<Longrightarrow> before_end os = os"
  by (auto simp: before_end_def first_end_def takeWhile_eq_all_conv find_None_iff split: option.splits
      dest: find_Some_iff [THEN iffD1])

subsection \<open>The assembler state of a stream\<close>

definition assembled :: "stream_chunk list \<Rightarrow> assembler" where
  "assembled cs = foldl push_chunk new_assembler cs"

definition partials_ref :: "stream_chunk list \<Rightarrow> int \<Rightarrow> partial_block option" where
  "partials_ref cs i = (let os = own_chunks i cs in if os = [] then None else Some (partial_of os))"

lemma partial_of_single:
  "partial_of [c] = \<lparr>pb_type = chunk_type c, pb_text = delta_text c, pb_callId = delta_callId c,
     pb_callName = delta_callName c, pb_arguments = delta_arguments c, pb_block = end_block c\<rparr>"
  by (cases c) (auto simp: partial_of_def before_end_def first_end_def Let_def)

lemma partial_of_snoc:
  assumes "os \<noteq> []"
  shows "partial_of (os @ [c]) =
    (if pb_block (partial_of os) \<noteq> None then partial_of os
     else case end_block c of
       Some b \<Rightarrow> (partial_of os)\<lparr>pb_block := Some b\<rparr>
     | None \<Rightarrow> (partial_of os)\<lparr>pb_text := pb_text (partial_of os) @ delta_text c,
         pb_callId := (case delta_callId c of Some x \<Rightarrow> Some x | None \<Rightarrow> pb_callId (partial_of os)),
         pb_callName := (case delta_callName c of Some x \<Rightarrow> Some x | None \<Rightarrow> pb_callName (partial_of os)),
         pb_arguments := pb_arguments (partial_of os) @ delta_arguments c\<rparr>)"
  using assms
  by (auto simp: partial_of_def Let_def before_end_snoc first_end_snoc last_some_snoc split: option.splits)

lemma push_other:
  "chunk_index c \<noteq> Some i \<Longrightarrow> as_partials (push_chunk a c) i = as_partials a i"
  by (cases c) (auto simp: ensure_def update_open_def split: option.splits)

lemma push_own:
  assumes "chunk_index c = Some i"
  shows "as_partials (push_chunk a c) i = Some (case as_partials a i of
      None \<Rightarrow> partial_of [c]
    | Some p \<Rightarrow> if pb_block p \<noteq> None then p
        else (case end_block c of
          Some b \<Rightarrow> p\<lparr>pb_block := Some b\<rparr>
        | None \<Rightarrow> p\<lparr>pb_text := pb_text p @ delta_text c,
            pb_callId := (case delta_callId c of Some x \<Rightarrow> Some x | None \<Rightarrow> pb_callId p),
            pb_callName := (case delta_callName c of Some x \<Rightarrow> Some x | None \<Rightarrow> pb_callName p),
            pb_arguments := pb_arguments p @ delta_arguments c\<rparr>))"
  using assms
  by (cases c) (auto simp: ensure_def update_open_def partial_of_single open_partial_def
      add_call_delta_def split: option.splits)

lemma push_order:
  "as_order (push_chunk a c) = as_order a @ (case chunk_index c of None \<Rightarrow> []
     | Some i \<Rightarrow> if as_partials a i = None then [i] else [])"
  by (cases c) (auto simp: ensure_def update_open_def split: option.splits)

lemma push_finish:
  "as_finish (push_chunk a c) = (case finish_chunk c of Some r \<Rightarrow> Some r | None \<Rightarrow> as_finish a)"
  "as_usage (push_chunk a c) = (case usage_chunk c of Some u \<Rightarrow> Some u | None \<Rightarrow> as_usage a)"
  by (cases c; auto simp: ensure_def update_open_def split: option.splits)+

lemma assembled_state:
  "as_partials (assembled cs) = partials_ref cs \<and> as_order (assembled cs) = seen_indexes cs
    \<and> as_finish (assembled cs) = last_some finish_chunk cs \<and> as_usage (assembled cs) = last_some usage_chunk cs"
proof (induction cs rule: rev_induct)
  case Nil
  show ?case by (auto simp: assembled_def new_assembler_def partials_ref_def own_chunks_def seen_indexes_def)
next
  case (snoc c cs)
  have step: "assembled (cs @ [c]) = push_chunk (assembled cs) c" by (simp add: assembled_def)
  have "as_partials (push_chunk (assembled cs) c) i = partials_ref (cs @ [c]) i" for i
  proof (cases "chunk_index c = Some i")
    case True
    then show ?thesis
      using snoc.IH
      by (cases "own_chunks i cs = []")
        (simp_all add: push_own partials_ref_def own_chunks_snoc partial_of_snoc)
  next
    case False
    then show ?thesis using snoc.IH by (simp add: push_other partials_ref_def own_chunks_snoc)
  qed
  moreover have "as_order (push_chunk (assembled cs) c) = seen_indexes (cs @ [c])"
    using snoc.IH by (auto simp: push_order seen_indexes_def first_seen_snoc partials_ref_def Let_def
        split: option.splits)
  moreover have "as_partials (push_chunk (assembled cs) c) = partials_ref (cs @ [c])"
    using calculation(1) by (rule ext)
  ultimately show ?case using snoc.IH
    by (simp add: step push_finish last_some_snoc split: option.split)
qed

subsection \<open>The blocks of a stream\<close>

text \<open>What the chunks of one index, taken alone, assemble to.\<close>

definition block_of :: "int \<Rightarrow> stream_chunk list \<Rightarrow> (assembly_error, content_block) result" where
  "block_of i os =
     (case first_end os of
        Some b \<Rightarrow> Inr b
      | None \<Rightarrow>
          if chunk_type (hd os) = ''text'' then Inr (TextBlock (concat (map delta_text os)))
          else if chunk_type (hd os) = ''reasoning'' then Inr (ReasoningBlock (concat (map delta_text os)))
          else if chunk_type (hd os) = ''tool-call''
          then Inr (ToolCallBlock
            (case last_some delta_callId os of Some c \<Rightarrow> c | None \<Rightarrow> ''call-'' @ show_int i)
            (case last_some delta_callName os of Some n \<Rightarrow> n | None \<Rightarrow> [])
            (concat (map delta_arguments os)))
          else Inl (IncompleteBlock (chunk_type (hd os))))"

primrec all_ok :: "('e, 'a) result list \<Rightarrow> ('e, 'a list) result" where
  "all_ok [] = Inr []"
| "all_ok (r # rs) = bindE r (\<lambda>x. res_map (\<lambda>xs. x # xs) (all_ok rs))"

definition executable_blocks :: "stream_chunk list \<Rightarrow> content_block list \<Rightarrow> content_block list" where
  "executable_blocks cs bs =
     (if last_some finish_chunk cs = Some FinishMaxTokens then filter (\<lambda>b. \<not> is_tool_call b) bs else bs)"

lemma first_seen_own: "i \<in> set (first_seen seen cs) \<Longrightarrow> own_chunks i cs \<noteq> []"
  by (induction cs arbitrary: seen) (auto simp: own_chunks_def split: option.splits if_splits)

lemma assemble_partial_of: "assemble_partial (partial_of os) i = block_of i os"
  by (auto simp: assemble_partial_def partial_of_def block_of_def Let_def before_end_open split: option.splits)

lemma assemble_all_ref:
  assumes "as_partials a = partials_ref cs" "\<forall>i \<in> set is. own_chunks i cs \<noteq> []"
  shows "assemble_all a is = all_ok (map (\<lambda>i. block_of i (own_chunks i cs)) is)"
  using assms(2) by (induction "is") (simp_all add: mustGet_def assms(1) partials_ref_def assemble_partial_of)

lemma assembler_blocks:
  "blocks (foldl push_chunk new_assembler cs) =
     res_map (executable_blocks cs) (all_ok (map (\<lambda>i. block_of i (own_chunks i cs)) (seen_indexes cs)))"
proof -
  note st = assembled_state [of cs]
  have "\<forall>i \<in> set (seen_indexes cs). own_chunks i cs \<noteq> []" by (simp add: seen_indexes_def first_seen_own)
  moreover have "finish_of (assembled cs) = FinishMaxTokens \<longleftrightarrow> last_some finish_chunk cs = Some FinishMaxTokens"
    using st by (simp add: finish_of_def split: option.splits)
  ultimately show ?thesis
    using st assemble_all_ref [of "assembled cs" cs "seen_indexes cs"]
    by (simp add: blocks_def assembled_def [symmetric] executable_blocks_def [abs_def])
qed

text \<open>
  C21: the assembled message does not depend on how the blocks of a stream
  are interleaved. For every chunk stream, well-formed or not, \<open>blocks()\<close> holds one block per index
  in order of first appearance, and each is what the chunks of its own index alone add up to: the
  block of the first \<open>block-end\<close>, or else the concatenated deltas in the type of the first chunk.
  An index that is neither closed nor of a known type is the only error. A stream cut by the token
  limit drops its tool calls.
\<close>

theorem assembler_isolates_blocks:
  "blocks (foldl push_chunk new_assembler cs) =
     res_map (executable_blocks cs) (all_ok (map (\<lambda>i. block_of i (own_chunks i cs)) (seen_indexes cs)))"
  by (rule assembler_blocks)

end
