(* ===== verification/Agent_Phase.thy ===== *)
theory Agent_Phase
  imports Tool_Scheduler Runtime_Context Block_Assembler Inbox_Facts
begin

text \<open>
  The agent driver (\<open>core/agent-loop/src/agent.ts\<close>), first part: its state, the phases and the latch of
  a wake, and how a turn begins and ends. The coroutine \<open>kick\<close>, \<open>turn\<close>, \<open>preStep\<close>, \<open>step\<close>,
  \<open>buildRequest\<close> is cut at its awaits; a transition runs from one await to the next.
\<close>

subsection \<open>State\<close>

text \<open>The abort controller of a phase is its reason, once aborted.\<close>

datatype phase =
    Idle int
  | Maintenance "cancel_cause option" int bool
  | Running "cancel_cause option" int int bool

datatype agent_error =
    Cancelled cancel_cause
  | LlmFailed llm_failure
  | Thrown string
  | SessionThrew session_error
  | InboxThrew inbox_error
  | AssemblyThrew assembly_error
  | ToolsThrew tool_error
  | NoRoute

datatype agent_notice = StatusNotice bool | ErrorNotice int int agent_error

record agent_options =
  op_provider :: "string option"
  op_model :: "string option"
  op_maxTokens :: "jsnum option"

text \<open>A prompt assembly: what rendering it yields or throws, and the tools it offers.\<close>

record prompt_assembly =
  pa_system :: "(agent_error, string) result"
  pa_sections :: "(agent_error, (string \<times> string) list) result"
  pa_tools :: "tool_schema list"

datatype step_decision = RejectStep | EnterStep "message list"

record llm_request =
  rq_config :: call_config
  rq_messages :: "message list"
  rq_system :: "string option"
  rq_tools :: "tool_schema list option"

record prepared_call =
  pl_config :: call_config
  pl_defaults :: adapter_defaults
  pl_contextWindow :: "jsnum option"

text \<open>What a step keeps across its awaits: the turn's ending so far, and its rendered assembly.\<close>

record step_frame =
  fr_ends :: "turn_end_reason option"
  fr_system :: string
  fr_tools :: "tool_schema list"

text \<open>
  The await the driver is at. \<open>AtReturned\<close> is the promise of \<open>turn\<close> with its value; \<open>AtUnwind\<close> and
  \<open>AtRejected\<close> are the rejected promises of \<open>step\<close> and of \<open>preStep\<close>, which reach \<open>turn\<close> a microtask later.
\<close>

datatype driver_pc =
    NoDriver
  | AtAssemble "turn_end_reason option" "message list"
  | AtDecide "turn_end_reason option" prompt_assembly "message list"
  | AtDecided "turn_end_reason option" prompt_assembly step_decision
  | AtRequest step_frame "message list" call_config
  | AtCall step_frame "message list" call_config
  | AtBuilt step_frame llm_request
  | AtChunk step_frame llm_request assembler "int list"
  | AtUnwind agent_error
  | AtRetry step_frame llm_failure
  | AtTools step_frame calls_run
  | AtStepped "turn_end_reason option" "turn_end_reason option"
  | AtStopping turn_end_reason
  | AtRejected agent_error
  | AtReturned bool

record agent =
  ag_options :: agent_options
  ag_inbox :: inbox
  ag_phase :: phase
  ag_pc :: driver_pc
  ag_headerLogged :: bool
  ag_restored :: retained
  ag_since :: nat
  ag_notices :: "agent_notice list"

text \<open>The world a transition reads: clock, fresh message ids, error texts, and the tool environment.\<close>

record drive_env =
  dv_now :: int
  dv_id :: string
  dv_errorText :: "agent_error \<Rightarrow> string"
  dv_tools :: sched_env
  dv_limit :: nat

definition ag_log :: "agent \<Rightarrow> event list" where
  "ag_log ag = ses_log (ib_session (ag_inbox ag))"

text \<open>The projection followed every event since the agent was constructed.\<close>

definition ag_retained :: "agent \<Rightarrow> retained" where
  "ag_retained ag = foldl followContext (ag_restored ag) (drop (ag_since ag) (ag_log ag))"

subsection \<open>Phases\<close>

fun is_running :: "phase \<Rightarrow> bool" where
  "is_running (Running _ _ _ _) = True"
| "is_running _ = False"

fun abort_reason :: "phase \<Rightarrow> cancel_cause option" where
  "abort_reason (Idle _) = None"
| "abort_reason (Maintenance ab _ _) = ab"
| "abort_reason (Running ab _ _ _) = ab"

definition setPhase :: "phase \<Rightarrow> agent \<Rightarrow> agent" where
  "setPhase nxt ag =
     (let ag' = ag\<lparr>ag_phase := nxt\<rparr> in
      if is_running nxt \<noteq> is_running (ag_phase ag)
      then ag'\<lparr>ag_notices := ag_notices ag @ [StatusNotice (is_running nxt)]\<rparr> else ag')"

definition hasPendingInput :: "agent \<Rightarrow> bool" where
  "hasPendingInput ag = hasPending (ib_lists (ag_inbox ag))"

fun run_turn :: "phase \<Rightarrow> int" where
  "run_turn (Idle t) = t"
| "run_turn (Maintenance _ t _) = t"
| "run_turn (Running _ t _ _) = t"

fun run_step :: "phase \<Rightarrow> int" where
  "run_step (Running _ _ s _) = s"
| "run_step _ = 0"

text \<open>The report of \<open>throwError\<close>.\<close>

definition report :: "agent_error \<Rightarrow> agent \<Rightarrow> agent" where
  "report err ag = ag\<lparr>ag_notices := ag_notices ag
     @ [ErrorNotice (run_turn (ag_phase ag)) (run_step (ag_phase ag)) err]\<rparr>"

definition at_pc :: "driver_pc \<Rightarrow> agent \<Rightarrow> agent" where
  "at_pc pc ag = ag\<lparr>ag_pc := pc\<rparr>"

definition append_ag ::
  "drive_env \<Rightarrow> event_data \<Rightarrow> json option \<Rightarrow> json option \<Rightarrow> agent \<Rightarrow> agent \<times> (agent_error, int) result" where
  "append_ag env d op srcs ag =
     (case append_on (dv_now env) d op srcs (ag_inbox ag) of
        (ib, Inl err) \<Rightarrow> (ag\<lparr>ag_inbox := ib\<rparr>, Inl (SessionThrew err))
      | (ib, Inr seq) \<Rightarrow> (ag\<lparr>ag_inbox := ib\<rparr>, Inr seq))"

subsection \<open>Leaving a turn\<close>

definition failure_of :: "drive_env \<Rightarrow> agent_error \<Rightarrow> llm_failure" where
  "failure_of env err =
     (case err of
        LlmFailed f \<Rightarrow> f
      | _ \<Rightarrow> \<lparr>failure_message = dv_errorText env err, failure_code = ''UNKNOWN'', failure_status = None,
             failure_retryAfterMs = None, failure_requestId = None\<rparr>)"

text \<open>The \<open>finally\<close> of the turn; a failing append is reported and thrown.\<close>

definition end_turn :: "drive_env \<Rightarrow> turn_end_reason \<Rightarrow> agent \<Rightarrow> agent \<times> bool" where
  "end_turn env reason ag =
     (case append_ag env (TurnEnd (run_turn (ag_phase ag)) reason) None None ag of
        (ag1, Inl err) \<Rightarrow> (report err ag1, False)
      | (ag1, Inr _) \<Rightarrow> (ag1, True))"

text \<open>The \<open>catch\<close> of the turn: the ending is the abort or the structured failure, and the error goes on.\<close>

definition fail_turn :: "drive_env \<Rightarrow> agent_error \<Rightarrow> agent \<Rightarrow> agent" where
  "fail_turn env err ag =
     at_pc (AtReturned False)
       (case abort_reason (ag_phase ag) of
          Some cause \<Rightarrow> fst (end_turn env (Aborted cause) ag)
        | None \<Rightarrow> fst (end_turn env (TurnError (failure_of env err)) (report err ag)))"

definition return_turn :: "drive_env \<Rightarrow> turn_end_reason \<Rightarrow> agent \<Rightarrow> agent" where
  "return_turn env reason ag = at_pc (AtReturned False) (fst (end_turn env reason ag))"

text \<open>Falling out of the loop: a driver with more input gets a fresh controller and goes on.\<close>

definition break_turn :: "drive_env \<Rightarrow> turn_end_reason \<Rightarrow> agent \<Rightarrow> agent" where
  "break_turn env reason ag =
     (case end_turn env reason ag of
        (ag1, False) \<Rightarrow> at_pc (AtReturned False) ag1
      | (ag1, True) \<Rightarrow>
          if \<not> hasPendingInput ag1 then at_pc (AtReturned False) ag1
          else at_pc (AtReturned True) (ag1\<lparr>ag_phase := Running None (run_turn (ag_phase ag1)) 0 False\<rparr>))"

text \<open>\<open>signal.throwIfAborted\<close> inside the turn, outside and inside a step.\<close>

definition unless_aborted :: "(agent_error \<Rightarrow> agent \<Rightarrow> agent) \<Rightarrow> (agent \<Rightarrow> agent) \<Rightarrow> agent \<Rightarrow> agent" where
  "unless_aborted throw k ag =
     (case abort_reason (ag_phase ag) of Some cause \<Rightarrow> throw (Cancelled cause) ag | None \<Rightarrow> k ag)"

text \<open>An error inside a step closes the step first.\<close>

definition fail_step :: "drive_env \<Rightarrow> agent_error \<Rightarrow> agent \<Rightarrow> agent" where
  "fail_step env err ag =
     (case append_ag env (StepEnd (run_turn (ag_phase ag)) (run_step (ag_phase ag))) None None ag of
        (ag1, Inl err1) \<Rightarrow> fail_turn env err1 ag1
      | (ag1, Inr _) \<Rightarrow> fail_turn env err ag1)"

text \<open>A throw inside the async \<open>step\<close> or \<open>preStep\<close> rejects its promise.\<close>

definition throw_step :: "agent_error \<Rightarrow> agent \<Rightarrow> agent" where
  "throw_step err ag = at_pc (AtUnwind err) ag"

definition reject_step :: "agent_error \<Rightarrow> agent \<Rightarrow> agent" where
  "reject_step err ag = at_pc (AtRejected err) ag"

subsection \<open>Turns\<close>

text \<open>The head of the turn's loop, up to the assembly of the prompt.\<close>

definition loop_head :: "drive_env \<Rightarrow> inbox_target \<Rightarrow> turn_end_reason option \<Rightarrow> agent \<Rightarrow> agent" where
  "loop_head env target ends ag =
     unless_aborted (fail_turn env) (\<lambda>ag.
       (case claim target (run_turn (ag_phase ag)) (dv_now env) (ag_inbox ag) of
          (ib, Inl err) \<Rightarrow> reject_step (InboxThrew err) (ag\<lparr>ag_inbox := ib\<rparr>)
        | (ib, Inr claimed) \<Rightarrow> at_pc (AtAssemble ends claimed) (ag\<lparr>ag_inbox := ib\<rparr>))) ag"

definition enter_turn :: "phase \<Rightarrow> phase" where
  "enter_turn p = (case p of Running ab t s w \<Rightarrow> Running ab (t + 1) s w | _ \<Rightarrow> p)"

definition begin_turn :: "drive_env \<Rightarrow> agent \<Rightarrow> agent" where
  "begin_turn env ag =
     unless_aborted (\<lambda>_. at_pc (AtReturned False)) (\<lambda>ag.
       (case append_ag env (TurnStart (run_turn (ag_phase ag) + 1)) None None ag of
          (ag1, Inl err) \<Rightarrow> at_pc (AtReturned False) (report err ag1)
        | (ag1, Inr _) \<Rightarrow> loop_head env NextTurn None (ag1\<lparr>ag_phase := enter_turn (ag_phase ag1)\<rparr>))) ag"

definition startDriver :: "drive_env \<Rightarrow> int \<Rightarrow> agent \<Rightarrow> agent" where
  "startDriver env lastTurn ag = begin_turn env (setPhase (Running None lastTurn 0 False) ag)"

definition wakeDriver :: "drive_env \<Rightarrow> bool \<Rightarrow> agent \<Rightarrow> agent" where
  "wakeDriver env wakeAfterAbort ag =
     (case ag_phase ag of
        Idle t \<Rightarrow> startDriver env t ag
      | Maintenance ab t w \<Rightarrow>
          if ab \<noteq> Some CancelDisposed then ag\<lparr>ag_phase := Maintenance ab t True\<rparr> else ag
      | Running ab t s w \<Rightarrow>
          if ab \<noteq> Some CancelDisposed \<and> wakeAfterAbort then ag\<lparr>ag_phase := Running ab t s True\<rparr> else ag)"

text \<open>The \<open>finally\<close> of \<open>kick\<close>, and of \<open>runMaintenance\<close>: idle, then the latched wake.\<close>

definition converge :: "drive_env \<Rightarrow> int \<Rightarrow> bool \<Rightarrow> agent \<Rightarrow> agent" where
  "converge env lastTurn wakeRequested ag =
     (let ag1 = at_pc NoDriver (setPhase (Idle lastTurn) ag) in
      if wakeRequested \<and> hasPendingInput ag1 then wakeDriver env False ag1 else ag1)"

definition afterTurn :: "drive_env \<Rightarrow> bool \<Rightarrow> agent \<Rightarrow> agent" where
  "afterTurn env again ag =
     (if again then begin_turn env ag
      else case ag_phase ag of Running ab t s w \<Rightarrow> converge env t w ag | _ \<Rightarrow> ag)"

text \<open>After the assembly: the rendered context joins the claimed messages.\<close>

definition assembled_step ::
  "drive_env \<Rightarrow> turn_end_reason option \<Rightarrow> message list \<Rightarrow> prompt_assembly \<Rightarrow> agent \<Rightarrow> agent" where
  "assembled_step env ends claimed pa ag =
     unless_aborted reject_step (\<lambda>ag.
       (case pa_sections pa of
          Inl err \<Rightarrow> reject_step err ag
        | Inr sections \<Rightarrow>
            (case projectContext (dv_id env) (ag_retained ag) (joinContextSections sections) sections of
               None \<Rightarrow> at_pc (AtDecide ends pa claimed) ag
             | Some context \<Rightarrow> at_pc (AtDecide ends pa (claimed @ [context])) ag))) ag"

end
