(* ===== verification/Agent_Loop.thy ===== *)
theory Agent_Loop
  imports Agent_Phase
begin

text \<open>
  The agent driver (\<open>core/agent-loop/src/agent.ts\<close>), second part: requests, steps, the transitions of the
  coroutine and the agent's interface. Between two transitions other callers send, cancel and append.
  What plugins, prompt assembly, model adapters and tools answer are the inputs of the transitions.
\<close>

subsection \<open>Requests\<close>

definition requestProposal :: "epoch_header \<Rightarrow> call_config" where
  "requestProposal h =
     (case hdr_adapterDefaults h of
        None \<Rightarrow> hdr_config h
      | Some d \<Rightarrow>
          let c1 = (if def_reasoningEffort d then (hdr_config h)\<lparr>cfg_reasoningEffort := None\<rparr> else hdr_config h)
          in if def_maxTokens d then c1\<lparr>cfg_maxTokens := None\<rparr> else c1)"

definition text_or_empty :: "string option \<Rightarrow> string" where
  "text_or_empty v = (case v of None \<Rightarrow> [] | Some t \<Rightarrow> t)"

text \<open>The configuration of the declared route, with the effort the log kept for exactly that route.\<close>

definition route_config :: "agent_options \<Rightarrow> epoch_header option \<Rightarrow> call_config" where
  "route_config opts persisted =
     (let provider = text_or_empty (op_provider opts); model = text_or_empty (op_model opts) in
      \<lparr>cfg_provider = provider, cfg_model = model,
       cfg_reasoningEffort =
         (case persisted of
            None \<Rightarrow> None
          | Some h \<Rightarrow>
              if cfg_provider (hdr_config h) = provider \<and> cfg_model (hdr_config h) = model
                 \<and> \<not> fst (default_marks (hdr_adapterDefaults h))
              then cfg_reasoningEffort (hdr_config h) else None),
       cfg_temperature = None, cfg_maxTokens = op_maxTokens opts, cfg_stop = None\<rparr>)"

definition on_session :: "agent \<Rightarrow> session \<Rightarrow> agent" where
  "on_session ag s = ag\<lparr>ag_inbox := (ag_inbox ag)\<lparr>ib_session := s\<rparr>\<rparr>"

text \<open>One attempt: the messages are derived, the seed configuration is proposed to the plugins.\<close>

definition attempt :: "drive_env \<Rightarrow> step_frame \<Rightarrow> agent \<Rightarrow> agent" where
  "attempt env fr ag =
     (case deriveMessages (ib_session (ag_inbox ag)) of
        Inl err \<Rightarrow> throw_step (SessionThrew err) ag
      | Inr (s, messages) \<Rightarrow>
          (case requestHeader s of
             (s1, persisted) \<Rightarrow>
               let ag1 = on_session ag s1 in
               if \<not> ag_headerLogged ag then at_pc (AtRequest fr messages (route_config (ag_options ag) persisted)) ag1
               else (case persisted of
                   None \<Rightarrow> throw_step (Thrown ''TypeError'') ag1
                 | Some h \<Rightarrow> at_pc (AtRequest fr messages (requestProposal h)) ag1)))"

definition proposed :: "drive_env \<Rightarrow> step_frame \<Rightarrow> message list \<Rightarrow> call_config \<Rightarrow> agent \<Rightarrow> agent" where
  "proposed env fr messages config ag =
     unless_aborted throw_step (\<lambda>ag.
       if cfg_provider config = [] \<or> cfg_model config = [] then throw_step NoRoute ag
       else at_pc (AtCall fr messages config) ag) ag"

definition no_adapter :: "agent_error \<Rightarrow> bool" where
  "no_adapter err = (case err of LlmFailed f \<Rightarrow> failure_code f = ''NO_ADAPTER'' | _ \<Rightarrow> False)"

definition request_header_of :: "step_frame \<Rightarrow> call_config \<Rightarrow> prepared_call option \<Rightarrow> epoch_header" where
  "request_header_of fr config pl =
     canonicalHeader
       \<lparr>hdr_config = config, hdr_adapterDefaults = map_option pl_defaults pl,
        hdr_system = (if fr_system fr = [] then None else Some (fr_system fr)),
        hdr_tools = (if fr_tools fr = [] then None else Some (fr_tools fr))\<rparr>"

text \<open>The header event: the instance's first request anchors, later ones record a change only.\<close>

definition log_header :: "drive_env \<Rightarrow> epoch_header \<Rightarrow> agent \<Rightarrow> agent \<times> (agent_error, unit) result" where
  "log_header env header ag =
     (case requestHeader (ib_session (ag_inbox ag)) of
        (s, baseline) \<Rightarrow>
          let ag1 = on_session ag s in
          if \<not> ag_headerLogged ag
          then (case append_ag env (RequestHeader header (if baseline = None then ReasonInitial else ReasonResume)) None None ag1 of
              (ag2, Inl err) \<Rightarrow> (ag2, Inl err)
            | (ag2, Inr _) \<Rightarrow> (ag2\<lparr>ag_headerLogged := True\<rparr>, Inr ()))
          else if (case baseline of None \<Rightarrow> True | Some b \<Rightarrow> \<not> headerEquals b header)
          then (case append_ag env (RequestHeader header ReasonChange) None None ag1 of
              (ag2, Inl err) \<Rightarrow> (ag2, Inl err)
            | (ag2, Inr _) \<Rightarrow> (ag2, Inr ()))
          else (ag1, Inr ()))"

text \<open>Strict equality of optional numbers: NaN differs from itself.\<close>

definition same_window :: "jsnum option \<Rightarrow> jsnum option \<Rightarrow> bool" where
  "same_window a b = opt_num_eq a b"

definition log_context :: "drive_env \<Rightarrow> request_context \<Rightarrow> agent \<Rightarrow> agent \<times> (agent_error, unit) result" where
  "log_context env rc ag =
     (case requestContext (ib_session (ag_inbox ag)) of
        (s, previous) \<Rightarrow>
          let ag1 = on_session ag s in
          if (case previous of None \<Rightarrow> True
              | Some p \<Rightarrow> ctx_provider p \<noteq> ctx_provider rc \<or> ctx_model p \<noteq> ctx_model rc
                  \<or> \<not> same_window (ctx_contextWindow p) (ctx_contextWindow rc))
          then (case append_ag env (RequestContext rc) None None ag1 of
              (ag2, Inl err) \<Rightarrow> (ag2, Inl err)
            | (ag2, Inr _) \<Rightarrow> (ag2, Inr ()))
          else (ag1, Inr ()))"

text \<open>The rest of \<open>buildRequest\<close>, after the call is prepared or the route has no adapter.\<close>

definition build_request ::
  "drive_env \<Rightarrow> step_frame \<Rightarrow> message list \<Rightarrow> call_config \<Rightarrow> prepared_call option \<Rightarrow> agent \<Rightarrow> agent" where
  "build_request env fr messages config pl ag =
     unless_aborted throw_step (\<lambda>ag.
       let header = request_header_of fr config pl in
       (case log_header env header ag of
          (ag1, Inl err) \<Rightarrow> throw_step err ag1
        | (ag1, Inr _) \<Rightarrow>
            (case log_context env
                \<lparr>ctx_provider = cfg_provider config, ctx_model = cfg_model config,
                 ctx_contextWindow = (case pl of None \<Rightarrow> None | Some p \<Rightarrow> pl_contextWindow p)\<rparr> ag1 of
               (ag2, Inl err) \<Rightarrow> throw_step err ag2
             | (ag2, Inr _) \<Rightarrow>
                 unless_aborted throw_step
                   (at_pc (AtBuilt fr \<lparr>rq_config = hdr_config header, rq_messages = messages,
                      rq_system = hdr_system header, rq_tools = hdr_tools header\<rparr>)) ag2))) ag"

definition prepared_answer ::
  "drive_env \<Rightarrow> step_frame \<Rightarrow> message list \<Rightarrow> call_config \<Rightarrow> (agent_error, prepared_call) result \<Rightarrow> agent \<Rightarrow> agent" where
  "prepared_answer env fr messages config ans ag =
     (case ans of
        Inr pl \<Rightarrow> build_request env fr messages (pl_config pl) (Some pl) ag
      | Inl err \<Rightarrow>
          if no_adapter err then build_request env fr messages config None ag else throw_step err ag)"

subsection \<open>Steps\<close>

text \<open>Entering a step: its start, its messages, then the first attempt.\<close>

fun append_messages :: "drive_env \<Rightarrow> message list \<Rightarrow> agent \<Rightarrow> agent \<times> (agent_error, unit) result" where
  "append_messages env [] ag = (ag, Inr ())"
| "append_messages env (m # ms) ag =
     (case append_ag env (UserMessage m) (Some (JStr ''append'')) None ag of
        (ag1, Inl err) \<Rightarrow> (ag1, Inl err)
      | (ag1, Inr _) \<Rightarrow> append_messages env ms ag1)"

definition enter_step :: "phase \<Rightarrow> phase" where
  "enter_step p = (case p of Running ab t s w \<Rightarrow> Running ab t (s + 1) w | _ \<Rightarrow> p)"

definition begin_step ::
  "drive_env \<Rightarrow> turn_end_reason option \<Rightarrow> prompt_assembly \<Rightarrow> message list \<Rightarrow> agent \<Rightarrow> agent" where
  "begin_step env ends pa messages ag =
     (case append_ag env (StepStart (run_turn (ag_phase ag)) (run_step (ag_phase ag) + 1)) None None ag of
        (ag1, Inl err) \<Rightarrow> fail_turn env err ag1
      | (ag1, Inr _) \<Rightarrow>
          (case append_messages env messages (ag1\<lparr>ag_phase := enter_step (ag_phase ag1)\<rparr>) of
             (ag2, Inl err) \<Rightarrow> fail_step env err ag2
           | (ag2, Inr _) \<Rightarrow>
               unless_aborted throw_step (\<lambda>ag2.
                 (case pa_system pa of
                    Inl err \<Rightarrow> throw_step err ag2
                  | Inr system \<Rightarrow>
                      attempt env \<lparr>fr_ends = ends, fr_system = system, fr_tools = pa_tools pa\<rparr> ag2)) ag2))"

definition decided ::
  "drive_env \<Rightarrow> turn_end_reason option \<Rightarrow> prompt_assembly \<Rightarrow> step_decision \<Rightarrow> agent \<Rightarrow> agent" where
  "decided env ends pa d ag =
     (case d of
        RejectStep \<Rightarrow> return_turn env Blocked ag
      | EnterStep messages \<Rightarrow>
          (case (ends, messages) of
             (Some reason, []) \<Rightarrow> break_turn env reason ag
           | _ \<Rightarrow>
               if run_step (ag_phase ag) = 0 \<and> messages = [] then return_turn env Completed ag
               else unless_aborted (fail_turn env) (begin_step env ends pa messages) ag))"

definition tool_calls_of :: "content_block list \<Rightarrow> tool_call list" where
  "tool_calls_of bs = map (\<lambda>b. \<lparr>tc_id = call_id b, tc_name = call_name b, tc_arguments = call_arguments b\<rparr>)
     (filter is_tool_call bs)"

definition createAssistantMessage :: "string \<Rightarrow> content_block list \<Rightarrow> call_config \<Rightarrow> json option \<Rightarrow> message" where
  "createAssistantMessage mid content config rpl =
     \<lparr>msg_id = mid, msg_role = RoleAssistant, msg_content = content,
      msg_source = SourceModel (cfg_provider config) (cfg_model config) rpl\<rparr>"

definition tool_env_of :: "drive_env \<Rightarrow> agent \<Rightarrow> sched_env" where
  "tool_env_of env ag = (dv_tools env)\<lparr>se_now := dv_now env, se_aborted := abort_reason (ag_phase ag) \<noteq> None\<rparr>"

text \<open>The tools wait, return or fail.\<close>

definition tools_at :: "drive_env \<Rightarrow> step_frame \<Rightarrow> run_state \<Rightarrow> agent \<Rightarrow> agent" where
  "tools_at env fr st ag =
     (let ag1 = ag\<lparr>ag_inbox := snd st\<rparr> in
      case tx_outcome (fst st) of
        ToolsRunning \<Rightarrow> at_pc (AtTools fr (fst st)) ag1
      | ToolsReturned concluded \<Rightarrow> at_pc (AtStepped (fr_ends fr) (if concluded then Some Completed else None)) ag1
      | ToolsFailed err \<Rightarrow> throw_step (ToolsThrew err) ag1)"

text \<open>A stream that ended well: the message, then its tool calls.\<close>

definition accept_message ::
  "drive_env \<Rightarrow> step_frame \<Rightarrow> llm_request \<Rightarrow> assembler \<Rightarrow> int list \<Rightarrow> agent \<Rightarrow> agent" where
  "accept_message env fr rq a chunkSeqs ag =
     (let turn = run_turn (ag_phase ag); step = run_step (ag_phase ag) in
      case blocks a of
        Inl err \<Rightarrow> throw_step (AssemblyThrew err) ag
      | Inr content \<Rightarrow>
          (case append_ag env
              (AssistantMessage turn step (createAssistantMessage (dv_id env) content (rq_config rq) (as_replayState a)) (as_usage a))
              (Some (JStr ''append'')) (Some (JArr (map JInt chunkSeqs))) ag of
             (ag1, Inl err) \<Rightarrow> throw_step err ag1
           | (ag1, Inr _) \<Rightarrow>
               if finish_of a = FinishMaxTokens then at_pc (AtStepped (fr_ends fr) (Some MaxTokens)) ag1
               else if tool_calls_of content = [] then at_pc (AtStepped (fr_ends fr) (Some Completed)) ag1
               else tools_at env fr
                 (executeToolCalls (tool_env_of env ag1) (dv_limit env) turn step (tool_calls_of content) (ag_inbox ag1)) ag1))"

definition stream_end ::
  "drive_env \<Rightarrow> step_frame \<Rightarrow> llm_request \<Rightarrow> assembler \<Rightarrow> int list \<Rightarrow> agent \<Rightarrow> agent" where
  "stream_end env fr rq a chunkSeqs ag =
     unless_aborted throw_step (\<lambda>ag.
       (case finish_of a of
          FinishError f \<Rightarrow> at_pc (AtRetry fr f) ag
        | FinishAborted f \<Rightarrow> at_pc (AtRetry fr f) ag
        | _ \<Rightarrow> accept_message env fr rq a chunkSeqs ag)) ag"

text \<open>A chunk; leaving the loop by an error first awaits the stream's \<open>return\<close>.\<close>

definition take_chunk ::
  "drive_env \<Rightarrow> step_frame \<Rightarrow> llm_request \<Rightarrow> assembler \<Rightarrow> int list \<Rightarrow> stream_chunk \<Rightarrow> agent \<Rightarrow> agent" where
  "take_chunk env fr rq a chunkSeqs c ag =
     unless_aborted throw_step (\<lambda>ag.
       (case append_ag env (AssistantChunk (run_turn (ag_phase ag)) (run_step (ag_phase ag)) c) None None ag of
          (ag1, Inl err) \<Rightarrow> throw_step err ag1
        | (ag1, Inr seq) \<Rightarrow> at_pc (AtChunk fr rq (push_chunk a c) (chunkSeqs @ [seq])) ag1)) ag"

definition recovered :: "drive_env \<Rightarrow> step_frame \<Rightarrow> llm_failure \<Rightarrow> bool \<Rightarrow> agent \<Rightarrow> agent" where
  "recovered env fr f retry ag =
     unless_aborted throw_step (\<lambda>ag.
       if retry then attempt env fr ag else throw_step (LlmFailed f) ag) ag"

text \<open>After a step: \<open>max-tokens\<close> sticks, the step ends, and the turn stops or goes on.\<close>

definition sticky_end :: "turn_end_reason option \<Rightarrow> turn_end_reason option \<Rightarrow> turn_end_reason option" where
  "sticky_end ends stepEnd = (if ends = Some MaxTokens then ends else stepEnd)"

definition step_returned ::
  "drive_env \<Rightarrow> turn_end_reason option \<Rightarrow> turn_end_reason option \<Rightarrow> agent \<Rightarrow> agent" where
  "step_returned env ends stepEnd ag =
     (case append_ag env (StepEnd (run_turn (ag_phase ag)) (run_step (ag_phase ag))) None None ag of
        (ag1, Inl err) \<Rightarrow> fail_turn env err ag1
      | (ag1, Inr _) \<Rightarrow>
          unless_aborted (fail_turn env) (\<lambda>ag1.
            (case sticky_end ends stepEnd of
               None \<Rightarrow> loop_head env NextStep None ag1
             | Some reason \<Rightarrow>
                 if ib_nextStep (ib_lists (ag_inbox ag1)) = [] then at_pc (AtStopping reason) ag1
                 else loop_head env NextStep (Some reason) ag1)) ag1)"

definition stopping :: "drive_env \<Rightarrow> turn_end_reason \<Rightarrow> agent \<Rightarrow> agent" where
  "stopping env reason ag =
     unless_aborted (fail_turn env) (\<lambda>ag.
       if ib_nextStep (ib_lists (ag_inbox ag)) = [] then break_turn env reason ag
       else loop_head env NextStep (Some reason) ag) ag"

subsection \<open>Transitions\<close>

text \<open>What the driver waits for.\<close>

datatype driver_input =
    Assembled "(agent_error, prompt_assembly) result"
  | Decided "(agent_error, message list \<Rightarrow> step_decision) result"
  | Proposed "(agent_error, call_config \<Rightarrow> call_config) result"
  | PreparedCall "(agent_error, prepared_call) result"
  | Opened "(agent_error, unit) result"
  | Chunk stream_chunk
  | StreamEnded
  | StreamThrew agent_error
  | Recovery "(agent_error, bool) result"
  | ToolInput pool_input
  | Stopped "(agent_error, unit) result"
  | Continue

fun drive :: "drive_env \<Rightarrow> driver_input \<Rightarrow> driver_pc \<Rightarrow> agent \<Rightarrow> agent option" where
  "drive env i NoDriver ag = None"
| "drive env i (AtAssemble ends claimed) ag =
     (case i of
        Assembled (Inl err) \<Rightarrow> Some (reject_step err ag)
      | Assembled (Inr pa) \<Rightarrow> Some (assembled_step env ends claimed pa ag)
      | _ \<Rightarrow> None)"
| "drive env i (AtDecide ends pa messages) ag =
     (case i of
        Decided (Inl err) \<Rightarrow> Some (reject_step err ag)
      | Decided (Inr f) \<Rightarrow>
          Some (unless_aborted reject_step (at_pc (AtDecided ends pa (f messages))) ag)
      | _ \<Rightarrow> None)"
| "drive env i (AtDecided ends pa d) ag = (case i of Continue \<Rightarrow> Some (decided env ends pa d ag) | _ \<Rightarrow> None)"
| "drive env i (AtRequest fr messages seed) ag =
     (case i of
        Proposed (Inl err) \<Rightarrow> Some (throw_step err ag)
      | Proposed (Inr f) \<Rightarrow> Some (proposed env fr messages (f seed) ag)
      | _ \<Rightarrow> None)"
| "drive env i (AtCall fr messages config) ag =
     (case i of PreparedCall ans \<Rightarrow> Some (prepared_answer env fr messages config ans ag) | _ \<Rightarrow> None)"
| "drive env i (AtBuilt fr rq) ag =
     (case i of
        Opened (Inl err) \<Rightarrow> Some (throw_step err ag)
      | Opened (Inr _) \<Rightarrow> Some (unless_aborted throw_step (at_pc (AtChunk fr rq new_assembler [])) ag)
      | _ \<Rightarrow> None)"
| "drive env i (AtChunk fr rq a seqs) ag =
     (case i of
        Chunk c \<Rightarrow> Some (take_chunk env fr rq a seqs c ag)
      | StreamEnded \<Rightarrow> Some (stream_end env fr rq a seqs ag)
      | StreamThrew err \<Rightarrow> Some (throw_step err ag)
      | _ \<Rightarrow> None)"
| "drive env i (AtUnwind err) ag = (case i of Continue \<Rightarrow> Some (fail_step env err ag) | _ \<Rightarrow> None)"
| "drive env i (AtRejected err) ag = (case i of Continue \<Rightarrow> Some (fail_turn env err ag) | _ \<Rightarrow> None)"
| "drive env i (AtRetry fr f) ag =
     (case i of
        Recovery (Inl err) \<Rightarrow> Some (throw_step err ag)
      | Recovery (Inr retry) \<Rightarrow> Some (recovered env fr f retry ag)
      | _ \<Rightarrow> None)"
| "drive env i (AtTools fr x) ag =
     (case i of
        ToolInput inp \<Rightarrow>
          map_option (\<lambda>st. tools_at env fr st ag)
            (tool_step (tool_env_of env ag) (dv_limit env) inp (x, ag_inbox ag))
      | _ \<Rightarrow> None)"
| "drive env i (AtStepped ends stepEnd) ag =
     (case i of Continue \<Rightarrow> Some (step_returned env ends stepEnd ag) | _ \<Rightarrow> None)"
| "drive env i (AtStopping reason) ag =
     (case i of
        Stopped (Inl err) \<Rightarrow> Some (fail_turn env err ag)
      | Stopped (Inr _) \<Rightarrow> Some (stopping env reason ag)
      | _ \<Rightarrow> None)"
| "drive env i (AtReturned again) ag = (case i of Continue \<Rightarrow> Some (afterTurn env again ag) | _ \<Rightarrow> None)"

subsection \<open>The agent's interface\<close>

definition send ::
  "drive_env \<Rightarrow> message \<Rightarrow> inbox_target \<Rightarrow> bool \<Rightarrow> agent \<Rightarrow> agent \<times> (inbox_error, unit) result" where
  "send env m target wakeup ag =
     (let wakingAfterAbort = (wakeup \<and> abort_reason (ag_phase ag) \<noteq> None);
          resolved = (if wakingAfterAbort then NextTurn else target) in
      case inbox_splice resolved PosInf (num_of_int 0) [m] (dv_now env) (ag_inbox ag) of
        (ib, Inl err) \<Rightarrow> (ag\<lparr>ag_inbox := ib\<rparr>, Inl err)
      | (ib, Inr _) \<Rightarrow>
          let ag1 = ag\<lparr>ag_inbox := ib\<rparr> in
          (if wakeup then wakeDriver env wakingAfterAbort ag1 else ag1, Inr ()))"

definition abort_phase :: "cancel_cause \<Rightarrow> phase \<Rightarrow> phase" where
  "abort_phase cause p =
     (case p of
        Idle t \<Rightarrow> Idle t
      | Maintenance ab t w \<Rightarrow> Maintenance (case ab of None \<Rightarrow> Some cause | Some c \<Rightarrow> Some c) t w
      | Running ab t s w \<Rightarrow> Running (case ab of None \<Rightarrow> Some cause | Some c \<Rightarrow> Some c) t s w)"

definition drop_wake :: "phase \<Rightarrow> phase" where
  "drop_wake p = (case p of Idle t \<Rightarrow> Idle t | Maintenance ab t w \<Rightarrow> Maintenance ab t False
     | Running ab t s w \<Rightarrow> Running ab t s False)"

definition cancel :: "drive_env \<Rightarrow> cancel_cause \<Rightarrow> bool \<Rightarrow> agent \<Rightarrow> agent \<times> (inbox_error, unit) result" where
  "cancel env cause keepInbox ag =
     (if keepInbox then (ag\<lparr>ag_phase := abort_phase cause (ag_phase ag)\<rparr>, Inr ())
      else case clear_inbox (dv_now env) (ag_inbox ag) of
        (ib, Inl err) \<Rightarrow> (ag\<lparr>ag_inbox := ib\<rparr>, Inl err)
      | (ib, Inr _) \<Rightarrow>
          (ag\<lparr>ag_inbox := ib, ag_phase := abort_phase cause (drop_wake (ag_phase ag))\<rparr>, Inr ()))"

text \<open>\<open>runMaintenance\<close> up to its job, and its \<open>finally\<close>.\<close>

definition beginMaintenance :: "agent \<Rightarrow> agent option" where
  "beginMaintenance ag =
     (case ag_phase ag of Idle t \<Rightarrow> Some (setPhase (Maintenance None t False) ag) | _ \<Rightarrow> None)"

definition endMaintenance :: "drive_env \<Rightarrow> agent \<Rightarrow> agent option" where
  "endMaintenance env ag =
     (case ag_phase ag of Maintenance ab t w \<Rightarrow> Some (converge env t w ag) | _ \<Rightarrow> None)"

text \<open>The constructor.\<close>

primrec last_turn_start :: "event list \<Rightarrow> int \<Rightarrow> int" where
  "last_turn_start [] t = t"
| "last_turn_start (e # es) t = last_turn_start es (case ev_data e of TurnStart n \<Rightarrow> n | _ \<Rightarrow> t)"

definition newAgent :: "agent_options \<Rightarrow> session \<Rightarrow> (agent_error, agent) result" where
  "newAgent opts s =
     (case newInbox s of
        Inl err \<Rightarrow> Inl (InboxThrew err)
      | Inr ib \<Rightarrow>
          (case surface_res (readSurface (ses_mgr s)) of
             Inl err \<Rightarrow> Inl (SessionThrew err)
           | Inr (m, st) \<Rightarrow>
               Inr \<lparr>ag_options = opts, ag_inbox = ib\<lparr>ib_session := s\<lparr>ses_mgr := m\<rparr>\<rparr>,
                    ag_phase = Idle (last_turn_start (ses_log s) 0), ag_pc = NoDriver,
                    ag_headerLogged = False, ag_restored = restoreContext (nodes st) (ses_log s),
                    ag_since = length (ses_log s), ag_notices = []\<rparr>))"

text \<open>Everything that happens to an agent, one atomic move at a time.\<close>

datatype agent_move =
    Send message inbox_target bool
  | Cancel cancel_cause bool
  | BeginMaintenance
  | EndMaintenance
  | Outside inbox_call
  | Drive driver_input

fun agent_step :: "drive_env \<Rightarrow> agent_move \<Rightarrow> agent \<Rightarrow> agent option" where
  "agent_step env (Send m target wakeup) ag = Some (fst (send env m target wakeup ag))"
| "agent_step env (Cancel cause keepInbox) ag = Some (fst (cancel env cause keepInbox ag))"
| "agent_step env BeginMaintenance ag = beginMaintenance ag"
| "agent_step env EndMaintenance ag = endMaintenance env ag"
| "agent_step env (Outside c) ag = Some (ag\<lparr>ag_inbox := inbox_step (ag_inbox ag) (dv_now env, c)\<rparr>)"
| "agent_step env (Drive i) ag = drive env i (ag_pc ag) ag"

subsection \<open>The request invariant\<close>

text \<open>
  The companion check of \<open>invariant.ts\<close> on a loop-built request at its dispatch; that the request is
  frozen and its session live is not represented.
\<close>

datatype request_fault = NoStepStart | NoRequestHeader | MessagesDiverge | HeaderDiverges | DeriveThrew session_error

fun is_step_start :: "event_data \<Rightarrow> bool" where
  "is_step_start (StepStart _ _) = True"
| "is_step_start _ = False"

definition list_or_empty :: "'a list option \<Rightarrow> 'a list" where
  "list_or_empty v = (case v of None \<Rightarrow> [] | Some xs \<Rightarrow> xs)"

definition header_matches :: "llm_request \<Rightarrow> epoch_header \<Rightarrow> bool" where
  "header_matches rq h =
     (cfg_model (rq_config rq) = cfg_model (hdr_config h)
      \<and> rq_system rq = hdr_system h
      \<and> opt_num_eq (cfg_temperature (rq_config rq)) (cfg_temperature (hdr_config h))
      \<and> opt_num_eq (cfg_maxTokens (rq_config rq)) (cfg_maxTokens (hdr_config h))
      \<and> cfg_stop (rq_config rq) = cfg_stop (hdr_config h)
      \<and> map (printed \<circ> schema_json) (list_or_empty (rq_tools rq))
        = map (printed \<circ> schema_json) (list_or_empty (hdr_tools h)))"

definition checkRequest :: "llm_request \<Rightarrow> session \<Rightarrow> (request_fault, unit) result" where
  "checkRequest rq s =
     (if \<not> list_ex (\<lambda>e. is_step_start (ev_data e)) (ses_log s) then Inl NoStepStart
      else case foldRequestHeader (ses_log s) None of
        None \<Rightarrow> Inl NoRequestHeader
      | Some h \<Rightarrow>
          (case deriveMessages s of
             Inl err \<Rightarrow> Inl (DeriveThrew err)
           | Inr (_, expected) \<Rightarrow>
               if map (printed \<circ> message_json) (rq_messages rq) \<noteq> map (printed \<circ> message_json) expected
               then Inl MessagesDiverge
               else if header_matches rq h then Inr () else Inl HeaderDiverges))"

end
