(* ===== verification/Agent_Trace.thy ===== *)
theory Agent_Trace
  imports Tool_Calls_Facts Agent_Loop
begin

text \<open>
  The driver keeps its log a correct trace: where it waits tells which turn and step are open, whatever
  is sent, cancelled, answered or thrown in between.
\<close>

subsection \<open>Appends that cannot fail\<close>

lemma append_plain_ok:
  assumes inv: "inbox_inv ib" and d: "\<not> isSurfaceEligible d" "isJsonValue (data_json d)"
    and h: "assertSupportedRequestHeader (event_type d) (data_json d) = Inr ()"
  obtains s where "append_on now d None None ib = (ib\<lparr>ib_session := s\<rparr>, Inr (int (length (inbox_log ib))))"
proof -
  have si: "session_inv (ib_session ib)" using inv by (simp add: inbox_inv_def)
  have "is_ok (fold_state (ses_log (ib_session ib) @ [next_event (ib_session ib) now d None None]))"
    using si fold_state_plain [OF d(1), of "ses_log (ib_session ib)" now]
    by (simp add: session_inv_def next_event_def plain_event_def)
  then have "append_allowed (ib_session ib) now d None None"
    by (simp add: append_allowed_def metadata_isJson d(2) h)
  from acceptAppend_cases(2) [OF si this] obtain s e where
    a: "append_detached (ib_session ib) now d None None = Inr (s, e)"
    by (auto simp: append_detached_def)
  then have "ev_seq e = int (length (inbox_log ib))"
    using append_inv [OF si a] by (simp add: inbox_log_def)
  with a that show thesis by (simp add: append_on_def)
qed

text \<open>The driver's own boundaries are such events.\<close>

fun reason_ok :: "turn_end_reason \<Rightarrow> bool" where
  "reason_ok (TurnError f) = isJsonValue (failure_json f)"
| "reason_ok (OtherReason _ _) = False"
| "reason_ok _ = True"

lemma reason_json: "reason_ok r \<Longrightarrow> isJsonValue (turn_reason_json r)"
proof (cases r)
  case (Aborted c)
  then show ?thesis by (cases c) simp_all
qed simp_all

fun boundary :: "event_data \<Rightarrow> bool" where
  "boundary (TurnStart _) = True"
| "boundary (TurnEnd _ r) = reason_ok r"
| "boundary (StepStart _ _) = True"
| "boundary (StepEnd _ _) = True"
| "boundary _ = False"

lemma boundary_plain:
  assumes "boundary d"
  shows "\<not> isSurfaceEligible d" "\<not> is_splice d" "isJsonValue (data_json d)"
    "assertSupportedRequestHeader (event_type d) (data_json d) = Inr ()"
  using assms
  by (cases d; simp add: reason_json turn_step_def lossless_num_def assertSupportedRequestHeader_def)+

lemma boundary_append:
  assumes t: "traced ib t s nt ns P" and d: "boundary d"
    and v: "\<And>tr e. tr_openTurn tr = t \<Longrightarrow> tr_openStep tr = s \<Longrightarrow> tr_nextTurn tr = nt
      \<Longrightarrow> tr_nextStep tr = ns \<Longrightarrow> tr_pendingCalls tr = P \<Longrightarrow> trace_inv tr
      \<Longrightarrow> \<exists>x. validateByType tr e d = Inr x
        \<and> tt_openTurn x = t' \<and> tt_openStep x = s' \<and> tt_nextTurn x = nt' \<and> tt_nextStep x = ns'
        \<and> change_pending (tt_pending x) P = P'"
  obtains ib' seq where "append_on now d None None ib = (ib', Inr seq)" "traced ib' t' s' nt' ns' P'"
proof -
  obtain ss where a: "append_on now d None None ib = (ib\<lparr>ib_session := ss\<rparr>, Inr (int (length (inbox_log ib))))"
    by (rule append_plain_ok [OF traced_inv [OF t] boundary_plain(1,3,4) [OF d]])
  from traced_append [OF t boundary_plain(2) [OF d] a v] a that show thesis by blast
qed

subsection \<open>Positions of the driver\<close>

definition between :: "phase \<Rightarrow> inbox \<Rightarrow> bool" where
  "between p ib = (\<exists>ns. traced ib None None (run_turn p + 1) ns {})"

definition in_turn :: "phase \<Rightarrow> inbox \<Rightarrow> bool" where
  "in_turn p ib = (is_running p \<and> traced ib (Some (run_turn p)) None (run_turn p) (run_step p + 1) {})"

definition in_step :: "string set \<Rightarrow> phase \<Rightarrow> inbox \<Rightarrow> bool" where
  "in_step P p ib =
     (is_running p \<and> traced ib (Some (run_turn p)) (Some (run_step p)) (run_turn p) (run_step p) P)"

fun err_ok :: "agent_error \<Rightarrow> bool" where
  "err_ok (LlmFailed f) = isJsonValue (failure_json f)"
| "err_ok _ = True"

fun finish_ok :: "finish_reason \<Rightarrow> bool" where
  "finish_ok (FinishError f) = isJsonValue (failure_json f)"
| "finish_ok (FinishAborted f) = isJsonValue (failure_json f)"
| "finish_ok _ = True"

fun ends_ok :: "turn_end_reason option \<Rightarrow> bool" where
  "ends_ok None = True"
| "ends_ok (Some r) = (r = Completed \<or> r = MaxTokens)"

definition pa_ok :: "prompt_assembly \<Rightarrow> bool" where
  "pa_ok pa = ((case pa_system pa of Inl err \<Rightarrow> err_ok err | Inr _ \<Rightarrow> True)
     \<and> (case pa_sections pa of Inl err \<Rightarrow> err_ok err | Inr _ \<Rightarrow> True))"

fun pc_ok :: "driver_pc \<Rightarrow> phase \<Rightarrow> inbox \<Rightarrow> bool" where
  "pc_ok NoDriver p ib = (\<not> is_running p \<and> between p ib)"
| "pc_ok (AtReturned again) p ib = (is_running p \<and> between p ib \<and> (again \<longrightarrow> run_step p = 0))"
| "pc_ok (AtAssemble ends claimed) p ib = (in_turn p ib \<and> ends_ok ends)"
| "pc_ok (AtDecide ends pa ms) p ib = (in_turn p ib \<and> ends_ok ends \<and> pa_ok pa)"
| "pc_ok (AtDecided ends pa d) p ib = (in_turn p ib \<and> ends_ok ends \<and> pa_ok pa)"
| "pc_ok (AtStopping reason) p ib = (in_turn p ib \<and> ends_ok (Some reason))"
| "pc_ok (AtRejected err) p ib = (in_turn p ib \<and> err_ok err)"
| "pc_ok (AtRequest fr ms seed) p ib = (in_step {} p ib \<and> ends_ok (fr_ends fr))"
| "pc_ok (AtCall fr ms config) p ib = (in_step {} p ib \<and> ends_ok (fr_ends fr))"
| "pc_ok (AtBuilt fr rq) p ib = (in_step {} p ib \<and> ends_ok (fr_ends fr))"
| "pc_ok (AtChunk fr rq a seqs) p ib = (in_step {} p ib \<and> ends_ok (fr_ends fr) \<and> finish_ok (finish_of a))"
| "pc_ok (AtRetry fr f) p ib = (in_step {} p ib \<and> ends_ok (fr_ends fr) \<and> isJsonValue (failure_json f))"
| "pc_ok (AtTools fr x) p ib =
     (is_running p \<and> ends_ok (fr_ends fr) \<and> distinct (map tc_id (tx_calls x))
      \<and> tx_outcome x = ToolsRunning \<and> waiting.run_ok (run_turn p) (run_step p) (tx_calls x) x ib)"
| "pc_ok (AtUnwind err) p ib = ((\<exists>P. in_step P p ib) \<and> err_ok err)"
| "pc_ok (AtStepped ends stepEnd) p ib = ((\<exists>P. in_step P p ib) \<and> ends_ok ends \<and> ends_ok stepEnd)"

definition agent_inv :: "agent \<Rightarrow> bool" where
  "agent_inv ag = pc_ok (ag_pc ag) (ag_phase ag) (ag_inbox ag)"

lemma at_pc_inv [simp]: "agent_inv (at_pc pc ag) = pc_ok pc (ag_phase ag) (ag_inbox ag)"
  by (simp add: agent_inv_def at_pc_def)

lemma inv_notices [simp]: "agent_inv (ag\<lparr>ag_notices := ns\<rparr>) = agent_inv ag"
  by (simp add: agent_inv_def)

text \<open>The wake latch and the controller's reason play no part.\<close>

definition same_place :: "phase \<Rightarrow> phase \<Rightarrow> bool" where
  "same_place p q = (is_running q = is_running p \<and> run_turn q = run_turn p \<and> run_step q = run_step p)"

lemma place_ok:
  assumes "same_place p q"
  shows "between q = between p" "in_turn q = in_turn p" "in_step P q = in_step P p"
    and "pc_ok pc q = pc_ok pc p"
proof -
  show b: "between q = between p" "in_turn q = in_turn p" "in_step P q = in_step P p" for P
    using assms by (auto simp: fun_eq_iff same_place_def between_def in_turn_def in_step_def)
  show "pc_ok pc q = pc_ok pc p"
    by (cases pc) (use assms b in \<open>simp_all add: fun_eq_iff same_place_def\<close>)
qed

lemma pos_grows:
  "between p ib \<Longrightarrow> grows False ib ib' \<Longrightarrow> between p ib'"
  "in_turn p ib \<Longrightarrow> grows b ib ib' \<Longrightarrow> in_turn p ib'"
  "in_step P p ib \<Longrightarrow> grows b ib ib' \<Longrightarrow> in_step P p ib'"
  by (auto simp: between_def in_turn_def in_step_def intro: traced_grows)

text \<open>Where a turn is open, and where a step is.\<close>

fun turn_open :: "driver_pc \<Rightarrow> bool" where
  "turn_open NoDriver = False"
| "turn_open (AtReturned _) = False"
| "turn_open _ = True"

fun step_open :: "driver_pc \<Rightarrow> bool" where
  "step_open (AtRequest _ _ _) = True"
| "step_open (AtCall _ _ _) = True"
| "step_open (AtBuilt _ _) = True"
| "step_open (AtChunk _ _ _ _) = True"
| "step_open (AtRetry _ _) = True"
| "step_open (AtTools _ _) = True"
| "step_open (AtUnwind _) = True"
| "step_open (AtStepped _ _) = True"
| "step_open _ = False"

lemma grows_mono: "grows False ib ib' \<Longrightarrow> grows True ib ib'"
proof -
  have "neutral False d \<Longrightarrow> neutral True d" for d by (cases d) simp_all
  then show "grows False ib ib' \<Longrightarrow> grows True ib ib'" by (auto simp: grows_by_def)
qed

lemma pc_grows:
  assumes "pc_ok pc p ib" "grows (turn_open pc) ib ib'"
  shows "pc_ok pc p ib'"
  using assms by (cases pc) (auto dest: pos_grows waiting.run_ok_grows)

lemma pc_traced:
  assumes "pc_ok pc p ib"
  shows "\<exists>nt ns P. traced ib (if turn_open pc then Some (run_turn p) else None)
      (if step_open pc then Some (run_step p) else None) nt ns P
    \<and> nt = (if turn_open pc then run_turn p else run_turn p + 1)
    \<and> (turn_open pc \<and> \<not> step_open pc \<longrightarrow> ns = run_step p + 1)
    \<and> (is_running p \<longleftrightarrow> pc \<noteq> NoDriver)"
proof (cases "\<exists>fr x. pc = AtTools fr x")
  case True
  then obtain fr x where pc: "pc = AtTools fr x" by blast
  with assms have ok: "waiting.run_ok (run_turn p) (run_step p) (tx_calls x) x ib"
    and d: "distinct (map tc_id (tx_calls x))" and r: "is_running p" by simp_all
  from waiting.run_ok_some [OF ok] d obtain P where
    "traced ib (Some (run_turn p)) (Some (run_step p)) (run_turn p) (run_step p) P"
    by (auto simp: waiting.recorded_some_def in_trace_def)
  with pc r show ?thesis by auto
next
  case False
  with assms show ?thesis
    by (cases pc) (auto simp: between_def in_turn_def in_step_def)
qed

end
