(* ===== verification/Agent_Moves.thy ===== *)
theory Agent_Moves
  imports Agent_Trace
begin

text \<open>
  Every transition of the driver and every call of the agent's interface preserves the position of the
  log that the driver's wait stands for.
\<close>

subsection \<open>Appends of the agent\<close>

lemma unless_aborted_cases:
  assumes "\<And>cause. abort_reason (ag_phase ag) = Some cause \<Longrightarrow> Q (throw (Cancelled cause) ag)"
    and "abort_reason (ag_phase ag) = None \<Longrightarrow> Q (k ag)"
  shows "Q (unless_aborted throw k ag)"
  using assms by (simp add: unless_aborted_def split: option.splits)

lemma append_ag_Inl: "append_ag env d op srcs ag = (ag1, Inl err) \<Longrightarrow> ag1 = ag \<and> (\<exists>e. err = SessionThrew e)"
  by (cases ag) (auto simp: append_ag_def dest: append_on_fail split: prod.splits sum.splits)

lemma append_ag_Inr:
  "append_ag env d op srcs ag = (ag1, Inr seq)
    \<Longrightarrow> \<exists>ib. append_on (dv_now env) d op srcs (ag_inbox ag) = (ib, Inr seq) \<and> ag1 = ag\<lparr>ag_inbox := ib\<rparr>"
  by (auto simp: append_ag_def split: prod.splits sum.splits)

lemma append_ag_boundary:
  assumes "append_on (dv_now env) d op srcs (ag_inbox ag) = (ib, Inr seq)"
  shows "append_ag env d op srcs ag = (ag\<lparr>ag_inbox := ib\<rparr>, Inr seq)"
  using assms by (simp add: append_ag_def)

text \<open>What the driver writes inside a step, apart from its tools.\<close>

fun step_record :: "int \<Rightarrow> int \<Rightarrow> event_data \<Rightarrow> bool" where
  "step_record t s (AssistantChunk t' s' _) = (t' = t \<and> s' = s)"
| "step_record t s (AssistantMessage t' s' _ _) = (t' = t \<and> s' = s)"
| "step_record t s (UserMessage _) = True"
| "step_record t s (RequestHeader _ _) = True"
| "step_record t s (RequestContext _) = True"
| "step_record t s _ = False"

lemma step_record_traced:
  assumes t: "in_step P p ib" and d: "step_record (run_turn p) (run_step p) d"
    and a: "append_on now d op srcs ib = (ib', Inr seq)"
  shows "in_step P p ib'"
proof -
  have r: "is_running p" and tr: "traced ib (Some (run_turn p)) (Some (run_step p)) (run_turn p) (run_step p) P"
    using t by (simp_all add: in_step_def)
  have "traced ib' (Some (run_turn p)) (Some (run_step p)) (run_turn p) (run_step p) P"
    by (rule traced_append [OF tr _ a])
      (use d in \<open>cases d; simp add: requireOpenStep_def keep_scalars_def\<close>)+
  with r show ?thesis by (simp add: in_step_def)
qed

lemma step_append:
  assumes "in_step P (ag_phase ag) (ag_inbox ag)"
    and "step_record (run_turn (ag_phase ag)) (run_step (ag_phase ag)) d"
    and "append_ag env d op srcs ag = (ag1, r)"
  shows "ag_phase ag1 = ag_phase ag \<and> in_step P (ag_phase ag) (ag_inbox ag1)
    \<and> (\<forall>err. r = Inl err \<longrightarrow> err_ok err)"
proof (cases r)
  case (Inl err)
  with append_ag_Inl [of env d op srcs ag ag1 err] assms show ?thesis by auto
next
  case (Inr seq)
  with append_ag_Inr [of env d op srcs ag ag1 seq] assms show ?thesis by (auto intro: step_record_traced)
qed

subsection \<open>Leaving\<close>

lemma end_turn_ok:
  assumes t: "in_turn (ag_phase ag) (ag_inbox ag)" and r: "reason_ok reason"
  obtains ib where "end_turn env reason ag = (ag\<lparr>ag_inbox := ib\<rparr>, True)" "between (ag_phase ag) ib"
proof -
  let ?t = "run_turn (ag_phase ag)"
  have tr: "traced (ag_inbox ag) (Some ?t) None ?t (run_step (ag_phase ag) + 1) {}"
    using t by (simp add: in_turn_def)
  obtain ib seq where a: "append_on (dv_now env) (TurnEnd ?t reason) None None (ag_inbox ag) = (ib, Inr seq)"
    and b: "traced ib None None (?t + 1) (run_step (ag_phase ag) + 1) {}"
    by (rule boundary_append [OF tr, where d = "TurnEnd ?t reason" and now = "dv_now env"])
      (use r in \<open>simp_all add: keep_scalars_def\<close>)
  from that [of ib] a b show thesis
    by (auto simp: end_turn_def append_ag_boundary between_def)
qed

lemma failure_ok: "err_ok err \<Longrightarrow> reason_ok (TurnError (failure_of env err))"
  by (cases err) (simp_all add: failure_of_def failure_json_def)

lemma fail_turn_inv:
  assumes t: "in_turn (ag_phase ag) (ag_inbox ag)" and e: "err_ok err"
  shows "agent_inv (fail_turn env err ag)"
proof (cases "abort_reason (ag_phase ag)")
  case None
  have "in_turn (ag_phase (report err ag)) (ag_inbox (report err ag))" using t by (simp add: report_def)
  from end_turn_ok [OF this failure_ok [OF e], of env] obtain ib where
    "end_turn env (TurnError (failure_of env err)) (report err ag) = (report err ag\<lparr>ag_inbox := ib\<rparr>, True)"
    "between (ag_phase (report err ag)) ib" by metis
  with t None show ?thesis by (simp add: fail_turn_def report_def in_turn_def)
next
  case (Some cause)
  from end_turn_ok [OF t, of "Aborted cause" env] obtain ib where
    "end_turn env (Aborted cause) ag = (ag\<lparr>ag_inbox := ib\<rparr>, True)" "between (ag_phase ag) ib" by auto
  with t Some show ?thesis by (simp add: fail_turn_def in_turn_def)
qed

lemma return_turn_inv:
  assumes t: "in_turn (ag_phase ag) (ag_inbox ag)" and r: "reason_ok reason"
  shows "agent_inv (return_turn env reason ag)"
proof -
  from end_turn_ok [OF t r, of env] obtain ib where
    "end_turn env reason ag = (ag\<lparr>ag_inbox := ib\<rparr>, True)" "between (ag_phase ag) ib" by blast
  with t show ?thesis by (simp add: return_turn_def in_turn_def)
qed

lemma break_turn_inv:
  assumes t: "in_turn (ag_phase ag) (ag_inbox ag)" and r: "reason_ok reason"
  shows "agent_inv (break_turn env reason ag)"
proof -
  from end_turn_ok [OF t r, of env] obtain ib where
    "end_turn env reason ag = (ag\<lparr>ag_inbox := ib\<rparr>, True)" "between (ag_phase ag) ib" by blast
  with t show ?thesis by (simp add: break_turn_def in_turn_def between_def)
qed

lemma fail_step_inv:
  assumes s: "in_step P (ag_phase ag) (ag_inbox ag)" and e: "err_ok err"
  shows "agent_inv (fail_step env err ag)"
proof -
  let ?p = "ag_phase ag"
  have tr: "traced (ag_inbox ag) (Some (run_turn ?p)) (Some (run_step ?p)) (run_turn ?p) (run_step ?p) P"
    and r: "is_running ?p" using s by (simp_all add: in_step_def)
  obtain ib seq where a: "append_on (dv_now env) (StepEnd (run_turn ?p) (run_step ?p)) None None (ag_inbox ag) = (ib, Inr seq)"
    and b: "traced ib (Some (run_turn ?p)) None (run_turn ?p) (run_step ?p + 1) {}"
    by (rule boundary_append [OF tr, where d = "StepEnd (run_turn ?p) (run_step ?p)" and now = "dv_now env"])
      (simp_all add: keep_scalars_def requireOpenStep_def)
  have "in_turn (ag_phase (ag\<lparr>ag_inbox := ib\<rparr>)) (ag_inbox (ag\<lparr>ag_inbox := ib\<rparr>))"
    using b r by (simp add: in_turn_def)
  from fail_turn_inv [OF this e] a show ?thesis by (simp add: fail_step_def append_ag_boundary)
qed

lemma throw_step_inv:
  "in_step P (ag_phase ag) (ag_inbox ag) \<Longrightarrow> err_ok err \<Longrightarrow> agent_inv (throw_step err ag)"
  by (auto simp: throw_step_def)

lemma reject_step_inv:
  "in_turn (ag_phase ag) (ag_inbox ag) \<Longrightarrow> err_ok err \<Longrightarrow> agent_inv (reject_step err ag)"
  by (auto simp: reject_step_def)

subsection \<open>Turns\<close>

lemma loop_head_inv:
  assumes t: "in_turn (ag_phase ag) (ag_inbox ag)" and e: "ends_ok ends"
  shows "agent_inv (loop_head env target ends ag)"
proof -
  have inv: "inbox_inv (ag_inbox ag)" using t by (auto simp: in_turn_def intro: traced_inv)
  let ?c = "claim target (run_turn (ag_phase ag)) (dv_now env) (ag_inbox ag)"
  have g: "in_turn (ag_phase ag) (fst ?c)" by (rule pos_grows(2) [OF t inbox_ops_grow(4) [OF inv, of False]])
  show ?thesis unfolding loop_head_def
    by (rule unless_aborted_cases)
      (use t e g in \<open>auto intro: fail_turn_inv reject_step_inv split: prod.splits sum.splits\<close>)
qed

lemma begin_turn_inv:
  assumes r: "is_running (ag_phase ag)" and b: "between (ag_phase ag) (ag_inbox ag)"
    and z: "run_step (ag_phase ag) = 0"
  shows "agent_inv (begin_turn env ag)"
proof -
  let ?t = "run_turn (ag_phase ag)"
  from b obtain ns where tr: "traced (ag_inbox ag) None None (?t + 1) ns {}" by (auto simp: between_def)
  obtain ib seq where a: "append_on (dv_now env) (TurnStart (?t + 1)) None None (ag_inbox ag) = (ib, Inr seq)"
    and b': "traced ib (Some (?t + 1)) None (?t + 1) 1 {}"
    by (rule boundary_append [OF tr, where d = "TurnStart (?t + 1)" and now = "dv_now env"])
      (simp_all add: keep_scalars_def trace_inv_def)
  let ?ag = "ag\<lparr>ag_inbox := ib, ag_phase := enter_turn (ag_phase ag)\<rparr>"
  have "in_turn (ag_phase ?ag) (ag_inbox ?ag)"
    using r z b' by (cases "ag_phase ag") (simp_all add: in_turn_def enter_turn_def)
  from loop_head_inv [OF this, of None env NextTurn] a r b show ?thesis
    by (auto simp: begin_turn_def append_ag_boundary intro: unless_aborted_cases)
qed

lemma setPhase_fields [simp]:
  "ag_phase (setPhase p ag) = p" "ag_inbox (setPhase p ag) = ag_inbox ag" "ag_pc (setPhase p ag) = ag_pc ag"
  by (simp_all add: setPhase_def Let_def)

lemma startDriver_inv:
  "between p (ag_inbox ag) \<Longrightarrow> run_turn p = t \<Longrightarrow> agent_inv (startDriver env t ag)"
  unfolding startDriver_def by (rule begin_turn_inv) (simp_all add: between_def)

lemma idle_inv:
  "agent_inv ag \<Longrightarrow> \<not> is_running (ag_phase ag) \<Longrightarrow> ag_pc ag = NoDriver \<and> between (ag_phase ag) (ag_inbox ag)"
  using pc_traced [of "ag_pc ag" "ag_phase ag" "ag_inbox ag"] by (auto simp: agent_inv_def)

lemma same_place_inv:
  "agent_inv ag \<Longrightarrow> same_place (ag_phase ag) p \<Longrightarrow> agent_inv (ag\<lparr>ag_phase := p\<rparr>)"
  by (simp add: agent_inv_def place_ok)

lemma wakeDriver_inv:
  assumes inv: "agent_inv ag"
  shows "agent_inv (wakeDriver env b ag)"
proof (cases "ag_phase ag")
  case (Idle t)
  with idle_inv [OF inv] show ?thesis by (auto simp: wakeDriver_def intro: startDriver_inv)
qed (use inv in \<open>auto simp: wakeDriver_def intro!: same_place_inv simp: same_place_def\<close>)

lemma converge_inv:
  assumes "between p (ag_inbox ag)" "run_turn p = t"
  shows "agent_inv (converge env t w ag)"
proof -
  let ?ag = "at_pc NoDriver (setPhase (Idle t) ag)"
  have "agent_inv ?ag" using assms by (simp add: between_def)
  with wakeDriver_inv [OF this] show ?thesis by (simp add: converge_def Let_def)
qed

lemma afterTurn_inv:
  assumes "is_running (ag_phase ag)" "between (ag_phase ag) (ag_inbox ag)" "again \<longrightarrow> run_step (ag_phase ag) = 0"
  shows "agent_inv (afterTurn env again ag)"
proof (cases again)
  case True
  with assms show ?thesis by (simp add: afterTurn_def begin_turn_inv)
next
  case False
  with assms show ?thesis
    by (cases "ag_phase ag") (auto simp: afterTurn_def intro: converge_inv)
qed

lemma assembled_step_inv:
  assumes t: "in_turn (ag_phase ag) (ag_inbox ag)" and e: "ends_ok ends" and p: "pa_ok pa"
  shows "agent_inv (assembled_step env ends claimed pa ag)"
  unfolding assembled_step_def
  by (rule unless_aborted_cases)
    (use assms in \<open>auto simp: pa_ok_def intro: reject_step_inv split: sum.splits option.splits\<close>)

end
