(* ===== verification/Agent_Steps.thy ===== *)
theory Agent_Steps
  imports Agent_Moves
begin

text \<open>
  The transitions inside a step, the driver as a whole and the calls of the agent's interface, up to the
  property that the log stays an accepted trace.
\<close>

subsection \<open>Reads of the session\<close>

lemma refresh_grows:
  assumes "inbox_inv ib" "session_inv s" "ses_log s = ses_log (ib_session ib)"
    "ses_header s = ses_header (ib_session ib)"
  shows "grows b ib (ib\<lparr>ib_session := s\<rparr>)"
  using assms by (simp add: grows_by_def inbox_inv_def inbox_log_def seed_length_def)

lemma read_header:
  assumes inv: "inbox_inv ib" and r: "requestHeader (ib_session ib) = (s, h)"
  shows "grows b ib (ib\<lparr>ib_session := s\<rparr>)" "h = foldRequestHeader (inbox_log ib) None" "ses_log s = inbox_log ib"
proof -
  have si: "session_inv (ib_session ib)" using inv by (simp add: inbox_inv_def)
  have s: "s = fst (requestHeader (ib_session ib))" "h = snd (requestHeader (ib_session ib))" using r by simp_all
  have "session_inv s" using requestHeader_inv [OF si] by (simp add: s)
  moreover have "ses_log s = ses_log (ib_session ib)" by (simp add: s requestHeader_others)
  moreover have "ses_header s = ses_header (ib_session ib)" by (simp add: s requestHeader_def Let_def)
  ultimately show "grows b ib (ib\<lparr>ib_session := s\<rparr>)" by (intro refresh_grows inv)
  show "h = foldRequestHeader (inbox_log ib) None"
    using header_view.read_value [OF session_invD(1) [OF si]] by (simp add: s inbox_log_def)
  show "ses_log s = inbox_log ib" by (simp add: s requestHeader_others inbox_log_def)
qed

lemma read_context:
  assumes inv: "inbox_inv ib" and r: "requestContext (ib_session ib) = (s, c)"
  shows "grows b ib (ib\<lparr>ib_session := s\<rparr>)" "ses_log s = inbox_log ib"
proof -
  have si: "session_inv (ib_session ib)" using inv by (simp add: inbox_inv_def)
  have s: "s = fst (requestContext (ib_session ib))" using r by simp
  have "session_inv s" using requestContext_inv [OF si] by (simp add: s)
  moreover have "ses_log s = ses_log (ib_session ib)" by (simp add: s requestContext_others)
  moreover have "ses_header s = ses_header (ib_session ib)" by (simp add: s requestContext_def Let_def)
  ultimately show "grows b ib (ib\<lparr>ib_session := s\<rparr>)" by (intro refresh_grows inv)
  show "ses_log s = inbox_log ib" by (simp add: s requestContext_others inbox_log_def)
qed

lemma read_messages:
  assumes inv: "inbox_inv ib" and r: "deriveMessages (ib_session ib) = Inr (s, ms)"
  shows "grows b ib (ib\<lparr>ib_session := s\<rparr>)" "derivedHistory (inbox_log ib) = Inr ms" "ses_log s = inbox_log ib"
proof -
  have si: "session_inv (ib_session ib)" using inv by (simp add: inbox_inv_def)
  have l: "ses_log s = ses_log (ib_session ib)" "derivedHistory (ses_log (ib_session ib)) = Inr ms"
    using derived_view.read_spec [OF session_invD(3) [OF si]] r by simp_all
  have "ses_header s = ses_header (ib_session ib)"
    using r by (elim deriveMessages_state) (simp add: resetDerived_def)
  with deriveMessages_inv [OF si r] l show "grows b ib (ib\<lparr>ib_session := s\<rparr>)" by (intro refresh_grows inv)
  show "derivedHistory (inbox_log ib) = Inr ms" "ses_log s = inbox_log ib" using l by (simp_all add: inbox_log_def)
qed

lemma on_session_fields [simp]:
  "ag_phase (on_session ag s) = ag_phase ag" "ag_inbox (on_session ag s) = (ag_inbox ag)\<lparr>ib_session := s\<rparr>"
  "ag_pc (on_session ag s) = ag_pc ag" "ag_headerLogged (on_session ag s) = ag_headerLogged ag"
  by (simp_all add: on_session_def)

lemma in_step_inv: "in_step P p ib \<Longrightarrow> inbox_inv ib"
  by (auto simp: in_step_def intro: traced_inv)

lemma in_turn_inv: "in_turn p ib \<Longrightarrow> inbox_inv ib"
  by (auto simp: in_turn_def intro: traced_inv)

subsection \<open>Requests\<close>

lemma attempt_inv:
  assumes s: "in_step {} (ag_phase ag) (ag_inbox ag)" and e: "ends_ok (fr_ends fr)"
  shows "agent_inv (attempt env fr ag)"
proof (cases "deriveMessages (ib_session (ag_inbox ag))")
  case (Inl err)
  with s show ?thesis by (simp add: attempt_def throw_step_inv)
next
  case (Inr r)
  obtain s1 ms where r: "r = (s1, ms)" by (cases r)
  obtain s2 h where h: "requestHeader s1 = (s2, h)" by (cases "requestHeader s1")
  have g: "in_step {} (ag_phase ag) ((ag_inbox ag)\<lparr>ib_session := s1\<rparr>)"
    using pos_grows(3) [OF s read_messages(1) [OF in_step_inv [OF s] Inr [unfolded r]]] .
  have "in_step {} (ag_phase ag) ((ag_inbox ag)\<lparr>ib_session := s2\<rparr>)"
    using pos_grows(3) [OF g read_header(1) [OF in_step_inv [OF g], of s2 h]] h by simp
  with Inr r h e show ?thesis
    by (auto simp: attempt_def Let_def intro: throw_step_inv split: option.splits)
qed

lemma proposed_inv:
  assumes "in_step {} (ag_phase ag) (ag_inbox ag)" "ends_ok (fr_ends fr)"
  shows "agent_inv (proposed env fr ms config ag)"
  unfolding proposed_def
  by (rule unless_aborted_cases) (use assms in \<open>auto intro: throw_step_inv\<close>)

lemma log_header_step:
  assumes s: "in_step P (ag_phase ag) (ag_inbox ag)" and l: "log_header env header ag = (ag1, r)"
  shows "ag_phase ag1 = ag_phase ag \<and> in_step P (ag_phase ag) (ag_inbox ag1) \<and> (\<forall>err. r = Inl err \<longrightarrow> err_ok err)"
proof -
  obtain s1 h where h: "requestHeader (ib_session (ag_inbox ag)) = (s1, h)"
    by (cases "requestHeader (ib_session (ag_inbox ag))")
  let ?ag = "on_session ag s1"
  have g: "in_step P (ag_phase ?ag) (ag_inbox ?ag)"
    using pos_grows(3) [OF s read_header(1) [OF in_step_inv [OF s] h]] by simp
  have a: "ag_phase ag2 = ag_phase ag \<and> in_step P (ag_phase ag) (ag_inbox ag2) \<and> (\<forall>err. q = Inl err \<longrightarrow> err_ok err)"
    if "append_ag env (RequestHeader header reason) None None ?ag = (ag2, q)" for reason ag2 q
    using step_append [OF g _ that] by simp
  show ?thesis
    using l h g by (auto simp: log_header_def Let_def split: if_splits prod.splits sum.splits dest!: a)
qed

lemma log_context_step:
  assumes s: "in_step P (ag_phase ag) (ag_inbox ag)" and l: "log_context env rc ag = (ag1, r)"
  shows "ag_phase ag1 = ag_phase ag \<and> in_step P (ag_phase ag) (ag_inbox ag1) \<and> (\<forall>err. r = Inl err \<longrightarrow> err_ok err)"
proof -
  obtain s1 c where c: "requestContext (ib_session (ag_inbox ag)) = (s1, c)"
    by (cases "requestContext (ib_session (ag_inbox ag))")
  let ?ag = "on_session ag s1"
  have g: "in_step P (ag_phase ?ag) (ag_inbox ?ag)"
    using pos_grows(3) [OF s read_context(1) [OF in_step_inv [OF s] c]] by simp
  have a: "ag_phase ag2 = ag_phase ag \<and> in_step P (ag_phase ag) (ag_inbox ag2) \<and> (\<forall>err. q = Inl err \<longrightarrow> err_ok err)"
    if "append_ag env (RequestContext rc) None None ?ag = (ag2, q)" for ag2 q
    using step_append [OF g _ that] by simp
  show ?thesis
    using l c g by (auto simp: log_context_def Let_def split: if_splits prod.splits sum.splits dest!: a)
qed

lemma build_request_inv:
  assumes s: "in_step {} (ag_phase ag) (ag_inbox ag)" and e: "ends_ok (fr_ends fr)"
  shows "agent_inv (build_request env fr ms config pl ag)"
  unfolding build_request_def
proof (rule unless_aborted_cases)
  let ?h = "request_header_of fr config pl"
  let ?rc = "\<lparr>ctx_provider = cfg_provider config, ctx_model = cfg_model config,
    ctx_contextWindow = (case pl of None \<Rightarrow> None | Some p \<Rightarrow> pl_contextWindow p)\<rparr>"
  obtain ag1 r where l: "log_header env ?h ag = (ag1, r)" by (cases "log_header env ?h ag")
  note a = log_header_step [OF s l]
  obtain ag2 q where c: "log_context env ?rc ag1 = (ag2, q)" by (cases "log_context env ?rc ag1")
  have b: "ag_phase ag2 = ag_phase ag \<and> in_step {} (ag_phase ag) (ag_inbox ag2) \<and> (\<forall>err. q = Inl err \<longrightarrow> err_ok err)"
    using log_context_step [OF _ c, of "{}"] a by simp
  have "agent_inv (unless_aborted throw_step (at_pc (AtBuilt fr rq)) ag2)" for rq
    by (rule unless_aborted_cases) (use b e in \<open>auto intro: throw_step_inv\<close>)
  then show "agent_inv (let header = ?h in
       (case log_header env header ag of
          (ag1, Inl err) \<Rightarrow> throw_step err ag1
        | (ag1, Inr _) \<Rightarrow>
            (case log_context env ?rc ag1 of
               (ag2, Inl err) \<Rightarrow> throw_step err ag2
             | (ag2, Inr _) \<Rightarrow>
                 unless_aborted throw_step
                   (at_pc (AtBuilt fr \<lparr>rq_config = hdr_config header, rq_messages = ms,
                      rq_system = hdr_system header, rq_tools = hdr_tools header\<rparr>)) ag2)))"
    using a b l c by (auto simp: Let_def intro: throw_step_inv split: sum.splits)
qed (use s in \<open>auto intro: throw_step_inv\<close>)

lemma prepared_answer_inv:
  assumes "in_step {} (ag_phase ag) (ag_inbox ag)" "ends_ok (fr_ends fr)"
    and "\<And>err. ans = Inl err \<Longrightarrow> err_ok err"
  shows "agent_inv (prepared_answer env fr ms config ans ag)"
  using assms by (auto simp: prepared_answer_def intro: build_request_inv throw_step_inv split: sum.splits)

subsection \<open>Steps\<close>

lemma append_messages_step:
  assumes "in_step P (ag_phase ag) (ag_inbox ag)" "append_messages env ms ag = (ag1, r)"
  shows "ag_phase ag1 = ag_phase ag \<and> in_step P (ag_phase ag) (ag_inbox ag1) \<and> (\<forall>err. r = Inl err \<longrightarrow> err_ok err)"
  using assms
proof (induction ms arbitrary: ag)
  case (Cons m ms)
  obtain ag2 q where a: "append_ag env (UserMessage m) (Some (JStr ''append'')) None ag = (ag2, q)"
    by (cases "append_ag env (UserMessage m) (Some (JStr ''append'')) None ag")
  have s: "ag_phase ag2 = ag_phase ag \<and> in_step P (ag_phase ag) (ag_inbox ag2) \<and> (\<forall>err. q = Inl err \<longrightarrow> err_ok err)"
    using step_append [OF Cons.prems(1) _ a] by simp
  show ?case
  proof (cases q)
    case (Inl err)
    with Cons.prems(2) a s show ?thesis by auto
  next
    case (Inr seq)
    with Cons.prems(2) a have "append_messages env ms ag2 = (ag1, r)" by simp
    with Cons.IH [of ag2] s show ?thesis by simp
  qed
qed auto

lemma begin_step_inv:
  assumes t: "in_turn (ag_phase ag) (ag_inbox ag)" and e: "ends_ok ends" and p: "pa_ok pa"
  shows "agent_inv (begin_step env ends pa ms ag)"
proof -
  let ?p = "ag_phase ag"
  let ?d = "StepStart (run_turn ?p) (run_step ?p + 1)"
  have r: "is_running ?p" and tr: "traced (ag_inbox ag) (Some (run_turn ?p)) None (run_turn ?p) (run_step ?p + 1) {}"
    using t by (simp_all add: in_turn_def)
  obtain ib seq where a: "append_on (dv_now env) ?d None None (ag_inbox ag) = (ib, Inr seq)"
    and b: "traced ib (Some (run_turn ?p)) (Some (run_step ?p + 1)) (run_turn ?p) (run_step ?p + 1) {}"
    by (rule boundary_append [OF tr, where d = ?d and now = "dv_now env"]) (simp_all add: keep_scalars_def)
  let ?ag = "ag\<lparr>ag_inbox := ib, ag_phase := enter_step ?p\<rparr>"
  have s: "in_step {} (ag_phase ?ag) (ag_inbox ?ag)"
    using r b by (cases ?p) (simp_all add: in_step_def enter_step_def)
  obtain ag2 q where m: "append_messages env ms ?ag = (ag2, q)" by (cases "append_messages env ms ?ag")
  note s2 = append_messages_step [OF s m]
  have "agent_inv (unless_aborted throw_step (\<lambda>ag2. case pa_system pa of
      Inl err \<Rightarrow> throw_step err ag2
    | Inr system \<Rightarrow> attempt env \<lparr>fr_ends = ends, fr_system = system, fr_tools = pa_tools pa\<rparr> ag2) ag2)"
    by (rule unless_aborted_cases)
      (use s2 e p in \<open>auto simp: pa_ok_def intro: throw_step_inv attempt_inv split: sum.splits\<close>)
  with s2 a m show ?thesis
    by (auto simp: begin_step_def append_ag_boundary intro: fail_step_inv split: sum.splits)
qed

lemma decided_inv:
  assumes "in_turn (ag_phase ag) (ag_inbox ag)" "ends_ok ends" "pa_ok pa"
  shows "agent_inv (decided env ends pa d ag)"
proof (cases d)
  case RejectStep
  with assms show ?thesis by (simp add: decided_def return_turn_inv)
next
  case (EnterStep ms)
  have go: "agent_inv (unless_aborted (fail_turn env) (begin_step env ends pa ms) ag)"
    by (rule unless_aborted_cases) (use assms in \<open>simp_all add: fail_turn_inv begin_step_inv\<close>)
  show ?thesis
  proof (cases "ends \<noteq> None \<and> ms = []")
    case True
    then obtain reason where "ends = Some reason" "ms = []" by blast
    with EnterStep assms show ?thesis
      by (auto simp: decided_def intro: break_turn_inv)
  next
    case False
    with EnterStep assms go return_turn_inv [OF assms(1), of Completed env] show ?thesis
      by (cases ends; cases ms) (simp_all add: decided_def)
  qed
qed

lemma tools_at_inv:
  assumes r: "is_running (ag_phase ag)" and e: "ends_ok (fr_ends fr)" and d: "distinct (map tc_id (tx_calls x))"
    and ok: "waiting.run_ok (run_turn (ag_phase ag)) (run_step (ag_phase ag)) (tx_calls x) x ib"
  shows "agent_inv (tools_at env fr (x, ib) ag)"
proof -
  from waiting.run_ok_some [OF ok] d r have s: "\<exists>P. in_step P (ag_phase ag) ib"
    by (auto simp: waiting.recorded_some_def in_trace_def in_step_def)
  show ?thesis
  proof (cases "tx_outcome x")
    case ToolsRunning
    with assms show ?thesis by (simp add: tools_at_def Let_def)
  next
    case (ToolsReturned concluded)
    with s e show ?thesis by (simp add: tools_at_def Let_def)
  next
    case (ToolsFailed err)
    with s show ?thesis by (auto simp: tools_at_def Let_def intro: throw_step_inv)
  qed
qed

definition calls_ok :: "assembler \<Rightarrow> bool" where
  "calls_ok a = (case blocks a of
     Inl _ \<Rightarrow> True | Inr content \<Rightarrow> distinct (map tc_id (tool_calls_of content)))"

lemma accept_message_inv:
  assumes s: "in_step {} (ag_phase ag) (ag_inbox ag)" and e: "ends_ok (fr_ends fr)" and c: "calls_ok a"
    and l: "0 < dv_limit env"
  shows "agent_inv (accept_message env fr rq a seqs ag)"
proof (cases "blocks a")
  case (Inl err)
  with s show ?thesis by (auto simp: accept_message_def Let_def intro: throw_step_inv)
next
  case (Inr content)
  let ?t = "run_turn (ag_phase ag)" and ?s = "run_step (ag_phase ag)" and ?cs = "tool_calls_of content"
  let ?d = "AssistantMessage ?t ?s (createAssistantMessage (dv_id env) content (rq_config rq) (as_replayState a)) (as_usage a)"
  obtain ag1 q where a1: "append_ag env ?d (Some (JStr ''append'')) (Some (JArr (map JInt seqs))) ag = (ag1, q)"
    by (cases "append_ag env ?d (Some (JStr ''append'')) (Some (JArr (map JInt seqs))) ag")
  have s1: "ag_phase ag1 = ag_phase ag \<and> in_step {} (ag_phase ag) (ag_inbox ag1) \<and> (\<forall>err. q = Inl err \<longrightarrow> err_ok err)"
    using step_append [OF s _ a1] by simp
  obtain x ib where x: "executeToolCalls (tool_env_of env ag1) (dv_limit env) ?t ?s ?cs (ag_inbox ag1) = (x, ib)"
    by (cases "executeToolCalls (tool_env_of env ag1) (dv_limit env) ?t ?s ?cs (ag_inbox ag1)")
  have "in_trace ?t ?s ?cs (\<lambda>_. 0) 0 0 (ag_inbox ag1)"
    using s1 by (auto simp: in_trace_def in_step_def intro: traced_inv)
  from waiting.execute_ok [OF this l x] have ok: "waiting.run_ok ?t ?s ?cs x ib" by simp
  then have cs: "tx_calls x = ?cs" by (simp add: waiting.run_ok_def)
  have "agent_inv (tools_at env fr (x, ib) ag1)"
    by (rule tools_at_inv) (use s1 e c Inr ok cs in \<open>auto simp: calls_ok_def in_step_def\<close>)
  with Inr a1 s1 e x show ?thesis
    by (auto simp: accept_message_def Let_def intro: throw_step_inv split: sum.splits)
qed

lemma stream_end_inv:
  assumes "in_step {} (ag_phase ag) (ag_inbox ag)" "ends_ok (fr_ends fr)" "calls_ok a" "0 < dv_limit env"
    "finish_ok (finish_of a)"
  shows "agent_inv (stream_end env fr rq a seqs ag)"
  unfolding stream_end_def
  by (rule unless_aborted_cases)
    (use assms in \<open>auto intro: throw_step_inv accept_message_inv split: finish_reason.splits\<close>)

lemma finish_kept [simp]:
  "finish_of (ensure i t a) = finish_of a" "finish_of (update_open i f a) = finish_of a"
  "finish_of (a\<lparr>as_usage := u\<rparr>) = finish_of a"
  by (simp_all add: finish_of_def update_open_def ensure_def split: option.splits)

lemma push_finish_ok:
  "finish_ok (finish_of a) \<Longrightarrow> isJsonValue (chunk_json c) \<Longrightarrow> finish_ok (finish_of (push_chunk a c))"
proof (cases c)
  case (FinishChunk r replay)
  assume "isJsonValue (chunk_json c)"
  then have "isJsonValue (finish_json r)" by (simp add: FinishChunk)
  then show ?thesis by (cases r) (simp_all add: FinishChunk finish_of_def)
qed simp_all

lemma take_chunk_inv:
  assumes s: "in_step {} (ag_phase ag) (ag_inbox ag)" and e: "ends_ok (fr_ends fr)" and f: "finish_ok (finish_of a)"
  shows "agent_inv (take_chunk env fr rq a seqs c ag)"
  unfolding take_chunk_def
proof (rule unless_aborted_cases)
  let ?d = "AssistantChunk (run_turn (ag_phase ag)) (run_step (ag_phase ag)) c"
  obtain ag1 q where a1: "append_ag env ?d None None ag = (ag1, q)" by (cases "append_ag env ?d None None ag")
  have s1: "ag_phase ag1 = ag_phase ag \<and> in_step {} (ag_phase ag) (ag_inbox ag1) \<and> (\<forall>err. q = Inl err \<longrightarrow> err_ok err)"
    using step_append [OF s _ a1] by simp
  have "finish_ok (finish_of (push_chunk a c))" if "q = Inr seq" for seq
  proof -
    from append_ag_Inr [of env ?d None None ag ag1 seq] a1 that obtain ib where
      "append_on (dv_now env) ?d None None (ag_inbox ag) = (ib, Inr seq)" by blast
    then obtain ss ee where d: "append_detached (ib_session (ag_inbox ag)) (dv_now env) ?d None None = Inr (ss, ee)"
      by (auto simp: append_on_def split: sum.splits)
    have "session_inv (ib_session (ag_inbox ag))" using in_step_inv [OF s] by (simp add: inbox_inv_def)
    from append_inv [OF this d] have "isJsonValue (chunk_json c)" by (simp add: append_allowed_def)
    then show ?thesis by (rule push_finish_ok [OF f])
  qed
  with a1 s1 e show "agent_inv (case append_ag env ?d None None ag of
      (ag1, Inl err) \<Rightarrow> throw_step err ag1
    | (ag1, Inr seq) \<Rightarrow> at_pc (AtChunk fr rq (push_chunk a c) (seqs @ [seq])) ag1)"
    by (auto intro: throw_step_inv split: sum.splits)
qed (use s in \<open>auto intro: throw_step_inv\<close>)

lemma recovered_inv:
  assumes "in_step {} (ag_phase ag) (ag_inbox ag)" "ends_ok (fr_ends fr)" "isJsonValue (failure_json f)"
  shows "agent_inv (recovered env fr f retry ag)"
  unfolding recovered_def
  by (rule unless_aborted_cases) (use assms in \<open>auto intro: throw_step_inv attempt_inv\<close>)

lemma step_returned_inv:
  assumes s: "in_step P (ag_phase ag) (ag_inbox ag)" and e: "ends_ok ends" "ends_ok stepEnd"
  shows "agent_inv (step_returned env ends stepEnd ag)"
proof -
  let ?p = "ag_phase ag"
  let ?d = "StepEnd (run_turn ?p) (run_step ?p)"
  have tr: "traced (ag_inbox ag) (Some (run_turn ?p)) (Some (run_step ?p)) (run_turn ?p) (run_step ?p) P"
    and r: "is_running ?p" using s by (simp_all add: in_step_def)
  obtain ib seq where a: "append_on (dv_now env) ?d None None (ag_inbox ag) = (ib, Inr seq)"
    and b: "traced ib (Some (run_turn ?p)) None (run_turn ?p) (run_step ?p + 1) {}"
    by (rule boundary_append [OF tr, where d = ?d and now = "dv_now env"])
      (simp_all add: keep_scalars_def requireOpenStep_def)
  let ?ag = "ag\<lparr>ag_inbox := ib\<rparr>"
  have t: "in_turn (ag_phase ?ag) (ag_inbox ?ag)" using b r by (simp add: in_turn_def)
  have k: "ends_ok (sticky_end ends stepEnd)" using e by (simp add: sticky_end_def)
  have "agent_inv (unless_aborted (fail_turn env) (\<lambda>ag1. case sticky_end ends stepEnd of
      None \<Rightarrow> loop_head env NextStep None ag1
    | Some reason \<Rightarrow> if ib_nextStep (ib_lists (ag_inbox ag1)) = [] then at_pc (AtStopping reason) ag1
        else loop_head env NextStep (Some reason) ag1) ?ag)"
    by (rule unless_aborted_cases) (use t k in \<open>auto intro: fail_turn_inv loop_head_inv split: option.splits\<close>)
  with a show ?thesis by (simp add: step_returned_def append_ag_boundary)
qed

lemma stopping_inv:
  assumes t: "in_turn (ag_phase ag) (ag_inbox ag)" and e: "ends_ok (Some reason)"
  shows "agent_inv (stopping env reason ag)"
proof -
  have r: "reason_ok reason" using e by auto
  show ?thesis unfolding stopping_def
    by (rule unless_aborted_cases)
      (use t fail_turn_inv break_turn_inv [OF t r] loop_head_inv [OF t e] in simp_all)
qed

end
