(* ===== verification/Agent_Run.thy ===== *)
theory Agent_Run
  imports Agent_Steps
begin

text \<open>
  Runs of an agent: any interleaving of sends, cancellations, maintenance, other appends and the answers
  the driver waits for. The log stays an accepted trace throughout.
\<close>

subsection \<open>What the rest of the program promises\<close>

definition answer_ok :: "(agent_error, 'a) result \<Rightarrow> bool" where
  "answer_ok r = (case r of Inl err \<Rightarrow> err_ok err | Inr _ \<Rightarrow> True)"

lemma answer_ok_simps [simp]: "answer_ok (Inl err) = err_ok err" "answer_ok (Inr x)"
  by (simp_all add: answer_ok_def)

text \<open>A structured failure that is thrown holds lossless numbers.\<close>

fun input_ok :: "driver_input \<Rightarrow> bool" where
  "input_ok (Assembled r) = (case r of Inl err \<Rightarrow> err_ok err | Inr pa \<Rightarrow> pa_ok pa)"
| "input_ok (Decided r) = answer_ok r"
| "input_ok (Proposed r) = answer_ok r"
| "input_ok (PreparedCall r) = answer_ok r"
| "input_ok (Opened r) = answer_ok r"
| "input_ok (StreamThrew err) = err_ok err"
| "input_ok (Recovery r) = answer_ok r"
| "input_ok (Stopped r) = answer_ok r"
| "input_ok _ = True"

text \<open>
  Other appends are neutral (a todo list only inside a turn); a message does not repeat a call id; the
  configured pool cap is positive.
\<close>

fun allowed :: "drive_env \<Rightarrow> agent_move \<Rightarrow> agent \<Rightarrow> bool" where
  "allowed env (Outside c) ag = outside_ok (turn_open (ag_pc ag)) c"
| "allowed env (Drive i) ag =
     (0 < dv_limit env \<and> input_ok i
      \<and> (case i of
           StreamEnded \<Rightarrow> (case ag_pc ag of AtChunk fr rq a seqs \<Rightarrow> calls_ok a | _ \<Rightarrow> True)
         | _ \<Rightarrow> True))"
| "allowed env _ ag = True"

fun agent_run ::
  "(drive_env \<Rightarrow> agent_move \<Rightarrow> agent \<Rightarrow> bool) \<Rightarrow> (drive_env \<times> agent_move) list \<Rightarrow> agent \<Rightarrow> agent option" where
  "agent_run ok [] ag = Some ag"
| "agent_run ok ((env, m) # ms) ag =
     (if ok env m ag then (case agent_step env m ag of None \<Rightarrow> None | Some ag' \<Rightarrow> agent_run ok ms ag') else None)"

lemma agent_run_induct [consumes 1, case_names start move]:
  assumes "agent_run ok ms ag = Some ag'" "Q ag"
    and "\<And>env m a a'. Q a \<Longrightarrow> ok env m a \<Longrightarrow> agent_step env m a = Some a' \<Longrightarrow> Q a'"
  shows "Q ag'"
  using assms(1,2)
proof (induction ms arbitrary: ag)
  case (Cons em ms)
  obtain env m where em: "em = (env, m)" by (cases em)
  with Cons.prems obtain a where "ok env m ag" "agent_step env m ag = Some a" "agent_run ok ms a = Some ag'"
    by (auto split: if_splits option.splits)
  with Cons.IH Cons.prems(2) show ?case by (blast intro: assms(3))
qed simp

subsection \<open>The driver\<close>

lemma drive_inv:
  assumes inv: "agent_inv ag" and ok: "allowed env (Drive i) ag" and d: "drive env i (ag_pc ag) ag = Some ag'"
  shows "agent_inv ag'"
proof -
  have p: "pc_ok (ag_pc ag) (ag_phase ag) (ag_inbox ag)" using inv by (simp add: agent_inv_def)
  have l: "0 < dv_limit env" and io: "input_ok i" using ok by simp_all
  show ?thesis
  proof (cases "ag_pc ag")
    case NoDriver
    with d show ?thesis by simp
  next
    case (AtAssemble ends claimed)
    with p d io show ?thesis
      by (auto intro: reject_step_inv assembled_step_inv split: driver_input.splits sum.splits)
  next
    case (AtDecide ends pa ms)
    have "agent_inv (unless_aborted reject_step (at_pc (AtDecided ends pa x)) ag)" for x
      by (rule unless_aborted_cases) (use p AtDecide in \<open>simp_all add: reject_step_inv\<close>)
    with p d io AtDecide show ?thesis by (auto intro: reject_step_inv split: driver_input.splits sum.splits)
  next
    case (AtDecided ends pa dec)
    with p d show ?thesis by (auto intro: decided_inv split: driver_input.splits)
  next
    case (AtRequest fr ms seed)
    with p d io show ?thesis by (auto intro: throw_step_inv proposed_inv split: driver_input.splits sum.splits)
  next
    case (AtCall fr ms config)
    with p d io show ?thesis by (auto intro: prepared_answer_inv split: driver_input.splits)
  next
    case (AtBuilt fr rq)
    have "agent_inv (unless_aborted throw_step (at_pc (AtChunk fr rq new_assembler [])) ag)"
      by (rule unless_aborted_cases)
        (use p AtBuilt in \<open>auto simp: finish_of_def new_assembler_def intro: throw_step_inv\<close>)
    with p d io AtBuilt show ?thesis by (auto intro: throw_step_inv split: driver_input.splits sum.splits)
  next
    case (AtChunk fr rq a seqs)
    with p d io ok l show ?thesis
      by (cases i) (auto intro: throw_step_inv take_chunk_inv stream_end_inv)
  next
    case (AtUnwind err)
    with p d show ?thesis by (auto intro: fail_step_inv split: driver_input.splits)
  next
    case (AtRetry fr f)
    with p d io show ?thesis by (auto intro: throw_step_inv recovered_inv split: driver_input.splits sum.splits)
  next
    case (AtTools fr x)
    with d obtain inp st where st: "tool_step (tool_env_of env ag) (dv_limit env) inp (x, ag_inbox ag) = Some st"
      and ag': "ag' = tools_at env fr st ag" by (auto split: driver_input.splits)
    obtain x1 ib1 where st1: "st = (x1, ib1)" by (cases st)
    from p AtTools have w: "waiting.run_ok (run_turn (ag_phase ag)) (run_step (ag_phase ag)) (tx_calls x) x (ag_inbox ag)"
      by simp
    from waiting.tool_step_ok [OF w l st [unfolded st1]]
    have w1: "waiting.run_ok (run_turn (ag_phase ag)) (run_step (ag_phase ag)) (tx_calls x) x1 ib1" by simp
    then have "tx_calls x1 = tx_calls x" by (simp add: waiting.run_ok_def)
    with p AtTools w1 show ?thesis by (auto simp: ag' st1 intro!: tools_at_inv)
  next
    case (AtStepped ends stepEnd)
    with p d show ?thesis by (auto intro: step_returned_inv split: driver_input.splits)
  next
    case (AtStopping reason)
    with p d io show ?thesis
      by (auto intro: fail_turn_inv stopping_inv split: driver_input.splits sum.splits simp del: ends_ok.simps)
  next
    case (AtRejected err)
    with p d show ?thesis by (auto intro: fail_turn_inv split: driver_input.splits)
  next
    case (AtReturned again)
    with p d show ?thesis by (auto intro: afterTurn_inv split: driver_input.splits)
  qed
qed

subsection \<open>The interface\<close>

lemma pc_inbox: "pc_ok pc p ib \<Longrightarrow> inbox_inv ib"
  using pc_traced [of pc p ib] by (auto intro: traced_inv)

lemma grown_inv:
  assumes "agent_inv ag" "grows (turn_open (ag_pc ag)) (ag_inbox ag) ib"
  shows "agent_inv (ag\<lparr>ag_inbox := ib\<rparr>)"
  using assms by (simp add: agent_inv_def pc_grows)

lemma send_cases:
  assumes ins: "\<And>t. Q (ag\<lparr>ag_inbox := fst (inbox_splice t PosInf (num_of_int 0) [m] (dv_now env) (ag_inbox ag))\<rparr>)"
    and wake: "\<And>b a. Q a \<Longrightarrow> Q (wakeDriver env b a)"
  shows "Q (fst (send env m target wakeup ag))"
proof -
  define w where "w = (wakeup \<and> abort_reason (ag_phase ag) \<noteq> None)"
  define t where "t = (if w then NextTurn else target)"
  obtain ib r where i: "inbox_splice t PosInf (num_of_int 0) [m] (dv_now env) (ag_inbox ag) = (ib, r)"
    by (cases "inbox_splice t PosInf (num_of_int 0) [m] (dv_now env) (ag_inbox ag)")
  have "Q (ag\<lparr>ag_inbox := ib\<rparr>)" using ins [of t] i by simp
  with wake [OF this] show ?thesis
    unfolding send_def w_def [symmetric] t_def [symmetric] Let_def i by (simp split: sum.split)
qed

lemma send_inv:
  assumes inv: "agent_inv ag"
  shows "agent_inv (fst (send env m target wakeup ag))"
proof (rule send_cases)
  have ii: "inbox_inv (ag_inbox ag)" using inv by (auto simp: agent_inv_def intro: pc_inbox)
  show "agent_inv (ag\<lparr>ag_inbox := fst (inbox_splice t PosInf (num_of_int 0) [m] (dv_now env) (ag_inbox ag))\<rparr>)" for t
    by (rule grown_inv [OF inv inbox_ops_grow(1) [OF ii]])
qed (rule wakeDriver_inv)

lemma abort_place: "same_place p (abort_phase cause p)" "same_place p (drop_wake p)"
  by (cases p; simp add: same_place_def abort_phase_def drop_wake_def)+

lemma cancel_inv:
  assumes inv: "agent_inv ag"
  shows "agent_inv (fst (cancel env cause keepInbox ag))"
proof -
  have ii: "inbox_inv (ag_inbox ag)" using inv by (auto simp: agent_inv_def intro: pc_inbox)
  have g: "agent_inv (ag\<lparr>ag_inbox := fst (clear_inbox (dv_now env) (ag_inbox ag))\<rparr>)"
    by (rule grown_inv [OF inv inbox_ops_grow(3) [OF ii]])
  have "same_place p (abort_phase cause (drop_wake p))" for p
    using abort_place [of p] abort_place(1) [of "drop_wake p" cause] by (simp add: same_place_def)
  with same_place_inv [OF g] have
    "agent_inv (ag\<lparr>ag_inbox := fst (clear_inbox (dv_now env) (ag_inbox ag)),
       ag_phase := abort_phase cause (drop_wake (ag_phase ag))\<rparr>)" by simp
  moreover have "agent_inv (ag\<lparr>ag_phase := abort_phase cause (ag_phase ag)\<rparr>)"
    by (rule same_place_inv [OF inv abort_place(1)])
  ultimately show ?thesis using g
    by (cases "clear_inbox (dv_now env) (ag_inbox ag)") (auto simp: cancel_def split: sum.splits)
qed

lemma beginMaintenance_inv: "agent_inv ag \<Longrightarrow> beginMaintenance ag = Some ag' \<Longrightarrow> agent_inv ag'"
proof -
  assume inv: "agent_inv ag" and b: "beginMaintenance ag = Some ag'"
  then obtain t where t: "ag_phase ag = Idle t" "ag' = setPhase (Maintenance None t False) ag"
    by (auto simp: beginMaintenance_def split: phase.splits)
  have "agent_inv (ag\<lparr>ag_phase := Maintenance None t False\<rparr>)"
    by (rule same_place_inv [OF inv]) (simp add: t same_place_def)
  then show ?thesis by (simp add: t setPhase_def Let_def)
qed

lemma endMaintenance_inv:
  assumes inv: "agent_inv ag" and e: "endMaintenance env ag = Some ag'"
  shows "agent_inv ag'"
proof -
  from e obtain ab t w where p: "ag_phase ag = Maintenance ab t w" "ag' = converge env t w ag"
    by (auto simp: endMaintenance_def split: phase.splits)
  with idle_inv [OF inv] show ?thesis by (auto intro: converge_inv)
qed

lemma agent_step_inv:
  assumes inv: "agent_inv ag" and ok: "allowed env m ag" and s: "agent_step env m ag = Some ag'"
  shows "agent_inv ag'"
proof (cases m)
  case (Outside c)
  have "inbox_inv (ag_inbox ag)" using inv by (auto simp: agent_inv_def intro: pc_inbox)
  from grown_inv [OF inv outside_grows [OF this, of _ c "dv_now env"]] ok s Outside show ?thesis by auto
qed (use assms in \<open>auto intro: send_inv cancel_inv beginMaintenance_inv endMaintenance_inv drive_inv\<close>)

subsection \<open>A new agent\<close>

text \<open>After a closed turn the trace expects the turn that follows the last one.\<close>

lemma last_turn_start_snoc:
  "last_turn_start (es @ [e]) t = (case ev_data e of TurnStart n \<Rightarrow> n | _ \<Rightarrow> last_turn_start es t)"
  by (induction es arbitrary: t) (simp_all split: event_data.splits)

lemma last_turn_traced:
  "traceOf es = Inr tr \<Longrightarrow>
    (case tr_openTurn tr of None \<Rightarrow> last_turn_start es 0 + 1 = tr_nextTurn tr | Some t \<Rightarrow> last_turn_start es 0 = t)"
proof (induction es arbitrary: tr rule: rev_induct)
  case Nil
  then show ?case by (auto simp: traceOf_def freshTrace_def)
next
  case (snoc e es)
  then obtain tr0 where t0: "traceOf es = Inr tr0" and s: "traceStep tr0 e = Inr tr" by (auto simp: traceOf_snoc)
  then obtain x where v: "validateByType tr0 e (ev_data e) = Inr x" and tr: "tr = applyTransition tr0 x"
    by (auto simp: traceStep_def validateEvent_def)
  note ih = snoc.IH [OF t0]
  show ?case
    using v ih traceOf_inv [OF t0]
    by (cases "(tr0, e, ev_data e)" rule: validateByType.cases)
      (auto simp: tr applyTransition_def keep_scalars_def requireOpenStep_def last_turn_start_snoc trace_inv_def
        split: if_splits option.splits)
qed

lemma newAgent_inv:
  assumes s: "session_inv s" "seed_length s \<le> length (ses_log s)"
    and tr: "traceOf (ses_log s) = Inr tr" "tr_openTurn tr = None" and a: "newAgent opts s = Inr ag"
  shows "agent_inv ag \<and> ag_log ag = ses_log s \<and> ag_headerLogged ag = False"
proof -
  from a obtain ib m st where ib: "newInbox s = Inr ib" and m: "readSurface (ses_mgr s) = Inr (m, st)"
    and ag: "ag = \<lparr>ag_options = opts, ag_inbox = ib\<lparr>ib_session := s\<lparr>ses_mgr := m\<rparr>\<rparr>,
      ag_phase = Idle (last_turn_start (ses_log s) 0), ag_pc = NoDriver, ag_headerLogged = False,
      ag_restored = restoreContext (nodes st) (ses_log s), ag_since = length (ses_log s), ag_notices = []\<rparr>"
    by (auto simp: newAgent_def surface_res_def split: sum.splits)
  have ii: "inbox_inv ib" by (rule newInbox_inv [OF s ib])
  have ses: "ib_session ib = s" using ib by (auto simp: newInbox_def)
  have mi: "mgr_inv (ses_mgr s)" using session_invD(4) [OF s(1)] .
  have mm: "mgr_inv m" "mgr_log m = ses_log s"
    using surface_view.read_spec [OF mi] m by (simp_all add: ses_log_def)
  have sm: "session_inv (s\<lparr>ses_mgr := m\<rparr>)" by (rule session_inv_mgr [OF s(1) mm])
  have g: "grows True ib (ib\<lparr>ib_session := s\<lparr>ses_mgr := m\<rparr>\<rparr>)"
    by (rule refresh_grows [OF ii sm]) (simp_all add: ses mm ses_log_def)
  have "trace_inv tr" by (rule traceOf_inv [OF tr(1)])
  then have "traced (ag_inbox ag) None None (last_turn_start (ses_log s) 0 + 1) (tr_nextStep tr) {}"
    using last_turn_traced [OF tr(1)] tr grows_inv [OF g] mm
    by (auto simp: traced_def ag inbox_log_def ses_log_def trace_inv_def)
  then show ?thesis using mm by (auto simp: agent_inv_def ag between_def ag_log_def ses_log_def)
qed

end
