(* ===== verification/Agent_Request.thy ===== *)
theory Agent_Request
  imports Agent_Run
begin

text \<open>
  The request a step sends is reconstructed from the log: its messages are the derived history at the
  dispatch and its configuration is the folded request header, as the package's invariant checks.
\<close>

subsection \<open>Growth that leaves the request alone\<close>

fun leaves_request :: "event_data \<Rightarrow> bool" where
  "leaves_request (RequestHeader _ _) = False"
| "leaves_request d = (\<not> isSurfaceEligible d)"

lemma fold_state_inert:
  "fold_state (es @ xs) = Inr st \<Longrightarrow> \<forall>e \<in> set xs. \<not> isSurfaceEligible (ev_data e) \<Longrightarrow> fold_state es = Inr st"
proof (induction xs arbitrary: st rule: rev_induct)
  case (snoc x xs)
  then obtain st0 r where st0: "fold_state (es @ xs) = Inr st0"
    and ap: "applySurfaceEvent st0 x (int (length (es @ xs))) (es @ xs) 0 = Inr (st, r)"
    by (auto simp: fold_state_snoc simp flip: append_assoc)
  have "st = st0"
    using ap snoc.prems(2)
    by (auto simp: applySurfaceEvent_def planSurfaceEvent_def surfaceOpOf_def commitPlan_def split: if_splits)
  with snoc.IH [OF st0] snoc.prems(2) show ?case by simp
qed simp

lemma derived_grows:
  assumes inv: "inbox_inv ib" and g: "grows_by (\<lambda>d. \<not> isSurfaceEligible d) ib ib'"
  shows "derivedHistory (inbox_log ib') = derivedHistory (inbox_log ib)"
proof -
  from g obtain xs where l: "inbox_log ib' = inbox_log ib @ xs" and x: "\<forall>e \<in> set xs. \<not> isSurfaceEligible (ev_data e)"
    and inv': "inbox_inv ib'" by (auto simp: grows_by_def)
  obtain st where st: "fold_state (inbox_log ib') = Inr st"
    using inv' by (auto simp: inbox_inv_def session_inv_def is_ok_iff inbox_log_def)
  have st': "fold_state (inbox_log ib) = Inr st" by (rule fold_state_inert [OF st [unfolded l] x])
  from projectNodes_log_extend [OF fold_state_bound [OF st']] st st' l show ?thesis
    by (simp add: derivedHistory_def)
qed

lemma header_grows:
  assumes g: "grows_by leaves_request ib ib'"
  shows "foldRequestHeader (inbox_log ib') s = foldRequestHeader (inbox_log ib) s"
proof -
  from g obtain xs where l: "inbox_log ib' = inbox_log ib @ xs" and x: "\<forall>e \<in> set xs. leaves_request (ev_data e)"
    by (auto simp: grows_by_def)
  have "foldRequestHeader xs s = s" for s
    using x by (induction xs arbitrary: s) (auto split: event_data.splits)
  then show ?thesis by (simp add: l foldRequestHeader_append)
qed

lemma grows_by_mono: "grows_by Q ib ib' \<Longrightarrow> (\<And>d. Q d \<Longrightarrow> R d) \<Longrightarrow> grows_by R ib ib'"
  by (auto simp: grows_by_def)

lemma leaves_plain: "leaves_request d \<Longrightarrow> \<not> isSurfaceEligible d"
  by (cases d) simp_all

lemma append_grows_by:
  assumes inv: "inbox_inv ib" and n: "\<not> is_splice d" "Q d" and a: "append_on now d op srcs ib = (ib', Inr seq)"
  shows "grows_by Q ib ib'"
proof (rule append_on_cases [OF inv n(1), of now op srcs])
  fix s assume "append_on now d op srcs ib = (ib\<lparr>ib_session := s\<rparr>, Inr (int (length (inbox_log ib))))"
    and i: "inbox_inv (ib\<lparr>ib_session := s\<rparr>)" and l: "ses_log s = inbox_log ib @ [next_event (ib_session ib) now d op srcs]"
  with a n i show ?thesis by (auto simp: grows_by_def inbox_log_def)
qed (use a in simp)

lemma append_on_lossless:
  assumes inv: "inbox_inv ib" and a: "append_on now d op srcs ib = (ib', Inr seq)"
  shows "isJsonValue (data_json d)"
proof -
  obtain s e where d: "append_detached (ib_session ib) now d op srcs = Inr (s, e)"
    using a by (auto simp: append_on_def split: sum.splits)
  have "session_inv (ib_session ib)" using inv by (simp add: inbox_inv_def)
  from append_inv [OF this d] show ?thesis by (simp add: append_allowed_def)
qed

subsection \<open>Headers\<close>

lemma header_json_lossless:
  assumes j: "isJsonValue (header_json h)"
  shows "header_lossless h"
proof -
  have c: "isJsonValue (config_json (hdr_config h))" using j by (simp add: header_json_def)
  have "isJsonValue (schema_parameters t)" if "t \<in> set (tools_of h)" for t
  proof (cases "hdr_tools h")
    case (Some ts)
    with j have "\<forall>t \<in> set ts. isJsonValue (schema_json t)" by (auto simp: header_json_def)
    with that Some show ?thesis by (auto simp: schema_json_def tools_of_def)
  qed (use that in \<open>simp add: tools_of_def\<close>)
  moreover have "num_lossless (cfg_temperature (hdr_config h))"
    using c by (cases "cfg_temperature (hdr_config h)") (simp_all add: config_json_def num_lossless_def)
  moreover have "num_lossless (cfg_maxTokens (hdr_config h))"
    using c by (cases "cfg_maxTokens (hdr_config h)") (simp_all add: config_json_def num_lossless_def)
  ultimately show ?thesis by (simp add: header_lossless_def list_all_iff)
qed

lemma schemas_printed:
  "length xs = length ys \<Longrightarrow> list_all (\<lambda>(x, y). sameSchema x y) (zip xs ys)
    \<Longrightarrow> map (printed \<circ> schema_json) ys = map (printed \<circ> schema_json) xs"
  by (induction xs ys rule: list_induct2) (auto simp: sameSchema_def)

text \<open>What the log says is the header of the request.\<close>

definition says_header :: "epoch_header \<Rightarrow> epoch_header \<Rightarrow> bool" where
  "says_header h g = (headerEquals h g \<or> h = g \<and> header_lossless g)"

lemma says_matches:
  assumes "says_header h g"
  shows "header_matches \<lparr>rq_config = hdr_config g, rq_messages = ms, rq_system = hdr_system g, rq_tools = hdr_tools g\<rparr> h"
proof (cases "headerEquals h g")
  case True
  then have c: "callConfigEquals (hdr_config h) (hdr_config g)" and s: "hdr_system h = hdr_system g"
    and l: "length (tools_of h) = length (tools_of g)"
    and t: "list_all (\<lambda>(x, y). sameSchema x y) (zip (tools_of h) (tools_of g))"
    by (simp_all add: headerEquals_def split: if_splits)
  have sym: "opt_num_eq a b \<Longrightarrow> opt_num_eq b a" for a b
  proof -
    have "js_eq x y \<Longrightarrow> js_eq y x" for x y by (cases x; cases y) simp_all
    then show "opt_num_eq a b \<Longrightarrow> opt_num_eq b a" by (auto simp: opt_num_eq_def split: option.splits)
  qed
  have "cfg_stop (hdr_config g) = cfg_stop (hdr_config h)"
    using c by (cases "cfg_stop (hdr_config h)"; cases "cfg_stop (hdr_config g)")
      (auto simp: callConfigEquals_def list_all_zip_eq split: if_splits)
  moreover have "map (printed \<circ> schema_json) (tools_of g) = map (printed \<circ> schema_json) (tools_of h)"
    by (rule schemas_printed [OF l t])
  moreover have "list_or_empty (hdr_tools k) = tools_of k" for k
    by (simp add: list_or_empty_def tools_of_def)
  ultimately show ?thesis using c s by (auto simp: header_matches_def callConfigEquals_def intro: sym split: if_splits)
next
  case False
  with assms show ?thesis
    by (auto simp: says_header_def header_matches_def header_lossless_def opt_num_eq_lossless)
qed

lemma canonical_request [simp]: "canonicalHeader (request_header_of fr config pl) = request_header_of fr config pl"
  by (simp add: request_header_of_def)

lemma log_header_says:
  assumes inv: "inbox_inv (ag_inbox ag)" and l: "log_header env g ag = (ag1, Inr ())" and c: "canonicalHeader g = g"
  shows "grows_by (\<lambda>d. \<not> isSurfaceEligible d) (ag_inbox ag) (ag_inbox ag1)
    \<and> (\<exists>h. foldRequestHeader (inbox_log (ag_inbox ag1)) None = Some h \<and> says_header h g)"
proof -
  obtain s h where h: "requestHeader (ib_session (ag_inbox ag)) = (s, h)"
    by (cases "requestHeader (ib_session (ag_inbox ag))")
  let ?ag = "on_session ag s"
  note r = read_header(1) [OF inv h]
  have r': "grows_by (\<lambda>d. \<not> isSurfaceEligible d) (ag_inbox ag) (ag_inbox ?ag)"
    using read_header(3) [OF inv h] grows_inv [OF r] by (simp add: grows_by_def inbox_log_def)
  have app: "grows_by (\<lambda>d. \<not> isSurfaceEligible d) (ag_inbox ag) (ag_inbox ag2)
      \<and> foldRequestHeader (inbox_log (ag_inbox ag2)) None = Some g \<and> header_lossless g"
    if a: "append_ag env (RequestHeader g reason) None None ?ag = (ag2, Inr seq)" for reason ag2 seq
  proof -
    from append_ag_Inr [OF a] obtain ib where
      o: "append_on (dv_now env) (RequestHeader g reason) None None (ag_inbox ?ag) = (ib, Inr seq)"
      and ag2: "ag2 = ?ag\<lparr>ag_inbox := ib\<rparr>" by blast
    have inv': "inbox_inv (ag_inbox ?ag)" by (rule grows_inv [OF r'])
    have g1: "grows_by (\<lambda>d. \<not> isSurfaceEligible d) (ag_inbox ?ag) ib"
      by (rule append_grows_by [OF inv' _ _ o]) simp_all
    have "foldRequestHeader (inbox_log ib) None = Some g \<and> header_lossless g"
    proof (rule append_on_cases [OF inv', of "RequestHeader g reason" "dv_now env" None None])
      fix ss
      assume b: "append_on (dv_now env) (RequestHeader g reason) None None (ag_inbox ?ag) =
          ((ag_inbox ?ag)\<lparr>ib_session := ss\<rparr>, Inr (int (length (inbox_log (ag_inbox ?ag)))))"
        and l: "ses_log ss = inbox_log (ag_inbox ?ag) @
          [next_event (ib_session (ag_inbox ?ag)) (dv_now env) (RequestHeader g reason) None None]"
      have "isJsonValue (data_json (RequestHeader g reason))" by (rule append_on_lossless [OF inv' o])
      then have "isJsonValue (header_json g)" by simp
      with b o l c header_json_lossless show ?thesis
        by (auto simp: inbox_log_def foldRequestHeader_append)
    qed (use o in simp_all)
    with grows_trans [OF r' g1] show ?thesis by (simp add: ag2)
  qed
  have k: "h = Some b \<Longrightarrow> foldRequestHeader (inbox_log (ag_inbox ?ag)) None = Some b" for b
    using read_header(2,3) [OF inv h] by (simp add: inbox_log_def)
  show ?thesis
    using l h r' k
    by (auto simp: log_header_def Let_def says_header_def split: if_splits prod.splits sum.splits option.splits dest!: app)
qed

lemma log_context_leaves:
  assumes inv: "inbox_inv (ag_inbox ag)" and l: "log_context env rc ag = (ag1, Inr ())"
  shows "grows_by leaves_request (ag_inbox ag) (ag_inbox ag1)"
proof -
  obtain s c where c: "requestContext (ib_session (ag_inbox ag)) = (s, c)"
    by (cases "requestContext (ib_session (ag_inbox ag))")
  let ?ag = "on_session ag s"
  have r: "grows_by leaves_request (ag_inbox ag) (ag_inbox ?ag)"
    using read_context(2) [OF inv c] grows_inv [OF read_context(1) [OF inv c]] by (simp add: grows_by_def inbox_log_def)
  have app: "grows_by leaves_request (ag_inbox ag) (ag_inbox ag2)"
    if a: "append_ag env (RequestContext rc) None None ?ag = (ag2, Inr seq)" for ag2 seq
  proof -
    from append_ag_Inr [OF a] obtain ib where
      o: "append_on (dv_now env) (RequestContext rc) None None (ag_inbox ?ag) = (ib, Inr seq)"
      and ag2: "ag2 = ?ag\<lparr>ag_inbox := ib\<rparr>" by blast
    have "grows_by leaves_request (ag_inbox ?ag) ib"
      by (rule append_grows_by [OF grows_inv [OF r] _ _ o]) simp_all
    from grows_trans [OF r this] show ?thesis by (simp add: ag2)
  qed
  show ?thesis
    using l c r by (auto simp: log_context_def Let_def split: if_splits prod.splits sum.splits dest!: app)
qed

subsection \<open>Requests in the making\<close>

fun asks :: "driver_pc \<Rightarrow> inbox \<Rightarrow> bool" where
  "asks (AtRequest fr ms seed) ib = (derivedHistory (inbox_log ib) = Inr ms)"
| "asks (AtCall fr ms config) ib = (derivedHistory (inbox_log ib) = Inr ms)"
| "asks (AtBuilt fr rq) ib =
     (derivedHistory (inbox_log ib) = Inr (rq_messages rq)
      \<and> (\<exists>h g. foldRequestHeader (inbox_log ib) None = Some h \<and> says_header h g
          \<and> rq_config rq = hdr_config g \<and> rq_system rq = hdr_system g \<and> rq_tools rq = hdr_tools g))"
| "asks _ ib = True"

definition asks_inv :: "agent \<Rightarrow> bool" where
  "asks_inv ag = asks (ag_pc ag) (ag_inbox ag)"

lemma asks_at [simp]: "asks_inv (at_pc pc ag) = asks pc (ag_inbox ag)"
  by (simp add: asks_inv_def at_pc_def)

lemma asks_grows:
  assumes "asks pc ib" "inbox_inv ib" "grows_by leaves_request ib ib'"
  shows "asks pc ib'"
  using assms derived_grows [OF assms(2) grows_by_mono [OF assms(3)]] header_grows [OF assms(3)] leaves_plain
  by (cases pc) auto

lemma asks_leaving [simp]:
  "asks_inv (fail_turn env err ag)" "asks_inv (return_turn env reason ag)" "asks_inv (break_turn env reason ag)"
  "asks_inv (throw_step err ag)" "asks_inv (reject_step err ag)"
  by (simp_all add: fail_turn_def return_turn_def break_turn_def throw_step_def reject_step_def split: prod.split bool.split)

lemma asks_fail_step [simp]: "asks_inv (fail_step env err ag)"
  by (simp add: fail_step_def split: prod.split sum.split)

lemma asks_unless [simp]:
  assumes "\<And>cause. asks_inv (throw (Cancelled cause) ag)" "asks_inv (k ag)"
  shows "asks_inv (unless_aborted throw k ag)"
  by (rule unless_aborted_cases) (use assms in simp_all)

lemma asks_turns [simp]:
  "asks_inv (loop_head env target ends ag)" "asks_inv (begin_turn env ag)" "asks_inv (startDriver env t ag)"
proof -
  show l: "asks_inv (loop_head env target ends ag)" for target ends ag
    unfolding loop_head_def by (rule asks_unless) (simp_all split: prod.split sum.split)
  show b: "asks_inv (begin_turn env ag)" for ag
    unfolding begin_turn_def by (rule asks_unless) (simp_all add: l split: prod.split sum.split)
  show "asks_inv (startDriver env t ag)" by (simp add: startDriver_def b)
qed

lemma asks_phase [simp]: "asks_inv (ag\<lparr>ag_phase := p\<rparr>) = asks_inv ag"
  by (simp add: asks_inv_def)

lemma asks_wake: "asks_inv ag \<Longrightarrow> asks_inv (wakeDriver env b ag)"
  by (auto simp: wakeDriver_def split: phase.split)

lemma asks_converge [simp]: "asks_inv (converge env t w ag)"
  by (simp add: converge_def Let_def asks_wake)

lemma append_ag_keeps:
  assumes "inbox_inv (ag_inbox ag)" "\<not> is_splice d" "append_ag env d op srcs ag = (ag1, r)"
  shows "inbox_inv (ag_inbox ag1)"
proof (cases r)
  case (Inl err)
  with append_ag_Inl [of env d op srcs ag ag1 err] assms show ?thesis by simp
next
  case (Inr seq)
  with append_ag_Inr [of env d op srcs ag ag1 seq] assms obtain ib where
    "append_on (dv_now env) d op srcs (ag_inbox ag) = (ib, Inr seq)" "ag1 = ag\<lparr>ag_inbox := ib\<rparr>" by blast
  with append_grows_by [OF assms(1,2), of "\<lambda>_. True" "dv_now env" op srcs ib seq] show ?thesis
    by (auto simp: grows_by_def)
qed

lemma append_messages_keeps:
  "inbox_inv (ag_inbox ag) \<Longrightarrow> append_messages env ms ag = (ag1, r) \<Longrightarrow> inbox_inv (ag_inbox ag1)"
proof (induction ms arbitrary: ag)
  case (Cons m ms)
  obtain ag2 q where a: "append_ag env (UserMessage m) (Some (JStr ''append'')) None ag = (ag2, q)"
    by (cases "append_ag env (UserMessage m) (Some (JStr ''append'')) None ag")
  have "inbox_inv (ag_inbox ag2)" by (rule append_ag_keeps [OF Cons.prems(1) _ a]) simp
  with Cons a show ?case by (cases q) auto
qed auto

lemma asks_attempt:
  assumes inv: "inbox_inv (ag_inbox ag)"
  shows "asks_inv (attempt env fr ag)"
proof (cases "deriveMessages (ib_session (ag_inbox ag))")
  case (Inl err)
  then show ?thesis by (simp add: attempt_def)
next
  case (Inr r)
  obtain s1 ms where r: "r = (s1, ms)" by (cases r)
  obtain s2 h where h: "requestHeader s1 = (s2, h)" by (cases "requestHeader s1")
  note d = read_messages [OF inv Inr [unfolded r]]
  have l: "ses_log s2 = inbox_log (ag_inbox ag)"
    using read_header(3) [of "(ag_inbox ag)\<lparr>ib_session := s1\<rparr>" s2 h] grows_inv [OF d(1)] h d(3)
    by (simp add: inbox_log_def)
  have "inbox_log ((ag_inbox ag)\<lparr>ib_session := s2\<rparr>) = inbox_log (ag_inbox ag)"
    using l by (simp add: inbox_log_def)
  with d(2) Inr r h show ?thesis by (simp add: attempt_def Let_def split: option.split)
qed

lemma asks_begin_step:
  assumes inv: "inbox_inv (ag_inbox ag)"
  shows "asks_inv (begin_step env ends pa ms ag)"
proof -
  have k: "asks_inv (unless_aborted throw_step (\<lambda>ag2. case pa_system pa of
      Inl err \<Rightarrow> throw_step err ag2
    | Inr system \<Rightarrow> attempt env \<lparr>fr_ends = ends, fr_system = system, fr_tools = pa_tools pa\<rparr> ag2) ag2)"
    if "inbox_inv (ag_inbox ag2)" for ag2
    by (rule asks_unless) (use that in \<open>simp_all add: asks_attempt split: sum.split\<close>)
  let ?d = "StepStart (run_turn (ag_phase ag)) (run_step (ag_phase ag) + 1)"
  obtain ag1 q where a: "append_ag env ?d None None ag = (ag1, q)" by (cases "append_ag env ?d None None ag")
  have i1: "inbox_inv (ag_inbox ag1)" by (rule append_ag_keeps [OF inv _ a]) simp
  let ?ag = "ag1\<lparr>ag_phase := enter_step (ag_phase ag1)\<rparr>"
  obtain ag2 q2 where m: "append_messages env ms ?ag = (ag2, q2)" by (cases "append_messages env ms ?ag")
  have "inbox_inv (ag_inbox ag2)" by (rule append_messages_keeps [OF _ m]) (simp add: i1)
  with k a m show ?thesis by (simp add: begin_step_def split: sum.split)
qed

lemma asks_build:
  assumes inv: "inbox_inv (ag_inbox ag)" and d: "derivedHistory (inbox_log (ag_inbox ag)) = Inr ms"
  shows "asks_inv (build_request env fr ms config pl ag)"
  unfolding build_request_def
proof (rule asks_unless)
  let ?g = "request_header_of fr config pl"
  let ?rc = "\<lparr>ctx_provider = cfg_provider config, ctx_model = cfg_model config,
    ctx_contextWindow = (case pl of None \<Rightarrow> None | Some p \<Rightarrow> pl_contextWindow p)\<rparr>"
  let ?rq = "\<lparr>rq_config = hdr_config ?g, rq_messages = ms, rq_system = hdr_system ?g, rq_tools = hdr_tools ?g\<rparr>"
  obtain ag1 q where l: "log_header env ?g ag = (ag1, q)" by (cases "log_header env ?g ag")
  obtain ag2 q2 where c: "log_context env ?rc ag1 = (ag2, q2)" by (cases "log_context env ?rc ag1")
  have "asks_inv (unless_aborted throw_step (at_pc (AtBuilt fr ?rq)) ag2)" if "q = Inr ()" "q2 = Inr ()"
  proof (rule asks_unless)
    from log_header_says [OF inv _ canonical_request] l that obtain h where
      g: "grows_by (\<lambda>d. \<not> isSurfaceEligible d) (ag_inbox ag) (ag_inbox ag1)"
      and h: "foldRequestHeader (inbox_log (ag_inbox ag1)) None = Some h" "says_header h ?g" by blast
    have d1: "derivedHistory (inbox_log (ag_inbox ag1)) = Inr ms" using derived_grows [OF inv g] d by simp
    have "asks (AtBuilt fr ?rq) (ag_inbox ag1)" using h d1 by auto
    from asks_grows [OF this grows_inv [OF g] log_context_leaves [OF grows_inv [OF g]]] c that
    show "asks_inv (at_pc (AtBuilt fr ?rq) ag2)" by simp
  qed simp
  with l c show "asks_inv (let header = ?g in
       (case log_header env header ag of
          (ag1, Inl err) \<Rightarrow> throw_step err ag1
        | (ag1, Inr _) \<Rightarrow>
            (case log_context env ?rc ag1 of
               (ag2, Inl err) \<Rightarrow> throw_step err ag2
             | (ag2, Inr _) \<Rightarrow>
                 unless_aborted throw_step
                   (at_pc (AtBuilt fr \<lparr>rq_config = hdr_config header, rq_messages = ms,
                      rq_system = hdr_system header, rq_tools = hdr_tools header\<rparr>)) ag2)))"
    by (simp add: Let_def split: sum.split)
qed simp

lemma asks_steps [simp]:
  "asks_inv (tools_at env fr st ag)" "asks_inv (accept_message env fr rq a seqs ag)"
  "asks_inv (stream_end env fr rq a seqs ag)" "asks_inv (take_chunk env fr rq a seqs c ag)"
  "asks_inv (step_returned env ends stepEnd ag)" "asks_inv (stopping env reason ag)"
proof -
  show t: "asks_inv (tools_at env fr st ag)" for st ag
    by (simp add: tools_at_def Let_def split: tool_outcome.split)
  show m: "asks_inv (accept_message env fr rq a seqs ag)" for ag
    by (simp add: accept_message_def Let_def t split: prod.split sum.split)
  show "asks_inv (stream_end env fr rq a seqs ag)"
    unfolding stream_end_def by (rule asks_unless) (simp_all add: m split: finish_reason.split)
  show "asks_inv (take_chunk env fr rq a seqs c ag)"
    unfolding take_chunk_def by (rule asks_unless) (simp_all split: prod.split sum.split)
  show "asks_inv (step_returned env ends stepEnd ag)"
    by (auto simp: step_returned_def intro!: asks_unless split: prod.split sum.split option.split)
  show "asks_inv (stopping env reason ag)"
    unfolding stopping_def by (rule asks_unless) simp_all
qed

lemma asks_drive:
  assumes inv: "inbox_inv (ag_inbox ag)" and a: "asks_inv ag" and d: "drive env i (ag_pc ag) ag = Some ag'"
  shows "asks_inv ag'"
proof (cases "ag_pc ag")
  case (AtAssemble ends claimed)
  have "asks_inv (assembled_step env ends claimed pa ag)" for pa
    unfolding assembled_step_def by (rule asks_unless) (simp_all split: sum.split option.split)
  with d AtAssemble show ?thesis by (auto split: driver_input.splits sum.splits)
next
  case (AtDecide ends pa ms)
  with d show ?thesis by (auto intro!: asks_unless split: driver_input.splits sum.splits)
next
  case (AtDecided ends pa dec)
  have "asks_inv (decided env ends pa dec ag)"
    by (auto simp: decided_def asks_begin_step [OF inv] intro!: asks_unless
        split: step_decision.split option.split list.split)
  with d AtDecided show ?thesis by (auto split: driver_input.splits)
next
  case (AtRequest fr ms seed)
  with a have "derivedHistory (inbox_log (ag_inbox ag)) = Inr ms" by (simp add: asks_inv_def)
  then have "asks_inv (proposed env fr ms config ag)" for config
    unfolding proposed_def by (intro asks_unless) simp_all
  with d AtRequest show ?thesis by (auto split: driver_input.splits sum.splits)
next
  case (AtCall fr ms config)
  with a have "derivedHistory (inbox_log (ag_inbox ag)) = Inr ms" by (simp add: asks_inv_def)
  note b = asks_build [OF inv this]
  have "asks_inv (prepared_answer env fr ms config ans ag)" for ans
    by (simp add: prepared_answer_def b split: sum.split)
  with d AtCall show ?thesis by (auto split: driver_input.splits)
next
  case (AtBuilt fr rq)
  with d show ?thesis by (auto intro!: asks_unless split: driver_input.splits sum.splits)
next
  case (AtRetry fr f)
  have "asks_inv (recovered env fr f retry ag)" for retry
    unfolding recovered_def by (rule asks_unless) (simp_all add: asks_attempt [OF inv])
  with d AtRetry show ?thesis by (auto split: driver_input.splits sum.splits)
next
  case (AtReturned again)
  have "asks_inv (afterTurn env again ag)"
    using AtReturned by (auto simp: afterTurn_def asks_inv_def [of ag] split: phase.split)
  with d AtReturned show ?thesis by (auto split: driver_input.splits)
qed (use d in \<open>auto split: driver_input.splits sum.splits\<close>)

subsection \<open>Runs\<close>

text \<open>While a request is being built, nobody else writes to the conversation.\<close>

fun building :: "driver_pc \<Rightarrow> bool" where
  "building (AtRequest _ _ _) = True"
| "building (AtCall _ _ _) = True"
| "building (AtBuilt _ _) = True"
| "building _ = False"

definition quiet :: "drive_env \<Rightarrow> agent_move \<Rightarrow> agent \<Rightarrow> bool" where
  "quiet env m ag =
     (allowed env m ag \<and>
      (case m of
         Outside c \<Rightarrow> (case other_event c of
            Some d \<Rightarrow> building (ag_pc ag) \<longrightarrow> \<not> isSurfaceEligible d | None \<Rightarrow> True)
       | _ \<Rightarrow> True))"

lemma asks_idle: "\<not> building pc \<Longrightarrow> asks pc ib"
  by (cases pc) simp_all

lemma asks_grown:
  assumes "agent_inv ag" "asks_inv ag" "grows_by leaves_request (ag_inbox ag) ib"
  shows "asks_inv (ag\<lparr>ag_inbox := ib\<rparr>)"
  using assms asks_grows [OF _ pc_inbox] by (fastforce simp: asks_inv_def agent_inv_def)

lemma asks_outside:
  assumes inv: "agent_inv ag" and a: "asks_inv ag" and q: "quiet env (Outside c) ag"
  shows "asks_inv (ag\<lparr>ag_inbox := inbox_step (ag_inbox ag) (dv_now env, c)\<rparr>)"
proof (cases "building (ag_pc ag)")
  case False
  then show ?thesis by (simp add: asks_inv_def asks_idle)
next
  case True
  have ii: "inbox_inv (ag_inbox ag)" using inv by (auto simp: agent_inv_def intro: pc_inbox)
  have "leaves_request d \<and> \<not> is_splice d" if "other_event c = Some d" for d
  proof -
    have "neutral (turn_open (ag_pc ag)) d" "\<not> is_splice d" "\<not> isSurfaceEligible d"
      using q that True by (cases c; auto simp: quiet_def)+
    then show ?thesis by (cases d) simp_all
  qed
  from asks_grown [OF inv a outside_grows_by [OF ii _ this]] show ?thesis by simp
qed

lemma asks_step:
  assumes inv: "agent_inv ag" and a: "asks_inv ag" and q: "quiet env m ag" and s: "agent_step env m ag = Some ag'"
  shows "asks_inv ag'"
proof -
  have ii: "inbox_inv (ag_inbox ag)" using inv by (auto simp: agent_inv_def intro: pc_inbox)
  show ?thesis
  proof (cases m)
    case (Send msg target wakeup)
    have "asks_inv (fst (send env msg target wakeup ag))"
    proof (rule send_cases)
      show "asks_inv (ag\<lparr>ag_inbox := fst (inbox_splice t PosInf (num_of_int 0) [msg] (dv_now env) (ag_inbox ag))\<rparr>)" for t
        by (rule asks_grown [OF inv a inbox_ops_grow_by(1) [OF ii]]) simp
    qed (rule asks_wake)
    with s Send show ?thesis by simp
  next
    case (Cancel cause keepInbox)
    have "asks_inv (ag\<lparr>ag_inbox := fst (clear_inbox (dv_now env) (ag_inbox ag))\<rparr>)"
      by (rule asks_grown [OF inv a inbox_ops_grow_by(3) [OF ii]]) simp
    with a s Cancel show ?thesis
      by (cases "clear_inbox (dv_now env) (ag_inbox ag)") (auto simp: cancel_def asks_inv_def split: sum.splits if_splits)
  next
    case BeginMaintenance
    with a s show ?thesis by (auto simp: beginMaintenance_def asks_inv_def split: phase.splits)
  next
    case EndMaintenance
    with s show ?thesis by (auto simp: endMaintenance_def split: phase.splits)
  next
    case (Outside c)
    with asks_outside [OF inv a] q s show ?thesis by auto
  next
    case (Drive i)
    with asks_drive [OF ii a] s show ?thesis by auto
  qed
qed

text \<open>An open step was started in the log.\<close>

lemma open_step_started:
  "traceOf es = Inr tr \<Longrightarrow> tr_openStep tr \<noteq> None \<Longrightarrow> list_ex (\<lambda>e. is_step_start (ev_data e)) es"
proof (induction es arbitrary: tr rule: rev_induct)
  case Nil
  then show ?case by (auto simp: traceOf_def freshTrace_def)
next
  case (snoc e es)
  then obtain tr0 x where t0: "traceOf es = Inr tr0" and v: "validateByType tr0 e (ev_data e) = Inr x"
    and tr: "tr = applyTransition tr0 x"
    by (auto simp: traceOf_snoc traceStep_def validateEvent_def)
  show ?case
  proof (cases "is_step_start (ev_data e)")
    case False
    with v snoc.prems(2) tr have "tr_openStep tr0 \<noteq> None"
      by (cases "(tr0, e, ev_data e)" rule: validateByType.cases)
        (auto simp: applyTransition_def keep_scalars_def requireOpenStep_def split: if_splits)
    with snoc.IH [OF t0] show ?thesis by simp
  qed simp
qed

end
