(* ===== verification/Agent_Wake.thy ===== *)
theory Agent_Wake
  imports Agent_Run
begin

text \<open>
  The wake latch: input that wakes an aborted driver is replayed when the driver converges, as the turn
  that follows the aborted one.
\<close>

subsection \<open>What transitions do to the phase\<close>

lemma append_ag_phase: "append_ag env d op srcs ag = (ag1, r) \<Longrightarrow> ag_phase ag1 = ag_phase ag"
  by (auto simp: append_ag_def split: prod.splits sum.splits)

lemma at_pc_fields [simp]:
  "ag_phase (at_pc pc ag) = ag_phase ag" "ag_pc (at_pc pc ag) = pc" "ag_inbox (at_pc pc ag) = ag_inbox ag"
  by (simp_all add: at_pc_def)

lemma end_turn_phase [simp]: "ag_phase (fst (end_turn env reason ag)) = ag_phase ag"
  by (auto simp: end_turn_def report_def split: prod.split sum.split dest: append_ag_phase)

lemma leaving_phase [simp]:
  "ag_phase (fail_turn env err ag) = ag_phase ag" "ag_phase (return_turn env reason ag) = ag_phase ag"
  "ag_phase (throw_step err ag) = ag_phase ag" "ag_phase (reject_step err ag) = ag_phase ag"
  by (auto simp: fail_turn_def return_turn_def throw_step_def reject_step_def report_def split: option.split)

lemma fail_step_phase [simp]: "ag_phase (fail_step env err ag) = ag_phase ag"
  by (auto simp: fail_step_def split: prod.split sum.split dest: append_ag_phase)

text \<open>A wait of a turn keeps its phase, enters a step, or renews the controller for one more turn.\<close>

definition stays :: "phase \<Rightarrow> agent \<Rightarrow> bool" where
  "stays p ag = (ag_phase ag = p \<or> ag_phase ag = enter_step p
     \<or> ag_phase ag = Running None (run_turn p) 0 False \<and> ag_pc ag = AtReturned True)"

lemma stays_same: "ag_phase ag = p \<Longrightarrow> stays p ag"
  by (simp add: stays_def)

lemma stays_unless:
  assumes "\<And>cause. ag_phase (throw (Cancelled cause) ag) = ag_phase ag" "stays (ag_phase ag) (k ag)"
  shows "stays (ag_phase ag) (unless_aborted throw k ag)"
  by (rule unless_aborted_cases) (use assms in \<open>simp_all add: stays_same\<close>)

lemma same_unless:
  assumes "\<And>cause. ag_phase (throw (Cancelled cause) ag) = ag_phase ag" "ag_phase (k ag) = ag_phase ag"
  shows "ag_phase (unless_aborted throw k ag) = ag_phase ag"
  by (rule unless_aborted_cases) (use assms in simp_all)

lemma loop_head_phase [simp]: "ag_phase (loop_head env target ends ag) = ag_phase ag"
  unfolding loop_head_def by (rule same_unless) (simp_all split: prod.split sum.split)

lemma break_turn_stays: "stays (ag_phase ag) (break_turn env reason ag)"
proof -
  obtain ag1 ok where e: "end_turn env reason ag = (ag1, ok)" by (cases "end_turn env reason ag")
  then have "ag_phase ag1 = ag_phase ag" using end_turn_phase [of env reason ag] by simp
  with e show ?thesis by (auto simp: break_turn_def stays_def split: bool.split)
qed

lemma attempt_phase [simp]: "ag_phase (attempt env fr ag) = ag_phase ag"
  by (auto simp: attempt_def Let_def split: sum.split prod.split option.split)

lemma append_messages_phase: "append_messages env ms ag = (ag1, r) \<Longrightarrow> ag_phase ag1 = ag_phase ag"
  by (induction ms arbitrary: ag) (auto split: prod.splits sum.splits dest: append_ag_phase)

lemma begin_step_phase: "ag_phase (begin_step env ends pa ms ag) \<in> {ag_phase ag, enter_step (ag_phase ag)}"
proof -
  let ?d = "StepStart (run_turn (ag_phase ag)) (run_step (ag_phase ag) + 1)"
  obtain ag1 q where a: "append_ag env ?d None None ag = (ag1, q)" by (cases "append_ag env ?d None None ag")
  let ?ag = "ag1\<lparr>ag_phase := enter_step (ag_phase ag1)\<rparr>"
  obtain ag2 q2 where m: "append_messages env ms ?ag = (ag2, q2)" by (cases "append_messages env ms ?ag")
  have "ag_phase (unless_aborted throw_step (\<lambda>ag2. case pa_system pa of
      Inl err \<Rightarrow> throw_step err ag2
    | Inr system \<Rightarrow> attempt env \<lparr>fr_ends = ends, fr_system = system, fr_tools = pa_tools pa\<rparr> ag2) ag2) = ag_phase ag2"
    by (rule same_unless) (simp_all split: sum.split)
  with a m append_ag_phase [OF a] append_messages_phase [OF m] show ?thesis
    by (auto simp: begin_step_def split: sum.split)
qed

lemma decided_stays: "stays (ag_phase ag) (decided env ends pa d ag)"
proof -
  have "ag_phase (unless_aborted (fail_turn env) (begin_step env ends pa ms) ag)
      \<in> {ag_phase ag, enter_step (ag_phase ag)}" for ms
    by (rule unless_aborted_cases) (use begin_step_phase [of env ends pa ms ag] in auto)
  then have "stays (ag_phase ag) (unless_aborted (fail_turn env) (begin_step env ends pa ms) ag)" for ms
    by (auto simp: stays_def)
  then show ?thesis
    by (auto simp: decided_def break_turn_stays intro: stays_same
        split: step_decision.split option.split list.split)
qed

lemma log_phase:
  "log_header env g ag = (ag1, r) \<Longrightarrow> ag_phase ag1 = ag_phase ag"
  "log_context env rc ag = (ag1, r) \<Longrightarrow> ag_phase ag1 = ag_phase ag"
  by (auto simp: log_header_def log_context_def Let_def split: prod.splits sum.splits if_splits dest!: append_ag_phase)

lemma build_phase [simp]: "ag_phase (build_request env fr ms config pl ag) = ag_phase ag"
  unfolding build_request_def
proof (rule same_unless)
  let ?h = "request_header_of fr config pl"
  let ?rc = "\<lparr>ctx_provider = cfg_provider config, ctx_model = cfg_model config,
    ctx_contextWindow = (case pl of None \<Rightarrow> None | Some p \<Rightarrow> pl_contextWindow p)\<rparr>"
  obtain ag1 q where l: "log_header env ?h ag = (ag1, q)" by (cases "log_header env ?h ag")
  obtain ag2 q2 where c: "log_context env ?rc ag1 = (ag2, q2)" by (cases "log_context env ?rc ag1")
  have "ag_phase (unless_aborted throw_step (at_pc pc) ag2) = ag_phase ag2" for pc
    by (rule same_unless) simp_all
  with l c log_phase(1) [OF l] log_phase(2) [OF c] show "ag_phase (let header = ?h in
       (case log_header env header ag of
          (ag1, Inl err) \<Rightarrow> throw_step err ag1
        | (ag1, Inr _) \<Rightarrow>
            (case log_context env ?rc ag1 of
               (ag2, Inl err) \<Rightarrow> throw_step err ag2
             | (ag2, Inr _) \<Rightarrow>
                 unless_aborted throw_step
                   (at_pc (AtBuilt fr \<lparr>rq_config = hdr_config header, rq_messages = ms,
                      rq_system = hdr_system header, rq_tools = hdr_tools header\<rparr>)) ag2))) = ag_phase ag"
    by (simp add: Let_def split: sum.split)
qed simp

lemma step_phases [simp]:
  "ag_phase (tools_at env fr st ag) = ag_phase ag" "ag_phase (accept_message env fr rq a seqs ag) = ag_phase ag"
  "ag_phase (stream_end env fr rq a seqs ag) = ag_phase ag" "ag_phase (take_chunk env fr rq a seqs c ag) = ag_phase ag"
  "ag_phase (step_returned env ends stepEnd ag) = ag_phase ag"
proof -
  show t: "ag_phase (tools_at env fr st ag) = ag_phase ag" for st ag
    by (simp add: tools_at_def Let_def split: tool_outcome.split)
  show m: "ag_phase (accept_message env fr rq a seqs ag) = ag_phase ag" for ag
    by (auto simp: accept_message_def Let_def t split: prod.split sum.split dest: append_ag_phase)
  show "ag_phase (stream_end env fr rq a seqs ag) = ag_phase ag"
    unfolding stream_end_def by (rule same_unless) (simp_all add: m split: finish_reason.split)
  show "ag_phase (take_chunk env fr rq a seqs c ag) = ag_phase ag"
    unfolding take_chunk_def
    by (rule same_unless) (auto split: prod.split sum.split dest: append_ag_phase)
  have "ag_phase (unless_aborted (fail_turn env) k ag1) = ag_phase ag1"
    if "ag_phase (k ag1) = ag_phase ag1" for k ag1
    by (rule same_unless) (simp_all add: that)
  then show "ag_phase (step_returned env ends stepEnd ag) = ag_phase ag"
    by (auto simp: step_returned_def split: prod.split sum.split option.split dest: append_ag_phase)
qed

lemma drive_stays:
  assumes d: "drive env i (ag_pc ag) ag = Some ag'" and r: "\<And>again. ag_pc ag \<noteq> AtReturned again"
  shows "stays (ag_phase ag) ag'"
proof (cases "ag_pc ag")
  case (AtAssemble ends claimed)
  have "ag_phase (assembled_step env ends claimed pa ag) = ag_phase ag" for pa
    unfolding assembled_step_def by (rule same_unless) (simp_all split: sum.split option.split)
  with d AtAssemble show ?thesis by (auto intro: stays_same split: driver_input.splits sum.splits)
next
  case (AtDecide ends pa ms)
  with d show ?thesis
    by (auto intro!: stays_same same_unless split: driver_input.splits sum.splits)
next
  case (AtDecided ends pa dec)
  with d show ?thesis by (auto intro: decided_stays split: driver_input.splits)
next
  case (AtRequest fr ms seed)
  have "ag_phase (proposed env fr ms config ag) = ag_phase ag" for config
    unfolding proposed_def by (rule same_unless) simp_all
  with d AtRequest show ?thesis by (auto intro: stays_same split: driver_input.splits sum.splits)
next
  case (AtCall fr ms config)
  with d show ?thesis
    by (auto simp: prepared_answer_def intro: stays_same split: driver_input.splits sum.splits)
next
  case (AtBuilt fr rq)
  with d show ?thesis by (auto intro!: stays_same same_unless split: driver_input.splits sum.splits)
next
  case (AtRetry fr f)
  have "ag_phase (recovered env fr f retry ag) = ag_phase ag" for retry
    unfolding recovered_def by (rule same_unless) simp_all
  with d AtRetry show ?thesis by (auto intro: stays_same split: driver_input.splits sum.splits)
next
  case (AtStopping reason)
  have "stays (ag_phase ag) (stopping env reason ag)"
    unfolding stopping_def by (rule stays_unless) (simp_all add: break_turn_stays stays_same)
  with d AtStopping show ?thesis by (auto intro: stays_same split: driver_input.splits sum.splits)
qed (use d r in \<open>auto intro: stays_same split: driver_input.splits sum.splits\<close>)

subsection \<open>The next turn\<close>

lemma begin_turn_starts:
  assumes r: "is_running (ag_phase ag)" and b: "between (ag_phase ag) (ag_inbox ag)"
    and n: "abort_reason (ag_phase ag) = None"
  shows "ag_phase (begin_turn env ag) = enter_turn (ag_phase ag)
    \<and> (\<exists>e es. ag_log (begin_turn env ag) = ag_log ag @ e # es \<and> ev_data e = TurnStart (run_turn (ag_phase ag) + 1))"
proof -
  let ?t = "run_turn (ag_phase ag)" and ?d = "TurnStart (run_turn (ag_phase ag) + 1)"
  from b have inv: "inbox_inv (ag_inbox ag)" by (auto simp: between_def intro: traced_inv)
  obtain s where a: "append_on (dv_now env) ?d None None (ag_inbox ag)
      = ((ag_inbox ag)\<lparr>ib_session := s\<rparr>, Inr (int (length (inbox_log (ag_inbox ag)))))"
    by (rule append_plain_ok [OF inv, of ?d "dv_now env"]) (use boundary_plain [of ?d] in simp_all)
  obtain s' where a': "append_on (dv_now env) ?d None None (ag_inbox ag)
      = ((ag_inbox ag)\<lparr>ib_session := s'\<rparr>, Inr (int (length (inbox_log (ag_inbox ag)))))"
    and i: "inbox_inv ((ag_inbox ag)\<lparr>ib_session := s'\<rparr>)"
    and l: "ses_log s' = inbox_log (ag_inbox ag) @ [next_event (ib_session (ag_inbox ag)) (dv_now env) ?d None None]"
    by (rule append_on_cases [OF inv, of ?d "dv_now env" None None]) (use a in auto)
  let ?ag = "ag\<lparr>ag_inbox := (ag_inbox ag)\<lparr>ib_session := s'\<rparr>, ag_phase := enter_turn (ag_phase ag)\<rparr>"
  have bt: "begin_turn env ag = loop_head env NextTurn None ?ag"
    using n append_ag_boundary [OF a'] by (simp add: begin_turn_def unless_aborted_def)
  have n': "abort_reason (ag_phase ?ag) = None" using n by (cases "ag_phase ag") (simp_all add: enter_turn_def)
  let ?c = "claim NextTurn (run_turn (ag_phase ?ag)) (dv_now env) (ag_inbox ?ag)"
  have g: "grows True (ag_inbox ?ag) (fst ?c)" by (rule inbox_ops_grow(4)) (simp add: i)
  have "ag_inbox (loop_head env NextTurn None ?ag) = fst ?c"
    using n' by (auto simp: loop_head_def unless_aborted_def reject_step_def split: prod.split sum.split)
  with g l show ?thesis by (auto simp: bt grows_by_def ag_log_def inbox_log_def)
qed

lemma startDriver_starts:
  assumes b: "between p (ag_inbox ag)" and t: "run_turn p = t"
  shows "ag_phase (startDriver env t ag) = Running None (t + 1) 0 False
    \<and> (\<exists>e es. ag_log (startDriver env t ag) = ag_log ag @ e # es \<and> ev_data e = TurnStart (t + 1))"
proof -
  let ?ag = "setPhase (Running None t 0 False) ag"
  have "is_running (ag_phase ?ag)" "between (ag_phase ?ag) (ag_inbox ?ag)" "abort_reason (ag_phase ?ag) = None"
    using b t by (simp_all add: between_def)
  from begin_turn_starts [OF this, of env] show ?thesis
    by (simp add: startDriver_def enter_turn_def ag_log_def)
qed

lemma converge_starts:
  assumes b: "between p (ag_inbox ag)" and t: "run_turn p = t" and w: "hasPendingInput ag"
  shows "ag_phase (converge env t True ag) = Running None (t + 1) 0 False
    \<and> (\<exists>e es. ag_log (converge env t True ag) = ag_log ag @ e # es \<and> ev_data e = TurnStart (t + 1))"
proof -
  let ?ag = "at_pc NoDriver (setPhase (Idle t) ag)"
  have "between p (ag_inbox ?ag)" using b by simp
  from startDriver_starts [OF this t, of env] w show ?thesis
    by (simp add: converge_def wakeDriver_def hasPendingInput_def ag_log_def)
qed


subsection \<open>The latch holds\<close>

text \<open>The turn after \<open>t\<close> is owed: it has begun, or its wake is latched or otherwise taken care of.\<close>

definition owed :: "int \<Rightarrow> agent \<Rightarrow> bool" where
  "owed t ag =
     (t < run_turn (ag_phase ag)
      \<or> (\<exists>c s. ag_phase ag = Running (Some c) t s True)
      \<or> (\<exists>s w. ag_phase ag = Running None t s w \<and> ag_pc ag = AtReturned True)
      \<or> \<not> is_running (ag_phase ag) \<and> run_turn (ag_phase ag) = t)"

lemma run_turn_enter [simp]:
  "run_turn (enter_step p) = run_turn p" "is_running (enter_step p) = is_running p"
  "is_running p \<Longrightarrow> run_turn (enter_turn p) = run_turn p + 1"
  by (cases p; simp add: enter_step_def enter_turn_def)+

lemma stays_owed:
  assumes o: "owed t ag" and i: "is_running (ag_phase ag)" and r: "\<And>again. ag_pc ag \<noteq> AtReturned again"
    and s: "stays (ag_phase ag) ag'"
  shows "owed t ag'"
proof (cases "t < run_turn (ag_phase ag)")
  case True
  with s show ?thesis by (auto simp: stays_def owed_def)
next
  case False
  with o i r obtain c k where "ag_phase ag = Running (Some c) t k True" by (auto simp: owed_def)
  with s show ?thesis by (auto simp: stays_def owed_def enter_step_def)
qed

lemma idle_owed: "run_turn p = u \<Longrightarrow> t \<le> u \<Longrightarrow> \<not> is_running p \<Longrightarrow> ag_phase ag = p \<Longrightarrow> owed t ag"
  by (auto simp: owed_def)

lemma begun_owed: "ag_phase ag = Running None (u + 1) 0 False \<Longrightarrow> t \<le> u \<Longrightarrow> owed t ag"
  by (auto simp: owed_def)

lemma owed_le: "owed t ag \<Longrightarrow> t \<le> run_turn (ag_phase ag)"
  by (auto simp: owed_def)

lemma converge_owed:
  assumes b: "between p (ag_inbox ag)" and u: "run_turn p = u" and t: "t \<le> u"
  shows "owed t (converge env u w ag)"
proof (cases "w \<and> hasPendingInput ag")
  case True
  with begun_owed [OF _ t] converge_starts [OF b u] show ?thesis by auto
next
  case False
  then have "ag_phase (converge env u w ag) = Idle u"
    by (auto simp: converge_def Let_def hasPendingInput_def)
  with idle_owed [of "Idle u", OF _ t] show ?thesis by simp
qed

lemma returned_owed:
  assumes inv: "agent_inv ag" and o: "owed t ag" and pc: "ag_pc ag = AtReturned again"
  shows "owed t (afterTurn env again ag)"
proof -
  have r: "is_running (ag_phase ag)" and b: "between (ag_phase ag) (ag_inbox ag)"
    using inv pc by (simp_all add: agent_inv_def)
  show ?thesis
  proof (cases again)
    case False
    with r converge_owed [OF b refl owed_le [OF o]] show ?thesis
      by (cases "ag_phase ag") (simp_all add: afterTurn_def)
  next
    case True
    show ?thesis
    proof (cases "abort_reason (ag_phase ag)")
      case None
      from begin_turn_starts [OF r b None, of env] r owed_le [OF o] True show ?thesis
        by (auto simp: afterTurn_def owed_def)
    next
      case (Some c)
      with o r True show ?thesis
        by (auto simp: afterTurn_def begin_turn_def unless_aborted_def owed_def)
    qed
  qed
qed

lemma drive_owed:
  assumes inv: "agent_inv ag" and o: "owed t ag" and d: "drive env i (ag_pc ag) ag = Some ag'"
  shows "owed t ag'"
proof (cases "\<exists>again. ag_pc ag = AtReturned again")
  case True
  then obtain again where pc: "ag_pc ag = AtReturned again" by blast
  with returned_owed [OF inv o pc] d show ?thesis by (auto split: driver_input.splits)
next
  case False
  have "is_running (ag_phase ag)" using idle_inv [OF inv] d by (cases "is_running (ag_phase ag)") auto
  with stays_owed [OF o] drive_stays [OF d] False show ?thesis by blast
qed

lemma wake_owed:
  assumes inv: "agent_inv ag" and o: "owed t ag"
  shows "owed t (wakeDriver env b ag)"
proof (cases "ag_phase ag")
  case (Idle u)
  have "between (Idle u) (ag_inbox ag)" using idle_inv [OF inv] by (simp add: Idle)
  from startDriver_starts [OF this, of u env] begun_owed owed_le [OF o] show ?thesis
    by (simp add: wakeDriver_def Idle)
qed (use o in \<open>auto simp: wakeDriver_def owed_def\<close>)

text \<open>Nothing is cancelled any more.\<close>

definition uncancelled :: "drive_env \<Rightarrow> agent_move \<Rightarrow> agent \<Rightarrow> bool" where
  "uncancelled env m ag = (allowed env m ag \<and> (case m of Cancel _ _ \<Rightarrow> False | _ \<Rightarrow> True))"

lemma step_owed:
  assumes inv: "agent_inv ag" and o: "owed t ag" and u: "uncancelled env m ag" and s: "agent_step env m ag = Some ag'"
  shows "owed t ag'"
proof (cases m)
  case (Send msg target wakeup)
  have "agent_inv (fst (send env msg target wakeup ag)) \<and> owed t (fst (send env msg target wakeup ag))"
  proof (rule send_cases)
    fix x
    have ii: "inbox_inv (ag_inbox ag)" using inv by (auto simp: agent_inv_def intro: pc_inbox)
    let ?ag = "ag\<lparr>ag_inbox := fst (inbox_splice x PosInf (num_of_int 0) [msg] (dv_now env) (ag_inbox ag))\<rparr>"
    have "agent_inv ?ag" by (rule grown_inv [OF inv inbox_ops_grow(1) [OF ii]])
    moreover have "owed t ?ag" using o by (simp add: owed_def)
    ultimately show "agent_inv ?ag \<and> owed t ?ag" by simp
  qed (simp add: wakeDriver_inv wake_owed)
  with s Send show ?thesis by simp
next
  case (Cancel cause keepInbox)
  with u show ?thesis by (simp add: uncancelled_def)
next
  case BeginMaintenance
  with s o show ?thesis by (auto simp: beginMaintenance_def owed_def split: phase.splits)
next
  case EndMaintenance
  with s obtain ab u w where p: "ag_phase ag = Maintenance ab u w" "ag' = converge env u w ag"
    by (auto simp: endMaintenance_def split: phase.splits)
  with idle_inv [OF inv] have "between (Maintenance ab u w) (ag_inbox ag)" by simp
  from converge_owed [OF this, of u t] owed_le [OF o] p show ?thesis by simp
next
  case (Outside c)
  with s o show ?thesis by (auto simp: owed_def)
next
  case (Drive i)
  with drive_owed [OF inv o] s show ?thesis by auto
qed

lemma sent_latched:
  assumes p: "ag_phase ag = Running (Some c) t s w" and c: "c \<noteq> CancelDisposed"
    and sent: "send env m target True ag = (ag1, Inr ())"
  shows "owed t ag1"
  using sent p c
  by (auto simp: send_def Let_def wakeDriver_def owed_def split: prod.splits sum.splits)

lemma sent_queued:
  assumes inv: "agent_inv ag" and p: "ag_phase ag = Running (Some c) t k w"
    and sent: "send env m target True ag = (ag1, Inr ())"
  shows "m \<in> set (ib_nextTurn (ib_lists (ag_inbox ag1)))"
proof -
  obtain ib r where i: "mutate NextTurn PosInf (num_of_int 0) [m] True (dv_now env) (ag_inbox ag) = (ib, r)"
    by (cases "mutate NextTurn PosInf (num_of_int 0) [m] True (dv_now env) (ag_inbox ag)")
  have "inbox_inv (ag_inbox ag)" using inv by (auto simp: agent_inv_def intro: pc_inbox)
  then have si: "session_inv (ib_session (ag_inbox ag))" by (simp add: inbox_inv_def)
  have "m \<in> set (ib_nextTurn (ib_lists ib))" if "r = Inr x" for x
    by (rule mutate_cases [OF si, of NextTurn PosInf "num_of_int 0" "[m]" True "dv_now env"])
      (use i that in \<open>auto simp: normalized_def Let_def spliced_def splice_def\<close>)
  with sent p i show ?thesis
    by (auto simp: send_def Let_def inbox_splice_def wakeDriver_def split: sum.splits if_splits)
qed

end
