(* ===== verification/Agent_Properties.thy ===== *)
theory Agent_Properties
  imports Agent_Request Agent_Wake
begin

text \<open>The properties of the agent driver, with one concrete run as their witness.\<close>

subsection \<open>Agents\<close>

lemma agent_run_inv:
  assumes new: "newSession mode sid seed header now = Inr s" "seed_length s \<le> length (ses_log s)"
    and tr: "traceOf (ses_log s) = Inr tr0" "tr_openTurn tr0 = None" and ag: "newAgent opts s = Inr ag0"
    and run: "agent_run ok ms ag0 = Some ag" and ok: "\<And>env m a. ok env m a \<Longrightarrow> allowed env m a"
  shows "agent_inv ag"
  using run
proof (rule agent_run_induct)
  show "agent_inv ag0" using newAgent_inv [OF newSession_inv(1) [OF new(1)] new(2) tr ag] by simp
qed (blast intro: agent_step_inv ok)



text \<open>
  C13: input that wakes an aborted driver (not one being disposed) joins the next turn's queue,
  and the driver replays it: whenever that driver's turn has returned and input is still pending, with
  no cancellation since, its next move opens the following turn.
\<close>

theorem late_wake_replayed:
  assumes new: "newSession mode sid seed header now = Inr s" "seed_length s \<le> length (ses_log s)"
    and tr: "traceOf (ses_log s) = Inr tr0" "tr_openTurn tr0 = None" and ag: "newAgent opts s = Inr ag0"
    and run0: "agent_run allowed ms0 ag0 = Some ag"
    and aborted: "ag_phase ag = Running (Some c) t k w" "c \<noteq> CancelDisposed"
    and sent: "send env m target True ag = (ag1, Inr ())"
    and run: "agent_run uncancelled ms ag1 = Some ag2"
    and ends: "ag_pc ag2 = AtReturned again" "run_turn (ag_phase ag2) = t" "hasPendingInput ag2"
      "again \<longrightarrow> abort_reason (ag_phase ag2) = None"
  shows "m \<in> set (ib_nextTurn (ib_lists (ag_inbox ag1)))
    \<and> (\<exists>ag3 e es. agent_step env' (Drive Continue) ag2 = Some ag3
      \<and> ag_log ag3 = ag_log ag2 @ e # es \<and> ev_data e = TurnStart (t + 1)
      \<and> is_running (ag_phase ag3) \<and> run_turn (ag_phase ag3) = t + 1 \<and> abort_reason (ag_phase ag3) = None)"
proof
  have inv: "agent_inv ag" by (rule agent_run_inv [OF new tr ag run0])
  have inv1: "agent_inv ag1" using send_inv [OF inv, of env m target True] sent by simp
  show "m \<in> set (ib_nextTurn (ib_lists (ag_inbox ag1)))" by (rule sent_queued [OF inv aborted(1) sent])
  have "agent_inv ag2 \<and> owed t ag2"
    using run
  proof (rule agent_run_induct)
    show "agent_inv ag1 \<and> owed t ag1" using inv1 sent_latched [OF aborted sent] by simp
  next
    fix env m a a'
    assume "agent_inv a \<and> owed t a" "uncancelled env m a" "agent_step env m a = Some a'"
    then show "agent_inv a' \<and> owed t a'"
      by (blast intro: agent_step_inv step_owed uncancelled_def [THEN iffD1, THEN conjunct1])
  qed
  then have r: "is_running (ag_phase ag2)" and b: "between (ag_phase ag2) (ag_inbox ag2)" and o: "owed t ag2"
    using ends(1) by (simp_all add: agent_inv_def)
  show "\<exists>ag3 e es. agent_step env' (Drive Continue) ag2 = Some ag3
      \<and> ag_log ag3 = ag_log ag2 @ e # es \<and> ev_data e = TurnStart (t + 1)
      \<and> is_running (ag_phase ag3) \<and> run_turn (ag_phase ag3) = t + 1 \<and> abort_reason (ag_phase ag3) = None"
  proof (cases again)
    case True
    with ends r begin_turn_starts [OF r b, of env'] show ?thesis
      by (cases "ag_phase ag2") (auto simp: afterTurn_def enter_turn_def)
  next
    case False
    with o ends(1,2) r obtain c' k' where "ag_phase ag2 = Running (Some c') t k' True" by (auto simp: owed_def)
    with False ends converge_starts [OF b ends(2,3), of env'] show ?thesis by (auto simp: afterTurn_def)
  qed
qed

subsection \<open>A concrete run\<close>

definition demo_user :: "string \<Rightarrow> message" where
  "demo_user i = \<lparr>msg_id = i, msg_role = RoleUser, msg_content = [TextBlock ''hi''], msg_source = SourceUser\<rparr>"

definition demo_drive :: drive_env where
  "demo_drive = \<lparr>dv_now = 1, dv_id = ''m1'', dv_errorText = (\<lambda>_. ''boom''), dv_tools = demo_env False, dv_limit = 2\<rparr>"

definition demo_assembly :: prompt_assembly where
  "demo_assembly = \<lparr>pa_system = Inr ''sys'', pa_sections = Inr [], pa_tools = []\<rparr>"

definition demo_options :: agent_options where
  "demo_options = \<lparr>op_provider = Some ''p'', op_model = Some ''m'', op_maxTokens = None\<rparr>"

definition demo_config :: call_config where
  "demo_config = \<lparr>cfg_provider = ''p'', cfg_model = ''m'', cfg_reasoningEffort = None, cfg_temperature = None,
     cfg_maxTokens = None, cfg_stop = None\<rparr>"

definition demo_prepared :: prepared_call where
  "demo_prepared = \<lparr>pl_config = demo_config, pl_defaults = \<lparr>def_reasoningEffort = False, def_maxTokens = False\<rparr>,
     pl_contextWindow = None\<rparr>"

text \<open>
  After a seed with one turn, a prompt opens turn 2, whose first step calls a tool. During the second
  step's assembly the user cancels and steers; the aborted turn ends and the late prompt opens turn 3.
\<close>

definition demo_request :: "(drive_env \<times> agent_move) list" where
  "demo_request = map (\<lambda>m. (demo_drive, m))
     [Send (demo_user ''u1'') NextTurn True, Drive (Assembled (Inr demo_assembly)),
      Drive (Decided (Inr EnterStep)), Drive Continue, Drive (Proposed (Inr id)),
      Outside (CallOtherEvent (TodoWrite []) None None), Drive (PreparedCall (Inr demo_prepared))]"

definition demo_step :: "(drive_env \<times> agent_move) list" where
  "demo_step = map (\<lambda>m. (demo_drive, m))
     [Drive (Opened (Inr ())), Drive (Chunk (ToolCallDelta 0 ''a'' (Some ''write'') [])),
      Drive (Chunk (FinishChunk FinishToolCalls None)), Drive StreamEnded,
      Drive (ToolInput (Prepared (Inr (PrepFinal demo_execution)))), Drive (ToolInput Resume),
      Drive (ToolInput Resume), Drive (ToolInput Resume), Drive (ToolInput Resume), Drive Continue,
      Cancel CancelUser True]"

definition demo_late :: "drive_env \<times> agent_move" where
  "demo_late = (demo_drive, Send (demo_user ''u2'') NextStep True)"

definition demo_unwind :: "(drive_env \<times> agent_move) list" where
  "demo_unwind = map (\<lambda>m. (demo_drive, m)) [Drive (Assembled (Inr demo_assembly)), Drive Continue]"

definition demo_seed :: "event list" where
  "demo_seed = [plain_event 0 0 (TurnStart 1), plain_event 1 0 (TurnEnd 1 Completed)]"

fun built_at :: "driver_pc \<Rightarrow> bool" where
  "built_at (AtBuilt fr rq) = True"
| "built_at _ = False"

fun returned_at :: "driver_pc \<Rightarrow> bool" where
  "returned_at (AtReturned again) = (\<not> again)"
| "returned_at _ = False"

fun user_aborted :: "int \<Rightarrow> phase \<Rightarrow> bool" where
  "user_aborted t (Running (Some CancelUser) u k w) = (u = t)"
| "user_aborted t _ = False"

text \<open>The run evaluates: to the built request, to the cancellation, past the late prompt, to the turn's return.\<close>

lemma demo_agent_facts:
  "case newSession SnapshotSeed ''s'' (Some demo_seed) None 0 of Inl _ \<Rightarrow> False
   | Inr s \<Rightarrow> seed_length s \<le> length (ses_log s)
     \<and> (case traceOf (ses_log s) of Inl _ \<Rightarrow> False | Inr tr \<Rightarrow> tr_openTurn tr = None)
     \<and> (case newAgent demo_options s of Inl _ \<Rightarrow> False
        | Inr a0 \<Rightarrow>
         (case agent_run quiet demo_request a0 of None \<Rightarrow> False
          | Some a1 \<Rightarrow> built_at (ag_pc a1) \<and>
           (case agent_run allowed demo_step a1 of None \<Rightarrow> False
            | Some a2 \<Rightarrow> user_aborted 2 (ag_phase a2) \<and>
             (case send demo_drive (demo_user ''u2'') NextStep True a2 of
                (a3, Inl _) \<Rightarrow> False
              | (a3, Inr _) \<Rightarrow>
               (case agent_run uncancelled demo_unwind a3 of None \<Rightarrow> False
                | Some a4 \<Rightarrow> returned_at (ag_pc a4) \<and> run_turn (ag_phase a4) = 2 \<and> hasPendingInput a4)))))"
  by code_simp

lemma agent_run_append:
  "agent_run ok (xs @ ys) ag = (case agent_run ok xs ag of None \<Rightarrow> None | Some ag' \<Rightarrow> agent_run ok ys ag')"
  by (induction ok xs ag rule: agent_run.induct) (auto split: option.splits)

lemma agent_run_mono:
  "agent_run ok ms ag = Some ag' \<Longrightarrow> (\<And>env m a. ok env m a \<Longrightarrow> ok' env m a) \<Longrightarrow> agent_run ok' ms ag = Some ag'"
  by (induction ok ms ag rule: agent_run.induct) (auto split: if_splits option.splits)

lemma demo_agent_obtain:
  obtains s tr0 a0 a1 fr rq a2 k w a3 a4 where
    "newSession SnapshotSeed ''s'' (Some demo_seed) None 0 = Inr s" "seed_length s \<le> length (ses_log s)"
    "traceOf (ses_log s) = Inr tr0" "tr_openTurn tr0 = None" "newAgent demo_options s = Inr a0"
    "agent_run quiet demo_request a0 = Some a1" "ag_pc a1 = AtBuilt fr rq"
    "agent_run allowed (demo_request @ demo_step) a0 = Some a2" "ag_phase a2 = Running (Some CancelUser) 2 k w"
    "send demo_drive (demo_user ''u2'') NextStep True a2 = (a3, Inr ())"
    "agent_run uncancelled demo_unwind a3 = Some a4" "ag_pc a4 = AtReturned False"
    "run_turn (ag_phase a4) = 2" "hasPendingInput a4"
proof -
  obtain s where s: "newSession SnapshotSeed ''s'' (Some demo_seed) None 0 = Inr s"
    using demo_agent_facts by (cases "newSession SnapshotSeed ''s'' (Some demo_seed) None 0") auto
  note f = demo_agent_facts [unfolded s sum.case]
  obtain tr0 where t: "traceOf (ses_log s) = Inr tr0" "tr_openTurn tr0 = None"
    using f by (cases "traceOf (ses_log s)") auto
  obtain a0 where a0: "newAgent demo_options s = Inr a0" using f by (cases "newAgent demo_options s") auto
  note f0 = f [unfolded a0 sum.case]
  obtain a1 where a1: "agent_run quiet demo_request a0 = Some a1" using f0 by (cases "agent_run quiet demo_request a0") auto
  note f1 = f0 [unfolded a1 option.case]
  obtain a2 where a2: "agent_run allowed demo_step a1 = Some a2" using f1 by (cases "agent_run allowed demo_step a1") auto
  note f2 = f1 [unfolded a2 option.case]
  obtain a3 where a3: "send demo_drive (demo_user ''u2'') NextStep True a2 = (a3, Inr ())"
    using f2 by (cases "send demo_drive (demo_user ''u2'') NextStep True a2") (auto split: sum.splits)
  note f3 = f2 [unfolded a3 prod.case sum.case]
  obtain a4 where a4: "agent_run uncancelled demo_unwind a3 = Some a4"
    using f3 by (cases "agent_run uncancelled demo_unwind a3") auto
  note f4 = f3 [unfolded a4 option.case]
  obtain fr rq where b: "ag_pc a1 = AtBuilt fr rq" using f1 by (cases "ag_pc a1") auto
  have p: "user_aborted 2 (ag_phase a2)" using f2 by blast
  obtain k w where k: "ag_phase a2 = Running (Some CancelUser) 2 k w"
    using p by (cases "(2 :: int, ag_phase a2)" rule: user_aborted.cases) auto
  have r: "ag_pc a4 = AtReturned False" using f4 by (cases "ag_pc a4") auto
  have "agent_run allowed demo_request a0 = Some a1" by (rule agent_run_mono [OF a1]) (simp add: quiet_def)
  then have "agent_run allowed (demo_request @ demo_step) a0 = Some a2" by (simp add: agent_run_append a2)
  with that s t a0 a1 b k a3 a4 r f f4 show thesis by blast
qed



theorem late_wake_replayed_witness:
  "\<exists>a3 a4 a5. agent_run uncancelled demo_unwind a3 = Some a4
    \<and> demo_user ''u2'' \<in> set (ib_nextTurn (ib_lists (ag_inbox a3)))
    \<and> agent_step demo_drive (Drive Continue) a4 = Some a5 \<and> run_turn (ag_phase a5) = 3"
proof -
  obtain s tr0 a0 a2 k w a3 a4 where d: "newSession SnapshotSeed ''s'' (Some demo_seed) None 0 = Inr s"
    "seed_length s \<le> length (ses_log s)" "traceOf (ses_log s) = Inr tr0" "tr_openTurn tr0 = None"
    "newAgent demo_options s = Inr a0" "agent_run allowed (demo_request @ demo_step) a0 = Some a2"
    "ag_phase a2 = Running (Some CancelUser) 2 k w" and e:
    "send demo_drive (demo_user ''u2'') NextStep True a2 = (a3, Inr ())"
    "agent_run uncancelled demo_unwind a3 = Some a4" "ag_pc a4 = AtReturned False"
    "run_turn (ag_phase a4) = 2" "hasPendingInput a4"
    by (rule demo_agent_obtain)
  from late_wake_replayed [OF d _ e, of demo_drive] e(2) show ?thesis by auto
qed

subsection \<open>A wake the driver misses\<close>

text \<open>
  A live driver claims queued work only while it still looks: input that wakes the agent after its turn
  has returned, and before the driver notices, stays in the queue of an idle agent.
\<close>

definition demo_missed :: "(drive_env \<times> agent_move) list" where
  "demo_missed = map (\<lambda>m. (demo_drive, m))
     [Drive (Opened (Inr ())), Drive (Chunk (TextDelta 0 ''ok'')), Drive StreamEnded, Drive Continue,
      Drive (Stopped (Inr ())), Send (demo_user ''u2'') NextTurn True, Drive Continue]"

lemma wake_missed_at_return:
  "case newSession SnapshotSeed ''s'' (Some demo_seed) None 0 of Inl _ \<Rightarrow> False
   | Inr s \<Rightarrow>
     (case newAgent demo_options s of Inl _ \<Rightarrow> False
      | Inr a0 \<Rightarrow>
       (case agent_run allowed (demo_request @ demo_missed) a0 of None \<Rightarrow> False
        | Some a \<Rightarrow> ag_phase a = Idle 2 \<and> hasPendingInput a))"
  by code_simp

end
