(* ===== verification/Chunk_Rows.thy ===== *)
theory Chunk_Rows
  imports Json
begin

text \<open>
  Lossless storage packing of delta runs (\<open>core/session/src/chunk-rows.ts\<close>). The encoder
  classifies events structurally, so events are raw JSON values here, as the code sees them: a
  run of at least three consecutive deltas of one block becomes one storage row, and a row
  expands to its events again.
\<close>

datatype delta_kind = KText | KReasoning | KToolCall

definition MIN_RUN :: nat where
  "MIN_RUN = 3"

definition obj_field :: "json \<Rightarrow> string \<Rightarrow> json" where
  "obj_field v k = (case field v k of None \<Rightarrow> JNull | Some x \<Rightarrow> x)"

definition chunk_of :: "json \<Rightarrow> json" where
  "chunk_of e = obj_field (obj_field e ''data'') ''chunk''"

definition num_at :: "json \<Rightarrow> string \<Rightarrow> jsnum" where
  "num_at v k = get_num (field v k)"

definition str_at :: "json \<Rightarrow> string \<Rightarrow> string" where
  "str_at v k = get_str (field v k)"

definition nonneg :: "jsnum \<Rightarrow> bool" where
  "nonneg n = (0 \<le> num_to_int n)"

subsection \<open>Classification\<close>

definition text_keys :: "string list" where
  "text_keys = [''type'', ''index'', ''text'']"

definition tool_keys :: "bool \<Rightarrow> string list" where
  "tool_keys named =
     (if named then [''type'', ''index'', ''id'', ''name'', ''argumentsDelta'']
      else [''type'', ''index'', ''id'', ''argumentsDelta''])"

definition classifyChunk :: "json \<Rightarrow> delta_kind option" where
  "classifyChunk c =
     (if \<not> isRecord c \<or> \<not> is_num (field c ''index'') then None
      else if field c ''type'' = Some (JStr ''text-delta'') then
        (if hasExactKeys c text_keys \<and> is_str (field c ''text'') then Some KText else None)
      else if field c ''type'' = Some (JStr ''reasoning-delta'') then
        (if hasExactKeys c text_keys \<and> is_str (field c ''text'') then Some KReasoning else None)
      else if field c ''type'' = Some (JStr ''tool-call-delta'') then
        (if (hasExactKeys c (tool_keys False)
              \<or> (hasExactKeys c (tool_keys True) \<and> is_str (field c ''name'')))
            \<and> is_str (field c ''id'') \<and> is_str (field c ''argumentsDelta'')
         then Some KToolCall else None)
      else None)"

definition event_keys :: "string list" where
  "event_keys = [''type'', ''seq'', ''time'', ''data'']"

definition data_keys :: "string list" where
  "data_keys = [''turn'', ''step'', ''chunk'']"

definition classify :: "json \<Rightarrow> delta_kind option" where
  "classify e =
     (if field e ''type'' \<noteq> Some (JStr ''assistant/chunk'') then None
      else if \<not> hasExactKeys e event_keys then None
      else if \<not> is_safe_num (field e ''seq'') \<or> \<not> nonneg (num_at e ''seq'')
           \<or> \<not> is_safe_num (field e ''time'') then None
      else let d = obj_field e ''data'' in
        if \<not> hasExactKeys d data_keys then None
        else if \<not> is_num (field d ''turn'') \<or> \<not> is_num (field d ''step'') then None
        else classifyChunk (chunk_of e))"

subsection \<open>Runs\<close>

definition turn_of :: "json \<Rightarrow> jsnum" where
  "turn_of e = num_at (obj_field e ''data'') ''turn''"

definition step_of :: "json \<Rightarrow> jsnum" where
  "step_of e = num_at (obj_field e ''data'') ''step''"

definition index_of :: "json \<Rightarrow> jsnum" where
  "index_of e = num_at (chunk_of e) ''index''"

definition js_sub :: "jsnum \<Rightarrow> jsnum \<Rightarrow> jsnum" where
  "js_sub a b = js_add a (case b of NaN \<Rightarrow> NaN | PosInf \<Rightarrow> NegInf | NegInf \<Rightarrow> PosInf
     | NegZero \<Rightarrow> Fin 0 | Fin r \<Rightarrow> if r = 0 then NegZero else Fin (- r))"

text \<open>
  Whether \<open>next\<close> extends a run ending in \<open>prev\<close>. Differences of times are exact here; the
  code's rounded difference of two safe integers is safe exactly when the true one is.
\<close>

definition same_call :: "json \<Rightarrow> json \<Rightarrow> bool" where
  "same_call a b =
     (field a ''id'' = field b ''id''
      \<and> (field a ''name'' = None) = (field b ''name'' = None)
      \<and> field a ''name'' = field b ''name'')"

definition continues :: "json \<Rightarrow> json \<Rightarrow> delta_kind \<Rightarrow> bool" where
  "continues prev next kind =
     (if \<not> js_eq (num_at next ''seq'') (js_add (num_at prev ''seq'') (Fin 1)) then False
      else if \<not> isSafeInteger (js_sub (num_at next ''time'') (num_at prev ''time'')) then False
      else if \<not> js_eq (turn_of next) (turn_of prev) \<or> \<not> js_eq (step_of next) (step_of prev) then False
      else if \<not> js_eq (index_of next) (index_of prev) then False
      else if kind \<noteq> KToolCall then True
      else same_call (chunk_of prev) (chunk_of next))"

fun gaps :: "jsnum list \<Rightarrow> jsnum list" where
  "gaps (a # b # ts) = js_sub b a # gaps (b # ts)"
| "gaps _ = []"

definition payload_of :: "delta_kind \<Rightarrow> json \<Rightarrow> string" where
  "payload_of kind e =
     str_at (chunk_of e) (if kind = KToolCall then ''argumentsDelta'' else ''text'')"

definition row_tag :: "delta_kind \<Rightarrow> string" where
  "row_tag kind = (case kind of KText \<Rightarrow> ''text-chunks'' | KReasoning \<Rightarrow> ''reasoning-chunks''
     | KToolCall \<Rightarrow> ''tool-call-chunks'')"

definition row_base :: "json list \<Rightarrow> (string \<times> json) list" where
  "row_base run =
     [(''turn'', JNum (turn_of (hd run))), (''step'', JNum (step_of (hd run))),
      (''index'', JNum (index_of (hd run))),
      (''dt'', JArr (map JNum (gaps (map (\<lambda>e. num_at e ''time'') run))))]"

definition name_field :: "json \<Rightarrow> (string \<times> json) list" where
  "name_field c = (case field c ''name'' of None \<Rightarrow> [] | Some n \<Rightarrow> [(''name'', n)])"

definition row_data :: "delta_kind \<Rightarrow> json list \<Rightarrow> (string \<times> json) list" where
  "row_data kind run =
     (let payload = JArr (map (JStr \<circ> payload_of kind) run) in
      if kind = KToolCall then
        row_base run @ [(''id'', JStr (str_at (chunk_of (hd run)) ''id''))]
          @ name_field (chunk_of (hd run)) @ [(''args'', payload)]
      else row_base run @ [(''texts'', payload)])"

definition buildRow :: "delta_kind \<Rightarrow> json list \<Rightarrow> json" where
  "buildRow kind run =
     JObj [(''type'', JStr (row_tag kind)), (''seq0'', JNum (num_at (hd run) ''seq'')),
           (''time0'', JNum (num_at (hd run) ''time'')), (''data'', JObj (row_data kind run))]"

record pack_state =
  pk_out :: "json list"
  pk_kind :: "delta_kind option"
  pk_run :: "json list"

definition flush :: "pack_state \<Rightarrow> pack_state" where
  "flush s = s\<lparr>pk_out := pk_out s @ (case pk_kind s of
        Some kind \<Rightarrow> if MIN_RUN \<le> length (pk_run s) then [buildRow kind (pk_run s)] else pk_run s
      | None \<Rightarrow> pk_run s), pk_kind := None, pk_run := []\<rparr>"

definition packStep :: "pack_state \<Rightarrow> json \<Rightarrow> pack_state" where
  "packStep s e =
     (case classify e of
        None \<Rightarrow> let s' = flush s in s'\<lparr>pk_out := pk_out s' @ [e]\<rparr>
      | Some k \<Rightarrow>
          if pk_kind s = Some k \<and> pk_run s \<noteq> [] \<and> continues (last (pk_run s)) e k
          then s\<lparr>pk_run := pk_run s @ [e]\<rparr>
          else (flush s)\<lparr>pk_kind := Some k, pk_run := [e]\<rparr>)"

definition packChunkRuns :: "json list \<Rightarrow> json list" where
  "packChunkRuns es =
     pk_out (flush (foldl packStep \<lparr>pk_out = [], pk_kind = None, pk_run = []\<rparr> es))"

subsection \<open>Decoding\<close>

datatype row_error =
    BadEnvelope | BadSeq0 | BadTime0 | BadData | BadDataKeys | BadIdName
  | BadPlacement | BadPayload | BadGaps | BadArity | UnsafeSeqs | UnsafeTimes

fun str_list :: "json option \<Rightarrow> string list option" where
  "str_list (Some (JArr xs)) =
     (if list_all (\<lambda>x. is_str (Some x)) xs then Some (map (\<lambda>x. get_str (Some x)) xs) else None)"
| "str_list _ = None"

fun safe_list :: "json option \<Rightarrow> jsnum list option" where
  "safe_list (Some (JArr xs)) =
     (if list_all (\<lambda>x. is_safe_num (Some x)) xs then Some (map (\<lambda>x. get_num (Some x)) xs) else None)"
| "safe_list _ = None"

definition validateRunData :: "json \<Rightarrow> string \<Rightarrow> (row_error, string list \<times> jsnum list) result" where
  "validateRunData d payloadKey =
     (if \<not> is_num (field d ''turn'') \<or> \<not> is_num (field d ''step'') \<or> \<not> is_num (field d ''index'')
      then Inl BadPlacement
      else case str_list (field d payloadKey) of
        None \<Rightarrow> Inl BadPayload
      | Some payload \<Rightarrow>
          if payload = [] then Inl BadPayload
          else case safe_list (field d ''dt'') of
            None \<Rightarrow> Inl BadGaps
          | Some dt \<Rightarrow>
              if length dt \<noteq> length payload - 1 then Inl BadArity else Inr (payload, dt))"

text \<open>The running member times: the anchor, then one more gap each.\<close>

fun runTimes :: "jsnum \<Rightarrow> jsnum list \<Rightarrow> jsnum list" where
  "runTimes t [] = [t]"
| "runTimes t (g # gs) = t # runTimes (js_add t g) gs"

definition tool_row_keys :: "bool \<Rightarrow> string list" where
  "tool_row_keys named =
     (if named then [''turn'', ''step'', ''index'', ''id'', ''name'', ''dt'', ''args'']
      else [''turn'', ''step'', ''index'', ''id'', ''dt'', ''args''])"

definition text_row_keys :: "string list" where
  "text_row_keys = [''turn'', ''step'', ''index'', ''dt'', ''texts'']"

definition validateData :: "delta_kind \<Rightarrow> json \<Rightarrow> (row_error, string list \<times> jsnum list) result" where
  "validateData kind d =
     (if kind = KToolCall then
        (let withName = hasExactKeys d (tool_row_keys True) in
         if \<not> withName \<and> \<not> hasExactKeys d (tool_row_keys False) then Inl BadDataKeys
         else if \<not> is_str (field d ''id'') \<or> (withName \<and> \<not> is_str (field d ''name'')) then Inl BadIdName
         else validateRunData d ''args'')
      else if \<not> hasExactKeys d text_row_keys then Inl BadDataKeys
      else validateRunData d ''texts'')"

definition row_keys :: "string list" where
  "row_keys = [''type'', ''seq0'', ''time0'', ''data'']"

definition validateRow :: "json \<Rightarrow> delta_kind \<Rightarrow> (row_error, string list \<times> jsnum list) result" where
  "validateRow v kind =
     (if \<not> hasExactKeys v row_keys then Inl BadEnvelope
      else if \<not> is_safe_num (field v ''seq0'') \<or> \<not> nonneg (num_at v ''seq0'') then Inl BadSeq0
      else if \<not> is_safe_num (field v ''time0'') then Inl BadTime0
      else if \<not> isRecord (obj_field v ''data'') then Inl BadData
      else bindE (validateData kind (obj_field v ''data'')) (\<lambda>(payload, dt).
        if \<not> isSafeInteger (js_add (num_at v ''seq0'') (num_of_int (int (length payload) - 1)))
        then Inl UnsafeSeqs
        else if \<not> list_all isSafeInteger (tl (runTimes (num_at v ''time0'') dt)) then Inl UnsafeTimes
        else Inr (payload, dt)))"

definition member_chunk :: "delta_kind \<Rightarrow> json \<Rightarrow> string \<Rightarrow> json" where
  "member_chunk kind d member =
     (case kind of
        KText \<Rightarrow> JObj [(''type'', JStr ''text-delta''), (''index'', JNum (num_at d ''index'')),
                  (''text'', JStr member)]
      | KReasoning \<Rightarrow> JObj [(''type'', JStr ''reasoning-delta''), (''index'', JNum (num_at d ''index'')),
                  (''text'', JStr member)]
      | KToolCall \<Rightarrow> JObj ([(''type'', JStr ''tool-call-delta''), (''index'', JNum (num_at d ''index'')),
                  (''id'', JStr (str_at d ''id''))] @ name_field d @ [(''argumentsDelta'', JStr member)]))"

definition member_event :: "delta_kind \<Rightarrow> json \<Rightarrow> jsnum \<Rightarrow> jsnum \<Rightarrow> string \<Rightarrow> json" where
  "member_event kind d seq time member =
     JObj [(''type'', JStr ''assistant/chunk''), (''seq'', JNum seq), (''time'', JNum time),
           (''data'', JObj [(''turn'', JNum (num_at d ''turn'')), (''step'', JNum (num_at d ''step'')),
                        (''chunk'', member_chunk kind d member)])]"

definition expandRow :: "delta_kind \<Rightarrow> json \<Rightarrow> string list \<Rightarrow> jsnum list \<Rightarrow> json list" where
  "expandRow kind v payload dt =
     (let times = runTimes (num_at v ''time0'') dt in
      map (\<lambda>k. member_event kind (obj_field v ''data'')
             (js_add (num_at v ''seq0'') (num_of_int (int k))) (times ! k) (payload ! k))
        [0..<length payload])"

definition tag_kind :: "json \<Rightarrow> delta_kind option" where
  "tag_kind v =
     (if field v ''type'' = Some (JStr ''text-chunks'') then Some KText
      else if field v ''type'' = Some (JStr ''reasoning-chunks'') then Some KReasoning
      else if field v ''type'' = Some (JStr ''tool-call-chunks'') then Some KToolCall
      else None)"

definition decodeStorageRecord :: "json \<Rightarrow> (row_error, json list) result" where
  "decodeStorageRecord v =
     (case tag_kind v of
        None \<Rightarrow> Inr [v]
      | Some kind \<Rightarrow> bindE (validateRow v kind) (\<lambda>(payload, dt). Inr (expandRow kind v payload dt)))"

text \<open>Reading a stored log back: decode every line, in order.\<close>

primrec decodeAll :: "json list \<Rightarrow> (row_error, json list) result" where
  "decodeAll [] = Inr []"
| "decodeAll (r # rs) =
     bindE (decodeStorageRecord r) (\<lambda>es. bindE (decodeAll rs) (\<lambda>es'. Inr (es @ es')))"

end
