(* ===== verification/Chunk_Rows_Facts.thy ===== *)
theory Chunk_Rows_Facts
  imports Chunk_Rows
begin

text \<open>
  The storage encoding is lossless: decoding what the encoder wrote gives back the events, equal
  up to the order of an object's keys, and nothing malformed is ever written.
\<close>

subsection \<open>Safe-integer arithmetic\<close>

lemma safe_num_int:
  "isSafeInteger a \<Longrightarrow> a = NegZero \<or> a = num_of_int (num_to_int a) \<and> safe_int (num_to_int a)"
  by (elim isSafeInteger_cases) auto

lemma js_add_safe:
  assumes "isSafeInteger a" "isSafeInteger b"
  shows "num_to_int (js_add a b) = num_to_int a + num_to_int b"
    "isSafeInteger (js_add a b) \<longleftrightarrow> safe_int (num_to_int a + num_to_int b)"
  using assms by (elim isSafeInteger_cases; simp flip: of_int_add)+

lemma js_add_int:
  assumes "isSafeInteger a"
  shows "num_to_int (js_add a (num_of_int i)) = num_to_int a + i"
    "isSafeInteger (js_add a (num_of_int i)) \<longleftrightarrow> safe_int (num_to_int a + i)"
  using assms by (elim isSafeInteger_cases; simp flip: of_int_add)+

lemma js_sub_safe:
  assumes "isSafeInteger a" "isSafeInteger b"
  shows "num_to_int (js_sub a b) = num_to_int a - num_to_int b"
    "isSafeInteger (js_sub a b) \<longleftrightarrow> safe_int (num_to_int a - num_to_int b)"
  using assms
  by (elim isSafeInteger_cases; simp add: js_sub_def flip: of_int_add of_int_minus of_int_diff)+

lemma js_eq_int: "isSafeInteger a \<Longrightarrow> js_eq a (num_of_int i) \<longleftrightarrow> num_to_int a = i"
  by (elim isSafeInteger_cases) auto

lemma js_eq_safe_side: "js_eq a b \<Longrightarrow> isSafeInteger a \<Longrightarrow> isSafeInteger b \<and> num_to_int b = num_to_int a"
  by (elim isSafeInteger_cases; cases b) (auto simp: safe_int_def MAX_SAFE_INTEGER_def)

lemma length_gaps: "length (gaps ts) = length ts - 1"
  by (induction ts rule: gaps.induct) auto

lemma length_runTimes [simp]: "length (runTimes t gs) = Suc (length gs)"
  by (induction gs arbitrary: t) auto

text \<open>Accumulating the gaps from the first time gives every time back.\<close>

lemma runTimes_gaps:
  assumes "list_all isSafeInteger (t0 # ts)" "list_all isSafeInteger (gaps (t0 # ts))"
    and "js_eq t t0" "isSafeInteger t"
  shows "list_all2 js_eq (runTimes t (gaps (t0 # ts))) (t0 # ts)
    \<and> list_all isSafeInteger (runTimes t (gaps (t0 # ts)))"
  using assms
proof (induction ts arbitrary: t t0)
  case Nil
  then show ?case by simp
next
  case (Cons u us)
  let ?t = "js_add t (js_sub u t0)"
  have safe: "isSafeInteger t0" "isSafeInteger u" "isSafeInteger (js_sub u t0)"
    using Cons.prems by simp_all
  have "num_to_int ?t = num_to_int u"
    using safe Cons.prems(3,4) by (simp add: js_add_safe js_sub_safe js_eq_safe)
  moreover have "isSafeInteger ?t"
    using safe Cons.prems(3,4) js_sub_safe(1) [OF safe(2,1)] safe_num_int [OF safe(2)]
    by (auto simp: js_add_safe js_eq_safe)
  ultimately have "js_eq ?t u" "isSafeInteger ?t" using safe(2) by (simp_all add: js_eq_safe)
  with Cons.IH [of u ?t] Cons.prems show ?case by simp
qed

subsection \<open>Objects with exact keys\<close>

lemma exact_keys_set:
  assumes "hasExactKeys (JObj kvs) keys" "distinct keys"
  shows "fst ` set kvs = set keys"
proof -
  from assms have len: "length kvs = length keys" by simp
  have sub: "set keys \<subseteq> fst ` set kvs"
    using assms(1) by (force simp: list_all_iff dest: map_of_SomeD)
  have "card (fst ` set kvs) \<le> length kvs" by (metis card_length length_map list.set_map)
  also have "\<dots> = card (set keys)" using len assms(2) by (simp add: distinct_card)
  finally show ?thesis using sub by (intro card_seteq [symmetric]) auto
qed

lemma deep_equal_exact:
  assumes "hasExactKeys (JObj kvs) (map fst ls)" "distinct (map fst kvs)" "distinct (map fst ls)"
    and "\<And>k x. map_of kvs k = Some x \<Longrightarrow> \<exists>y. map_of ls k = Some y \<and> isDeepEqualJson x y"
  shows "isDeepEqualJson (JObj kvs) (JObj ls)"
  using assms by (auto simp: deep_equal_obj_iff)

lemma exact_keys_field:
  "hasExactKeys v keys \<Longrightarrow> k \<in> set keys \<Longrightarrow> field v k \<noteq> None"
  by (cases v) (auto simp: list_all_iff)

lemma exact_keys_not:
  "hasExactKeys v keys \<Longrightarrow> distinct keys \<Longrightarrow> k \<notin> set keys \<Longrightarrow> field v k = None"
  using exact_keys_set by (cases v) (auto simp: map_of_eq_None_iff)

lemma field_wf: "json_wf v \<Longrightarrow> field v k = Some x \<Longrightarrow> json_wf x"
  by (cases v) (auto dest!: map_of_SomeD)

lemma obj_field_wf: "json_wf v \<Longrightarrow> json_wf (obj_field v k)"
  by (auto simp: obj_field_def split: option.splits intro: field_wf)

lemma is_num_iff: "is_num f \<longleftrightarrow> (\<exists>n. f = Some (JNum n))"
  by (cases f rule: is_num.cases) auto

lemma is_str_iff: "is_str f \<longleftrightarrow> (\<exists>s. f = Some (JStr s))"
  by (cases f rule: is_str.cases) auto

lemma is_safe_num_iff: "is_safe_num f \<longleftrightarrow> (\<exists>n. f = Some (JNum n) \<and> isSafeInteger n)"
  by (cases f rule: is_safe_num.cases) auto

lemma deep_equal_record:
  assumes "hasExactKeys v (map fst ls)" "json_wf v" "distinct (map fst ls)"
    and "\<forall>(k, y) \<in> set ls. \<forall>x. field v k = Some x \<longrightarrow> isDeepEqualJson x y"
  shows "isDeepEqualJson v (JObj ls)"
proof (cases v)
  case (JObj kvs)
  have "\<exists>y. map_of ls k = Some y \<and> isDeepEqualJson x y" if "map_of kvs k = Some x" for k x
  proof -
    from that have "k \<in> set (map fst ls)"
      using exact_keys_set [of kvs "map fst ls"] assms(1,3) JObj by (force dest: map_of_SomeD)
    then obtain y where y: "map_of ls k = Some y" by (metis list.set_map not_Some_eq map_of_eq_None_iff)
    then have "(k, y) \<in> set ls" by (rule map_of_SomeD)
    with assms(4) that JObj y show ?thesis by fastforce
  qed
  then show ?thesis using assms(1-3) unfolding JObj by (intro deep_equal_exact) auto
qed (use assms(1) in simp_all)

subsection \<open>Whitelisted events and their canonical form\<close>

lemmas key_defs = event_keys_def data_keys_def text_keys_def tool_keys_def

lemma classify_chunk: "classify e = Some k \<Longrightarrow> classifyChunk (chunk_of e) = Some k"
  by (auto simp: classify_def Let_def split: if_splits)

lemma classify_event:
  assumes "classify e = Some k"
  shows "hasExactKeys e event_keys" "field e ''type'' = Some (JStr ''assistant/chunk'')"
    "field e ''seq'' = Some (JNum (num_at e ''seq''))" "isSafeInteger (num_at e ''seq'')"
    "field e ''time'' = Some (JNum (num_at e ''time''))" "isSafeInteger (num_at e ''time'')"
    "0 \<le> num_to_int (num_at e ''seq'')"
    "hasExactKeys (obj_field e ''data'') data_keys"
    "field (obj_field e ''data'') ''turn'' = Some (JNum (turn_of e))"
    "field (obj_field e ''data'') ''step'' = Some (JNum (step_of e))"
  using assms
  by (auto simp: classify_def Let_def is_safe_num_iff is_num_iff num_at_def turn_of_def step_of_def
      nonneg_def split: if_splits)

lemma classify_index:
  assumes "classify e = Some k"
  shows "field (chunk_of e) ''index'' = Some (JNum (index_of e))"
  using classify_chunk [OF assms]
  by (auto simp: classifyChunk_def is_num_iff num_at_def index_of_def split: if_splits)

lemma classify_payload:
  assumes "classify e = Some k"
  shows "field (chunk_of e) (if k = KToolCall then ''argumentsDelta'' else ''text'')
    = Some (JStr (payload_of k e))"
  using classify_chunk [OF assms]
  by (auto simp: classifyChunk_def is_str_iff payload_of_def str_at_def split: if_splits)

lemma classify_text:
  assumes "classify e = Some k" "k \<noteq> KToolCall"
  shows "hasExactKeys (chunk_of e) text_keys"
    "field (chunk_of e) ''type''
      = Some (JStr (if k = KText then ''text-delta'' else ''reasoning-delta''))"
  using classify_chunk [OF assms(1)] assms(2)
  by (auto simp: classifyChunk_def split: if_splits)

lemma classify_tool:
  assumes "classify e = Some KToolCall"
  shows "hasExactKeys (chunk_of e) (tool_keys (field (chunk_of e) ''name'' \<noteq> None))"
    "field (chunk_of e) ''type'' = Some (JStr ''tool-call-delta'')"
    "field (chunk_of e) ''id'' = Some (JStr (str_at (chunk_of e) ''id''))"
    "\<exists>n. field (chunk_of e) ''name'' = None \<or> field (chunk_of e) ''name'' = Some (JStr n)"
proof -
  note c = classify_chunk [OF assms]
  have "hasExactKeys (chunk_of e) (tool_keys False) \<Longrightarrow> field (chunk_of e) ''name'' = None"
    by (rule exact_keys_not [where keys = "tool_keys False"]) (auto simp: tool_keys_def)
  with c show "hasExactKeys (chunk_of e) (tool_keys (field (chunk_of e) ''name'' \<noteq> None))"
    "\<exists>n. field (chunk_of e) ''name'' = None \<or> field (chunk_of e) ''name'' = Some (JStr n)"
    by (auto simp: classifyChunk_def is_str_iff split: if_splits)
  from c show "field (chunk_of e) ''type'' = Some (JStr ''tool-call-delta'')"
    "field (chunk_of e) ''id'' = Some (JStr (str_at (chunk_of e) ''id''))"
    by (auto simp: classifyChunk_def is_str_iff str_at_def split: if_splits)
qed

text \<open>The row data \<open>d\<close> names the same block as the event.\<close>

definition same_block :: "delta_kind \<Rightarrow> json \<Rightarrow> json \<Rightarrow> bool" where
  "same_block k d e =
     (js_eq (turn_of e) (num_at d ''turn'') \<and> js_eq (step_of e) (num_at d ''step'')
      \<and> js_eq (index_of e) (num_at d ''index'')
      \<and> (k = KToolCall \<longrightarrow> field (chunk_of e) ''id'' = Some (JStr (str_at d ''id''))
           \<and> field (chunk_of e) ''name'' = field d ''name''))"

lemma member_chunk_equal:
  assumes c: "classify e = Some k" and wf: "json_wf e" and b: "same_block k d e"
  shows "isDeepEqualJson (chunk_of e) (member_chunk k d (payload_of k e))"
proof -
  have wfc: "json_wf (chunk_of e)" using wf by (simp add: chunk_of_def obj_field_wf)
  have ix: "js_eq (index_of e) (num_at d ''index'')" using b by (simp add: same_block_def)
  show ?thesis
  proof (cases "k = KToolCall")
    case False
    with ix classify_text [OF c False] classify_index [OF c] classify_payload [OF c] wfc
    have "isDeepEqualJson (chunk_of e)
        (JObj [(''type'', JStr (if k = KText then ''text-delta'' else ''reasoning-delta'')),
               (''index'', JNum (num_at d ''index'')), (''text'', JStr (payload_of k e))])"
      by (intro deep_equal_record) (auto simp: text_keys_def)
    with False show ?thesis by (cases k) (simp_all add: member_chunk_def)
  next
    case True
    with c have ct: "classify e = Some KToolCall" by simp
    note t = classify_tool [OF ct]
    from b True have id: "str_at (chunk_of e) ''id'' = str_at d ''id''"
      and nm: "field d ''name'' = field (chunk_of e) ''name''"
      using t(3) by (auto simp: same_block_def)
    have "isDeepEqualJson (chunk_of e)
        (JObj ([(''type'', JStr ''tool-call-delta''), (''index'', JNum (num_at d ''index'')),
                (''id'', JStr (str_at d ''id''))] @ name_field d
              @ [(''argumentsDelta'', JStr (payload_of k e))]))"
      using t ix id nm classify_index [OF c] classify_payload [OF c] wfc True
      by (intro deep_equal_record) (auto simp: tool_keys_def name_field_def split: option.splits)
    with True show ?thesis by (simp add: member_chunk_def)
  qed
qed

lemma member_event_equal:
  assumes c: "classify e = Some k" and wf: "json_wf e" and b: "same_block k d e"
    and s: "js_eq (num_at e ''seq'') sq" and t: "js_eq (num_at e ''time'') tm"
  shows "isDeepEqualJson e (member_event k d sq tm (payload_of k e))"
proof -
  note ev = classify_event [OF c]
  have "\<exists>ch. field (obj_field e ''data'') ''chunk'' = Some ch"
    using exact_keys_field [OF ev(8), of "''chunk''"] by (auto simp: data_keys_def)
  then have ch: "field (obj_field e ''data'') ''chunk'' = Some (chunk_of e)"
    by (auto simp: chunk_of_def obj_field_def [of _ "''chunk''"])
  have "\<exists>d. field e ''data'' = Some d"
    using exact_keys_field [OF ev(1), of "''data''"] by (auto simp: event_keys_def)
  then have da: "field e ''data'' = Some (obj_field e ''data'')" by (auto simp: obj_field_def)
  have "isDeepEqualJson (obj_field e ''data'')
      (JObj [(''turn'', JNum (num_at d ''turn'')), (''step'', JNum (num_at d ''step'')),
             (''chunk'', member_chunk k d (payload_of k e))])"
    using ev(8-10) ch member_chunk_equal [OF c wf b] b wf
    by (intro deep_equal_record) (auto simp: data_keys_def same_block_def obj_field_wf)
  then show ?thesis unfolding member_event_def
    using ev(1-3,5) da s t wf by (intro deep_equal_record) (auto simp: event_keys_def)
qed

subsection \<open>Runs\<close>

definition valid_run :: "delta_kind \<Rightarrow> json list \<Rightarrow> bool" where
  "valid_run k run =
     (run \<noteq> [] \<and> (\<forall>e \<in> set run. classify e = Some k \<and> json_wf e)
      \<and> successively (\<lambda>a b. continues a b k) run)"

lemma continuesD:
  assumes "continues a b k"
  shows "js_eq (num_at b ''seq'') (js_add (num_at a ''seq'') (Fin 1))"
    "isSafeInteger (js_sub (num_at b ''time'') (num_at a ''time''))"
    "js_eq (turn_of b) (turn_of a)" "js_eq (step_of b) (step_of a)" "js_eq (index_of b) (index_of a)"
    "k = KToolCall \<Longrightarrow> same_call (chunk_of a) (chunk_of b)"
  using assms by (auto simp: continues_def split: if_splits)

lemma js_eq_left: "js_eq a b \<Longrightarrow> js_eq a a"
  by (cases a) auto

text \<open>Every member of a run of two or more names the block of the first one.\<close>

definition same_place :: "delta_kind \<Rightarrow> json \<Rightarrow> json \<Rightarrow> bool" where
  "same_place k a e =
     (js_eq (turn_of e) (turn_of a) \<and> js_eq (step_of e) (step_of a) \<and> js_eq (index_of e) (index_of a)
      \<and> (k = KToolCall \<longrightarrow> same_call (chunk_of a) (chunk_of e)))"

lemma run_place_aux:
  "successively (\<lambda>a b. continues a b k) (b # run) \<Longrightarrow> same_place k a b \<Longrightarrow>
   \<forall>e \<in> set (b # run). same_place k a e"
proof (induction run arbitrary: b)
  case Nil
  then show ?case by simp
next
  case (Cons c run)
  then have "continues b c k" by simp
  note d = continuesD [OF this]
  have "same_place k a c" using Cons.prems(2) d
    by (auto simp: same_place_def same_call_def elim: js_eq_trans)
  moreover have "successively (\<lambda>a b. continues a b k) (c # run)" using Cons.prems(1) by simp
  ultimately show ?case using Cons.IH [of c] Cons.prems(2) by auto
qed

lemma run_place:
  assumes "valid_run k run" "2 \<le> length run"
  shows "\<forall>e \<in> set run. same_place k (hd run) e"
proof -
  from assms obtain a b rest where run: "run = a # b # rest"
    by (cases run rule: remdups_adj.cases) auto
  with assms have "continues a b k" by (simp add: valid_run_def)
  note d = continuesD [OF this]
  have "same_place k a a"
    using d by (auto simp: same_place_def same_call_def js_eq_sym elim: js_eq_left js_eq_trans)
  moreover have "successively (\<lambda>a b. continues a b k) (a # b # rest)"
    using assms(1) by (simp add: valid_run_def run)
  ultimately show ?thesis using run_place_aux [of k a "b # rest" a] by (simp add: run)
qed

lemma run_seqs:
  assumes "successively (\<lambda>a b. continues a b k) run" "\<forall>e \<in> set run. classify e = Some k"
    and "i < length run"
  shows "num_to_int (num_at (run ! i) ''seq'') = num_to_int (num_at (hd run) ''seq'') + int i"
  using assms
proof (induction run arbitrary: i)
  case Nil
  then show ?case by simp
next
  case (Cons a run)
  show ?case
  proof (cases i)
    case (Suc j)
    then obtain b rest where run: "run = b # rest" using Cons.prems(3) by (cases run) auto
    with Cons.prems have "continues a b k" "classify a = Some k" "classify b = Some k" by simp_all
    then have "num_to_int (num_at b ''seq'') = num_to_int (num_at a ''seq'') + 1"
      using continuesD(1) [of a b k] js_eq_safe_side [of "num_at b ''seq''" "js_add (num_at a ''seq'') (Fin 1)"]
        js_add_safe(1) [of "num_at a ''seq''" "num_of_int 1"] classify_event(4) [of a k]
        classify_event(4) [of b k]
      by simp
    moreover have "num_to_int (num_at (run ! j) ''seq'') = num_to_int (num_at (hd run) ''seq'') + int j"
      using Cons.prems Suc run by (intro Cons.IH) (auto simp: successively_Cons)
    ultimately show ?thesis by (simp add: run Suc)
  qed simp
qed

lemma run_gaps_safe:
  "successively (\<lambda>a b. continues a b k) run \<Longrightarrow>
   list_all isSafeInteger (gaps (map (\<lambda>e. num_at e ''time'') run))"
proof (induction run)
  case Nil
  then show ?case by simp
next
  case (Cons a run)
  then show ?case by (cases run) (auto dest: continuesD(2))
qed

subsection \<open>A packed run decodes to its events\<close>

lemma is_str_map [simp]: "list_all (\<lambda>x. is_str (Some x)) (map (JStr \<circ> f) xs)"
  by (simp add: list_all_iff)

lemma get_str_map [simp]: "map (\<lambda>x. get_str (Some x)) (map (JStr \<circ> f) xs) = map f xs"
  by simp

lemma str_list_map [simp]: "str_list (Some (JArr (map (JStr \<circ> f) xs))) = Some (map f xs)"
  by (simp add: list_all_iff)

lemma safe_list_map:
  "list_all isSafeInteger ns \<Longrightarrow> safe_list (Some (JArr (map JNum ns))) = Some ns"
  by (auto simp: list_all_iff intro: map_idI)

abbreviation run_times :: "json list \<Rightarrow> jsnum list" where
  "run_times run \<equiv> map (\<lambda>e. num_at e ''time'') run"

abbreviation built_data :: "delta_kind \<Rightarrow> json list \<Rightarrow> json" where
  "built_data k run \<equiv> obj_field (buildRow k run) ''data''"

lemma built_data_eq: "built_data k run = JObj (row_data k run)"
  by (simp add: buildRow_def obj_field_def)

lemma built_data_fields:
  "num_at (built_data k run) ''turn'' = turn_of (hd run)"
  "num_at (built_data k run) ''step'' = step_of (hd run)"
  "num_at (built_data k run) ''index'' = index_of (hd run)"
  "k = KToolCall \<Longrightarrow> str_at (built_data k run) ''id'' = str_at (chunk_of (hd run)) ''id''"
  "k = KToolCall \<Longrightarrow> field (built_data k run) ''name'' = field (chunk_of (hd run)) ''name''"
  by (auto simp: built_data_eq row_data_def row_base_def num_at_def str_at_def name_field_def
      Let_def split: option.splits)

lemma run_block:
  assumes "valid_run k run" "2 \<le> length run" "e \<in> set run"
  shows "same_block k (built_data k run) e"
proof -
  have p: "same_place k (hd run) e" using run_place [OF assms(1,2)] assms(3) by blast
  have h: "classify (hd run) = Some k" using assms(1) by (simp add: valid_run_def)
  show ?thesis
    using p classify_tool(3) [of "hd run"] h
    by (cases "k = KToolCall") (auto simp: same_block_def same_place_def same_call_def built_data_fields)
qed

lemma validate_built_data:
  assumes "valid_run k run"
  shows "validateData k (built_data k run) = Inr (map (payload_of k) run, gaps (run_times run))"
proof -
  have h: "classify (hd run) = Some k" and ne: "run \<noteq> []"
    and g: "list_all isSafeInteger (gaps (run_times run))"
    using assms run_gaps_safe by (auto simp: valid_run_def)
  note sl = safe_list_map [OF g]
  show ?thesis
  proof (cases "k = KToolCall")
    case False
    then show ?thesis using ne sl
      by (simp add: built_data_eq validateData_def row_data_def row_base_def text_row_keys_def
          validateRunData_def length_gaps)
  next
    case True
    then obtain n where "field (chunk_of (hd run)) ''name'' = None
        \<or> field (chunk_of (hd run)) ''name'' = Some (JStr n)"
      using classify_tool(4) [of "hd run"] h by auto
    then show ?thesis using ne sl True
      by (elim disjE) (simp_all add: built_data_eq validateData_def row_data_def row_base_def
          tool_row_keys_def name_field_def validateRunData_def length_gaps)
  qed
qed

lemma validate_built_row:
  assumes "valid_run k run"
  shows "validateRow (buildRow k run) k = Inr (map (payload_of k) run, gaps (run_times run))"
proof -
  have h: "classify (hd run) = Some k" and ne: "run \<noteq> []"
    and all: "\<forall>e \<in> set run. classify e = Some k"
    and suc: "successively (\<lambda>a b. continues a b k) run"
    using assms by (auto simp: valid_run_def)
  let ?s = "num_at (hd run) ''seq''" and ?t = "num_at (hd run) ''time''"
  note ev = classify_event [OF h]
  have last: "num_to_int (num_at (last run) ''seq'') = num_to_int ?s + int (length run - 1)"
    using run_seqs [OF suc all, of "length run - 1"] ne by (simp add: last_conv_nth)
  have cl: "classify (last run) = Some k" using all ne by simp
  have len: "int (length run - 1) = int (length run) - 1" using ne by (cases run) simp_all
  have "safe_int (num_to_int (num_at (last run) ''seq''))"
    using safe_num_int [OF classify_event(4) [OF cl]] by auto
  then have bound: "safe_int (num_to_int ?s + (int (length run) - 1))" by (simp only: last len)
  then have "safe_int (int (length run) - 1)"
    using ev(7) ne by (cases run) (auto simp: safe_int_def)
  then have seqs: "isSafeInteger (js_add ?s (num_of_int (int (length run) - 1)))"
    using js_add_safe(2) [OF ev(4), of "num_of_int (int (length run) - 1)"] bound
    by (simp only: isSafeInteger_num_of_int num_to_int_num_of_int)
  obtain rest where run: "run_times run = ?t # rest" using ne by (cases run) auto
  have "list_all isSafeInteger (run_times run)"
    using all classify_event(6) by (auto simp: list_all_iff)
  then have "list_all isSafeInteger (runTimes ?t (gaps (run_times run)))"
    using runTimes_gaps [of ?t rest ?t] run_gaps_safe [OF suc] ev(6) js_eq_refl [of ?t]
    by (cases ?t) (auto simp: run)
  then have times: "list_all isSafeInteger (tl (runTimes ?t (gaps (run_times run))))"
    by (cases "runTimes ?t (gaps (run_times run))") auto
  have d: "isRecord (built_data k run)" by (simp add: built_data_eq)
  have f: "field (buildRow k run) ''seq0'' = Some (JNum ?s)" "num_at (buildRow k run) ''seq0'' = ?s"
    "field (buildRow k run) ''time0'' = Some (JNum ?t)" "num_at (buildRow k run) ''time0'' = ?t"
    "hasExactKeys (buildRow k run) row_keys"
    by (simp_all add: buildRow_def num_at_def row_keys_def)
  show ?thesis
    using ev(4,6,7) seqs times
    by (simp add: validateRow_def f d nonneg_def validate_built_data [OF assms] del: of_int_diff)
qed

definition same_value :: "json \<Rightarrow> json \<Rightarrow> bool" where
  "same_value a b = (a = b \<or> isDeepEqualJson a b)"

lemma tag_built [simp]: "tag_kind (buildRow k run) = Some k"
  by (cases k) (simp_all add: tag_kind_def buildRow_def row_tag_def)

lemma decode_built_row:
  assumes v: "valid_run k run" and len: "MIN_RUN \<le> length run"
  shows "\<exists>ds. decodeStorageRecord (buildRow k run) = Inr ds \<and> list_all2 same_value run ds"
proof -
  let ?times = "runTimes (num_at (hd run) ''time'') (gaps (run_times run))"
  let ?ds = "expandRow k (buildRow k run) (map (payload_of k) run) (gaps (run_times run))"
  have h: "classify (hd run) = Some k" and ne: "run \<noteq> []"
    and all: "\<forall>e \<in> set run. classify e = Some k" and wf: "\<forall>e \<in> set run. json_wf e"
    and suc: "successively (\<lambda>a b. continues a b k) run"
    using v by (auto simp: valid_run_def)
  note ev = classify_event [OF h]
  obtain rest where run: "run_times run = num_at (hd run) ''time'' # rest" using ne by (cases run) auto
  have "list_all isSafeInteger (run_times run)"
    using all classify_event(6) by (auto simp: list_all_iff)
  then have ts: "list_all2 js_eq ?times (run_times run)"
    using runTimes_gaps [of "num_at (hd run) ''time''" rest "num_at (hd run) ''time''"]
      run_gaps_safe [OF suc] ev(6) js_eq_refl [of "num_at (hd run) ''time''"]
    by (cases "num_at (hd run) ''time''") (auto simp: run)
  have fs: "num_at (buildRow k run) ''seq0'' = num_at (hd run) ''seq''"
    "num_at (buildRow k run) ''time0'' = num_at (hd run) ''time''"
    by (simp_all add: buildRow_def num_at_def)
  have "isDeepEqualJson (run ! i) (?ds ! i)" if i: "i < length run" for i
  proof -
    have c: "classify (run ! i) = Some k" "json_wf (run ! i)" using all wf i by simp_all
    have b: "same_block k (built_data k run) (run ! i)"
      using run_block [OF v] len i by (simp add: MIN_RUN_def)
    have t: "js_eq (num_at (run ! i) ''time'') (?times ! i)"
      using list_all2_nthD2 [OF ts, of i] i by (simp add: js_eq_sym)
    have n: "num_to_int (num_at (run ! i) ''seq'') = num_to_int (num_at (hd run) ''seq'') + int i"
      by (rule run_seqs [OF suc all i])
    have si: "safe_int (num_to_int (num_at (hd run) ''seq'') + int i)"
      using n classify_event(4) [OF c(1)] safe_num_int by fastforce
    then have "safe_int (int i)" using ev(7) by (auto simp: safe_int_def)
    then have s: "js_eq (num_at (run ! i) ''seq'') (js_add (num_at (hd run) ''seq'') (num_of_int (int i)))"
      using n si ev(4) classify_event(4) [OF c(1)] js_add_safe [OF ev(4), of "num_of_int (int i)"]
      by (subst js_eq_safe) (simp_all only: isSafeInteger_num_of_int num_to_int_num_of_int)
    show ?thesis
      using member_event_equal [OF c b s t] i by (simp add: expandRow_def Let_def fs)
  qed
  then have "list_all2 same_value run ?ds"
    by (auto simp: list_all2_conv_all_nth same_value_def expandRow_def Let_def)
  then show ?thesis
    by (simp add: decodeStorageRecord_def validate_built_row [OF v])
qed

subsection \<open>The packer\<close>

definition decodes :: "json list \<Rightarrow> json list \<Rightarrow> bool" where
  "decodes out es = (\<exists>ds. decodeAll out = Inr ds \<and> list_all2 same_value es ds)"

lemma decodeAll_append:
  "decodeAll (xs @ ys) = bindE (decodeAll xs) (\<lambda>a. bindE (decodeAll ys) (\<lambda>b. Inr (a @ b)))"
  by (induction xs) (auto simp: bindE_def split: sum.splits)

lemma decodes_append: "decodes o1 es1 \<Longrightarrow> decodes o2 es2 \<Longrightarrow> decodes (o1 @ o2) (es1 @ es2)"
  by (auto simp: decodes_def decodeAll_append list_all2_appendI)

lemma decodes_verbatim: "\<forall>e \<in> set es. tag_kind e = None \<Longrightarrow> decodes es es"
proof (induction es)
  case (Cons e es)
  then have "decodes [e] [e]" "decodes es es"
    by (auto simp: decodes_def decodeStorageRecord_def same_value_def)
  then show ?case using decodes_append [of "[e]" "[e]" es es] by simp
qed (simp add: decodes_def)

lemma classified_not_row: "classify e = Some k \<Longrightarrow> tag_kind e = None"
  using classify_event(2) [of e k] by (simp add: tag_kind_def)

definition pack_inv :: "pack_state \<Rightarrow> json list \<Rightarrow> bool" where
  "pack_inv s es =
     (\<exists>done. es = done @ pk_run s \<and> decodes (pk_out s) done
       \<and> (pk_run s \<noteq> [] \<longrightarrow> (\<exists>k. pk_kind s = Some k \<and> valid_run k (pk_run s))))"

lemma flush_inv:
  assumes "pack_inv s es"
  shows "decodes (pk_out (flush s)) es" "pk_run (flush s) = []"
proof -
  from assms obtain es1 where es: "es = es1 @ pk_run s" "decodes (pk_out s) es1"
    and run: "pk_run s \<noteq> [] \<Longrightarrow> \<exists>k. pk_kind s = Some k \<and> valid_run k (pk_run s)"
    by (auto simp: pack_inv_def)
  show "decodes (pk_out (flush s)) es"
  proof (cases "pk_run s = []")
    case True
    then show ?thesis using es by (auto simp: flush_def MIN_RUN_def split: option.splits)
  next
    case False
    then obtain k where k: "pk_kind s = Some k" "valid_run k (pk_run s)" using run by auto
    have verb: "decodes (pk_run s) (pk_run s)"
      using k(2) classified_not_row by (intro decodes_verbatim) (auto simp: valid_run_def)
    have "decodes [buildRow k (pk_run s)] (pk_run s)" if "MIN_RUN \<le> length (pk_run s)"
      using decode_built_row [OF k(2) that] by (auto simp: decodes_def)
    with verb show ?thesis
      using es(2) unfolding es(1) by (auto simp: flush_def k(1) intro!: decodes_append)
  qed
  show "pk_run (flush s) = []" by (simp add: flush_def)
qed

lemma packStep_inv:
  assumes inv: "pack_inv s es" and e: "json_wf e" "tag_kind e = None"
  shows "pack_inv (packStep s e) (es @ [e])"
proof (cases "classify e")
  case None
  have "decodes (pk_out (flush s) @ [e]) (es @ [e])"
    using flush_inv(1) [OF inv] decodes_verbatim [of "[e]"] e by (intro decodes_append) simp_all
  then show ?thesis using flush_inv(2) [OF inv]
    by (simp add: packStep_def None Let_def pack_inv_def)
next
  case (Some k)
  have new: "pack_inv ((flush s)\<lparr>pk_kind := Some k, pk_run := [e]\<rparr>) (es @ [e])"
    using flush_inv(1) [OF inv] Some e by (simp add: pack_inv_def valid_run_def)
  have "pack_inv (s\<lparr>pk_run := pk_run s @ [e]\<rparr>) (es @ [e])"
    if c: "pk_kind s = Some k" "pk_run s \<noteq> []" "continues (last (pk_run s)) e k"
    using inv c Some e by (auto simp: pack_inv_def valid_run_def successively_append_iff)
  with new show ?thesis by (auto simp: packStep_def Some)
qed

lemma pack_fold_inv:
  "pack_inv s es \<Longrightarrow> \<forall>e \<in> set xs. json_wf e \<and> tag_kind e = None \<Longrightarrow>
   pack_inv (foldl packStep s xs) (es @ xs)"
proof (induction xs arbitrary: s es)
  case Nil
  then show ?case by simp
next
  case (Cons x xs)
  then have "pack_inv (packStep s x) (es @ [x])" by (intro packStep_inv) simp_all
  from Cons.IH [OF this] Cons.prems(2) show ?case by simp
qed

text \<open>
  C3: the storage encoding of chunk runs is lossless. For every batch of
  well-formed events (none of which carries a storage-row tag) the records \<open>packChunkRuns\<close> writes all
  decode, and the decoded events are the batch, in order: each event either verbatim or deep-equal.
\<close>

theorem chunk_rows_roundtrip:
  assumes "\<forall>e \<in> set es. json_wf e \<and> tag_kind e = None"
  shows "\<exists>ds. decodeAll (packChunkRuns es) = Inr ds
    \<and> list_all2 (\<lambda>e d. e = d \<or> isDeepEqualJson e d) es ds"
proof -
  have "pack_inv \<lparr>pk_out = [], pk_kind = None, pk_run = []\<rparr> []"
    by (simp add: pack_inv_def decodes_def)
  from flush_inv(1) [OF pack_fold_inv [OF this assms]]
  show ?thesis by (simp add: packChunkRuns_def decodes_def same_value_def [abs_def])
qed

definition demo_delta :: "int \<Rightarrow> int \<Rightarrow> string \<Rightarrow> json" where
  "demo_delta sq tm txt =
     JObj [(''seq'', JInt sq), (''type'', JStr ''assistant/chunk''), (''time'', JInt tm),
           (''data'', JObj [(''turn'', JInt 1), (''step'', JInt 1),
              (''chunk'', JObj [(''type'', JStr ''text-delta''), (''index'', JInt 0),
                            (''text'', JStr txt)])])]"

definition demo_batch :: "json list" where
  "demo_batch = [demo_delta 4 100 ''a'', demo_delta 5 103 ''b'', demo_delta 6 99 ''c'',
     JObj [(''type'', JStr ''step/end''), (''seq'', JInt 7)], demo_delta 8 110 ''d'']"

theorem chunk_rows_roundtrip_witness:
  "length (packChunkRuns demo_batch) = 3
   \<and> (\<exists>ds. decodeAll (packChunkRuns demo_batch) = Inr ds
        \<and> list_all2 (\<lambda>e d. e = d \<or> isDeepEqualJson e d) demo_batch ds)"
proof
  show "length (packChunkRuns demo_batch) = 3" by code_simp
  have "\<forall>e \<in> set demo_batch. json_wf e \<and> tag_kind e = None"
    by (simp add: demo_batch_def demo_delta_def tag_kind_def)
  then show "\<exists>ds. decodeAll (packChunkRuns demo_batch) = Inr ds
        \<and> list_all2 (\<lambda>e d. e = d \<or> isDeepEqualJson e d) demo_batch ds"
    by (rule chunk_rows_roundtrip)
qed

subsection \<open>What a row can expand to\<close>

lemma validateRunData_Inr:
  assumes "validateRunData d key = Inr (payload, dt)"
  shows "is_num (field d ''turn'')" "is_num (field d ''step'')" "is_num (field d ''index'')"
    "payload \<noteq> []" "length dt = length payload - 1"
  using assms by (auto simp: validateRunData_def split: if_splits option.splits)

lemma validateData_Inr:
  assumes "validateData k d = Inr (payload, dt)"
  shows "\<exists>key. validateRunData d key = Inr (payload, dt)"
    "k = KToolCall \<Longrightarrow> is_str (field d ''id'') \<and>
       (\<exists>n. field d ''name'' = None \<or> field d ''name'' = Some (JStr n))"
proof -
  show "\<exists>key. validateRunData d key = Inr (payload, dt)"
    using assms by (auto simp: validateData_def Let_def split: if_splits)
  assume k: "k = KToolCall"
  have "hasExactKeys d (tool_row_keys False) \<Longrightarrow> field d ''name'' = None"
    by (rule exact_keys_not [where keys = "tool_row_keys False"]) (auto simp: tool_row_keys_def)
  then show "is_str (field d ''id'') \<and>
       (\<exists>n. field d ''name'' = None \<or> field d ''name'' = Some (JStr n))"
    using assms k by (auto simp: validateData_def Let_def is_str_iff split: if_splits)
qed

lemma classify_member:
  assumes "isSafeInteger sq" "0 \<le> num_to_int sq" "isSafeInteger tm"
    and "k = KToolCall \<longrightarrow> (\<exists>n. field d ''name'' = None \<or> field d ''name'' = Some (JStr n))"
  shows "classify (member_event k d sq tm x) = Some k"
  using assms
  by (cases k) (auto simp: classify_def member_event_def event_keys_def data_keys_def num_at_def
      nonneg_def obj_field_def chunk_of_def member_chunk_def classifyChunk_def text_keys_def
      tool_keys_def name_field_def Let_def split: option.splits)

text \<open>
  C18: a storage row that decodes expands to at least one event, and every
  event it expands to is a whitelisted delta of the row's own kind whose sequence numbers run on
  from the row's anchor: a malformed row never turns into a foreign or misplaced event.
\<close>

theorem decoded_rows_are_deltas:
  assumes "tag_kind v = Some k" and "decodeStorageRecord v = Inr ds"
  shows "ds \<noteq> [] \<and> (\<forall>i < length ds. classify (ds ! i) = Some k
    \<and> num_to_int (num_at (ds ! i) ''seq'') = num_to_int (num_at v ''seq0'') + int i)"
proof -
  let ?d = "obj_field v ''data''" and ?s = "num_at v ''seq0''" and ?t = "num_at v ''time0''"
  from assms obtain payload dt where row: "validateRow v k = Inr (payload, dt)"
    and ds: "ds = expandRow k v payload dt"
    by (auto simp: decodeStorageRecord_def)
  from row have data: "validateData k ?d = Inr (payload, dt)"
    and s0: "is_safe_num (field v ''seq0'')" "0 \<le> num_to_int ?s"
    and t0: "is_safe_num (field v ''time0'')"
    and last: "isSafeInteger (js_add ?s (num_of_int (int (length payload) - 1)))"
    and times: "list_all isSafeInteger (tl (runTimes ?t dt))"
    by (auto simp: validateRow_def nonneg_def simp del: of_int_diff split: if_splits)
  from validateData_Inr [OF data] obtain key where rd: "validateRunData ?d key = Inr (payload, dt)"
    and nm: "k = KToolCall \<longrightarrow> (\<exists>n. field ?d ''name'' = None \<or> field ?d ''name'' = Some (JStr n))"
    by blast
  note r = validateRunData_Inr [OF rd]
  have s: "isSafeInteger ?s" and t: "isSafeInteger ?t"
    using s0 t0 by (auto simp: is_safe_num_iff num_at_def)
  have all_t: "list_all isSafeInteger (runTimes ?t dt)"
    using times t by (cases dt) auto
  have one: "classify (ds ! i) = Some k
      \<and> num_to_int (num_at (ds ! i) ''seq'') = num_to_int ?s + int i" if i: "i < length payload" for i
  proof -
    have "safe_int (num_to_int ?s + (int (length payload) - 1))"
      using last by (simp only: js_add_int [OF s])
    then have "safe_int (num_to_int ?s + int i)" using i s0(2) by (auto simp: safe_int_def)
    then have q: "isSafeInteger (js_add ?s (num_of_int (int i)))"
      "num_to_int (js_add ?s (num_of_int (int i))) = num_to_int ?s + int i"
      by (simp_all only: js_add_int [OF s])
    have "isSafeInteger (runTimes ?t dt ! i)"
      using all_t i r(4,5) by (auto simp: list_all_length)
    with q s0(2) nm have "classify (ds ! i) = Some k"
      unfolding ds expandRow_def Let_def using i
      by (simp del: of_int_of_nat_eq) (rule classify_member; simp del: of_int_of_nat_eq)
    moreover have "num_at (ds ! i) ''seq'' = js_add ?s (num_of_int (int i))"
      unfolding ds expandRow_def Let_def using i
      by (simp add: member_event_def num_at_def del: of_int_of_nat_eq)
    ultimately show ?thesis using q(2) by simp
  qed
  have "length ds = length payload" by (simp add: ds expandRow_def Let_def)
  with one r(4) show ?thesis by auto
qed

theorem decoded_rows_are_deltas_witness:
  "\<exists>ds. decodeStorageRecord (hd (packChunkRuns demo_batch)) = Inr ds \<and> length ds = 3
    \<and> classify (ds ! 2) = Some KText \<and> num_to_int (num_at (ds ! 2) ''seq'') = 6"
proof -
  let ?v = "hd (packChunkRuns demo_batch)"
  have k: "tag_kind ?v = Some KText" by code_simp
  have ok: "is_ok (decodeStorageRecord ?v) \<and> res_map length (decodeStorageRecord ?v) = Inr 3"
    by code_simp
  then obtain ds where ds: "decodeStorageRecord ?v = Inr ds" "length ds = 3" by auto
  have "num_to_int (num_at ?v ''seq0'') = 4" by code_simp
  with decoded_rows_are_deltas [OF k ds(1)] ds show ?thesis by auto
qed

end
