(* ===== verification/Tool_Pairing.thy ===== *)
theory Tool_Pairing
  imports Session_Facts
begin

text \<open>
  Tool-pairing balance over a session surface (\<open>compaction/compaction/src/tool-pairing.ts\<close>): where
  the surface may be cut without separating a tool call from its result. The balance of every cut
  is cached per surface generation and extended as the surface grows; the cache is a cached view
  of the log like the session's own.
\<close>

subsection \<open>State\<close>

record balance_cache =
  bc_generation :: nat
  bc_cutBalanced :: "bool list"
  bc_indexBySeq :: "int \<rightharpoonup> nat"
  bc_inProgressToolCalls :: int

datatype pairing_error =
    NoMatchingEvent int
  | ResultWithoutCall int
  | SeqNotOnSurface int
  | PairingSurface surface_error

subsection \<open>Folding the surface\<close>

fun eventDelta :: "event_data \<Rightarrow> int" where
  "eventDelta (AssistantMessage _ _ m _) = int (length (filter is_tool_call (msg_content m)))"
| "eventDelta (ToolResult _ _ _ _ _) = -1"
| "eventDelta _ = 0"

definition eventForSeq :: "event list \<Rightarrow> int \<Rightarrow> (pairing_error, event) result" where
  "eventForSeq es s =
     (case event_at es s of
        None \<Rightarrow> Inl (NoMatchingEvent s)
      | Some e \<Rightarrow> if ev_seq e \<noteq> s then Inl (NoMatchingEvent s) else Inr e)"

text \<open>The loop over the unseen tail: the balance of each cut and the count after the last.\<close>

primrec foldTail :: "event list \<Rightarrow> int list \<Rightarrow> int \<Rightarrow> (pairing_error, bool list \<times> int) result" where
  "foldTail es [] n = Inr ([], n)"
| "foldTail es (s # ss) n =
     bindE (eventForSeq es s) (\<lambda>e.
       let n' = n + eventDelta (ev_data e) in
       if n' < 0 then Inl (ResultWithoutCall s)
       else res_map (\<lambda>(cuts, k). ((n' = 0) # cuts, k)) (foldTail es ss n'))"

primrec indexFrom :: "nat \<Rightarrow> int list \<Rightarrow> (int \<rightharpoonup> nat) \<Rightarrow> (int \<rightharpoonup> nat)" where
  "indexFrom k [] m = m"
| "indexFrom k (s # ss) m = indexFrom (Suc k) ss (m(s \<mapsto> k))"

definition extendCache :: "event list \<Rightarrow> balance_cache \<Rightarrow> int list \<Rightarrow> (pairing_error, balance_cache) result" where
  "extendCache es cache seqs =
     (let processed = length (bc_cutBalanced cache) - 1;
          tail = drop processed seqs
      in bindE (foldTail es tail (bc_inProgressToolCalls cache)) (\<lambda>(cuts, n).
           Inr (cache\<lparr>bc_indexBySeq := indexFrom processed tail (bc_indexBySeq cache),
                      bc_cutBalanced := bc_cutBalanced cache @ cuts,
                      bc_inProgressToolCalls := n\<rparr>)))"

definition emptyCache :: "nat \<Rightarrow> balance_cache" where
  "emptyCache g = \<lparr>bc_generation = g, bc_cutBalanced = [True], bc_indexBySeq = Map.empty,
     bc_inProgressToolCalls = 0\<rparr>"

subsection \<open>Queries\<close>

text \<open>A session and its entry in the weak map of caches; a throwing query leaves both as they were.\<close>

type_synonym paired_session = "session \<times> balance_cache option"

definition rebuilds :: "balance_cache option \<Rightarrow> nat \<Rightarrow> int list \<Rightarrow> bool" where
  "rebuilds cached generation seqs =
     (case cached of None \<Rightarrow> True
      | Some c \<Rightarrow> bc_generation c \<noteq> generation \<or> length seqs < length (bc_cutBalanced c) - 1)"

definition pairing_res :: "(surface_error, 'a) result \<Rightarrow> (pairing_error, 'a) result" where
  "pairing_res r = (case r of Inl e \<Rightarrow> Inl (PairingSurface e) | Inr x \<Rightarrow> Inr x)"

definition balanceCache :: "paired_session \<Rightarrow> (pairing_error, paired_session \<times> balance_cache) result" where
  "balanceCache p =
     (case p of (s, cached) \<Rightarrow>
      bindE (pairing_res (readSurface (ses_mgr s))) (\<lambda>(m, st).
        let s1 = s\<lparr>ses_mgr := m\<rparr>; seqs = nodes st; generation = replaceGeneration st in
        if rebuilds cached generation seqs
        then (case events s1 of (s2, es) \<Rightarrow>
          bindE (extendCache es (emptyCache generation) seqs) (\<lambda>c. Inr ((s2, Some c), c)))
        else let c = the cached in
          if length (bc_cutBalanced c) - 1 < length seqs
          then (case events s1 of (s2, es) \<Rightarrow>
            bindE (extendCache es c seqs) (\<lambda>c'. Inr ((s2, Some c'), c')))
          else Inr ((s1, cached), c)))"

definition cutBalance :: "balance_cache \<Rightarrow> int \<Rightarrow> nat \<Rightarrow> (pairing_error, bool) result" where
  "cutBalance c s offset =
     (case bc_indexBySeq c s of
        None \<Rightarrow> Inl (SeqNotOnSurface s)
      | Some i \<Rightarrow> if i + offset < length (bc_cutBalanced c) then Inr (bc_cutBalanced c ! (i + offset))
                  else Inl (SeqNotOnSurface s))"

definition toolPairingBalancedBefore :: "int \<Rightarrow> paired_session \<Rightarrow> (pairing_error, paired_session \<times> bool) result" where
  "toolPairingBalancedBefore s p =
     bindE (balanceCache p) (\<lambda>(p', c). res_map (\<lambda>b. (p', b)) (cutBalance c s 0))"

definition toolPairingBalancedAfter :: "int \<Rightarrow> paired_session \<Rightarrow> (pairing_error, paired_session \<times> bool) result" where
  "toolPairingBalancedAfter s p =
     bindE (balanceCache p) (\<lambda>(p', c). res_map (\<lambda>b. (p', b)) (cutBalance c s 1))"

subsection \<open>What the cache is a cache of\<close>

definition rebuild :: "event list \<Rightarrow> int list \<Rightarrow> nat \<Rightarrow> (pairing_error, balance_cache) result" where
  "rebuild es ns g = extendCache es (emptyCache g) ns"

definition balance_of_log :: "event list \<Rightarrow> (pairing_error, balance_cache) result" where
  "balance_of_log es =
     bindE (pairing_res (fold_state es)) (\<lambda>st. rebuild es (nodes st) (replaceGeneration st))"

text \<open>Calls minus results over a list of surface nodes.\<close>

definition open_calls :: "event list \<Rightarrow> int list \<Rightarrow> int" where
  "open_calls es ns = sum_list (map (\<lambda>s. case event_at es s of None \<Rightarrow> 0 | Some e \<Rightarrow> eventDelta (ev_data e)) ns)"

lemma pairing_res_simps [simp]:
  "pairing_res (Inl e) = Inl (PairingSurface e)" "pairing_res (Inr x) = Inr x"
  by (simp_all add: pairing_res_def)

lemma foldTail_append:
  "foldTail es (xs @ ys) n = bindE (foldTail es xs n) (\<lambda>(cs, k).
     res_map (\<lambda>(cs', k'). (cs @ cs', k')) (foldTail es ys k))"
proof (induction xs arbitrary: n)
  case Nil
  then show ?case by (cases "foldTail es ys n") auto
next
  case (Cons x xs)
  show ?case
  proof (cases "eventForSeq es x")
    case (Inr e)
    let ?n = "n + eventDelta (ev_data e)"
    show ?thesis
      by (cases "foldTail es xs ?n"; cases "foldTail es ys (snd (projr (foldTail es xs ?n)))")
        (auto simp: Inr Let_def Cons.IH)
  qed simp
qed

lemma foldTail_length: "foldTail es ss n = Inr (cs, k) \<Longrightarrow> length cs = length ss"
  by (induction ss arbitrary: n cs) (auto simp: Let_def split: if_splits)

lemma indexFrom_append: "indexFrom k (xs @ ys) m = indexFrom (k + length xs) ys (indexFrom k xs m)"
  by (induction xs arbitrary: k m) simp_all

lemma rebuild_eq:
  "rebuild es ns g = res_map (\<lambda>(cs, n). \<lparr>bc_generation = g, bc_cutBalanced = True # cs,
     bc_indexBySeq = indexFrom 0 ns Map.empty, bc_inProgressToolCalls = n\<rparr>) (foldTail es ns 0)"
  by (cases "foldTail es ns 0") (auto simp: rebuild_def extendCache_def emptyCache_def)

lemma rebuild_length: "rebuild es ns g = Inr c \<Longrightarrow> length (bc_cutBalanced c) = Suc (length ns)"
  by (auto simp: rebuild_eq dest: foldTail_length)

lemma rebuild_generation: "rebuild es ns g = Inr c \<Longrightarrow> bc_generation c = g"
  by (auto simp: rebuild_eq)

text \<open>Extending the cache of a prefix is rebuilding it from the whole.\<close>

lemma extend_prefix:
  assumes "rebuild es (take j ns) g = Inr c" "j \<le> length ns"
  shows "extendCache es c ns = rebuild es ns g"
proof -
  from assms(1) obtain cs n where f: "foldTail es (take j ns) 0 = Inr (cs, n)"
    and c: "c = \<lparr>bc_generation = g, bc_cutBalanced = True # cs,
       bc_indexBySeq = indexFrom 0 (take j ns) Map.empty, bc_inProgressToolCalls = n\<rparr>"
    by (auto simp: rebuild_eq)
  have l: "length cs = j" using foldTail_length [OF f] assms(2) by simp
  have "foldTail es ns 0 = res_map (\<lambda>(cs', k). (cs @ cs', k)) (foldTail es (drop j ns) n)"
    using foldTail_append [of es "take j ns" "drop j ns" 0] f by simp
  moreover have "indexFrom 0 ns Map.empty = indexFrom j (drop j ns) (indexFrom 0 (take j ns) Map.empty)"
    using indexFrom_append [of 0 "take j ns" "drop j ns" Map.empty] assms(2) by simp
  ultimately show ?thesis
    by (cases "foldTail es (drop j ns) n") (auto simp: rebuild_eq extendCache_def c l)
qed

lemma foldTail_log_extend:
  "\<forall>s \<in> set ns. 0 \<le> s \<and> s < int (length es) \<Longrightarrow> foldTail (es @ xs) ns n = foldTail es ns n"
proof (induction ns arbitrary: n)
  case (Cons s ns)
  then have "eventForSeq (es @ xs) s = eventForSeq es s"
    by (simp add: eventForSeq_def event_at_def nth_append nat_less_iff)
  with Cons show ?case by (cases "eventForSeq es s") (simp_all add: Let_def)
qed simp

lemma rebuild_log_extend:
  "\<forall>s \<in> set ns. 0 \<le> s \<and> s < int (length es) \<Longrightarrow> rebuild (es @ xs) ns g = rebuild es ns g"
  by (simp add: rebuild_eq foldTail_log_extend)

subsection \<open>The cache as a view of the log\<close>

definition pairing_inv :: "paired_session \<Rightarrow> bool" where
  "pairing_inv p =
     (case p of (s, cached) \<Rightarrow> mgr_inv (ses_mgr s)
        \<and> (ses_eventsSnapshot s = None \<or> ses_eventsSnapshot s = Some (ses_log s))
        \<and> (\<forall>c st. cached = Some c \<and> fold_state (ses_log s) = Inr st \<longrightarrow>
             bc_generation c \<le> replaceGeneration st
             \<and> (bc_generation c = replaceGeneration st \<longrightarrow>
                  (\<exists>j \<le> length (nodes st). rebuild (ses_log s) (take j (nodes st)) (bc_generation c) = Inr c))))"

definition push_paired :: "paired_session \<Rightarrow> event \<Rightarrow> paired_session" where
  "push_paired p e = (commitAppend (fst p) e, snd p)"

definition log_paired :: "paired_session \<Rightarrow> event list" where
  "log_paired p = ses_log (fst p)"

lemma cached_commit:
  assumes f: "fold_state (es @ [e]) = Inr st'"
    and inv: "\<And>st. fold_state es = Inr st \<Longrightarrow> bc_generation c \<le> replaceGeneration st
      \<and> (bc_generation c = replaceGeneration st \<longrightarrow>
           (\<exists>j \<le> length (nodes st). rebuild es (take j (nodes st)) (bc_generation c) = Inr c))"
  shows "bc_generation c \<le> replaceGeneration st'
    \<and> (bc_generation c = replaceGeneration st' \<longrightarrow>
         (\<exists>j \<le> length (nodes st'). rebuild (es @ [e]) (take j (nodes st')) (bc_generation c) = Inr c))"
proof -
  from f obtain st where st: "fold_state es = Inr st"
    and step: "replaceGeneration st' = replaceGeneration st \<and> (\<exists>ys. nodes st' = nodes st @ ys)
      \<or> replaceGeneration st' = Suc (replaceGeneration st)"
    by (rule fold_state_snoc_cases)
  from step show ?thesis
  proof
    assume same: "replaceGeneration st' = replaceGeneration st \<and> (\<exists>ys. nodes st' = nodes st @ ys)"
    then obtain ys where ys: "nodes st' = nodes st @ ys" by blast
    have "\<exists>j \<le> length (nodes st'). rebuild (es @ [e]) (take j (nodes st')) (bc_generation c) = Inr c"
      if "j \<le> length (nodes st)" "rebuild es (take j (nodes st)) (bc_generation c) = Inr c" for j
    proof (intro exI conjI)
      show "j \<le> length (nodes st')" using that(1) ys by simp
      have "\<forall>s \<in> set (take j (nodes st)). 0 \<le> s \<and> s < int (length es)"
        using fold_state_bound [OF st] by (auto dest: in_set_takeD)
      then show "rebuild (es @ [e]) (take j (nodes st')) (bc_generation c) = Inr c"
        using that ys by (simp add: rebuild_log_extend)
    qed
    then show ?thesis using inv [OF st] same by auto
  next
    assume "replaceGeneration st' = Suc (replaceGeneration st)"
    then show ?thesis using inv [OF st] by auto
  qed
qed

lemma pairing_inv_push: "pairing_inv p \<Longrightarrow> pairing_inv (push_paired p e)"
proof (cases p)
  case (Pair s cached)
  assume inv: "pairing_inv p"
  then show ?thesis
    using cached_commit [of "ses_log s" e]
    by (auto simp: Pair pairing_inv_def push_paired_def mgr_inv_push)
qed

lemma events_log:
  assumes "ses_eventsSnapshot s = None \<or> ses_eventsSnapshot s = Some (ses_log s)"
  shows "\<exists>s2. events s = (s2, ses_log s) \<and> ses_mgr s2 = ses_mgr s
    \<and> (ses_eventsSnapshot s2 = Some (ses_log s))"
  using assms by (auto simp: events_def split: option.splits)

lemma pairing_read:
  assumes inv: "pairing_inv p"
  shows "case balanceCache p of Inl err \<Rightarrow> balance_of_log (log_paired p) = Inl err
    | Inr (p', c) \<Rightarrow> balance_of_log (log_paired p) = Inr c \<and> pairing_inv p' \<and> log_paired p' = log_paired p"
proof -
  obtain s cached where p: "p = (s, cached)" by (cases p)
  have mi: "mgr_inv (ses_mgr s)" using inv by (simp add: p pairing_inv_def)
  show ?thesis
  proof (cases "readSurface (ses_mgr s)")
    case (Inl err)
    with surface_view.read_spec [OF mi] show ?thesis
      by (simp add: p balanceCache_def balance_of_log_def log_paired_def ses_log_def)
  next
    case (Inr q)
    obtain m st where q: "q = (m, st)" by (cases q)
    with Inr surface_view.read_spec [OF mi]
    have st: "fold_state (ses_log s) = Inr st" and m: "mgr_inv m" "mgr_log m = ses_log s"
      by (simp_all add: ses_log_def)
    define s1 where "s1 = s\<lparr>ses_mgr := m\<rparr>"
    have log1: "ses_log s1 = ses_log s" and snap1: "ses_eventsSnapshot s1 = ses_eventsSnapshot s"
      and mgr1: "ses_mgr s1 = m"
      by (simp_all add: s1_def ses_log_def m(2) [unfolded ses_log_def])
    have "ses_eventsSnapshot s1 = None \<or> ses_eventsSnapshot s1 = Some (ses_log s1)"
      using inv by (auto simp: p pairing_inv_def snap1 log1)
    from events_log [OF this] obtain s2 where s2: "events s1 = (s2, ses_log s)" "ses_mgr s2 = m"
      "ses_eventsSnapshot s2 = Some (ses_log s)" by (auto simp: log1 mgr1)
    have log2: "ses_log s2 = ses_log s" using s2(2) m(2) by (simp add: ses_log_def)
    let ?R = "rebuild (ses_log s) (nodes st) (replaceGeneration st)"
    have spec: "balance_of_log (log_paired p) = ?R"
      by (simp add: p balance_of_log_def log_paired_def st)
    have fresh: "pairing_inv (s2, Some c)" if "?R = Inr c" for c
      using that rebuild_generation [OF that] m(1) st s2(2,3)
      by (auto simp: pairing_inv_def log2 intro!: exI [of _ "length (nodes st)"])
    have run: "balanceCache p = (if rebuilds cached (replaceGeneration st) (nodes st)
        then bindE ?R (\<lambda>c. Inr ((s2, Some c), c))
        else if length (bc_cutBalanced (the cached)) - 1 < length (nodes st)
          then bindE (extendCache (ses_log s) (the cached) (nodes st)) (\<lambda>c'. Inr ((s2, Some c'), c'))
          else Inr ((s1, cached), the cached))"
      by (simp add: p balanceCache_def Inr q Let_def s1_def [symmetric] s2(1) rebuild_def)
    show ?thesis
    proof (cases "rebuilds cached (replaceGeneration st) (nodes st)")
      case True
      with run spec fresh show ?thesis
        by (cases ?R) (simp_all add: p log_paired_def log2)
    next
      case False
      then obtain c where c: "cached = Some c" "bc_generation c = replaceGeneration st"
        by (auto simp: rebuilds_def split: option.splits)
      with inv st obtain j where j: "j \<le> length (nodes st)"
        "rebuild (ses_log s) (take j (nodes st)) (replaceGeneration st) = Inr c"
        by (auto simp: p pairing_inv_def)
      have lj: "length (bc_cutBalanced c) - 1 = j" using rebuild_length [OF j(2)] j(1) by simp
      note ext = extend_prefix [OF j(2,1)]
      show ?thesis
      proof (cases "j < length (nodes st)")
        case True
        with run False lj c(1) ext spec fresh show ?thesis
          by (cases ?R) (simp_all add: p log_paired_def log2)
      next
        case full: False
        then have "?R = Inr c" using j by simp
        moreover have "pairing_inv (s1, cached)"
          using inv st m(1) by (auto simp: p pairing_inv_def log1 snap1 mgr1)
        moreover have "balanceCache p = Inr ((s1, cached), c)" using run False lj c(1) full by simp
        ultimately show ?thesis using spec by (simp add: p log_paired_def log1)
      qed
    qed
  qed
qed

interpretation pairing_view: incremental_view
  log_paired push_paired balanceCache balance_of_log pairing_inv
proof unfold_locales
  show "log_paired (push_paired p e) = log_paired p @ [e]" for p e
    by (simp add: log_paired_def push_paired_def)
qed (rule pairing_inv_push pairing_read, assumption)+

subsection \<open>What the balance says\<close>

definition first_unmatched :: "event list \<Rightarrow> int list \<Rightarrow> nat option" where
  "first_unmatched es ns = find_index (\<lambda>k. open_calls es (take (Suc k) ns) < 0) [0..<length ns]"

text \<open>
  The answer a query should give: an error naming the first result without a call, or else whether
  as many results as calls stand before the cut.
\<close>

definition cut_answer :: "event list \<Rightarrow> int list \<Rightarrow> int \<Rightarrow> nat \<Rightarrow> (pairing_error, bool) result" where
  "cut_answer es ns s offset =
     (case first_unmatched es ns of
        Some k \<Rightarrow> Inl (ResultWithoutCall (ns ! k))
      | None \<Rightarrow> (case find_index (\<lambda>n. n = s) ns of
          None \<Rightarrow> Inl (SeqNotOnSurface s)
        | Some i \<Rightarrow> Inr (open_calls es (take (i + offset) ns) = 0)))"

lemma open_calls_simps [simp]:
  "open_calls es [] = 0"
  "open_calls es (s # ss) =
     (case event_at es s of None \<Rightarrow> 0 | Some e \<Rightarrow> eventDelta (ev_data e)) + open_calls es ss"
  "open_calls es (xs @ ys) = open_calls es xs + open_calls es ys"
  by (simp_all add: open_calls_def)

definition seqs_match :: "event list \<Rightarrow> int list \<Rightarrow> bool" where
  "seqs_match es ns = (\<forall>s \<in> set ns. \<exists>e. event_at es s = Some e \<and> ev_seq e = s)"

lemma foldTail_cuts:
  assumes "seqs_match es ns"
  shows "foldTail es ns n =
    (case find_index (\<lambda>k. n + open_calls es (take (Suc k) ns) < 0) [0..<length ns] of
       Some k \<Rightarrow> Inl (ResultWithoutCall (ns ! k))
     | None \<Rightarrow> Inr (map (\<lambda>k. n + open_calls es (take (Suc k) ns) = 0) [0..<length ns], n + open_calls es ns))"
  using assms
proof (induction ns arbitrary: n)
  case (Cons s ns)
  from Cons.prems obtain e where e: "event_at es s = Some e" "ev_seq e = s"
    and m: "seqs_match es ns" by (auto simp: seqs_match_def)
  let ?d = "eventDelta (ev_data e)"
  have u: "[0..<length (s # ns)] = 0 # map Suc [0..<length ns]"
    by (simp add: upt_conv_Cons map_Suc_upt del: upt_Suc)
  have fi: "find_index P (map Suc xs) = map_option id (find_index (\<lambda>k. P (Suc k)) xs)" for P xs
    by (induction xs) (auto simp: option.map_comp comp_def)
  show ?case
    unfolding u using Cons.IH [OF m, of "n + ?d"]
    by (cases "find_index (\<lambda>k. n + ?d + open_calls es (take (Suc k) ns) < 0) [0..<length ns]")
      (simp_all add: e eventForSeq_def Let_def fi add.assoc comp_def)
qed simp

lemma indexFrom_lookup:
  assumes "distinct ns"
  shows "indexFrom k ns m s = (case find_index (\<lambda>n. n = s) ns of Some i \<Rightarrow> Some (k + i) | None \<Rightarrow> m s)"
  using assms
proof (induction ns arbitrary: k m)
  case (Cons n ns)
  then have "find_index (\<lambda>x. x = n) ns = None" by (auto simp: find_index_None)
  with Cons show ?case by (auto split: option.splits)
qed simp

lemma cutBalance_rebuild:
  assumes m: "seqs_match es ns" and d: "distinct ns" and o: "offset \<le> 1"
  shows "bindE (rebuild es ns g) (\<lambda>c. cutBalance c s offset) = cut_answer es ns s offset"
proof (cases "first_unmatched es ns")
  case (Some k)
  then show ?thesis
    by (simp add: cut_answer_def rebuild_eq foldTail_cuts [OF m] first_unmatched_def)
next
  case None
  have cuts: "(True # map (\<lambda>k. open_calls es (take (Suc k) ns) = 0) [0..<length ns]) ! i
      = (open_calls es (take i ns) = 0)" if "i \<le> length ns" for i
    using that by (cases i) simp_all
  have "i + offset \<le> length ns" if "find_index (\<lambda>n. n = s) ns = Some i" for i
    using find_index_Some_less [OF that] o by simp
  with None cuts show ?thesis
    by (auto simp: cut_answer_def rebuild_eq foldTail_cuts [OF m] first_unmatched_def cutBalance_def
        indexFrom_lookup [OF d] less_Suc_eq_le split: option.split)
qed

lemma fold_seqs_match:
  assumes "fold_state es = Inr st"
  shows "seqs_match es (nodes st)"
  using fold_state_bound [OF assms] fold_state_nth_seq [OF assms]
  by (auto simp: seqs_match_def event_at_def)

subsection \<open>Histories\<close>

datatype pair_call = PairSession session_call | PairBefore int | PairAfter int

text \<open>One call; a throwing query leaves session and cache as they were.\<close>

fun pair_step :: "paired_session \<Rightarrow> pair_call \<Rightarrow> paired_session" where
  "pair_step p (PairSession c) = (session_step (fst p) c, snd p)"
| "pair_step p (PairBefore s) = keep_on_error p (res_map fst (toolPairingBalancedBefore s p))"
| "pair_step p (PairAfter s) = keep_on_error p (res_map fst (toolPairingBalancedAfter s p))"

definition paired_inv :: "paired_session \<Rightarrow> bool" where
  "paired_inv p = (session_inv (fst p) \<and> pairing_inv p)"

lemma session_step_log:
  assumes "session_inv s"
  shows "ses_log (session_step s c) = ses_log s \<or> (\<exists>e. ses_log (session_step s c) = ses_log s @ [e])"
proof (cases c)
  case (CallAppend now d op srcs)
  then show ?thesis using append_inv [OF assms, of now d op srcs]
    by (auto simp: keep_on_error_def split: sum.splits)
next
  case CallEvents
  then show ?thesis by (simp add: events_def ses_log_def split: option.splits)
next
  case CallDeriveMessages
  then show ?thesis using derived_view.read_spec [of s] session_invD(3) [OF assms]
    by (auto simp: keep_on_error_def split: sum.splits)
qed (simp_all add: requestHeader_others requestContext_others)

lemma pairing_inv_session:
  assumes "session_inv s'" "pairing_inv (s, cached)"
    and "ses_log s' = ses_log s \<or> (\<exists>e. ses_log s' = ses_log s @ [e])"
  shows "pairing_inv (s', cached)"
proof -
  have base: "mgr_inv (ses_mgr s')" "ses_eventsSnapshot s' = None \<or> ses_eventsSnapshot s' = Some (ses_log s')"
    using assms(1) by (auto simp: session_inv_def derived_inv_def)
  from assms(3) show ?thesis
  proof
    assume "ses_log s' = ses_log s"
    then show ?thesis using base assms(2) by (simp add: pairing_inv_def)
  next
    assume "\<exists>e. ses_log s' = ses_log s @ [e]"
    then obtain e where "ses_log s' = ses_log s @ [e]" by blast
    then show ?thesis using base assms(2) cached_commit [of "ses_log s" e]
      by (auto simp: pairing_inv_def)
  qed
qed

lemma balanceCache_session:
  assumes inv: "paired_inv p" and r: "balanceCache p = Inr (p', c)"
  shows "paired_inv p'"
proof -
  obtain s cached where p: "p = (s, cached)" by (cases p)
  have si: "session_inv s" using inv by (simp add: p paired_inv_def)
  have "pairing_inv p'" using pairing_read [of p] inv r by (simp add: paired_inv_def)
  moreover from r obtain m st where q: "readSurface (ses_mgr s) = Inr (m, st)"
    by (cases "readSurface (ses_mgr s)") (auto simp: p balanceCache_def)
  have "mgr_inv (ses_mgr s)" using session_invD(4) [OF si] .
  with surface_view.read_spec [of "ses_mgr s"] q have m: "mgr_inv m" "mgr_log m = ses_log s"
    by (simp_all add: ses_log_def)
  have s1: "session_inv (s\<lparr>ses_mgr := m\<rparr>)" by (rule session_inv_mgr [OF si m])
  have "fst p' = s\<lparr>ses_mgr := m\<rparr> \<or> fst p' = fst (events (s\<lparr>ses_mgr := m\<rparr>))"
    using r by (auto simp: p balanceCache_def q Let_def split: if_splits prod.splits)
  with s1 events_inv [OF s1] have "session_inv (fst p')" by auto
  ultimately show ?thesis by (simp add: paired_inv_def)
qed

lemma query_inv:
  assumes "paired_inv p"
  shows "toolPairingBalancedBefore s p = Inr (p', b) \<Longrightarrow> paired_inv p'"
    and "toolPairingBalancedAfter s p = Inr (p', b) \<Longrightarrow> paired_inv p'"
  using balanceCache_session [OF assms]
  by (auto simp: toolPairingBalancedBefore_def toolPairingBalancedAfter_def)

lemma pair_step_inv: "paired_inv p \<Longrightarrow> paired_inv (pair_step p c)"
proof (cases c)
  case (PairSession sc)
  assume inv: "paired_inv p"
  then have si: "session_inv (fst p)" by (simp add: paired_inv_def)
  have "pairing_inv (session_step (fst p) sc, snd p)"
    by (rule pairing_inv_session [OF session_step_inv [OF si] _ session_step_log [OF si]])
      (use inv in \<open>simp add: paired_inv_def\<close>)
  then show ?thesis by (simp add: PairSession paired_inv_def session_step_inv [OF si])
qed (auto simp: keep_on_error_def dest: query_inv split: sum.splits)

lemma pair_run_inv: "paired_inv p \<Longrightarrow> paired_inv (foldl pair_step p cs)"
  by (induction cs arbitrary: p) (simp_all add: pair_step_inv)

lemma paired_start:
  assumes "session_inv s0" shows "paired_inv (s0, None)"
  using assms by (auto simp: paired_inv_def pairing_inv_def session_inv_def derived_inv_def)

lemma query_value:
  assumes "paired_inv p" "fold_state (ses_log (fst p)) = Inr st"
  shows "res_map snd (toolPairingBalancedBefore s p) = cut_answer (ses_log (fst p)) (nodes st) s 0"
    and "res_map snd (toolPairingBalancedAfter s p) = cut_answer (ses_log (fst p)) (nodes st) s 1"
proof -
  let ?es = "ses_log (fst p)"
  have pi: "pairing_inv p" using assms(1) by (simp add: paired_inv_def)
  have view: "res_map snd (balanceCache p) = rebuild ?es (nodes st) (replaceGeneration st)"
    using pairing_view.read_value [OF pi] assms(2) by (simp add: log_paired_def balance_of_log_def)
  have m: "seqs_match ?es (nodes st)" by (rule fold_seqs_match [OF assms(2)])
  have d: "distinct (nodes st)" using fold_state_inv [OF assms(2)] by (simp add: surface_inv_def)
  have gen: "res_map snd (bindE (balanceCache p) (\<lambda>(p', c). res_map (\<lambda>b. (p', b)) (cutBalance c s k)))
      = bindE (res_map snd (balanceCache p)) (\<lambda>c. cutBalance c s k)" for k
    by (cases "balanceCache p"; cases "cutBalance (snd (projr (balanceCache p))) s k") auto
  show "res_map snd (toolPairingBalancedBefore s p) = cut_answer ?es (nodes st) s 0"
    "res_map snd (toolPairingBalancedAfter s p) = cut_answer ?es (nodes st) s 1"
    unfolding toolPairingBalancedBefore_def toolPairingBalancedAfter_def gen view
    by (simp_all add: cutBalance_rebuild [OF m d])
qed

text \<open>
  C19: the cached balance answers what a scan of the current surface answers.
  After any history of appends, reads and balance queries, a cut is reported balanced exactly when
  as many tool results as tool calls stand before it on the current surface; a result without a
  call is reported at its first occurrence, and a sequence that is not on the surface is refused.
\<close>

theorem pairing_balance_agrees:
  assumes "newSession mode sid seed header now = Inr s0" and p_def: "p = foldl pair_step (s0, None) cs"
    and st: "fold_state (ses_log (fst p)) = Inr st"
  shows "res_map snd (toolPairingBalancedBefore n p) = cut_answer (ses_log (fst p)) (nodes st) n 0
    \<and> res_map snd (toolPairingBalancedAfter n p) = cut_answer (ses_log (fst p)) (nodes st) n 1"
proof -
  have "paired_inv p"
    unfolding p_def by (rule pair_run_inv [OF paired_start [OF newSession_inv(1) [OF assms(1)]]])
  from query_value [OF this st] show ?thesis by blast
qed

subsection \<open>A concrete surface\<close>

definition tool_log :: "event list" where
  "tool_log =
     [append_event 0 (UserMessage (demo_message ''u1'' RoleUser SourceUser [TextBlock ''go''])),
      append_event 1 (AssistantMessage 1 1 (demo_message ''a1'' RoleAssistant
        (SourceModel ''p'' ''m'' None) [ToolCallBlock ''c1'' ''read'' ''{}'']) None),
      append_event 2 (ToolResult 1 1 (demo_message ''t1'' RoleUser (SourceTool ''c1'')
        [ToolResultBlock ''c1'' [TextBlock ''ok''] None]) None None)]"

definition tool_calls :: "pair_call list" where
  "tool_calls = [PairBefore 1, PairSession (CallAppend 5 (UserMessage (demo_message ''u2'' RoleUser
     SourceUser [TextBlock ''more''])) (Some (JStr ''append'')) None), PairAfter 2]"

lemma tool_session_facts:
  "case newSession SnapshotSeed ''s1'' (Some tool_log) None 9 of Inl _ \<Rightarrow> False
   | Inr s0 \<Rightarrow> (let p = foldl pair_step (s0, None) tool_calls in
       case fold_state (ses_log (fst p)) of Inl _ \<Rightarrow> False
       | Inr st \<Rightarrow> nodes st = [0, 1, 2, 4] \<and> cut_answer (ses_log (fst p)) (nodes st) 2 0 = Inr False
           \<and> cut_answer (ses_log (fst p)) (nodes st) 2 1 = Inr True)"
  by code_simp

theorem pairing_balance_agrees_witness:
  "\<exists>s0 p. newSession SnapshotSeed ''s1'' (Some tool_log) None 9 = Inr s0
    \<and> p = foldl pair_step (s0, None) tool_calls
    \<and> res_map snd (toolPairingBalancedBefore 2 p) = Inr False
    \<and> res_map snd (toolPairingBalancedAfter 2 p) = Inr True"
proof -
  obtain s0 where s0: "newSession SnapshotSeed ''s1'' (Some tool_log) None 9 = Inr s0"
    using tool_session_facts by (cases "newSession SnapshotSeed ''s1'' (Some tool_log) None 9") auto
  define p where "p = foldl pair_step (s0, None) tool_calls"
  obtain st where st: "fold_state (ses_log (fst p)) = Inr st"
    and a: "cut_answer (ses_log (fst p)) (nodes st) 2 0 = Inr False"
      "cut_answer (ses_log (fst p)) (nodes st) 2 1 = Inr True"
    using tool_session_facts s0
    by (cases "fold_state (ses_log (fst p))") (auto simp: p_def Let_def)
  from pairing_balance_agrees [OF s0 p_def st, of 2] s0 p_def a show ?thesis by auto
qed

end
