(* ===== verification/Repair.thy ===== *)
theory Repair
  imports Session_Trace
begin

text \<open>
  Crash-recovery repair (\<open>core/session/src/repair.ts\<close>): the scan of a durable log for an open
  tail turn and the synthetic events that close it.
\<close>

text \<open>A pending call: the step that requested it and the seq of its \<open>tool/call\<close>, once recorded.\<close>

record pending_call =
  pc_step :: int
  pc_callSeq :: "int option"

record repair_state =
  rp_openTurn :: "int option"
  rp_openStep :: "int option"
  rp_pending :: "(string \<times> pending_call) list"

definition repair_start :: repair_state where
  "repair_start = \<lparr>rp_openTurn = None, rp_openStep = None, rp_pending = []\<rparr>"

fun register_calls :: "int \<Rightarrow> content_block list \<Rightarrow> (string \<times> pending_call) list
    \<Rightarrow> (string \<times> pending_call) list" where
  "register_calls step [] ps = ps"
| "register_calls step (ToolCallBlock c nm args # bs) ps =
     register_calls step bs (omap_set c \<lparr>pc_step = step, pc_callSeq = None\<rparr> ps)"
| "register_calls step (_ # bs) ps = register_calls step bs ps"

fun scan_data :: "repair_state \<Rightarrow> int \<Rightarrow> event_data \<Rightarrow> repair_state" where
  "scan_data s seq (TurnStart turn) =
     \<lparr>rp_openTurn = Some turn, rp_openStep = None, rp_pending = []\<rparr>"
| "scan_data s seq (TurnEnd turn reason) =
     \<lparr>rp_openTurn = None, rp_openStep = None, rp_pending = []\<rparr>"
| "scan_data s seq (StepStart turn step) = s\<lparr>rp_openStep := Some step\<rparr>"
| "scan_data s seq (StepEnd turn step) = s\<lparr>rp_pending := [], rp_openStep := None\<rparr>"
| "scan_data s seq (AssistantMessage turn step m u) =
     s\<lparr>rp_pending := register_calls step (msg_content m) (rp_pending s)\<rparr>"
| "scan_data s seq (ToolCall turn step callId nm args) =
     (case map_of (rp_pending s) callId of
        None \<Rightarrow> s
      | Some entry \<Rightarrow> s\<lparr>rp_pending := omap_set callId (entry\<lparr>pc_callSeq := Some seq\<rparr>) (rp_pending s)\<rparr>)"
| "scan_data s seq (ToolResult turn step m err meta) =
     s\<lparr>rp_pending := omap_delete (result_call_id m) (rp_pending s)\<rparr>"
| "scan_data s seq _ = s"

definition scan_event :: "repair_state \<Rightarrow> event \<Rightarrow> repair_state" where
  "scan_event s e = scan_data s (ev_seq e) (ev_data e)"

definition scan_log :: "event list \<Rightarrow> repair_state" where
  "scan_log es = foldl scan_event repair_start es"

definition unknown_text :: string where
  "unknown_text = ''The tool call was interrupted after it was recorded, but no result was durably recorded. Its outcome is unknown. Decide whether to retry from the tool semantics: retry only if the operation is read-only or idempotent; if it may have side effects, first verify external state or ask the user. Do not retry blindly.''"

definition not_started_text :: string where
  "not_started_text = ''The tool call was interrupted before the Harness recorded it as started. Retry it if it is still needed.''"

definition closer_message :: "string \<Rightarrow> int \<Rightarrow> bool \<Rightarrow> message" where
  "closer_message callId seq started =
     \<lparr>msg_id = ''interrupted-tool-result-'' @ callId @ ''-'' @ show_int seq,
      msg_role = RoleUser,
      msg_content = [ToolResultBlock callId
        [TextBlock (if started then unknown_text else not_started_text)] (Some True)],
      msg_source = SourceTool callId\<rparr>"

definition closer_result :: "int \<Rightarrow> int \<Rightarrow> int \<Rightarrow> string \<times> pending_call \<Rightarrow> event" where
  "closer_result turn time seq p =
     (case p of (callId, pc) \<Rightarrow>
       \<lparr>ev_seq = seq, ev_time = time,
        ev_data = ToolResult turn (pc_step pc) (closer_message callId seq (pc_callSeq pc \<noteq> None))
          (Some (if pc_callSeq pc \<noteq> None then (''ToolOutcomeUnknownError'', TOOL_OUTCOME_UNKNOWN)
                 else (''ToolNotStartedError'', TOOL_NOT_STARTED))) None,
        ev_surfaceOp = Some (JStr ''append''),
        ev_sourceEventSeqs = (case pc_callSeq pc of None \<Rightarrow> None | Some q \<Rightarrow> Some (JArr [JInt q]))\<rparr>)"

primrec closer_results :: "int \<Rightarrow> int \<Rightarrow> int \<Rightarrow> (string \<times> pending_call) list \<Rightarrow> event list" where
  "closer_results turn time seq [] = []"
| "closer_results turn time seq (p # ps) =
     closer_result turn time seq p # closer_results turn time (seq + 1) ps"

definition boundary_closers :: "int \<Rightarrow> int \<Rightarrow> int \<Rightarrow> int option \<Rightarrow> event list" where
  "boundary_closers turn time seq openStep =
     (case openStep of
        None \<Rightarrow> [plain_event seq time (TurnEnd turn Interrupted)]
      | Some step \<Rightarrow> [plain_event seq time (StepEnd turn step),
                      plain_event (seq + 1) time (TurnEnd turn Interrupted)])"

definition interruptedTurnClosers :: "event list \<Rightarrow> event list" where
  "interruptedTurnClosers es =
     (let s = scan_log es in
      case rp_openTurn s of
        None \<Rightarrow> []
      | Some turn \<Rightarrow>
          if es = [] then []
          else let seq = ev_seq (last es) + 1; time = ev_time (last es) in
            closer_results turn time seq (rp_pending s)
            @ boundary_closers turn time (seq + int (length (rp_pending s))) (rp_openStep s))"

end
