(* ===== verification/Compaction_Trace.thy ===== *)
theory Compaction_Trace
  imports Repair Surface Event_Json
begin

text \<open>
  The compaction bracket invariant of a session log (\<open>compaction/compaction/src/invariant.ts\<close>, with
  the checkpoint provenance of \<open>checkpoint.ts\<close>): one transaction at a time, opened by
  \<open>compaction/start\<close>, summarised at most once, closed by \<open>compaction/end\<close> with the same identity, and
  on one side of every turn boundary. A log that is read back is replayed more leniently than live
  events are checked, because the repair of a crashed turn may cross a bracket the crash left open.
\<close>

subsection \<open>State\<close>

record compaction_open =
  co_id :: string
  co_command :: "string option"
  co_startSeq :: int
  co_turn :: "int option"
  co_summarized :: bool

record compaction_trace =
  ct_openTurn :: "int option"
  ct_compaction :: "compaction_open option"

datatype compaction_transition =
    StartOf string "string option" int "int option"
  | SummaryOf string "string option" int "int option"
  | EndOf
  | EndSeedOf

datatype bracket_violation =
    IdNotString
  | CommandMismatch
  | NoMatchingStart
  | IdMismatch
  | CrossesBoundary
  | StandaloneInTurn
  | OutsideOpenTurn
  | OtherTurnOpen
  | AlreadyCompacting
  | SummaryRepeated
  | ShadowedEmpty
  | RangeMismatch
  | TokenCountInvalid
  | OwnerMismatch
  | EndWithoutSummary
  | NotStaged

subsection \<open>Checkpoint provenance\<close>

definition compactCheckpointSource :: "string \<Rightarrow> string option \<Rightarrow> message_source" where
  "compactCheckpointSource i cmd =
     SourcePlugin ''compact'' ([(''compactionId'', JStr i)] @ opt_field ''sourceCommandId'' JStr cmd)"

fun isCompactCheckpointSource :: "message_source \<Rightarrow> bool" where
  "isCompactCheckpointSource (SourcePlugin p rest) = (p = ''compact'')"
| "isCompactCheckpointSource _ = False"

fun source_field :: "message_source \<Rightarrow> string \<Rightarrow> json option" where
  "source_field (SourcePlugin p rest) k = map_of rest k"
| "source_field _ k = None"

subsection \<open>Validation\<close>

definition validateId :: "json option \<Rightarrow> (bracket_violation, string) result" where
  "validateId v =
     (case v of Some (JStr s) \<Rightarrow> if s = [] then Inl IdNotString else Inr s | _ \<Rightarrow> Inl IdNotString)"

text \<open>The guard on an optional command id: anything but \<open>undefined\<close> must be a non-empty string.\<close>

definition validateOptionalId :: "json option \<Rightarrow> (bracket_violation, unit) result" where
  "validateOptionalId v = (if v = None then Inr () else res_map (\<lambda>_. ()) (validateId v))"

definition validateSourceCommandId :: "json option \<Rightarrow> string option \<Rightarrow> (bracket_violation, unit) result" where
  "validateSourceCommandId v expected =
     bindE (validateOptionalId v) (\<lambda>_. throw_if (v \<noteq> map_option JStr expected) CommandMismatch)"

definition validateCheckpoint :: "compaction_trace \<Rightarrow> message_source \<Rightarrow> (bracket_violation, unit) result" where
  "validateCheckpoint tr src =
     bindE (validateId (source_field src ''compactionId'')) (\<lambda>i.
     bindE (validateOptionalId (source_field src ''sourceCommandId'')) (\<lambda>_.
       case ct_compaction tr of
         None \<Rightarrow> Inl NoMatchingStart
       | Some co \<Rightarrow>
           bindE (throw_if (i \<noteq> co_id co) IdMismatch) (\<lambda>_.
             validateSourceCommandId (source_field src ''sourceCommandId'') (co_command co))))"

fun is_turn_boundary_data :: "event_data \<Rightarrow> bool" where
  "is_turn_boundary_data (TurnStart _) = True"
| "is_turn_boundary_data (TurnEnd _ _) = True"
| "is_turn_boundary_data _ = False"

definition validateTurnBoundary :: "compaction_trace \<Rightarrow> event \<Rightarrow> (bracket_violation, unit) result" where
  "validateTurnBoundary tr e =
     throw_if (is_turn_boundary_data (ev_data e) \<and> ct_compaction tr \<noteq> None) CrossesBoundary"

fun applyTurnBoundary :: "compaction_trace \<Rightarrow> event_data \<Rightarrow> compaction_trace" where
  "applyTurnBoundary tr (TurnStart t) = tr\<lparr>ct_openTurn := Some t\<rparr>"
| "applyTurnBoundary tr (TurnEnd t r) = tr\<lparr>ct_openTurn := None\<rparr>"
| "applyTurnBoundary tr _ = tr"

definition validateOwner :: "int option \<Rightarrow> int option \<Rightarrow> (bracket_violation, unit) result" where
  "validateOwner owner openTurn =
     (case owner of
        None \<Rightarrow> throw_if (openTurn \<noteq> None) StandaloneInTurn
      | Some t \<Rightarrow>
          bindE (throw_if (openTurn = None) OutsideOpenTurn) (\<lambda>_.
            throw_if (openTurn \<noteq> Some t) OtherTurnOpen))"

definition validateStart ::
  "compaction_trace \<Rightarrow> int \<Rightarrow> compaction_life \<Rightarrow> (bracket_violation, compaction_transition) result" where
  "validateStart tr seq c =
     bindE (validateId (Some (JStr (cl_id c)))) (\<lambda>_.
     bindE (validateOptionalId (map_option JStr (cl_command c))) (\<lambda>_.
     bindE (throw_if (ct_compaction tr \<noteq> None) AlreadyCompacting) (\<lambda>_.
     bindE (validateOwner (cl_turn c) (ct_openTurn tr)) (\<lambda>_.
       Inr (StartOf (cl_id c) (cl_command c) seq (cl_turn c))))))"

definition validateSummary ::
  "compaction_trace \<Rightarrow> compaction_summary \<Rightarrow> (bracket_violation, compaction_transition) result" where
  "validateSummary tr c =
     bindE (validateId (Some (JStr (cs_id c)))) (\<lambda>_.
     bindE (validateOptionalId (map_option JStr (cs_command c))) (\<lambda>_.
       case ct_compaction tr of
         None \<Rightarrow> Inl NoMatchingStart
       | Some co \<Rightarrow>
           bindE (throw_if (cs_id c \<noteq> co_id co) IdMismatch) (\<lambda>_.
           bindE (validateSourceCommandId (map_option JStr (cs_command c)) (co_command co)) (\<lambda>_.
           bindE (validateOwner (co_turn co) (ct_openTurn tr)) (\<lambda>_.
           bindE (throw_if (co_summarized co) SummaryRepeated) (\<lambda>_.
           bindE (throw_if (cs_shadowed c = []) ShadowedEmpty) (\<lambda>_.
           bindE (throw_if (hd (cs_shadowed c) \<noteq> cs_start c \<or> last (cs_shadowed c) \<noteq> cs_end c)
                    RangeMismatch) (\<lambda>_.
           bindE (throw_if (\<not> isSafeInteger (cs_tokens c) \<or> js_lt (cs_tokens c) (num_of_int 0))
                    TokenCountInvalid) (\<lambda>_.
             Inr (SummaryOf (co_id co) (co_command co) (co_startSeq co) (co_turn co)))))))))))"

definition validateEnd ::
  "compaction_trace \<Rightarrow> compaction_life \<Rightarrow> string option \<Rightarrow> (bracket_violation, compaction_transition) result" where
  "validateEnd tr c err =
     bindE (validateId (Some (JStr (cl_id c)))) (\<lambda>_.
     bindE (validateOptionalId (map_option JStr (cl_command c))) (\<lambda>_.
       case ct_compaction tr of
         None \<Rightarrow> Inl NoMatchingStart
       | Some co \<Rightarrow>
           bindE (throw_if (cl_id c \<noteq> co_id co) IdMismatch) (\<lambda>_.
           bindE (validateSourceCommandId (map_option JStr (cl_command c)) (co_command co)) (\<lambda>_.
           bindE (throw_if (cl_turn c \<noteq> co_turn co) OwnerMismatch) (\<lambda>_.
           bindE (validateOwner (co_turn co) (ct_openTurn tr)) (\<lambda>_.
           bindE (throw_if (err = None \<and> \<not> co_summarized co) EndWithoutSummary) (\<lambda>_.
             Inr EndOf)))))))"

fun validateCompactionData ::
  "compaction_trace \<Rightarrow> event \<Rightarrow> event_data \<Rightarrow> (bracket_violation, compaction_transition option) result" where
  "validateCompactionData tr e EndSeed = Inr (Some EndSeedOf)"
| "validateCompactionData tr e (UserMessage m) =
     (if isReplacementSurfaceEvent e \<and> isCompactCheckpointSource (msg_source m)
      then res_map (\<lambda>_. None) (validateCheckpoint tr (msg_source m))
      else Inr None)"
| "validateCompactionData tr e (CompactionStart c) = res_map Some (validateStart tr (ev_seq e) c)"
| "validateCompactionData tr e (CompactionSummary c) = res_map Some (validateSummary tr c)"
| "validateCompactionData tr e (CompactionEnd c err) = res_map Some (validateEnd tr c err)"
| "validateCompactionData tr e _ = Inr None"

definition validateCompactionEvent ::
  "compaction_trace \<Rightarrow> event \<Rightarrow> (bracket_violation, compaction_transition option) result" where
  "validateCompactionEvent tr e = validateCompactionData tr e (ev_data e)"

fun applyCompactionTransition :: "compaction_transition \<Rightarrow> compaction_open option" where
  "applyCompactionTransition (StartOf i cmd q t) =
     Some \<lparr>co_id = i, co_command = cmd, co_startSeq = q, co_turn = t, co_summarized = False\<rparr>"
| "applyCompactionTransition (SummaryOf i cmd q t) =
     Some \<lparr>co_id = i, co_command = cmd, co_startSeq = q, co_turn = t, co_summarized = True\<rparr>"
| "applyCompactionTransition EndOf = None"
| "applyCompactionTransition EndSeedOf = None"

subsection \<open>Reading a log back\<close>

text \<open>The starts still open when a later seed boundary made them stale.\<close>

fun orphan_step :: "int set \<times> int option \<Rightarrow> event \<Rightarrow> int set \<times> int option" where
  "orphan_step (stale, openSeq) e =
     (case ev_data e of
        CompactionStart _ \<Rightarrow> (stale, Some (ev_seq e))
      | CompactionEnd _ _ \<Rightarrow> (stale, None)
      | EndSeed \<Rightarrow> (stale \<union> set_option openSeq, None)
      | _ \<Rightarrow> (stale, openSeq))"

definition orphan_scan :: "event list \<Rightarrow> int set \<times> int option" where
  "orphan_scan es = foldl orphan_step ({}, None) es"

definition inheritedOrphanStartSeqs :: "event list \<Rightarrow> int set" where
  "inheritedOrphanStartSeqs es = fst (orphan_scan es)"

definition freshCompaction :: compaction_trace where
  "freshCompaction = \<lparr>ct_openTurn = None, ct_compaction = None\<rparr>"

definition boundary_checked :: "int set \<Rightarrow> compaction_trace \<Rightarrow> bool" where
  "boundary_checked stale tr =
     (case ct_compaction tr of None \<Rightarrow> True | Some co \<Rightarrow> co_startSeq co \<notin> stale)"

definition commit_transition :: "compaction_trace \<Rightarrow> compaction_transition option \<Rightarrow> compaction_trace" where
  "commit_transition tr t =
     (case t of None \<Rightarrow> tr | Some x \<Rightarrow> tr\<lparr>ct_compaction := applyCompactionTransition x\<rparr>)"

definition seed_step :: "int set \<Rightarrow> compaction_trace \<Rightarrow> event \<Rightarrow> (bracket_violation, compaction_trace) result" where
  "seed_step stale tr e =
     bindE (if boundary_checked stale tr then validateTurnBoundary tr e else Inr ()) (\<lambda>_.
     bindE (validateCompactionEvent tr e) (\<lambda>t.
       Inr (applyTurnBoundary (commit_transition tr t) (ev_data e))))"

definition seedCompaction :: "event list \<Rightarrow> (bracket_violation, compaction_trace) result" where
  "seedCompaction es = foldE (seed_step (inheritedOrphanStartSeqs es)) freshCompaction es"

subsection \<open>Live events\<close>

text \<open>Before the commit the event is validated and its transition staged; the publication that
  follows the commit applies the staged transition, unless the event is a turn boundary.\<close>

definition stageEvent :: "compaction_trace \<Rightarrow> event \<Rightarrow> (bracket_violation, compaction_transition option) result" where
  "stageEvent tr e = bindE (validateTurnBoundary tr e) (\<lambda>_. validateCompactionEvent tr e)"

fun is_bracket_data :: "event_data \<Rightarrow> bool" where
  "is_bracket_data EndSeed = True"
| "is_bracket_data (CompactionStart _) = True"
| "is_bracket_data (CompactionSummary _) = True"
| "is_bracket_data (CompactionEnd _ _) = True"
| "is_bracket_data _ = False"

definition publishEvent ::
  "compaction_trace \<Rightarrow> event \<Rightarrow> compaction_transition option \<Rightarrow> (bracket_violation, compaction_trace) result" where
  "publishEvent tr e staged =
     bindE (validateTurnBoundary tr e) (\<lambda>_.
       if is_turn_boundary_data (ev_data e) then Inr (applyTurnBoundary tr (ev_data e))
       else if \<not> is_bracket_data (ev_data e) then Inr tr
       else case staged of
         None \<Rightarrow> Inl NotStaged
       | Some t \<Rightarrow> Inr (tr\<lparr>ct_compaction := applyCompactionTransition t\<rparr>))"

definition live_step :: "compaction_trace \<Rightarrow> event \<Rightarrow> (bracket_violation, compaction_trace) result" where
  "live_step tr e = bindE (stageEvent tr e) (publishEvent tr e)"

definition liveCompaction :: "compaction_trace \<Rightarrow> event list \<Rightarrow> (bracket_violation, compaction_trace) result" where
  "liveCompaction tr es = foldE live_step tr es"

end
