(* ===== verification/JS_String.thy ===== *)
theory JS_String
  imports Json
begin

text \<open>
  Strings of the run time: white space and \<open>trim\<close>, character classes of the code's regular
  expressions, and \<open>JSON.stringify\<close>. A character of the model is one of the 256 characters of
  Latin-1.
\<close>

subsection \<open>White space and character classes\<close>

text \<open>\<open>String.prototype.trim\<close> on the characters of the model: the white space of Latin-1.\<close>

definition js_space :: "char \<Rightarrow> bool" where
  "js_space c = (of_char c \<in> ({9, 10, 11, 12, 13, 32, 160} :: nat set))"

definition js_trim :: "string \<Rightarrow> string" where
  "js_trim s = rev (dropWhile js_space (rev (dropWhile js_space s)))"

definition is_lower :: "char \<Rightarrow> bool" where
  "is_lower c = ((97 :: nat) \<le> of_char c \<and> of_char c \<le> (122 :: nat))"

definition is_digit :: "char \<Rightarrow> bool" where
  "is_digit c = ((48 :: nat) \<le> of_char c \<and> of_char c \<le> (57 :: nat))"

lemma dropWhile_stays: "dropWhile P (dropWhile P xs) = dropWhile P xs"
  by (induction xs) auto

lemma js_trim_idem [simp]: "js_trim (js_trim s) = js_trim s"
proof -
  let ?P = js_space and ?t = "dropWhile js_space s"
  let ?r = "dropWhile ?P (rev ?t)"
  have "dropWhile ?P (rev ?r) = rev ?r"
  proof (cases "rev ?r")
    case (Cons c cs)
    have "rev (rev ?t) = rev ?r @ rev (takeWhile ?P (rev ?t))"
      by (metis rev_append takeWhile_dropWhile_id)
    then have "?t = c # cs @ rev (takeWhile ?P (rev ?t))" using Cons by simp
    then have "\<not> ?P c" by (metis dropWhile_eq_Cons_conv)
    then show ?thesis using Cons by simp
  next
    case Nil
    then show ?thesis by (simp only: dropWhile.simps)
  qed
  then show ?thesis by (simp add: js_trim_def dropWhile_stays)
qed

subsection \<open>Splitting\<close>

text \<open>\<open>s.split(d)\<close> for one character.\<close>

fun split_on :: "char \<Rightarrow> string \<Rightarrow> string list" where
  "split_on d [] = [[]]"
| "split_on d (c # cs) =
     (if c = d then [] # split_on d cs
      else (case split_on d cs of [] \<Rightarrow> [[c]] | w # ws \<Rightarrow> (c # w) # ws))"

lemma split_on_none: "d \<notin> set s \<Longrightarrow> split_on d s = [s]"
  by (induction s) auto

lemma split_on_first: "d \<notin> set s \<Longrightarrow> split_on d (s @ d # t) = s # split_on d t"
  by (induction s) auto

subsection \<open>The text of a JSON value\<close>

definition hex_digit :: "nat \<Rightarrow> char" where
  "hex_digit n = (if n < 10 then char_of (48 + n) else char_of (87 + n))"

text \<open>\<open>JSON.stringify\<close> of a string, one character.\<close>

definition escape_char :: "char \<Rightarrow> string" where
  "escape_char c =
     (let n = (of_char c :: nat) in
      if n = 34 \<or> n = 92 then [CHR 0x5C, c]
      else if n = 8 then [CHR 0x5C, CHR ''b'']
      else if n = 9 then [CHR 0x5C, CHR ''t'']
      else if n = 10 then [CHR 0x5C, CHR ''n'']
      else if n = 12 then [CHR 0x5C, CHR ''f'']
      else if n = 13 then [CHR 0x5C, CHR ''r'']
      else if n < 32 then [CHR 0x5C, CHR ''u'', CHR ''0'', CHR ''0'', hex_digit (n div 16), hex_digit (n mod 16)]
      else [c])"

definition quoted :: "string \<Rightarrow> string" where
  "quoted s = CHR 0x22 # concat (map escape_char s) @ [CHR 0x22]"

fun number_text :: "(rat \<Rightarrow> string) \<Rightarrow> jsnum \<Rightarrow> string" where
  "number_text fr (Fin r) = (if of_int \<lfloor>r\<rfloor> = r \<and> \<bar>r\<bar> < 10 ^ 21 then show_int \<lfloor>r\<rfloor> else fr r)"
| "number_text fr NegZero = ''0''"
| "number_text fr _ = ''null''"

fun joined :: "string list \<Rightarrow> string" where
  "joined [] = []"
| "joined [x] = x"
| "joined (x # y # ys) = x @ '','' @ joined (y # ys)"

primrec json_text :: "(rat \<Rightarrow> string) \<Rightarrow> json \<Rightarrow> string" where
  "json_text fr JNull = ''null''"
| "json_text fr (JBool b) = (if b then ''true'' else ''false'')"
| "json_text fr (JNum n) = number_text fr n"
| "json_text fr (JStr s) = quoted s"
| "json_text fr (JArr xs) = ''['' @ joined (map (json_text fr) xs) @ '']''"
| "json_text fr (JObj kvs) =
     ''{'' @ joined (map (\<lambda>(k, t). quoted k @ '':'' @ t) (map (map_prod id (json_text fr)) kvs)) @ ''}''"

subsection \<open>Reading a JSON string back\<close>

text \<open>The characters after the opening quote, up to the closing one; what follows it is returned too.\<close>

definition hex_value :: "char \<Rightarrow> nat" where
  "hex_value c = (if is_digit c then of_char c - 48 else of_char c - 87)"

definition short_escape :: "char \<Rightarrow> char" where
  "short_escape c =
     (if c = CHR ''b'' then CHR 0x08 else if c = CHR ''t'' then CHR 0x09 else if c = CHR ''n'' then CHR 0x0A
      else if c = CHR ''f'' then CHR 0x0C else if c = CHR ''r'' then CHR 0x0D else c)"

fun unescape :: "string \<Rightarrow> (string \<times> string) option" where
  "unescape [] = None"
| "unescape (c # cs) =
     (if c = CHR 0x22 then Some ([], cs)
      else if c = CHR 0x5C then
        (case cs of
           [] \<Rightarrow> None
         | d # ds \<Rightarrow>
             if d = CHR ''u'' then
               (case ds of
                  a # b # x # y # rest \<Rightarrow>
                    map_option (apfst ((#) (char_of (16 * hex_value x + hex_value y)))) (unescape rest)
                | _ \<Rightarrow> None)
             else map_option (apfst ((#) (short_escape d))) (unescape ds))
      else map_option (apfst ((#) c)) (unescape cs))"

lemma hex_value_digit:
  assumes "n < 16" shows "hex_value (hex_digit n) = n"
  using assms by (simp add: hex_value_def hex_digit_def is_digit_def of_char_of)

lemma unescape_char: "unescape (escape_char c @ cs) = map_option (apfst ((#) c)) (unescape cs)"
proof -
  define n where "n = (of_char c :: nat)"
  have c: "c = char_of n" by (simp add: n_def)
  have q: "CHR 0x22 = char_of (34 :: nat)" "CHR 0x5C = char_of (92 :: nat)" "CHR 0x08 = char_of (8 :: nat)"
    "CHR 0x09 = char_of (9 :: nat)" "CHR 0x0A = char_of (10 :: nat)" "CHR 0x0C = char_of (12 :: nat)"
    "CHR 0x0D = char_of (13 :: nat)" by code_simp+
  have lt: "n < 256" unfolding n_def by (rule nat_of_char_less_256)
  consider "n = 34 \<or> n = 92" | "n \<in> {8, 9, 10, 12, 13}" | "n < 32" "n \<notin> {8, 9, 10, 12, 13}"
    | "32 \<le> n" "n \<noteq> 34" "n \<noteq> 92" by force
  then show ?thesis
  proof cases
    case 1
    then have "escape_char c = [CHR 0x5C, c]" by (simp add: escape_char_def Let_def n_def [symmetric])
    moreover have "c = CHR 0x22 \<or> c = CHR 0x5C" using 1 q c by metis
    ultimately show ?thesis by (auto simp: short_escape_def)
  next
    case 2
    then have "n = 8 \<or> n = 9 \<or> n = 10 \<or> n = 12 \<or> n = 13" by simp
    then have "c = CHR 0x08 \<or> c = CHR 0x09 \<or> c = CHR 0x0A \<or> c = CHR 0x0C \<or> c = CHR 0x0D"
      using q c by metis
    then show ?thesis by (elim disjE) (simp_all add: escape_char_def short_escape_def)
  next
    case 3
    then have "escape_char c
        = [CHR 0x5C, CHR ''u'', CHR ''0'', CHR ''0'', hex_digit (n div 16), hex_digit (n mod 16)]"
      by (simp add: escape_char_def Let_def n_def [symmetric])
    moreover have "n div 16 < 16" using 3 by simp
    ultimately show ?thesis by (simp add: hex_value_digit c)
  next
    case 4
    then have "c \<noteq> CHR 0x22" "c \<noteq> CHR 0x5C" unfolding n_def by auto
    moreover have "escape_char c = [c]" using 4 by (simp add: escape_char_def Let_def n_def [symmetric])
    ultimately show ?thesis by simp
  qed
qed

lemma unescape_escaped: "unescape (concat (map escape_char s) @ CHR 0x22 # rest) = Some (s, rest)"
  by (induction s) (simp_all add: unescape_char)

lemma quoted_inject: "quoted s @ rest = quoted t @ rest' \<longleftrightarrow> s = t \<and> rest = rest'"
proof
  assume "quoted s @ rest = quoted t @ rest'"
  then have "unescape (concat (map escape_char s) @ CHR 0x22 # rest) = unescape (concat (map escape_char t) @ CHR 0x22 # rest')"
    by (simp add: quoted_def)
  then show "s = t \<and> rest = rest'" by (simp add: unescape_escaped)
qed simp

text \<open>No control character survives quoting.\<close>

lemma escape_char_visible: "d \<in> set (escape_char c) \<Longrightarrow> (32 :: nat) \<le> of_char d"
proof -
  have h: "(32 :: nat) \<le> of_char (hex_digit k)" if "k < 16" for k :: nat
    using that by (simp add: hex_digit_def of_char_of)
  have "(of_char c :: nat) div 16 < 16" using nat_of_char_less_256 [of c] by (simp add: less_mult_imp_div_less)
  then show "d \<in> set (escape_char c) \<Longrightarrow> (32 :: nat) \<le> of_char d"
    using h [of "of_char c div 16"] h [of "of_char c mod 16"]
    by (auto simp: escape_char_def Let_def split: if_splits)
qed

lemma quoted_visible: "d \<in> set (quoted s) \<Longrightarrow> (32 :: nat) \<le> of_char d"
  by (auto simp: quoted_def dest: escape_char_visible)

end
