(* ===== verification/Token_Meter.thy ===== *)
theory Token_Meter
  imports Surface_Manager Request_Header Block_Assembler JS_String
begin

text \<open>
  Token metering (\<open>llm/token-meter/src\<close>): the fixed-density price of messages and request headers
  (\<open>estimate.ts\<close>), the priced surface (\<open>surface-fold.ts\<close>) and the replaying meter (\<open>index.ts\<close>). The printing of numbers that are not integers below \<open>10^21\<close> is the
  argument \<open>fr\<close> of every definition that prints JSON.
\<close>

subsection \<open>Prices\<close>

definition CHARS_PER_TOKEN :: int where
  "CHARS_PER_TOKEN = 4"

definition BLOCK_OVERHEAD :: int where
  "BLOCK_OVERHEAD = 4"

definition ROLE_OVERHEAD :: int where
  "ROLE_OVERHEAD = 4"

text \<open>\<open>Math.ceil(s.length / CHARS_PER_TOKEN)\<close>\<close>

definition text_tokens :: "string \<Rightarrow> int" where
  "text_tokens s = (int (length s) + CHARS_PER_TOKEN - 1) div CHARS_PER_TOKEN"

primrec estimateBlock :: "(rat \<Rightarrow> string) \<Rightarrow> content_block \<Rightarrow> int" where
  "estimateBlock fr (TextBlock t) = text_tokens t + BLOCK_OVERHEAD"
| "estimateBlock fr (ReasoningBlock t) = text_tokens t + BLOCK_OVERHEAD"
| "estimateBlock fr (ToolCallBlock i n a) = text_tokens n + text_tokens a + BLOCK_OVERHEAD"
| "estimateBlock fr (ToolResultBlock c bs err) = sum_list (map (estimateBlock fr) bs) + BLOCK_OVERHEAD"
| "estimateBlock fr (ImageBlock a) = BLOCK_OVERHEAD + text_tokens (json_text fr (block_json (ImageBlock a)))"
| "estimateBlock fr (OtherBlock t v) = BLOCK_OVERHEAD + text_tokens (json_text fr (block_json (OtherBlock t v)))"

definition estimateContent :: "(rat \<Rightarrow> string) \<Rightarrow> content_block list \<Rightarrow> int" where
  "estimateContent fr bs = sum_list (map (estimateBlock fr) bs)"

definition estimateMessage :: "(rat \<Rightarrow> string) \<Rightarrow> message \<Rightarrow> int" where
  "estimateMessage fr m = estimateContent fr (msg_content m) + ROLE_OVERHEAD"

definition estimateSystemTokens :: "epoch_header option \<Rightarrow> int" where
  "estimateSystemTokens h =
     (case h of None \<Rightarrow> 0 | Some x \<Rightarrow>
        (case hdr_system x of None \<Rightarrow> 0 | Some s \<Rightarrow> text_tokens s + ROLE_OVERHEAD))"

definition estimateToolsTokens :: "(rat \<Rightarrow> string) \<Rightarrow> epoch_header option \<Rightarrow> int" where
  "estimateToolsTokens fr h =
     (case h of None \<Rightarrow> 0 | Some x \<Rightarrow>
        (if tools_of x = [] then 0
         else text_tokens (json_text fr (JArr (map schema_json (tools_of x)))) + BLOCK_OVERHEAD))"

definition estimateHeader :: "(rat \<Rightarrow> string) \<Rightarrow> epoch_header option \<Rightarrow> int" where
  "estimateHeader fr h = estimateSystemTokens h + estimateToolsTokens fr h"

subsection \<open>The priced surface\<close>

record priced_node =
  pn_seq :: int
  pn_tokens :: int

datatype meter_error =
    MeterStepOpen int
  | MeterNoStep int
  | MeterReplaceRange int
  | MeterNoSurface int
  | MeterSourcesNotList int
  | MeterSourceLater int int
  | MeterSourceRepeated int int
  | MeterSourceMissing int int
  | MeterSourceNotChunk int int
  | MeterSourceOtherStep int int
  | MeterAssembly assembly_error
  | MeterShadowMismatch int

record surface_token_fold =
  stf_tokens :: int
  stf_nodes :: "priced_node list"
  stf_delta :: int

definition event_price :: "(rat \<Rightarrow> string) \<Rightarrow> event_data \<Rightarrow> int" where
  "event_price fr d = (case deriveEventMessage d of None \<Rightarrow> 0 | Some m \<Rightarrow> estimateMessage fr m)"

definition op_of :: "event \<Rightarrow> json" where
  "op_of e = (case ev_surfaceOp e of None \<Rightarrow> JNull | Some op \<Rightarrow> op)"

text \<open>\<open>node.seq === op.start\<close>, on a run-time value.\<close>

definition seq_is :: "json option \<Rightarrow> int \<Rightarrow> bool" where
  "seq_is v q = (case v of Some (JNum n) \<Rightarrow> js_eq (num_of_int q) n | _ \<Rightarrow> False)"

definition foldSurfaceTokens ::
  "(rat \<Rightarrow> string) \<Rightarrow> priced_node list \<Rightarrow> event \<Rightarrow> (meter_error, surface_token_fold) result" where
  "foldSurfaceTokens fr ns e =
     (let tokens = event_price fr (ev_data e); node = \<lparr>pn_seq = ev_seq e, pn_tokens = tokens\<rparr>; op = op_of e in
      if op = JStr ''append'' then Inr \<lparr>stf_tokens = tokens, stf_nodes = ns @ [node], stf_delta = tokens\<rparr>
      else case (find_index (\<lambda>n. seq_is (field op ''start'') (pn_seq n)) ns,
                 find_index (\<lambda>n. seq_is (field op ''end'') (pn_seq n)) ns) of
        (Some i, Some j) \<Rightarrow>
          if j < i then Inl (MeterReplaceRange (ev_seq e))
          else let removed = sum_list (map pn_tokens (take (Suc j - i) (drop i ns))) in
            Inr \<lparr>stf_tokens = tokens, stf_nodes = splice i (j - i + 1) [node] ns, stf_delta = tokens - removed\<rparr>
      | _ \<Rightarrow> Inl (MeterReplaceRange (ev_seq e)))"

subsection \<open>The replay state\<close>

datatype baseline = BaseNone | BaseEstimated int | BaseUsage int token_usage

fun baseline_tokens :: "baseline \<Rightarrow> int" where
  "baseline_tokens BaseNone = 0"
| "baseline_tokens (BaseEstimated n) = n"
| "baseline_tokens (BaseUsage n u) = n"

record measurement_anchor =
  ma_header :: "epoch_header option"
  ma_surfaceTokens :: int
  ma_baseline :: baseline

record step_anchor =
  sa_turn :: int
  sa_step :: int
  sa_surfaceTokens :: int

record replay_state =
  rs_consumedEvents :: nat
  rs_header :: "epoch_header option"
  rs_surface :: "priced_node list"
  rs_surfaceTokens :: int
  rs_stepStart :: "step_anchor option"
  rs_anchor :: "measurement_anchor option"

definition fresh_replay :: replay_state where
  "fresh_replay = \<lparr>rs_consumedEvents = 0, rs_header = None, rs_surface = [], rs_surfaceTokens = 0,
     rs_stepStart = None, rs_anchor = None\<rparr>"

definition opt_tokens :: "int option \<Rightarrow> int" where
  "opt_tokens v = (case v of None \<Rightarrow> 0 | Some n \<Rightarrow> n)"

definition usageTokens :: "token_usage \<Rightarrow> int" where
  "usageTokens u = inputTokens u + opt_tokens (cacheReadTokens u) + opt_tokens (cacheWriteTokens u) + outputTokens u"

definition optionalHeaderEquals :: "epoch_header option \<Rightarrow> epoch_header option \<Rightarrow> bool" where
  "optionalHeaderEquals a b =
     (case (a, b) of (Some x, Some y) \<Rightarrow> headerEquals x y | (None, None) \<Rightarrow> True | _ \<Rightarrow> False)"

text \<open>The loop over the cited chunk seqs of an assistant message.\<close>

primrec source_loop ::
  "event list \<Rightarrow> int \<Rightarrow> int \<Rightarrow> int \<Rightarrow> int list \<Rightarrow> int list \<Rightarrow> assembler \<Rightarrow> (meter_error, assembler) result" where
  "source_loop es here turn step [] seen a = Inr a"
| "source_loop es here turn step (q # qs) seen a =
     (if here \<le> q then Inl (MeterSourceLater here q)
      else if q \<in> set seen then Inl (MeterSourceRepeated here q)
      else case event_at es q of
        None \<Rightarrow> Inl (MeterSourceMissing here q)
      | Some src \<Rightarrow>
          (case ev_data src of
             AssistantChunk t s c \<Rightarrow>
               if t \<noteq> turn \<or> s \<noteq> step then Inl (MeterSourceOtherStep here q)
               else source_loop es here turn step qs (q # seen) (push_chunk a c)
           | _ \<Rightarrow> Inl (MeterSourceNotChunk here q)))"

definition estimateProviderAssistant ::
  "(rat \<Rightarrow> string) \<Rightarrow> event list \<Rightarrow> event \<Rightarrow> int \<Rightarrow> int \<Rightarrow> int \<Rightarrow> (meter_error, int) result" where
  "estimateProviderAssistant fr es e turn step durableEventTokens =
     (case ev_sourceEventSeqs e of
        None \<Rightarrow> Inr durableEventTokens
      | Some (JArr raw) \<Rightarrow>
          bindE (source_loop es (ev_seq e) turn step (map json_seq raw) [] new_assembler) (\<lambda>a.
            case blocks a of
              Inl err \<Rightarrow> Inl (MeterAssembly err)
            | Inr bs \<Rightarrow> Inr (if bs = [] then 0 else estimateContent fr bs + ROLE_OVERHEAD))
      | Some _ \<Rightarrow> Inl (MeterSourcesNotList (ev_seq e)))"

text \<open>The step bracket after an event.\<close>

fun next_step_start :: "replay_state \<Rightarrow> int \<Rightarrow> event_data \<Rightarrow> (meter_error, step_anchor option) result" where
  "next_step_start st here (StepStart turn step) =
     (if rs_stepStart st \<noteq> None then Inl (MeterStepOpen here)
      else Inr (Some \<lparr>sa_turn = turn, sa_step = step, sa_surfaceTokens = rs_surfaceTokens st\<rparr>))"
| "next_step_start st here (StepEnd turn step) =
     (case rs_stepStart st of
        None \<Rightarrow> Inl (MeterNoStep here)
      | Some s \<Rightarrow> if sa_turn s \<noteq> turn \<or> sa_step s \<noteq> step then Inl (MeterNoStep here) else Inr None)"
| "next_step_start st here _ = Inr (rs_stepStart st)"

text \<open>The anchor a provider report gives, and the one an unreported message gives.\<close>

definition usage_anchor ::
  "(rat \<Rightarrow> string) \<Rightarrow> epoch_header \<Rightarrow> int \<Rightarrow> token_usage \<Rightarrow> measurement_anchor" where
  "usage_anchor fr h anchorSurface u =
     (let estimated = estimateHeader fr (Some h) + anchorSurface in
      \<lparr>ma_header = Some h, ma_surfaceTokens = anchorSurface,
       ma_baseline = (if estimated \<le> usageTokens u then BaseUsage (usageTokens u) u else BaseEstimated estimated)\<rparr>)"

definition estimated_anchor :: "(rat \<Rightarrow> string) \<Rightarrow> epoch_header option \<Rightarrow> int \<Rightarrow> measurement_anchor" where
  "estimated_anchor fr h anchorSurface =
     \<lparr>ma_header = h, ma_surfaceTokens = anchorSurface, ma_baseline = BaseEstimated (estimateHeader fr h + anchorSurface)\<rparr>"

definition message_anchor ::
  "(rat \<Rightarrow> string) \<Rightarrow> event list \<Rightarrow> replay_state \<Rightarrow> event \<Rightarrow> epoch_header option \<Rightarrow> surface_token_fold option
     \<Rightarrow> int \<Rightarrow> int \<Rightarrow> token_usage option \<Rightarrow> (meter_error, measurement_anchor) result" where
  "message_anchor fr es st e header surface turn step usage =
     (case rs_stepStart st of
        None \<Rightarrow> Inl (MeterNoStep (ev_seq e))
      | Some s \<Rightarrow>
          if sa_turn s \<noteq> turn \<or> sa_step s \<noteq> step then Inl (MeterNoStep (ev_seq e))
          else case surface of
            None \<Rightarrow> Inl (MeterNoSurface (ev_seq e))
          | Some f \<Rightarrow>
              (case (usage, header) of
                 (Some u, Some h) \<Rightarrow>
                   bindE (estimateProviderAssistant fr es e turn step (stf_tokens f)) (\<lambda>n.
                     Inr (usage_anchor fr h (sa_surfaceTokens s + n) u))
               | _ \<Rightarrow> Inr (estimated_anchor fr header (sa_surfaceTokens s + stf_tokens f))))"

text \<open>\<open>_foldEvent\<close>: everything that can fail comes before the first change of the state.\<close>

definition foldEvent ::
  "(rat \<Rightarrow> string) \<Rightarrow> event list \<Rightarrow> replay_state \<Rightarrow> event \<Rightarrow> (meter_error, replay_state) result" where
  "foldEvent fr es st e =
     (let header = (case ev_data e of RequestHeader h _ \<Rightarrow> Some (canonicalHeader h) | _ \<Rightarrow> rs_header st) in
      bindE (next_step_start st (ev_seq e) (ev_data e)) (\<lambda>stepStart.
      bindE (if isSurfaceEvent e then res_map Some (foldSurfaceTokens fr (rs_surface st) e) else Inr None) (\<lambda>surface.
      bindE (case ev_data e of
               AssistantMessage turn step m usage \<Rightarrow>
                 res_map Some (message_anchor fr es st e header surface turn step usage)
             | _ \<Rightarrow> Inr (rs_anchor st)) (\<lambda>anchor.
        Inr (st\<lparr>rs_header := header, rs_stepStart := stepStart,
               rs_surface := (case surface of None \<Rightarrow> rs_surface st | Some f \<Rightarrow> stf_nodes f),
               rs_surfaceTokens := (case surface of None \<Rightarrow> rs_surfaceTokens st | Some f \<Rightarrow> rs_surfaceTokens st + stf_delta f),
               rs_anchor := anchor\<rparr>)))))"

text \<open>The loop of \<open>_sync\<close>: a failing event stays unread, and what was folded before it is kept.\<close>

primrec sync_replay ::
  "(rat \<Rightarrow> string) \<Rightarrow> event list \<Rightarrow> event list \<Rightarrow> replay_state \<Rightarrow> replay_state \<times> (meter_error, unit) result" where
  "sync_replay fr es [] st = (st, Inr ())"
| "sync_replay fr es (e # rest) st =
     (case foldEvent fr es st e of
        Inl err \<Rightarrow> (st, Inl err)
      | Inr st' \<Rightarrow> sync_replay fr es rest (st'\<lparr>rs_consumedEvents := Suc (rs_consumedEvents st)\<rparr>))"

definition meter_sync ::
  "(rat \<Rightarrow> string) \<Rightarrow> event list \<Rightarrow> replay_state option \<Rightarrow> replay_state \<times> (meter_error, unit) result" where
  "meter_sync fr es cached =
     (let st = (case cached of None \<Rightarrow> fresh_replay | Some st \<Rightarrow> st)
      in sync_replay fr es (drop (rs_consumedEvents st) es) st)"

text \<open>The \<open>session/event\<close> listener: only a session somebody has measured is followed.\<close>

definition meter_observe ::
  "(rat \<Rightarrow> string) \<Rightarrow> event list \<Rightarrow> replay_state option \<Rightarrow> replay_state option" where
  "meter_observe fr es cached = (case cached of None \<Rightarrow> None | Some st \<Rightarrow> Some (fst (meter_sync fr es cached)))"

subsection \<open>Measuring\<close>

record token_measurement =
  tm_logRevision :: nat
  tm_baseline :: baseline
  tm_surfaceDeltaTokens :: int
  tm_totalTokens :: int
  tm_surfaceTokens :: int
  tm_nodes :: "priced_node list"

definition measured_header :: "replay_state \<Rightarrow> epoch_header option \<Rightarrow> epoch_header option" where
  "measured_header st requestHeader =
     (case requestHeader of None \<Rightarrow> rs_header st | Some h \<Rightarrow> Some (canonicalHeader h))"

definition measured_baseline ::
  "(rat \<Rightarrow> string) \<Rightarrow> replay_state \<Rightarrow> epoch_header option \<Rightarrow> baseline \<times> int" where
  "measured_baseline fr st header =
     (let fallback = (if header = None \<and> rs_surfaceTokens st = 0 then (BaseNone, 0)
            else (BaseEstimated (estimateHeader fr header + rs_surfaceTokens st), 0)) in
      case rs_anchor st of
        None \<Rightarrow> fallback
      | Some a \<Rightarrow>
          if optionalHeaderEquals (ma_header a) header
          then (ma_baseline a, rs_surfaceTokens st - ma_surfaceTokens a)
          else fallback)"

definition measure_state :: "(rat \<Rightarrow> string) \<Rightarrow> replay_state \<Rightarrow> epoch_header option \<Rightarrow> token_measurement" where
  "measure_state fr st requestHeader =
     (case measured_baseline fr st (measured_header st requestHeader) of (b, delta) \<Rightarrow>
        \<lparr>tm_logRevision = rs_consumedEvents st, tm_baseline = b, tm_surfaceDeltaTokens = delta,
         tm_totalTokens = max 0 (baseline_tokens b + delta), tm_surfaceTokens = rs_surfaceTokens st,
         tm_nodes = rs_surface st\<rparr>)"

definition measure_session ::
  "(rat \<Rightarrow> string) \<Rightarrow> event list \<Rightarrow> replay_state option \<Rightarrow> epoch_header option
     \<Rightarrow> replay_state \<times> (meter_error, token_measurement) result" where
  "measure_session fr es cached requestHeader =
     (case meter_sync fr es cached of (st, r) \<Rightarrow> (st, res_map (\<lambda>_. measure_state fr st requestHeader) r))"

end
