(* ===== verification/Compaction_Region.thy ===== *)
theory Compaction_Region
  imports Tool_Pairing Compaction_Trace Token_Meter
begin

text \<open>
  Selecting and compacting a region of the surface (\<open>compaction/compaction-basic/src/region.ts\<close>, with
  the checkpoint frame of \<open>summarizer.ts\<close>). A compaction awaits the summarizer, so the transaction is
  cut at its awaits: \<open>openRegion\<close> runs up to the summarizer call, \<open>resumeRegion\<close> from its settlement
  to the closing marker, \<open>finishRegion\<close> from the optional flush to the outcome. In between the session
  may change in any way. The token meter and the summarizer are injected dependencies of the code
  and arguments of the model; \<open>errorText\<close> stands for the diagnostic rendering of a caught error.
\<close>

subsection \<open>Data\<close>

record summary_input =
  si_system :: "string option"
  si_tools :: "tool_schema list option"
  si_messages :: "message list"

record summary_result =
  sr_summary :: "content_block list"
  sr_provider :: string
  sr_model :: string
  sr_maxTokens :: "jsnum option"
  sr_usage :: "token_usage option"
  sr_rawOutput :: "content_block list option"
  sr_llmStreamCall :: bool

record selection =
  sel_start :: int
  sel_end :: int
  sel_startIdx :: nat
  sel_endIdx :: nat
  sel_shadowed :: "int list"

record prepared =
  pr_selection :: selection
  pr_nodes :: "priced_node list"
  pr_selectedNodes :: "priced_node list"
  pr_tokens :: int
  pr_input :: summary_input

datatype stability = WholeSurface | SelectedSpan

text \<open>\<open>owner\<close>: a manual compaction stands between turns, an automatic one inside the current turn.\<close>

record transaction_options =
  to_manual :: bool
  to_stability :: stability
  to_flush :: bool
  to_command :: "string option"

datatype manual_code =
    ManualBusy | ManualCancelled | ManualChanged | ManualSummary | ManualCommit | ManualPersistence

datatype region_error =
    Aborted
  | MeterMismatch
  | RegionStartMissing int
  | RegionEndMissing int
  | RegionStartAfterEnd
  | StartNotBalanced int
  | EndNotBalanced int
  | RegionPairing pairing_error
  | RegionSession session_error
  | NoOpenTurn
  | SurfaceChanged "region_error option"
  | SummarizerFailed string
  | SummaryNotSmaller int int
  | FlushFailed string
  | NoResult
  | ManualError manual_code "region_error option"

datatype failure_stage = StageSummary | StageCommit

text \<open>The meter: the priced nodes of a session's surface, and the price of one message.\<close>

record region_deps =
  dep_nodes :: "event list \<Rightarrow> priced_node list"
  dep_estimate :: "message \<Rightarrow> int"
  dep_errorText :: "region_error \<Rightarrow> string"

definition pairing_result :: "(pairing_error, 'a) result \<Rightarrow> (region_error, 'a) result" where
  "pairing_result r = (case r of Inl e \<Rightarrow> Inl (RegionPairing e) | Inr x \<Rightarrow> Inr x)"

definition session_result :: "(session_error, 'a) result \<Rightarrow> (region_error, 'a) result" where
  "session_result r = (case r of Inl e \<Rightarrow> Inl (RegionSession e) | Inr x \<Rightarrow> Inr x)"

text \<open>\<open>session.surface.nodes\<close>.\<close>

definition surfaceNodes :: "paired_session \<Rightarrow> (region_error, paired_session \<times> int list) result" where
  "surfaceNodes p =
     bindE (pairing_result (pairing_res (readSurface (ses_mgr (fst p))))) (\<lambda>(m, st).
       Inr (((fst p)\<lparr>ses_mgr := m\<rparr>, snd p), nodes st))"

subsection \<open>Selecting a range\<close>

text \<open>The loop from the tail that accumulates the retained budget.\<close>

primrec keepFrom :: "nat \<Rightarrow> priced_node list \<Rightarrow> int \<Rightarrow> int \<Rightarrow> nat" where
  "keepFrom 0 priced acc retain = 0"
| "keepFrom (Suc i) priced acc retain =
     (let acc' = acc + pn_tokens (priced ! i)
      in if retain \<le> acc' then i else keepFrom i priced acc' retain)"

text \<open>The loop that moves the cut to the left until it separates no call from its result.\<close>

primrec moveCut :: "nat \<Rightarrow> int list \<Rightarrow> paired_session \<Rightarrow> (region_error, paired_session \<times> nat) result" where
  "moveCut 0 ns p = Inr (p, 0)"
| "moveCut (Suc k) ns p =
     bindE (pairing_result (toolPairingBalancedBefore (ns ! Suc k) p)) (\<lambda>(p', b).
       if b then Inr (p', Suc k) else moveCut k ns p')"

definition selectCompactableRange ::
  "paired_session \<Rightarrow> priced_node list \<Rightarrow> int
     \<Rightarrow> (region_error, paired_session \<times> (int \<times> int) option) result" where
  "selectCompactableRange p priced retain =
     (if priced = [] then Inr (p, None)
      else bindE (surfaceNodes p) (\<lambda>(p1, ns).
        bindE (throw_if (length ns \<noteq> length priced \<or> ns \<noteq> map pn_seq priced) MeterMismatch) (\<lambda>_.
          let keepFromIdx = keepFrom (length priced) priced 0 retain in
          if keepFromIdx = 0 then Inr (p1, None)
          else bindE (moveCut keepFromIdx ns p1) (\<lambda>(p2, k).
            if k = 0 then Inr (p2, None) else Inr (p2, Some (ns ! 0, ns ! (k - 1)))))))"

subsection \<open>Validating a region\<close>

definition validateSurfaceRegion ::
  "paired_session \<Rightarrow> int \<Rightarrow> int \<Rightarrow> (region_error, paired_session \<times> selection) result" where
  "validateSurfaceRegion p s t =
     bindE (surfaceNodes p) (\<lambda>(p1, ns).
       case indexOf ns s of
         None \<Rightarrow> Inl (RegionStartMissing s)
       | Some i \<Rightarrow> (case indexOf ns t of
           None \<Rightarrow> Inl (RegionEndMissing t)
         | Some j \<Rightarrow>
             bindE (throw_if (j < i) RegionStartAfterEnd) (\<lambda>_.
             bindE (pairing_result (toolPairingBalancedBefore (ns ! i) p1)) (\<lambda>(p2, before).
             bindE (throw_if (\<not> before) (StartNotBalanced s)) (\<lambda>_.
             bindE (pairing_result (toolPairingBalancedAfter (ns ! j) p2)) (\<lambda>(p3, after).
             bindE (throw_if (\<not> after) (EndNotBalanced t)) (\<lambda>_.
               Inr (p3, \<lparr>sel_start = s, sel_end = t, sel_startIdx = i, sel_endIdx = j,
                         sel_shadowed = take (Suc j - i) (drop i ns)\<rparr>))))))))"

subsection \<open>Entry state of the log\<close>

record entry_state =
  es_openTurn :: "int option"
  es_turnKnown :: bool
  es_start :: "event option"
  es_startKnown :: bool
  es_endSeedSeq :: "int option"

definition entry_start :: entry_state where
  "entry_start = \<lparr>es_openTurn = None, es_turnKnown = False, es_start = None, es_startKnown = False,
     es_endSeedSeq = None\<rparr>"

definition entry_step :: "event \<Rightarrow> entry_state \<Rightarrow> entry_state" where
  "entry_step e st =
     (let st1 = (if es_endSeedSeq st = None \<and> ev_data e = EndSeed
          then st\<lparr>es_endSeedSeq := Some (ev_seq e)\<rparr> else st);
          st2 = (if es_startKnown st1 then st1 else case ev_data e of
            CompactionStart _ \<Rightarrow> st1\<lparr>es_start := Some e, es_startKnown := True\<rparr>
          | CompactionEnd _ _ \<Rightarrow> st1\<lparr>es_startKnown := True\<rparr>
          | _ \<Rightarrow> st1)
      in if es_turnKnown st2 then st2 else case ev_data e of
            TurnStart t \<Rightarrow> st2\<lparr>es_openTurn := Some t, es_turnKnown := True\<rparr>
          | TurnEnd _ _ \<Rightarrow> st2\<lparr>es_turnKnown := True\<rparr>
          | _ \<Rightarrow> st2)"

text \<open>The scan from the newest event, which stops once all three questions are settled.\<close>

primrec entry_scan :: "event list \<Rightarrow> entry_state \<Rightarrow> entry_state" where
  "entry_scan [] st = st"
| "entry_scan (e # es) st =
     (let st' = entry_step e st
      in if es_turnKnown st' \<and> es_startKnown st' \<and> es_endSeedSeq st' \<noteq> None then st'
         else entry_scan es st')"

definition inspectCompactionEntryState :: "event list \<Rightarrow> entry_state" where
  "inspectCompactionEntryState es = entry_scan (rev es) entry_start"

definition assertCompactionInactive :: "entry_state \<Rightarrow> (region_error, unit) result" where
  "assertCompactionInactive st =
     (case es_start st of
        None \<Rightarrow> Inr ()
      | Some e \<Rightarrow>
          throw_if (\<not> (case es_endSeedSeq st of None \<Rightarrow> False | Some q \<Rightarrow> ev_seq e < q))
            (ManualError ManualBusy None))"

text \<open>The recheck a policy makes after an await; it reads the log only.\<close>

definition assertNoActiveCompaction :: "event list \<Rightarrow> (region_error, unit) result" where
  "assertNoActiveCompaction es = assertCompactionInactive (inspectCompactionEntryState es)"

subsection \<open>Opening the transaction\<close>

text \<open>\<open>session.append\<close>; \<open>clock\<close> is what the wall clock reads when the event of a given seq is appended.\<close>

definition append_now ::
  "(int \<Rightarrow> int) \<Rightarrow> session \<Rightarrow> event_data \<Rightarrow> json option \<Rightarrow> json option \<Rightarrow> (session_error, session \<times> event) result" where
  "append_now clock s d op srcs = append_detached s (clock (int (length (ses_log s)))) d op srcs"

definition resolveOwner :: "transaction_options \<Rightarrow> entry_state \<Rightarrow> (region_error, int option) result" where
  "resolveOwner opts st =
     (if to_manual opts
      then bindE (throw_if (es_openTurn st \<noteq> None) (ManualError ManualBusy None)) (\<lambda>_. Inr None)
      else case es_openTurn st of None \<Rightarrow> Inl NoOpenTurn | Some t \<Rightarrow> Inr (Some t))"

definition lifecycle :: "string \<Rightarrow> transaction_options \<Rightarrow> int option \<Rightarrow> compaction_life" where
  "lifecycle i opts owner = \<lparr>cl_id = i, cl_command = to_command opts, cl_turn = owner\<rparr>"

text \<open>Everything up to and including the opening marker; an error leaves the log as it was.\<close>

definition openBracket ::
  "paired_session \<Rightarrow> int \<Rightarrow> int \<Rightarrow> transaction_options \<Rightarrow> bool \<Rightarrow> string \<Rightarrow> (int \<Rightarrow> int)
     \<Rightarrow> (region_error, paired_session \<times> selection \<times> compaction_life \<times> event) result" where
  "openBracket p s t opts aborted uuid clock =
     bindE (throw_if (to_manual opts \<and> aborted) Aborted) (\<lambda>_.
     bindE (validateSurfaceRegion p s t) (\<lambda>(p1, sel).
     case events (fst p1) of (s2, es) \<Rightarrow>
     let entry = inspectCompactionEntryState es in
     bindE (assertCompactionInactive entry) (\<lambda>_.
     bindE (resolveOwner opts entry) (\<lambda>owner.
     let life = lifecycle uuid opts owner in
     bindE (session_result (append_now clock s2 (CompactionStart life) None None)) (\<lambda>(s3, startEvent).
       Inr ((s3, snd p1), sel, life, startEvent))))))"

definition buildSummarizationInput :: "session \<Rightarrow> int list \<Rightarrow> session \<times> summary_input" where
  "buildSummarizationInput s shadowed =
     (case requestHeader s of (s1, header) \<Rightarrow>
      case events s1 of (s2, es) \<Rightarrow>
        (s2, \<lparr>si_system = (case header of None \<Rightarrow> None | Some h \<Rightarrow> hdr_system h),
              si_tools = (case header of None \<Rightarrow> None | Some h \<Rightarrow> hdr_tools h),
              si_messages = List.map_filter (\<lambda>q. case event_at es q of None \<Rightarrow> None
                | Some e \<Rightarrow> deriveEventMessage (ev_data e)) shadowed\<rparr>))"

definition prepareCompaction ::
  "region_deps \<Rightarrow> paired_session \<Rightarrow> selection \<Rightarrow> (region_error, paired_session \<times> prepared) result" where
  "prepareCompaction deps p sel =
     (let measured = dep_nodes deps (ses_log (fst p));
          selected = take (Suc (sel_endIdx sel) - sel_startIdx sel) (drop (sel_startIdx sel) measured)
      in bindE (throw_if (map pn_seq selected \<noteq> sel_shadowed sel) (SurfaceChanged None)) (\<lambda>_.
         case buildSummarizationInput (fst p) (sel_shadowed sel) of (s1, input) \<Rightarrow>
           Inr ((s1, snd p), \<lparr>pr_selection = sel, pr_nodes = measured, pr_selectedNodes = selected,
             pr_tokens = sum_list (map pn_tokens selected), pr_input = input\<rparr>)))"

subsection \<open>Checks after the summary\<close>

definition SUMMARY_OPEN_TAG :: string where
  "SUMMARY_OPEN_TAG = ''<compacted-summary>''"

definition SUMMARY_CLOSE_TAG :: string where
  "SUMMARY_CLOSE_TAG = ''</compacted-summary>''"

definition CHECKPOINT_PREAMBLE :: string where
  "CHECKPOINT_PREAMBLE = ''This is an automatically generated checkpoint condensing an earlier span of the conversation to free up context. Treat the captured context as established background and build on it without restating it. Continue the task directly from the messages that follow, without acknowledging this checkpoint.''"

definition newline :: string where
  "newline = [CHR 0x0A]"

definition frameSummary :: "content_block list \<Rightarrow> content_block list" where
  "frameSummary summary =
     [TextBlock (CHECKPOINT_PREAMBLE @ newline @ newline @ SUMMARY_OPEN_TAG)] @ summary
       @ [TextBlock SUMMARY_CLOSE_TAG]"

definition checkpoint_message :: "string \<Rightarrow> compaction_life \<Rightarrow> summary_result \<Rightarrow> message" where
  "checkpoint_message msgId life sr =
     \<lparr>msg_id = msgId, msg_role = RoleUser, msg_content = frameSummary (sr_summary sr),
      msg_source = compactCheckpointSource (cl_id life) (cl_command life)\<rparr>"

text \<open>What remains of \<open>summarizeCompaction\<close> once the summarizer has settled.\<close>

definition summarizeCompaction ::
  "region_deps \<Rightarrow> prepared \<Rightarrow> compaction_life \<Rightarrow> string \<Rightarrow> (string, summary_result) result
     \<Rightarrow> (region_error, summary_result \<times> message) result" where
  "summarizeCompaction deps pr life msgId outcome =
     (case outcome of
        Inl e \<Rightarrow> Inl (SummarizerFailed e)
      | Inr sr \<Rightarrow>
          let checkpoint = checkpoint_message msgId life sr; framed = dep_estimate deps checkpoint in
          bindE (throw_if (pr_tokens pr \<le> framed) (SummaryNotSmaller framed (pr_tokens pr))) (\<lambda>_.
            Inr (sr, checkpoint)))"

definition assertWholeSurfaceUnchanged ::
  "region_deps \<Rightarrow> paired_session \<Rightarrow> prepared \<Rightarrow> (region_error, paired_session) result" where
  "assertWholeSurfaceUnchanged deps p pr =
     bindE (throw_if (dep_nodes deps (ses_log (fst p)) \<noteq> pr_nodes pr) (SurfaceChanged None)) (\<lambda>_. Inr p)"

definition assertSelectedSpanStable ::
  "region_deps \<Rightarrow> paired_session \<Rightarrow> prepared \<Rightarrow> (region_error, paired_session) result" where
  "assertSelectedSpanStable deps p pr =
     (case validateSurfaceRegion p (sel_start (pr_selection pr)) (sel_end (pr_selection pr)) of
        Inl e \<Rightarrow> Inl (SurfaceChanged (Some e))
      | Inr (p1, current) \<Rightarrow>
          bindE (throw_if (sel_shadowed current \<noteq> sel_shadowed (pr_selection pr)) (SurfaceChanged None)) (\<lambda>_.
          let measured = take (Suc (sel_endIdx current) - sel_startIdx current)
                (drop (sel_startIdx current) (dep_nodes deps (ses_log (fst p1))))
          in bindE (throw_if (measured \<noteq> pr_selectedNodes pr) (SurfaceChanged None)) (\<lambda>_. Inr p1)))"

definition assertStable ::
  "region_deps \<Rightarrow> transaction_options \<Rightarrow> paired_session \<Rightarrow> prepared \<Rightarrow> (region_error, paired_session) result" where
  "assertStable deps opts p pr =
     (if to_stability opts = WholeSurface then assertWholeSurfaceUnchanged deps p pr
      else assertSelectedSpanStable deps p pr)"

subsection \<open>Committing and closing\<close>

record pending_result =
  pd_id :: string
  pd_command :: "string option"
  pd_startSeq :: int
  pd_summarySeq :: int
  pd_summary :: "content_block list"
  pd_start :: int
  pd_end :: int
  pd_shadowed :: "int list"
  pd_tokens :: int

record compaction_result = pending_result +
  cr_endSeq :: int

definition summary_data :: "compaction_life \<Rightarrow> prepared \<Rightarrow> summary_result \<Rightarrow> compaction_summary" where
  "summary_data life pr sr =
     \<lparr>cs_id = cl_id life, cs_command = cl_command life, cs_summary = sr_summary sr,
      cs_start = sel_start (pr_selection pr), cs_end = sel_end (pr_selection pr),
      cs_shadowed = sel_shadowed (pr_selection pr), cs_tokens = num_of_int (pr_tokens pr),
      cs_provider = sr_provider sr, cs_model = sr_model sr, cs_maxTokens = sr_maxTokens sr,
      cs_usage = sr_usage sr, cs_rawOutput = sr_rawOutput sr, cs_llmStreamCall = sr_llmStreamCall sr\<rparr>"

definition replace_op :: "int \<Rightarrow> int \<Rightarrow> json" where
  "replace_op s t = JObj [(''op'', JStr ''replace''), (''start'', JInt s), (''end'', JInt t)]"

text \<open>Both appends of the body; the session is returned with an error as well, since the first
  append stands when the second one throws.\<close>

definition commitCompactionBody ::
  "session \<Rightarrow> event \<Rightarrow> compaction_life \<Rightarrow> prepared \<Rightarrow> summary_result \<Rightarrow> message \<Rightarrow> (int \<Rightarrow> int)
     \<Rightarrow> session \<times> (region_error, pending_result) result" where
  "commitCompactionBody s startEvent life pr sr checkpoint clock =
     (let sel = pr_selection pr in
      case append_now clock s (CompactionSummary (summary_data life pr sr)) None None of
        Inl e \<Rightarrow> (s, Inl (RegionSession e))
      | Inr (s1, summaryEvent) \<Rightarrow>
          (case append_now clock s1 (UserMessage checkpoint) (Some (replace_op (sel_start sel) (sel_end sel)))
                  (Some (JArr (map JInt ([ev_seq startEvent, ev_seq summaryEvent] @ sel_shadowed sel)))) of
             Inl e \<Rightarrow> (s1, Inl (RegionSession e))
           | Inr (s2, _) \<Rightarrow>
               (s2, Inr \<lparr>pd_id = cl_id life, pd_command = cl_command life, pd_startSeq = ev_seq startEvent,
                  pd_summarySeq = ev_seq summaryEvent, pd_summary = sr_summary sr, pd_start = sel_start sel,
                  pd_end = sel_end sel, pd_shadowed = sel_shadowed sel, pd_tokens = pr_tokens pr\<rparr>)))"

definition completeCompaction :: "pending_result \<Rightarrow> event \<Rightarrow> compaction_result" where
  "completeCompaction pd endEvent = pending_result.extend pd (compaction_result.fields (ev_seq endEvent))"

text \<open>A settled transaction: its failure and the stage it failed at, whether the bracket is closed,
  and the result.\<close>

record settled =
  st_failure :: "(region_error \<times> failure_stage) option"
  st_closed :: bool
  st_result :: "compaction_result option"

text \<open>The catch clause before closing began: one attempt to close the bracket with the error.\<close>

definition closeFailed ::
  "region_deps \<Rightarrow> session \<Rightarrow> compaction_life \<Rightarrow> region_error \<Rightarrow> failure_stage \<Rightarrow> (int \<Rightarrow> int) \<Rightarrow> session \<times> settled" where
  "closeFailed deps s life e stage clock =
     (case append_now clock s (CompactionEnd life (Some (dep_errorText deps e))) None None of
        Inl ce \<Rightarrow> (s, \<lparr>st_failure = Some (RegionSession ce, StageCommit), st_closed = False, st_result = None\<rparr>)
      | Inr (s1, _) \<Rightarrow> (s1, \<lparr>st_failure = Some (e, stage), st_closed = True, st_result = None\<rparr>))"

text \<open>The commit: body and closing marker; once the close is attempted no second one follows.\<close>

definition commitAndClose ::
  "region_deps \<Rightarrow> session \<Rightarrow> event \<Rightarrow> compaction_life \<Rightarrow> prepared \<Rightarrow> summary_result \<Rightarrow> message \<Rightarrow> (int \<Rightarrow> int)
     \<Rightarrow> session \<times> settled" where
  "commitAndClose deps s startEvent life pr sr checkpoint clock =
     (case commitCompactionBody s startEvent life pr sr checkpoint clock of
        (s1, Inl e) \<Rightarrow> closeFailed deps s1 life e StageCommit clock
      | (s1, Inr pd) \<Rightarrow>
          (case append_now clock s1 (CompactionEnd life None) None None of
             Inl e \<Rightarrow> (s1, \<lparr>st_failure = Some (RegionSession e, StageCommit), st_closed = False, st_result = None\<rparr>)
           | Inr (s2, endEvent) \<Rightarrow>
               (s2, \<lparr>st_failure = None, st_closed = True, st_result = Some (completeCompaction pd endEvent)\<rparr>)))"

text \<open>The checks between the summarizer's settlement and the commit.\<close>

definition afterSummary ::
  "region_deps \<Rightarrow> transaction_options \<Rightarrow> paired_session \<Rightarrow> compaction_life \<Rightarrow> prepared \<Rightarrow> string
     \<Rightarrow> (string, summary_result) result \<Rightarrow> bool
     \<Rightarrow> (region_error, paired_session \<times> summary_result \<times> message) result" where
  "afterSummary deps opts p life pr msgId outcome aborted =
     bindE (summarizeCompaction deps pr life msgId outcome) (\<lambda>(sr, checkpoint).
     bindE (throw_if (to_manual opts \<and> aborted) Aborted) (\<lambda>_.
     bindE (assertStable deps opts p pr) (\<lambda>p1. Inr (p1, sr, checkpoint))))"

definition resumeRegion ::
  "region_deps \<Rightarrow> transaction_options \<Rightarrow> paired_session \<Rightarrow> event \<Rightarrow> compaction_life \<Rightarrow> prepared \<Rightarrow> string
     \<Rightarrow> (string, summary_result) result \<Rightarrow> bool \<Rightarrow> (int \<Rightarrow> int) \<Rightarrow> session \<times> settled" where
  "resumeRegion deps opts p startEvent life pr msgId outcome aborted clock =
     (case afterSummary deps opts p life pr msgId outcome aborted of
        Inl e \<Rightarrow> closeFailed deps (fst p) life e StageSummary clock
      | Inr (p1, sr, checkpoint) \<Rightarrow> commitAndClose deps (fst p1) startEvent life pr sr checkpoint clock)"

text \<open>The synchronous part: either the transaction awaits the summarizer or the preparation failed
  and the bracket is already settled.\<close>

datatype opened =
    Awaiting paired_session event compaction_life prepared
  | Settled session settled

definition openRegion ::
  "region_deps \<Rightarrow> paired_session \<Rightarrow> int \<Rightarrow> int \<Rightarrow> transaction_options \<Rightarrow> bool \<Rightarrow> string \<Rightarrow> (int \<Rightarrow> int)
     \<Rightarrow> (region_error, opened) result" where
  "openRegion deps p s t opts aborted uuid clock =
     bindE (openBracket p s t opts aborted uuid clock) (\<lambda>(p1, sel, life, startEvent).
       Inr (case prepareCompaction deps p1 sel of
          Inl e \<Rightarrow> (case closeFailed deps (fst p1) life e StageSummary clock of (s2, st) \<Rightarrow> Settled s2 st)
        | Inr (p2, pr) \<Rightarrow> Awaiting p2 startEvent life pr))"

subsection \<open>The outcome\<close>

fun throwManualFailure :: "region_error \<times> failure_stage \<Rightarrow> region_error" where
  "throwManualFailure (e, StageCommit) = ManualError ManualCommit (Some e)"
| "throwManualFailure (SurfaceChanged c, StageSummary) = ManualError ManualChanged (Some (SurfaceChanged c))"
| "throwManualFailure (e, StageSummary) = ManualError ManualSummary (Some e)"

definition finishRegion ::
  "transaction_options \<Rightarrow> settled \<Rightarrow> string option \<Rightarrow> bool \<Rightarrow> (region_error, compaction_result) result" where
  "finishRegion opts st flushOutcome aborted =
     (let flushFailure = (if st_closed st \<and> to_flush opts then flushOutcome else None) in
      if to_manual opts \<and> aborted then Inl Aborted
      else case st_failure st of
        Some f \<Rightarrow> Inl (if to_manual opts then throwManualFailure f else fst f)
      | None \<Rightarrow> (case flushFailure of
            Some e \<Rightarrow> Inl (ManualError ManualPersistence (Some (FlushFailed e)))
          | None \<Rightarrow> (case st_result st of None \<Rightarrow> Inl NoResult | Some r \<Rightarrow> Inr r)))"

end
