(* ===== verification/Repair_Facts.thy ===== *)
theory Repair_Facts
  imports Repair Surface_Manager
begin

text \<open>
  The repair is right: after the synthetic closers a valid interrupted log is valid again, in
  both senses the session enforces (the relational trace and the surface fold), it is balanced,
  and repairing it once more adds nothing.
\<close>

subsection \<open>The scan follows the trace\<close>

definition repair_sync :: "repair_state \<Rightarrow> session_trace \<Rightarrow> bool" where
  "repair_sync s tr =
     (rp_openTurn s = tr_openTurn tr \<and> rp_openStep s = tr_openStep tr \<and> omap_wf (rp_pending s)
      \<and> (\<forall>(c, pc) \<in> set (rp_pending s). tr_openStep tr = Some (pc_step pc)
           \<and> (\<forall>q. pc_callSeq pc = Some q \<longrightarrow> c \<in> tr_pendingCalls tr \<and> 0 \<le> q \<and> q \<le> tr_lastSeq tr)))"

lemma set_omap_set: "set (omap_set k v ps) \<subseteq> insert (k, v) (set ps)"
  by (induction ps) auto

lemma register_calls_wf: "omap_wf ps \<Longrightarrow> omap_wf (register_calls step bs ps)"
  by (induction step bs ps rule: register_calls.induct) auto

lemma register_calls_set:
  "set (register_calls step bs ps) \<subseteq> set ps \<union> {(c, pc). pc_step pc = step \<and> pc_callSeq pc = None}"
proof (induction step bs ps rule: register_calls.induct)
  case (2 step c nm args bs ps)
  then show ?case using set_omap_set [of c "\<lparr>pc_step = step, pc_callSeq = None\<rparr>" ps] by auto
qed auto

lemma repair_sync_start: "repair_sync repair_start freshTrace"
  by (simp add: repair_sync_def repair_start_def freshTrace_def)

lemma pending_no_step: "repair_sync s tr \<Longrightarrow> tr_openStep tr = None \<Longrightarrow> rp_pending s = []"
  by (cases "rp_pending s") (auto simp: repair_sync_def)

lemma repair_sync_mono:
  assumes "repair_sync s tr" "rp_openTurn s' = tr_openTurn tr'" "rp_openStep s' = tr_openStep tr'"
    and "tr_openStep tr' = tr_openStep tr" "omap_wf (rp_pending s')"
    and "tr_lastSeq tr \<le> tr_lastSeq tr'"
    and "\<And>c pc. (c, pc) \<in> set (rp_pending s') \<Longrightarrow>
      (c, pc) \<in> set (rp_pending s) \<and> (c \<in> tr_pendingCalls tr \<longrightarrow> c \<in> tr_pendingCalls tr')
      \<or> tr_openStep tr' = Some (pc_step pc)
        \<and> (\<forall>q. pc_callSeq pc = Some q \<longrightarrow> c \<in> tr_pendingCalls tr' \<and> 0 \<le> q \<and> q \<le> tr_lastSeq tr')"
  shows "repair_sync s' tr'"
  using assms unfolding repair_sync_def by fastforce

lemma repair_sync_step:
  assumes sync: "repair_sync s tr" and inv: "trace_inv tr" and step: "traceStep tr e = Inr tr'"
    and last: "- 1 \<le> tr_lastSeq tr"
  shows "repair_sync (scan_event s e) tr'"
proof -
  have seq: "tr_lastSeq tr < ev_seq e" using step by (auto simp: trace_defs)
  show ?thesis
  proof (cases "ev_data e")
    case (TurnStart t)
    then show ?thesis using sync step inv
      by (auto simp: trace_defs scan_event_def repair_sync_def trace_inv_def)
  next
    case (TurnEnd t r)
    then show ?thesis using sync step
      by (auto simp: trace_defs scan_event_def repair_sync_def)
  next
    case (StepStart t st)
    then show ?thesis using sync step pending_no_step [OF sync]
      by (auto simp: trace_defs scan_event_def repair_sync_def)
  next
    case (StepEnd t st)
    then show ?thesis using sync step
      by (auto simp: trace_defs scan_event_def repair_sync_def)
  next
    case (AssistantMessage t st m u)
    then show ?thesis using sync step seq register_calls_set [of st "msg_content m" "rp_pending s"]
      by (intro repair_sync_mono [OF sync])
        (auto simp: trace_defs scan_event_def repair_sync_def register_calls_wf)
  next
    case (ToolCall t st c nm args)
    show ?thesis
    proof (cases "map_of (rp_pending s) c")
      case None
      then show ?thesis using sync step seq ToolCall
        by (intro repair_sync_mono [OF sync]) (auto simp: trace_defs scan_event_def repair_sync_def)
    next
      case (Some pc)
      then have "(c, pc) \<in> set (rp_pending s)" by (rule map_of_SomeD)
      then have "pc_step pc = st" using sync step ToolCall
        by (auto simp: trace_defs repair_sync_def)
      then show ?thesis using sync step seq last ToolCall Some
        by (intro repair_sync_mono [OF sync])
          (auto simp: trace_defs scan_event_def repair_sync_def dest!: set_omap_set [THEN subsetD])
    qed
  next
    case (ToolResult t st m err meta)
    then show ?thesis using sync step seq
      by (intro repair_sync_mono [OF sync])
        (auto simp: trace_defs scan_event_def repair_sync_def set_omap_delete split: if_splits)
  qed (use sync step seq in \<open>auto intro!: repair_sync_mono [OF sync]
        simp: trace_defs scan_event_def repair_sync_def\<close>)
qed

lemma trace_lastSeq: "traceStep tr e = Inr tr' \<Longrightarrow> tr_lastSeq tr' = ev_seq e \<and> tr_lastSeq tr < ev_seq e"
  by (cases "(tr, e, ev_data e)" rule: validateByType.cases)
    (auto simp: trace_defs split: if_splits)

lemma traceOf_facts:
  assumes "traceOf es = Inr tr"
  shows "trace_inv tr \<and> repair_sync (scan_log es) tr \<and> - 1 \<le> tr_lastSeq tr
    \<and> (es \<noteq> [] \<longrightarrow> tr_lastSeq tr = ev_seq (last es))"
  using assms
proof (induction es arbitrary: tr rule: rev_induct)
  case Nil
  then have "tr = freshTrace" by (simp add: traceOf_def)
  moreover have "tr_lastSeq freshTrace = - 1" by (simp add: freshTrace_def)
  ultimately show ?case by (simp add: scan_log_def repair_sync_start)
next
  case (snoc e es)
  then obtain tr0 where tr0: "traceOf es = Inr tr0" "traceStep tr0 e = Inr tr"
    by (auto simp: traceOf_snoc)
  from snoc.IH [OF tr0(1)] trace_lastSeq [OF tr0(2)] trace_step_inv [OF _ tr0(2)]
    repair_sync_step [OF _ _ tr0(2)]
  show ?case by (auto simp: scan_log_def)
qed

lemma traceOf_nonempty: "traceOf es = Inr tr \<Longrightarrow> tr_openTurn tr = Some t \<Longrightarrow> es \<noteq> []"
  by (auto simp: traceOf_def freshTrace_def)

subsection \<open>The closers pass the trace\<close>

lemma closer_step:
  assumes "tr_lastSeq tr < seq" "tr_openTurn tr = Some turn" "tr_openStep tr = Some (pc_step pc)"
    and "pc_callSeq pc \<noteq> None \<Longrightarrow> c \<in> tr_pendingCalls tr"
  shows "traceStep tr (closer_result turn time seq (c, pc)) =
    Inr (tr\<lparr>tr_lastSeq := seq, tr_pendingCalls := tr_pendingCalls tr - {c}\<rparr>)"
  using assms
  by (auto simp: trace_defs closer_result_def closer_message_def synthetic_not_started_def
      result_call_id_def throw_if_def)

lemma closers_trace:
  assumes "tr_lastSeq tr < seq" "tr_openTurn tr = Some turn" "distinct (map fst ps)"
    and "\<forall>(c, pc) \<in> set ps. tr_openStep tr = Some (pc_step pc)
      \<and> (pc_callSeq pc \<noteq> None \<longrightarrow> c \<in> tr_pendingCalls tr)"
  shows "\<exists>tr'. foldE traceStep tr (closer_results turn time seq ps) = Inr tr'
    \<and> tr_openTurn tr' = Some turn \<and> tr_openStep tr' = tr_openStep tr
    \<and> tr_lastSeq tr' < seq + int (length ps)
    \<and> (tr_openStep tr = None \<longrightarrow> tr_pendingCalls tr' = tr_pendingCalls tr)"
  using assms
proof (induction ps arbitrary: tr seq)
  case Nil
  then show ?case by auto
next
  case (Cons p ps)
  obtain c pc where p: "p = (c, pc)" by (cases p)
  let ?tr = "tr\<lparr>tr_lastSeq := seq, tr_pendingCalls := tr_pendingCalls tr - {c}\<rparr>"
  have st: "traceStep tr (closer_result turn time seq p) = Inr ?tr"
    using Cons.prems unfolding p by (intro closer_step) auto
  have "\<forall>(c', pc') \<in> set ps. tr_openStep ?tr = Some (pc_step pc')
      \<and> (pc_callSeq pc' \<noteq> None \<longrightarrow> c' \<in> tr_pendingCalls ?tr)"
    using Cons.prems(3,4) by (force simp: p)
  then obtain tr' where "foldE traceStep ?tr (closer_results turn time (seq + 1) ps) = Inr tr'"
      "tr_openTurn tr' = Some turn" "tr_openStep tr' = tr_openStep ?tr"
      "tr_lastSeq tr' < seq + 1 + int (length ps)"
    using Cons.IH [of ?tr "seq + 1"] Cons.prems by auto
  moreover have "tr_openStep tr \<noteq> None" using Cons.prems(4) by (auto simp: p)
  ultimately show ?case using st by auto
qed

lemma boundary_trace:
  assumes "tr_lastSeq tr < seq" "tr_openTurn tr = Some turn"
    and "tr_openStep tr = None \<Longrightarrow> tr_pendingCalls tr = {}"
  shows "\<exists>tr'. foldE traceStep tr (boundary_closers turn time seq (tr_openStep tr)) = Inr tr'
    \<and> tr_openTurn tr' = None \<and> tr_openStep tr' = None \<and> tr_pendingCalls tr' = {}"
  using assms
  by (cases "tr_openStep tr") (auto simp: boundary_closers_def trace_defs throw_if_def)

lemma scan_ends_closed: "rp_openTurn (scan_log (es @ xs @ [plain_event q t (TurnEnd n r)])) = None"
  by (simp add: scan_log_def scan_event_def)

lemma boundary_closers_last:
  "\<exists>xs q. boundary_closers turn time seq st = xs @ [plain_event q time (TurnEnd turn Interrupted)]"
  by (cases st) (auto simp: boundary_closers_def)

text \<open>
  C7: crash repair is sound, complete and idempotent. If the relational trace
  accepts a stored log, whatever point it was cut at, it accepts the log extended by
  \<open>interruptedTurnClosers\<close>; afterwards no turn, step or call is open; and a second repair of the
  repaired log is empty.
\<close>

theorem repair_restores_balance:
  assumes "traceOf es = Inr tr"
  shows "\<exists>tr'. traceOf (es @ interruptedTurnClosers es) = Inr tr'
    \<and> tr_openTurn tr' = None \<and> tr_openStep tr' = None \<and> tr_pendingCalls tr' = {}
    \<and> interruptedTurnClosers (es @ interruptedTurnClosers es) = []"
proof -
  note f = traceOf_facts [OF assms]
  let ?s = "scan_log es"
  have sync: "repair_sync ?s tr" and inv: "trace_inv tr" using f by simp_all
  show ?thesis
  proof (cases "tr_openTurn tr")
    case None
    then have "rp_openTurn ?s = None" using sync by (simp add: repair_sync_def)
    then have "interruptedTurnClosers es = []" by (simp add: interruptedTurnClosers_def Let_def)
    then show ?thesis using None inv assms by (auto simp: trace_inv_def)
  next
    case (Some turn)
    define seq where "seq = ev_seq (last es) + 1"
    define time where "time = ev_time (last es)"
    let ?ps = "rp_pending ?s"
    have ne: "es \<noteq> []" using traceOf_nonempty [OF assms Some] .
    have open_t: "rp_openTurn ?s = Some turn" and open_s: "rp_openStep ?s = tr_openStep tr"
      using sync Some by (simp_all add: repair_sync_def)
    have cl: "interruptedTurnClosers es = closer_results turn time seq ?ps
        @ boundary_closers turn time (seq + int (length ?ps)) (tr_openStep tr)"
      using ne by (simp add: interruptedTurnClosers_def Let_def open_t open_s seq_def time_def)
    have a: "tr_lastSeq tr < seq" using f ne by (simp add: seq_def)
    have b: "distinct (map fst ?ps)" using sync by (simp add: repair_sync_def omap_wf_def)
    have c: "\<forall>(c, pc) \<in> set ?ps. tr_openStep tr = Some (pc_step pc)
        \<and> (pc_callSeq pc \<noteq> None \<longrightarrow> c \<in> tr_pendingCalls tr)"
      using sync by (fastforce simp: repair_sync_def)
    from closers_trace [OF a Some b c] obtain tr1 where tr1: "foldE traceStep tr (closer_results turn time seq ?ps) = Inr tr1"
      "tr_openTurn tr1 = Some turn" "tr_openStep tr1 = tr_openStep tr"
      "tr_lastSeq tr1 < seq + int (length ?ps)"
      "tr_openStep tr = None \<longrightarrow> tr_pendingCalls tr1 = tr_pendingCalls tr"
      by blast
    have "tr_openStep tr1 = None \<Longrightarrow> tr_pendingCalls tr1 = {}"
      using tr1(3,5) inv by (auto simp: trace_inv_def)
    with boundary_trace [OF tr1(4,2), of time] tr1(3) obtain tr' where tr':
      "foldE traceStep tr1 (boundary_closers turn time (seq + int (length ?ps)) (tr_openStep tr)) = Inr tr'"
      "tr_openTurn tr' = None" "tr_openStep tr' = None" "tr_pendingCalls tr' = {}"
      by auto
    have "traceOf (es @ interruptedTurnClosers es) = Inr tr'"
      using assms tr1(1) tr'(1) by (simp add: traceOf_append cl foldE_append)
    moreover have "rp_openTurn (scan_log (es @ interruptedTurnClosers es)) = None"
      using boundary_closers_last [of turn time "seq + int (length ?ps)" "tr_openStep tr"]
        scan_ends_closed by (auto simp: cl simp flip: append_assoc)
    ultimately show ?thesis using tr' by (auto simp: interruptedTurnClosers_def Let_def)
  qed
qed

subsection \<open>The closers pass the surface fold\<close>

lemma closer_surface:
  assumes "pc_callSeq pc \<noteq> None \<longrightarrow> (\<exists>q. pc_callSeq pc = Some q \<and> 0 \<le> q \<and> q < seq \<and> safe_int q)"
  shows "applySurfaceEvent st (closer_result turn time seq (c, pc)) seq es 0
    = Inr (st\<lparr>nodes := nodes st @ [seq]\<rparr>, None)"
  using assms
  by (auto simp: applySurfaceEvent_def planSurfaceEvent_def surfaceOpOf_def closer_result_def
      assertProvenance_def sourceSeqs_def commitPlan_def planReplacement_def throw_if_def
      split: option.splits)

lemma upt_offset: "map (\<lambda>i. x + int i) [0..<Suc n] = x # map (\<lambda>i. (x + 1) + int i) [0..<n]"
  by (subst upt_conv_Cons) (simp_all add: map_Suc_upt [symmetric] comp_def del: upt_Suc)

lemma closers_surface:
  assumes "fold_state es = Inr st"
    and "\<forall>(c, pc) \<in> set ps. pc_callSeq pc \<noteq> None \<longrightarrow>
      (\<exists>q. pc_callSeq pc = Some q \<and> 0 \<le> q \<and> q < int (length es) \<and> safe_int q)"
  shows "fold_state (es @ closer_results turn time (int (length es)) ps)
    = Inr (st\<lparr>nodes := nodes st @ map (\<lambda>i. int (length es) + int i) [0..<length ps]\<rparr>)"
  using assms
proof (induction ps arbitrary: es st)
  case Nil
  then show ?case by simp
next
  case (Cons p ps)
  obtain c pc where p: "p = (c, pc)" by (cases p)
  let ?n = "int (length es)"
  let ?e = "closer_result turn time ?n p"
  have one: "fold_state (es @ [?e]) = Inr (st\<lparr>nodes := nodes st @ [?n]\<rparr>)"
    using Cons.prems closer_surface [of pc ?n st turn time c es] by (auto simp: fold_state_snoc p)
  have "\<forall>(c, pc) \<in> set ps. pc_callSeq pc \<noteq> None \<longrightarrow>
      (\<exists>q. pc_callSeq pc = Some q \<and> 0 \<le> q \<and> q < int (length (es @ [?e])) \<and> safe_int q)"
    using Cons.prems(2) by fastforce
  note last = this
  have seqs: "map (\<lambda>i. ?n + int i) [0..<length (p # ps)] = ?n # map (\<lambda>i. (?n + 1) + int i) [0..<length ps]"
    using upt_offset [of ?n "length ps"] by simp
  have split: "es @ closer_results turn time ?n (p # ps)
      = (es @ [?e]) @ closer_results turn time (int (length (es @ [?e]))) ps"
    by (simp add: add.commute)
  show ?case unfolding split Cons.IH [OF one last] seqs by (simp add: add.commute)
qed

lemma length_closer_results [simp]: "length (closer_results turn time seq ps) = length ps"
  by (induction ps arbitrary: seq) simp_all

lemma boundary_surface:
  "fold_state (es @ boundary_closers turn time (int (length es)) os) = fold_state es"
proof (cases os)
  case (Some step)
  let ?n = "int (length es)"
  have "fold_state ((es @ [plain_event ?n time (StepEnd turn step)])
      @ [plain_event (int (length (es @ [plain_event ?n time (StepEnd turn step)]))) time
          (TurnEnd turn Interrupted)]) = fold_state es"
    by (subst fold_state_plain; simp add: fold_state_plain)
  then show ?thesis by (simp add: boundary_closers_def Some add.commute)
qed (simp add: boundary_closers_def fold_state_plain)

definition answered_calls :: "event list \<Rightarrow> string list" where
  "answered_calls es = concat (map (\<lambda>e. case ev_data e of
     ToolResult _ _ m _ _ \<Rightarrow> [result_call_id m] | _ \<Rightarrow> []) es)"

lemma answered_closers:
  "answered_calls (closer_results turn time seq ps) = omap_keys ps"
  by (induction ps arbitrary: seq)
    (auto simp: answered_calls_def omap_keys_def closer_result_def closer_message_def result_call_id_def)

lemma answered_boundary: "answered_calls (boundary_closers turn time seq os) = []"
  by (cases os) (simp_all add: boundary_closers_def answered_calls_def)

lemma answered_append: "answered_calls (xs @ ys) = answered_calls xs @ answered_calls ys"
  by (simp add: answered_calls_def)

text \<open>
  The repair leaves a transcript a provider accepts. On a log the
  session accepts, with sequence numbers in the safe range, the repaired log still folds to a
  surface: the old nodes, then one tool result per unanswered call of the open step, in the order
  the calls were made, each call answered exactly once and nothing else appended.
\<close>

theorem repair_answers_pending_calls:
  assumes "traceOf es = Inr tr" and "fold_state es = Inr st"
    and "int (length es) \<le> MAX_SAFE_INTEGER"
  defines "pending \<equiv> (if tr_openTurn tr = None then [] else omap_keys (rp_pending (scan_log es)))"
  shows "fold_state (es @ interruptedTurnClosers es)
      = Inr (st\<lparr>nodes := nodes st @ map (\<lambda>i. int (length es) + int i) [0..<length pending]\<rparr>)
    \<and> answered_calls (interruptedTurnClosers es) = pending \<and> distinct pending"
proof (cases "tr_openTurn tr")
  case None
  have "rp_openTurn (scan_log es) = None"
    using traceOf_facts [OF assms(1)] None by (simp add: repair_sync_def)
  then show ?thesis using None assms(2)
    by (simp add: pending_def interruptedTurnClosers_def Let_def answered_calls_def)
next
  case (Some turn)
  note f = traceOf_facts [OF assms(1)]
  let ?ps = "rp_pending (scan_log es)" and ?n = "int (length es)"
  have ne: "es \<noteq> []" using traceOf_nonempty [OF assms(1) Some] .
  have seq: "ev_seq (last es) + 1 = ?n" by (rule fold_state_seq [OF assms(2) ne])
  have open_t: "rp_openTurn (scan_log es) = Some turn"
    using f Some by (simp add: repair_sync_def)
  have cl: "interruptedTurnClosers es = closer_results turn (ev_time (last es)) ?n ?ps
      @ boundary_closers turn (ev_time (last es)) (?n + int (length ?ps)) (rp_openStep (scan_log es))"
    using ne by (simp add: interruptedTurnClosers_def Let_def open_t seq)
  have range: "\<forall>(c, pc) \<in> set ?ps. pc_callSeq pc \<noteq> None \<longrightarrow>
      (\<exists>q. pc_callSeq pc = Some q \<and> 0 \<le> q \<and> q < ?n \<and> safe_int q)"
  proof -
    have "0 \<le> q \<and> q < ?n \<and> safe_int q" if "(c, pc) \<in> set ?ps" "pc_callSeq pc = Some q" for c pc q
    proof -
      have "0 \<le> q" "q \<le> tr_lastSeq tr" using f that by (fastforce simp: repair_sync_def)+
      then show ?thesis using f ne seq assms(3) by (auto simp: safe_int_def)
    qed
    then show ?thesis by auto
  qed
  let ?cs = "closer_results turn (ev_time (last es)) ?n ?ps"
  have "fold_state ((es @ ?cs) @ boundary_closers turn (ev_time (last es)) (int (length (es @ ?cs)))
      (rp_openStep (scan_log es))) = fold_state (es @ ?cs)"
    by (rule boundary_surface)
  then have "fold_state (es @ interruptedTurnClosers es) = fold_state (es @ ?cs)"
    by (simp add: cl add.commute)
  moreover have "distinct (omap_keys ?ps)" using f by (simp add: repair_sync_def omap_wf_def omap_keys_def)
  ultimately show ?thesis using Some closers_surface [OF assms(2) range]
    by (simp add: pending_def cl answered_append answered_closers answered_boundary omap_keys_def)
qed

definition interrupted_log :: "event list" where
  "interrupted_log =
     [plain_event 0 7 (TurnStart 1), plain_event 1 7 (StepStart 1 1),
      append_event 2 (AssistantMessage 1 1 (demo_message ''a'' RoleAssistant
        (SourceModel ''p'' ''m'' None) [ToolCallBlock ''c1'' ''bash'' ''{}'', ToolCallBlock ''c2'' ''read'' ''{}''])
        None),
      plain_event 3 9 (ToolCall 1 1 ''c1'' ''bash'' ''{}'')]"

definition interrupted_trace :: session_trace where
  "interrupted_trace = \<lparr>tr_lastSeq = 3, tr_openTurn = Some 1, tr_openStep = Some 1, tr_nextTurn = 1,
     tr_nextStep = 1, tr_pendingCalls = {''c1''}\<rparr>"

lemma interrupted_trace_of: "traceOf interrupted_log = Inr interrupted_trace"
  by (simp add: interrupted_log_def interrupted_trace_def traceOf_def trace_defs freshTrace_def
      append_event_def throw_if_def)

lemma interrupted_fold: "fold_state interrupted_log = Inr \<lparr>nodes = [2], replaceGeneration = 0\<rparr>"
  by code_simp

lemma interrupted_pending: "omap_keys (rp_pending (scan_log interrupted_log)) = [''c1'', ''c2'']"
  by code_simp

theorem repair_restores_balance_witness:
  "length (interruptedTurnClosers interrupted_log) = 4
   \<and> (\<exists>tr'. traceOf (interrupted_log @ interruptedTurnClosers interrupted_log) = Inr tr'
      \<and> tr_openTurn tr' = None \<and> tr_openStep tr' = None \<and> tr_pendingCalls tr' = {}
      \<and> interruptedTurnClosers (interrupted_log @ interruptedTurnClosers interrupted_log) = [])"
proof
  show "length (interruptedTurnClosers interrupted_log) = 4" by code_simp
qed (rule repair_restores_balance [OF interrupted_trace_of])

theorem repair_answers_pending_calls_witness:
  "fold_state (interrupted_log @ interruptedTurnClosers interrupted_log)
      = Inr \<lparr>nodes = [2, 4, 5], replaceGeneration = 0\<rparr>
    \<and> answered_calls (interruptedTurnClosers interrupted_log) = [''c1'', ''c2'']"
proof -
  have n: "length interrupted_log = 4" by (simp add: interrupted_log_def)
  then have "int (length interrupted_log) \<le> MAX_SAFE_INTEGER" by (simp add: MAX_SAFE_INTEGER_def)
  note r = repair_answers_pending_calls [OF interrupted_trace_of interrupted_fold this]
  show ?thesis using r by (simp add: interrupted_trace_def interrupted_pending n upt_rec)
qed

end
