(* ===== verification/Compaction_Trace_Facts.thy ===== *)
theory Compaction_Trace_Facts
  imports Compaction_Trace Repair_Facts
begin

text \<open>
  Facts about the compaction bracket: reading a log back agrees with having watched it live, the
  repair of a crashed turn releases the lock a crash left behind, and a bracket that closes without
  an error holds exactly one summary of its own transaction.
\<close>

subsection \<open>Live checks and replay\<close>

lemmas compaction_step_defs = seed_step_def live_step_def stageEvent_def publishEvent_def
  validateCompactionEvent_def validateTurnBoundary_def commit_transition_def

lemma boundary_checked_empty [simp]: "boundary_checked {} tr"
  by (simp add: boundary_checked_def split: option.split)

lemma live_step_seed: "live_step tr e = seed_step {} tr e"
  by (cases "(tr, e, ev_data e)" rule: validateCompactionData.cases)
    (auto simp: compaction_step_defs bindE_def throw_if_def res_map_def split: sum.split if_splits)

lemma seed_step_mono: "seed_step S tr e = Inr tr' \<Longrightarrow> S \<subseteq> T \<Longrightarrow> seed_step T tr e = Inr tr'"
  by (auto simp: seed_step_def boundary_checked_def split: if_splits option.splits)

lemma seed_fold_mono:
  "foldE (seed_step S) tr es = Inr tr' \<Longrightarrow> S \<subseteq> T \<Longrightarrow> foldE (seed_step T) tr es = Inr tr'"
  by (induction es arbitrary: tr) (auto dest: seed_step_mono)

lemma orphan_scan_append: "orphan_scan (xs @ ys) = foldl orphan_step (orphan_scan xs) ys"
  by (simp add: orphan_scan_def)

lemma orphan_step_grows: "fst p \<subseteq> fst (orphan_step p e)"
  by (cases p) (auto split: event_data.split)

lemma orphan_foldl_grows: "fst p \<subseteq> fst (foldl orphan_step p ys)"
proof (induction ys arbitrary: p)
  case (Cons y ys)
  show ?case using orphan_step_grows [of p y] Cons.IH [of "orphan_step p y"] by simp
qed simp

lemma orphans_grow: "inheritedOrphanStartSeqs xs \<subseteq> inheritedOrphanStartSeqs (xs @ ys)"
  by (simp add: inheritedOrphanStartSeqs_def orphan_scan_append orphan_foldl_grows)

lemma seed_append:
  assumes "seedCompaction es = Inr tr"
  shows "seedCompaction (es @ xs) = foldE (seed_step (inheritedOrphanStartSeqs (es @ xs))) tr xs"
  using seed_fold_mono [OF assms [unfolded seedCompaction_def] orphans_grow [of es xs]]
  by (simp add: seedCompaction_def foldE_append)

subsection \<open>What an accepted step does to the bracket\<close>

text \<open>The open start as the scan for orphans sees it, and the open turn as crash repair sees it.\<close>

lemma seed_step_open:
  assumes "seed_step S tr e = Inr tr'" "openSeq = map_option co_startSeq (ct_compaction tr)"
  shows "snd (orphan_step (stale, openSeq) e) = map_option co_startSeq (ct_compaction tr')"
  using assms
  by (cases "(tr, e, ev_data e)" rule: validateCompactionData.cases)
    (auto simp: compaction_step_defs validateStart_def validateSummary_def validateEnd_def
      split: if_splits option.splits)

lemma seed_step_turn:
  assumes "seed_step S tr e = Inr tr'" "ct_openTurn tr = rp_openTurn s"
  shows "ct_openTurn tr' = rp_openTurn (scan_event s e)"
  using assms
  by (cases "ev_data e") (auto simp: seed_step_def scan_event_def commit_transition_def
      validateCompactionEvent_def split: if_splits option.splits)

lemma seed_fold_open:
  "foldE (seed_step S) tr es = Inr tr' \<Longrightarrow> openSeq = map_option co_startSeq (ct_compaction tr)
   \<Longrightarrow> snd (foldl orphan_step (stale, openSeq) es) = map_option co_startSeq (ct_compaction tr')"
proof (induction es arbitrary: tr stale openSeq)
  case (Cons e es)
  obtain t where t: "seed_step S tr e = Inr t" "foldE (seed_step S) t es = Inr tr'"
    using Cons.prems(1) by auto
  show ?case
    using Cons.IH [OF t(2) seed_step_open [OF t(1) Cons.prems(2), of stale],
        of "fst (orphan_step (stale, openSeq) e)"]
    unfolding foldl_Cons prod.collapse .
qed simp

lemma seed_fold_turn:
  "foldE (seed_step S) tr es = Inr tr' \<Longrightarrow> ct_openTurn tr = rp_openTurn s
   \<Longrightarrow> ct_openTurn tr' = rp_openTurn (foldl scan_event s es)"
proof (induction es arbitrary: tr s)
  case (Cons e es)
  obtain t where t: "seed_step S tr e = Inr t" "foldE (seed_step S) t es = Inr tr'"
    using Cons.prems(1) by auto
  show ?case using Cons.IH [OF t(2) seed_step_turn [OF t(1) Cons.prems(2)]] by simp
qed simp

lemma seed_open:
  assumes "seedCompaction es = Inr tr"
  shows "snd (orphan_scan es) = map_option co_startSeq (ct_compaction tr)"
  using seed_fold_open [OF assms [unfolded seedCompaction_def], of None "{}"]
  by (simp add: orphan_scan_def freshCompaction_def)

lemma seed_turn:
  assumes "seedCompaction es = Inr tr"
  shows "ct_openTurn tr = rp_openTurn (scan_log es)"
  using seed_fold_turn [OF assms [unfolded seedCompaction_def], of repair_start]
  by (simp add: scan_log_def repair_start_def freshCompaction_def)

subsection \<open>Repair of a crashed compaction\<close>

text \<open>The events a repair appends: they leave the bracket alone.\<close>

fun is_closer_data :: "event_data \<Rightarrow> bool" where
  "is_closer_data (ToolResult _ _ _ _ _) = True"
| "is_closer_data (StepEnd _ _) = True"
| "is_closer_data (TurnEnd _ _) = True"
| "is_closer_data _ = False"

lemma closer_results_data: "e \<in> set (closer_results turn time seq ps) \<Longrightarrow> is_closer_data (ev_data e)"
  by (induction ps arbitrary: seq) (auto simp: closer_result_def split: prod.splits)

lemma closers_data: "e \<in> set (interruptedTurnClosers es) \<Longrightarrow> is_closer_data (ev_data e)"
  by (auto simp: interruptedTurnClosers_def Let_def boundary_closers_def dest: closer_results_data
      split: option.splits if_splits)

lemma seed_step_closer:
  assumes "is_closer_data (ev_data e)" "\<not> boundary_checked S tr \<or> ct_compaction tr = None"
  shows "seed_step S tr e = Inr (applyTurnBoundary tr (ev_data e))"
    "ct_compaction (applyTurnBoundary tr (ev_data e)) = ct_compaction tr"
  using assms by (cases "ev_data e"; auto simp: compaction_step_defs)+

lemma seed_fold_closers:
  "\<forall>e \<in> set xs. is_closer_data (ev_data e) \<Longrightarrow> \<not> boundary_checked S tr \<or> ct_compaction tr = None
   \<Longrightarrow> \<exists>tr'. foldE (seed_step S) tr xs = Inr tr' \<and> ct_compaction tr' = ct_compaction tr"
proof (induction xs arbitrary: tr)
  case (Cons e xs)
  let ?t = "applyTurnBoundary tr (ev_data e)"
  have e: "is_closer_data (ev_data e)" using Cons.prems(1) by simp
  note s = seed_step_closer [OF e Cons.prems(2)]
  have "\<not> boundary_checked S ?t \<or> ct_compaction ?t = None"
    using Cons.prems(2) s(2) by (simp add: boundary_checked_def)
  then show ?case using Cons.IH [of ?t] Cons.prems(1) s by auto
qed simp

lemma closers_close: "rp_openTurn (scan_log (es @ interruptedTurnClosers es)) = None"
proof (cases "rp_openTurn (scan_log es)")
  case None
  then show ?thesis by (simp add: interruptedTurnClosers_def)
next
  case (Some t)
  then have ne: "es \<noteq> []" by (auto simp: scan_log_def repair_start_def)
  let ?cs = "interruptedTurnClosers es"
  have "interruptedTurnClosers es \<noteq> [] \<and> (\<exists>q tm. last ?cs = plain_event q tm (TurnEnd t Interrupted))"
    using Some ne by (auto simp: interruptedTurnClosers_def Let_def boundary_closers_def split: option.split)
  then obtain q tm where "?cs = butlast ?cs @ [plain_event q tm (TurnEnd t Interrupted)]"
    by (metis append_butlast_last_id)
  then show ?thesis by (metis scan_ends_closed)
qed

text \<open>
  C26: whatever a crash interrupts, in the middle of a turn, of a step with
  pending calls, or of a compaction inside them, the stored log followed by the closers of crash
  repair and the end-of-seed marker is accepted when it is read back, and leaves no open turn and no
  open compaction: the repaired session is not locked. The turn end of the repair crosses the
  orphaned bracket, which a live session never may.
\<close>

theorem crash_repair_releases_lock:
  assumes "seedCompaction es = Inr tr" "ev_data e = EndSeed"
  shows "seedCompaction (es @ interruptedTurnClosers es @ [e]) = Inr freshCompaction
    \<and> (ct_compaction tr = None
       \<or> (\<forall>q s t r. live_step tr (plain_event q s (TurnEnd t r)) = Inl CrossesBoundary))"
proof
  let ?xs = "interruptedTurnClosers es @ [e]" and ?S = "inheritedOrphanStartSeqs (es @ interruptedTurnClosers es @ [e])"
  have pass: "\<not> boundary_checked ?S tr \<or> ct_compaction tr = None"
  proof (cases "ct_compaction tr")
    case (Some co)
    obtain st where st: "orphan_scan es = (st, Some (co_startSeq co))"
      using seed_open [OF assms(1)] Some by (cases "orphan_scan es") simp
    obtain tr2 where cl: "foldE (seed_step UNIV) tr (interruptedTurnClosers es) = Inr tr2"
        "ct_compaction tr2 = ct_compaction tr"
      using seed_fold_closers [of "interruptedTurnClosers es" UNIV tr] closers_data Some
      by (auto simp: boundary_checked_def)
    have "snd (orphan_scan (es @ interruptedTurnClosers es)) = Some (co_startSeq co)"
      using seed_fold_open [OF cl(1), of "Some (co_startSeq co)" st] Some cl(2) st
      by (simp add: orphan_scan_append)
    moreover have "orphan_scan (es @ ?xs) = orphan_step (orphan_scan (es @ interruptedTurnClosers es)) e"
      by (simp add: orphan_scan_def)
    ultimately have "co_startSeq co \<in> ?S"
      using assms(2) by (cases "orphan_scan (es @ interruptedTurnClosers es)")
        (simp add: inheritedOrphanStartSeqs_def)
    then show ?thesis using Some by (simp add: boundary_checked_def)
  qed simp
  obtain tr1 where tr1: "foldE (seed_step ?S) tr (interruptedTurnClosers es) = Inr tr1"
    using seed_fold_closers [of "interruptedTurnClosers es" ?S tr] closers_data pass by auto
  have "ct_openTurn tr1 = rp_openTurn (scan_log (es @ interruptedTurnClosers es))"
    using seed_fold_turn [OF tr1, of "scan_log es"] seed_turn [OF assms(1)] by (simp add: scan_log_def)
  then have "seed_step ?S tr1 e = Inr freshCompaction"
    using assms(2) closers_close by (simp add: compaction_step_defs freshCompaction_def)
  then show "seedCompaction (es @ interruptedTurnClosers es @ [e]) = Inr freshCompaction"
    using tr1 by (simp add: seed_append [OF assms(1)] foldE_append)
qed (cases "ct_compaction tr"; simp add: compaction_step_defs)

text \<open>
  A session whose stored log is accepted and whose later events were each
  accepted live is accepted when it is read back again, with the same open turn and the same open
  bracket: reloading the invariant changes nothing.
\<close>

theorem compaction_reseed:
  assumes "seedCompaction es = Inr tr" "liveCompaction tr xs = Inr tr'"
  shows "seedCompaction (es @ xs) = Inr tr'"
proof -
  have "foldE (seed_step {}) tr xs = Inr tr'"
    using assms(2) by (simp add: liveCompaction_def live_step_seed [abs_def])
  then show ?thesis
    using seed_fold_mono [of "{}" tr xs tr'] by (simp add: seed_append [OF assms(1)])
qed

subsection \<open>What a closed bracket holds\<close>

definition life_of :: "compaction_open \<Rightarrow> compaction_life" where
  "life_of co = \<lparr>cl_id = co_id co, cl_command = co_command co, cl_turn = co_turn co\<rparr>"

definition bracket_events :: "event list \<Rightarrow> event list" where
  "bracket_events es = filter (\<lambda>e. is_bracket_data (ev_data e)) es"

definition summaries_of :: "compaction_open \<Rightarrow> event list \<Rightarrow> bool" where
  "summaries_of co xs =
     (if co_summarized co
      then \<exists>sm s. xs = [sm] \<and> ev_data sm = CompactionSummary s \<and> cs_id s = co_id co \<and> cs_command s = co_command co
      else xs = [])"

text \<open>The log from the start of the open bracket.\<close>

definition in_bracket :: "int set \<Rightarrow> event list \<Rightarrow> compaction_open \<Rightarrow> bool" where
  "in_bracket S es co =
     (\<exists>pre st mid. es = pre @ st # mid \<and> ev_data st = CompactionStart (life_of co)
        \<and> ev_seq st = co_startSeq co \<and> summaries_of co (bracket_events mid)
        \<and> (co_startSeq co \<notin> S \<longrightarrow> (\<forall>x \<in> set mid. \<not> is_turn_boundary_data (ev_data x))))"

lemma bracket_events_snoc [simp]:
  "bracket_events (xs @ [e]) = bracket_events xs @ (if is_bracket_data (ev_data e) then [e] else [])"
  by (simp add: bracket_events_def)

lemma bracket_events_nil [simp]: "bracket_events [] = []"
  by (simp add: bracket_events_def)

lemma life_of_eq: "life_of \<lparr>co_id = cl_id c, co_command = cl_command c, co_startSeq = q,
    co_turn = cl_turn c, co_summarized = b\<rparr> = c"
  by (simp add: life_of_def)

lemma map_JStr_eq [simp]: "map_option JStr a = map_option JStr b \<longleftrightarrow> a = b"
  by (cases a; cases b) auto

lemma validateStart_ok:
  "validateStart tr q c = Inr t \<Longrightarrow> t = StartOf (cl_id c) (cl_command c) q (cl_turn c)"
  by (auto simp: validateStart_def)

lemma validateSummary_ok:
  "validateSummary tr c = Inr t \<Longrightarrow> \<exists>co. ct_compaction tr = Some co \<and> \<not> co_summarized co
     \<and> cs_id c = co_id co \<and> cs_command c = co_command co
     \<and> t = SummaryOf (co_id co) (co_command co) (co_startSeq co) (co_turn co)"
  by (auto simp: validateSummary_def validateSourceCommandId_def split: option.splits)

lemma validateEnd_ok:
  "validateEnd tr c err = Inr t \<Longrightarrow> \<exists>co. ct_compaction tr = Some co \<and> life_of co = c
     \<and> (err = None \<longrightarrow> co_summarized co) \<and> t = EndOf"
  by (cases c) (auto simp: validateEnd_def validateSourceCommandId_def life_of_def split: option.splits)

lemma seed_step_ok:
  "seed_step S tr e = Inr tr' \<longleftrightarrow>
     (\<exists>t. validateCompactionData tr e (ev_data e) = Inr t
        \<and> \<not> (boundary_checked S tr \<and> is_turn_boundary_data (ev_data e) \<and> ct_compaction tr \<noteq> None)
        \<and> tr' = applyTurnBoundary (commit_transition tr t) (ev_data e))"
  by (auto simp: seed_step_def validateTurnBoundary_def validateCompactionEvent_def)

lemma applyTurnBoundary_compaction [simp]:
  "ct_compaction (applyTurnBoundary tr d) = ct_compaction tr"
  by (cases d) simp_all

text \<open>An accepted step opens a bracket, records its summary, or leaves it as it is.\<close>

lemma step_bracket:
  assumes "seed_step S tr e = Inr tr'" "ct_compaction tr' = Some co'"
  obtains (opened) c where "ev_data e = CompactionStart c" "co' = \<lparr>co_id = cl_id c, co_command = cl_command c,
        co_startSeq = ev_seq e, co_turn = cl_turn c, co_summarized = False\<rparr>"
  | (summarized) co s where "ct_compaction tr = Some co" "\<not> co_summarized co" "co' = co\<lparr>co_summarized := True\<rparr>"
      "ev_data e = CompactionSummary s" "cs_id s = co_id co" "cs_command s = co_command co"
  | (kept) "ct_compaction tr = Some co'" "\<not> is_bracket_data (ev_data e)"
      "co_startSeq co' \<notin> S \<Longrightarrow> \<not> is_turn_boundary_data (ev_data e)"
proof -
  obtain t where t: "validateCompactionData tr e (ev_data e) = Inr t"
      "\<not> (boundary_checked S tr \<and> is_turn_boundary_data (ev_data e) \<and> ct_compaction tr \<noteq> None)"
      "tr' = applyTurnBoundary (commit_transition tr t) (ev_data e)"
    using assms(1) by (auto simp: seed_step_ok)
  show thesis
  proof (cases "is_bracket_data (ev_data e)")
    case False
    then have "t = None" using t(1) by (cases "ev_data e") (auto split: if_splits)
    then have "ct_compaction tr = Some co'" using t(3) assms(2) by (simp add: commit_transition_def)
    moreover from this have "co_startSeq co' \<notin> S \<Longrightarrow> \<not> is_turn_boundary_data (ev_data e)"
      using t(2) by (simp add: boundary_checked_def)
    ultimately show thesis using kept False by blast
  next
    case True
    then show thesis
    proof (cases "ev_data e")
      case (CompactionStart c)
      then show thesis using t assms(2) opened
        by (auto simp: commit_transition_def dest!: validateStart_ok)
    next
      case (CompactionSummary s)
      then obtain co where co: "ct_compaction tr = Some co" "\<not> co_summarized co" "cs_id s = co_id co"
          "cs_command s = co_command co" "t = Some (SummaryOf (co_id co) (co_command co) (co_startSeq co) (co_turn co))"
        using t(1) by (auto dest!: validateSummary_ok)
      have "co' = co\<lparr>co_summarized := True\<rparr>"
        using t(3) assms(2) co(5) CompactionSummary by (cases co) (auto simp: commit_transition_def)
      then show thesis by (rule summarized [OF co(1,2) _ CompactionSummary co(3,4)])
    next
      case (CompactionEnd c err)
      then show thesis using t assms(2) by (auto simp: commit_transition_def dest!: validateEnd_ok)
    qed (use t assms(2) in \<open>auto simp: commit_transition_def\<close>)
  qed
qed

lemma seed_bracket:
  assumes "foldE (seed_step S) freshCompaction es = Inr tr" "ct_compaction tr = Some co"
  shows "in_bracket S es co"
  using assms
proof (induction es arbitrary: tr co rule: rev_induct)
  case Nil
  then show ?case by (auto simp: freshCompaction_def)
next
  case (snoc e es)
  obtain tr0 where tr0: "foldE (seed_step S) freshCompaction es = Inr tr0" "seed_step S tr0 e = Inr tr"
    using snoc.prems(1) by (auto simp: foldE_append)
  show ?case
    using tr0(2) snoc.prems(2)
  proof (cases rule: step_bracket)
    case (opened c)
    then have "es @ [e] = es @ e # [] \<and> ev_data e = CompactionStart (life_of co)
        \<and> ev_seq e = co_startSeq co \<and> summaries_of co (bracket_events [])"
      by (simp add: life_of_eq summaries_of_def)
    then show ?thesis unfolding in_bracket_def by fastforce
  next
    case (summarized co0 s)
    obtain pre st mid where es: "es = pre @ st # mid" "ev_data st = CompactionStart (life_of co0)"
        "ev_seq st = co_startSeq co0" "summaries_of co0 (bracket_events mid)"
        "co_startSeq co0 \<notin> S \<longrightarrow> (\<forall>x \<in> set mid. \<not> is_turn_boundary_data (ev_data x))"
      using snoc.IH [OF tr0(1) summarized(1)] by (auto simp: in_bracket_def)
    have "es @ [e] = pre @ st # (mid @ [e])" "ev_data st = CompactionStart (life_of co)"
        "ev_seq st = co_startSeq co" "summaries_of co (bracket_events (mid @ [e]))"
        "co_startSeq co \<notin> S \<longrightarrow> (\<forall>x \<in> set (mid @ [e]). \<not> is_turn_boundary_data (ev_data x))"
      using es summarized by (simp_all add: life_of_def summaries_of_def)
    then show ?thesis unfolding in_bracket_def by blast
  next
    case kept
    obtain pre st mid where es: "es = pre @ st # mid" "ev_data st = CompactionStart (life_of co)"
        "ev_seq st = co_startSeq co" "summaries_of co (bracket_events mid)"
        "co_startSeq co \<notin> S \<longrightarrow> (\<forall>x \<in> set mid. \<not> is_turn_boundary_data (ev_data x))"
      using snoc.IH [OF tr0(1) kept(1)] by (auto simp: in_bracket_def)
    have "es @ [e] = pre @ st # (mid @ [e])" "summaries_of co (bracket_events (mid @ [e]))"
        "co_startSeq co \<notin> S \<longrightarrow> (\<forall>x \<in> set (mid @ [e]). \<not> is_turn_boundary_data (ev_data x))"
      using es kept by simp_all
    with es(2,3) show ?thesis unfolding in_bracket_def by blast
  qed
qed

subsection \<open>A closed bracket is no orphan\<close>

lemma orphan_foldl_bound:
  "fst (foldl orphan_step p ys) \<subseteq> fst p \<union> set_option (snd p) \<union> set (map ev_seq ys)"
proof (induction ys arbitrary: p)
  case (Cons y ys)
  have "fst (orphan_step p y) \<subseteq> fst p \<union> set_option (snd p)"
    and "set_option (snd (orphan_step p y)) \<subseteq> insert (ev_seq y) (set_option (snd p))"
    by (cases p; cases "ev_data y"; auto)+
  then show ?case using Cons.IH [of "orphan_step p y"] by fastforce
qed simp

lemma orphan_scan_order:
  "sorted_wrt (<) (map ev_seq es) \<Longrightarrow> snd (orphan_scan es) = Some q
   \<Longrightarrow> q \<notin> fst (orphan_scan es) \<and> q \<in> set (map ev_seq es)"
proof (induction es arbitrary: q rule: rev_induct)
  case (snoc e es)
  have new: "ev_seq e \<notin> set (map ev_seq es)" and srt: "sorted_wrt (<) (map ev_seq es)"
    using snoc.prems(1) by (auto simp: sorted_wrt_append)
  have "fst (orphan_scan es) \<subseteq> set (map ev_seq es)"
    using orphan_foldl_bound [of "({}, None)" es] by (simp add: orphan_scan_def)
  then show ?case using snoc.IH [OF srt] snoc.prems(2) new
    by (cases "orphan_scan es"; cases "ev_data e") (auto simp: orphan_scan_append)
qed (simp add: orphan_scan_def)

lemma closed_not_orphan:
  assumes "sorted_wrt (<) (map ev_seq (pre @ e # post))" "snd (orphan_scan pre) = Some q"
    and "ev_data e = CompactionEnd c err"
  shows "q \<notin> inheritedOrphanStartSeqs (pre @ e # post)"
proof -
  have srt: "sorted_wrt (<) (map ev_seq pre)" and sep: "\<forall>x \<in> set pre. \<forall>y \<in> set post. ev_seq x < ev_seq y"
    using assms(1) by (auto simp: sorted_wrt_append)
  note q = orphan_scan_order [OF srt assms(2)]
  have "orphan_scan (pre @ [e]) = (fst (orphan_scan pre), None)"
    using assms(3) by (cases "orphan_scan pre") (simp add: orphan_scan_append)
  then have "inheritedOrphanStartSeqs (pre @ e # post) \<subseteq> fst (orphan_scan pre) \<union> set (map ev_seq post)"
    using orphan_foldl_bound [of "orphan_scan (pre @ [e])" post]
    by (simp add: inheritedOrphanStartSeqs_def orphan_scan_def)
  then show ?thesis using q sep by fastforce
qed

text \<open>
  C27: in an accepted log, a compaction that ended without an error was opened by a
  start with the same identity, command and owning turn; between the two there is exactly one
  summary, of this transaction, no other start, end or seed boundary, and no turn begins or ends.
\<close>

theorem compaction_bracket:
  assumes "seedCompaction (pre @ e # post) = Inr tr"
    and "sorted_wrt (<) (map ev_seq (pre @ e # post))"
    and "ev_data e = CompactionEnd c None"
  shows "\<exists>before st mid sm s. pre = before @ st # mid \<and> ev_data st = CompactionStart c
    \<and> bracket_events mid = [sm] \<and> ev_data sm = CompactionSummary s
    \<and> cs_id s = cl_id c \<and> cs_command s = cl_command c
    \<and> (\<forall>x \<in> set mid. \<not> is_turn_boundary_data (ev_data x))"
proof -
  let ?S = "inheritedOrphanStartSeqs (pre @ e # post)"
  obtain tr0 tr1 where tr: "foldE (seed_step ?S) freshCompaction pre = Inr tr0" "seed_step ?S tr0 e = Inr tr1"
    using assms(1) by (auto simp: seedCompaction_def foldE_append)
  obtain co where co: "ct_compaction tr0 = Some co" "life_of co = c" "co_summarized co"
    using tr(2) assms(3) by (auto simp: seed_step_ok dest!: validateEnd_ok)
  have "snd (orphan_scan pre) = Some (co_startSeq co)"
    using seed_fold_open [OF tr(1), of None "{}"] co(1) by (simp add: orphan_scan_def freshCompaction_def)
  then have "co_startSeq co \<notin> ?S" by (rule closed_not_orphan [OF assms(2) _ assms(3)])
  then show ?thesis
    using seed_bracket [OF tr(1) co(1)] co(2,3)
    by (fastforce simp: in_bracket_def summaries_of_def life_of_def)
qed

subsection \<open>Witnesses\<close>

definition demo_life :: compaction_life where
  "demo_life = \<lparr>cl_id = ''k1'', cl_command = None, cl_turn = Some 1\<rparr>"

definition demo_summary :: compaction_summary where
  "demo_summary = \<lparr>cs_id = ''k1'', cs_command = None, cs_summary = [TextBlock ''s''], cs_start = 0, cs_end = 0,
     cs_shadowed = [0], cs_tokens = num_of_int 9, cs_provider = ''p'', cs_model = ''m'', cs_maxTokens = None,
     cs_usage = None, cs_rawOutput = None, cs_llmStreamCall = False\<rparr>"

definition compacted_log :: "event list" where
  "compacted_log = [plain_event 0 0 (TurnStart 1), plain_event 1 0 (CompactionStart demo_life),
     plain_event 2 0 (CompactionSummary demo_summary)]"

definition crashed_log :: "event list" where
  "crashed_log = [plain_event 0 0 (TurnStart 1), plain_event 1 0 (CompactionStart demo_life)]"

definition crashed_trace :: compaction_trace where
  "crashed_trace = \<lparr>ct_openTurn = Some 1, ct_compaction = Some \<lparr>co_id = ''k1'', co_command = None,
     co_startSeq = 1, co_turn = Some 1, co_summarized = False\<rparr>\<rparr>"

lemma crashed_seed: "seedCompaction crashed_log = Inr crashed_trace"
  by code_simp

theorem crash_repair_releases_lock_witness:
  "seedCompaction (crashed_log @ interruptedTurnClosers crashed_log @ [plain_event 3 0 EndSeed]) = Inr freshCompaction
   \<and> length (interruptedTurnClosers crashed_log) = 1"
proof
  show "seedCompaction (crashed_log @ interruptedTurnClosers crashed_log @ [plain_event 3 0 EndSeed]) = Inr freshCompaction"
    by (rule conjunct1 [OF crash_repair_releases_lock [OF crashed_seed]]) simp
qed code_simp

lemma crashed_live:
  "liveCompaction crashed_trace [plain_event 2 0 (CompactionSummary demo_summary),
     plain_event 3 0 (CompactionEnd demo_life None)] = Inr \<lparr>ct_openTurn = Some 1, ct_compaction = None\<rparr>"
  by code_simp

theorem compaction_reseed_witness:
  "seedCompaction (crashed_log @ [plain_event 2 0 (CompactionSummary demo_summary),
     plain_event 3 0 (CompactionEnd demo_life None)]) = Inr \<lparr>ct_openTurn = Some 1, ct_compaction = None\<rparr>"
  by (rule compaction_reseed [OF crashed_seed crashed_live])

lemma compacted_seed:
  "seedCompaction (compacted_log @ plain_event 3 0 (CompactionEnd demo_life None) # [plain_event 4 0 (TurnEnd 1 Completed)])
     = Inr freshCompaction"
  by code_simp

theorem compaction_bracket_witness:
  "\<exists>before st mid sm s. compacted_log = before @ st # mid \<and> ev_data st = CompactionStart demo_life
    \<and> bracket_events mid = [sm] \<and> ev_data sm = CompactionSummary s
    \<and> cs_id s = cl_id demo_life \<and> cs_command s = cl_command demo_life
    \<and> (\<forall>x \<in> set mid. \<not> is_turn_boundary_data (ev_data x))"
  by (rule compaction_bracket [OF compacted_seed]) (simp_all add: compacted_log_def)

end
