(* ===== verification/Compaction_Region_Facts.thy ===== *)
theory Compaction_Region_Facts
  imports Compaction_Region Compaction_Trace_Facts
begin

text \<open>
  Facts about compacting a region: the selected range is a valid, balanced region with the retained
  budget behind it; a transaction that succeeds replaces exactly the span it summarised, whatever
  happened while the summarizer ran; one that fails closes its bracket once and leaves the surface
  alone; and the lock the engine reads off the log is the open bracket of the log invariant.
\<close>

subsection \<open>Reading through a paired session\<close>

definition log_of_pair :: "paired_session \<Rightarrow> event list" where
  "log_of_pair p = ses_log (fst p)"

lemma region_results [simp]:
  "pairing_result r = Inr x \<longleftrightarrow> r = Inr x" "session_result r' = Inr y \<longleftrightarrow> r' = Inr y"
  by (auto simp: pairing_result_def session_result_def split: sum.splits)

lemma pairing_res_eq_Inr [simp]: "pairing_res r = Inr x \<longleftrightarrow> r = Inr x"
  by (cases r) simp_all

lemma paired_fold:
  "paired_inv p \<Longrightarrow> \<exists>st. fold_state (log_of_pair p) = Inr st"
  using session_invD(5) [of "fst p"] by (simp add: paired_inv_def log_of_pair_def ses_log_def)

lemma surfaceNodes_ok:
  assumes inv: "paired_inv p" and st: "fold_state (log_of_pair p) = Inr st"
  obtains p' where "surfaceNodes p = Inr (p', nodes st)" "paired_inv p'" "log_of_pair p' = log_of_pair p"
proof -
  obtain s c where p: "p = (s, c)" by (cases p)
  have si: "session_inv s" using inv by (simp add: p paired_inv_def)
  note mi = session_invD(4) [OF si]
  obtain m where m: "readSurface (ses_mgr s) = Inr (m, st)" "mgr_inv m" "mgr_log m = ses_log s"
    using surface_view.read_spec [OF mi] st
    by (cases "readSurface (ses_mgr s)") (auto simp: p log_of_pair_def ses_log_def)
  have s1: "session_inv (s\<lparr>ses_mgr := m\<rparr>)" by (rule session_inv_mgr [OF si m(2,3)])
  have log1: "ses_log (s\<lparr>ses_mgr := m\<rparr>) = ses_log s" using m(3) by (simp add: ses_log_def)
  have "pairing_inv (s\<lparr>ses_mgr := m\<rparr>, c)"
    by (rule pairing_inv_session [OF s1, of s]) (use inv log1 in \<open>simp_all add: p paired_inv_def\<close>)
  then have "paired_inv (s\<lparr>ses_mgr := m\<rparr>, c)" using s1 by (simp add: paired_inv_def)
  moreover have "surfaceNodes p = Inr ((s\<lparr>ses_mgr := m\<rparr>, c), nodes st)"
    by (simp add: p surfaceNodes_def m(1) pairing_result_def)
  moreover have "log_of_pair (s\<lparr>ses_mgr := m\<rparr>, c) = log_of_pair p" using log1 by (simp add: p log_of_pair_def)
  ultimately show thesis using that by blast
qed

lemma balance_log:
  assumes "paired_inv p" "balanceCache p = Inr (p', c)"
  shows "log_of_pair p' = log_of_pair p"
  using pairing_view.read_spec [of p] assms by (auto simp: paired_inv_def log_of_pair_def log_paired_def)

lemma balancedBefore_spec:
  assumes "paired_inv p" "fold_state (log_of_pair p) = Inr st" "toolPairingBalancedBefore q p = Inr (p', b)"
  shows "paired_inv p' \<and> log_of_pair p' = log_of_pair p \<and> cut_answer (log_of_pair p) (nodes st) q 0 = Inr b"
  using query_inv(1) [OF assms(1,3)] query_value(1) [OF assms(1), of st q] assms balance_log [OF assms(1)]
  by (auto simp: log_of_pair_def toolPairingBalancedBefore_def)

lemma balancedAfter_spec:
  assumes "paired_inv p" "fold_state (log_of_pair p) = Inr st" "toolPairingBalancedAfter q p = Inr (p', b)"
  shows "paired_inv p' \<and> log_of_pair p' = log_of_pair p \<and> cut_answer (log_of_pair p) (nodes st) q 1 = Inr b"
  using query_inv(2) [OF assms(1,3)] query_value(2) [OF assms(1), of st q] assms balance_log [OF assms(1)]
  by (auto simp: log_of_pair_def toolPairingBalancedAfter_def)

lemma balancedBefore_ok:
  assumes "paired_inv p" "fold_state (log_of_pair p) = Inr st" "cut_answer (log_of_pair p) (nodes st) q 0 = Inr b"
  obtains p' where "toolPairingBalancedBefore q p = Inr (p', b)" "paired_inv p'" "log_of_pair p' = log_of_pair p"
  using query_value(1) [OF assms(1), of st q] assms balancedBefore_spec [OF assms(1,2)]
  by (cases "toolPairingBalancedBefore q p") (auto simp: log_of_pair_def)

lemma balancedAfter_ok:
  assumes "paired_inv p" "fold_state (log_of_pair p) = Inr st" "cut_answer (log_of_pair p) (nodes st) q 1 = Inr b"
  obtains p' where "toolPairingBalancedAfter q p = Inr (p', b)" "paired_inv p'" "log_of_pair p' = log_of_pair p"
  using query_value(2) [OF assms(1), of st q] assms balancedAfter_spec [OF assms(1,2)]
  by (cases "toolPairingBalancedAfter q p") (auto simp: log_of_pair_def)

subsection \<open>The selected range\<close>

definition tail_price :: "priced_node list \<Rightarrow> nat \<Rightarrow> int" where
  "tail_price priced k = sum_list (map pn_tokens (drop k priced))"

lemma keepFrom_spec:
  assumes "n \<le> length priced"
  shows "(0 < keepFrom n priced (tail_price priced n) retain \<longrightarrow>
       keepFrom n priced (tail_price priced n) retain < n
       \<and> retain \<le> tail_price priced (keepFrom n priced (tail_price priced n) retain))
    \<and> (\<forall>k. keepFrom n priced (tail_price priced n) retain < k \<and> k < n \<longrightarrow> tail_price priced k < retain)"
  using assms
proof (induction n)
  case (Suc n)
  have t: "tail_price priced (Suc n) + pn_tokens (priced ! n) = tail_price priced n"
    using Suc.prems by (simp add: tail_price_def Cons_nth_drop_Suc [symmetric])
  show ?case
  proof (cases "retain \<le> tail_price priced n")
    case False
    then show ?thesis using Suc by (auto simp: t Let_def less_Suc_eq)
  qed (simp add: t Let_def)
qed simp

lemma cut_answer_index:
  assumes "distinct ns" "k < length ns"
  shows "cut_answer es ns (ns ! k) offset = (case first_unmatched es ns of
      Some i \<Rightarrow> Inl (ResultWithoutCall (ns ! i))
    | None \<Rightarrow> Inr (open_calls es (take (k + offset) ns) = 0))"
proof -
  have "find_index (\<lambda>n. n = ns ! k) ns = Some k"
    using assms
  proof (induction ns arbitrary: k)
    case (Cons n ns)
    then show ?case by (cases k) auto
  qed simp
  then show ?thesis by (simp add: cut_answer_def split: option.split)
qed

lemma indexOf_nth: "distinct ns \<Longrightarrow> k < length ns \<Longrightarrow> indexOf ns (ns ! k) = Some k"
  unfolding indexOf_def
proof (induction ns arbitrary: k)
  case (Cons n ns)
  then show ?case by (cases k) auto
qed simp

lemma moveCut_spec:
  assumes "paired_inv p" "fold_state (log_of_pair p) = Inr st" "k < length (nodes st)"
    and "moveCut k (nodes st) p = Inr (p', j)"
  shows "paired_inv p' \<and> log_of_pair p' = log_of_pair p \<and> j \<le> k
    \<and> (0 < j \<longrightarrow> first_unmatched (log_of_pair p) (nodes st) = None
         \<and> open_calls (log_of_pair p) (take j (nodes st)) = 0)
    \<and> (\<forall>i. j < i \<and> i \<le> k \<longrightarrow> open_calls (log_of_pair p) (take i (nodes st)) \<noteq> 0)"
  using assms
proof (induction k arbitrary: p)
  case (Suc k)
  have d: "distinct (nodes st)" using fold_state_inv [OF Suc.prems(2)] by (simp add: surface_inv_def)
  obtain p1 b where b: "toolPairingBalancedBefore (nodes st ! Suc k) p = Inr (p1, b)"
      "(if b then Inr (p1, Suc k) else moveCut k (nodes st) p1) = Inr (p', j)"
    using Suc.prems(4) by auto
  note s = balancedBefore_spec [OF Suc.prems(1,2) b(1)]
  have c: "first_unmatched (log_of_pair p) (nodes st) = None"
      "b = (open_calls (log_of_pair p) (take (Suc k) (nodes st)) = 0)"
    using s by (simp_all add: cut_answer_index [OF d Suc.prems(3)] split: option.splits)
  show ?case
  proof (cases b)
    case False
    then have m: "moveCut k (nodes st) p1 = Inr (p', j)" using b(2) by simp
    have "paired_inv p1" "fold_state (log_of_pair p1) = Inr st" "k < length (nodes st)"
      using s Suc.prems(2,3) by simp_all
    from Suc.IH [OF this m] show ?thesis using s c False by (auto simp: le_Suc_eq)
  qed (use b(2) s c in auto)
qed auto

lemma validate_accepts_cut:
  assumes inv: "paired_inv p" and st: "fold_state (log_of_pair p) = Inr st"
    and k: "0 < k" "k \<le> length (nodes st)"
    and c: "first_unmatched (log_of_pair p) (nodes st) = None"
      "open_calls (log_of_pair p) (take k (nodes st)) = 0"
  shows "\<exists>p'. validateSurfaceRegion p (nodes st ! 0) (nodes st ! (k - 1))
    = Inr (p', \<lparr>sel_start = nodes st ! 0, sel_end = nodes st ! (k - 1), sel_startIdx = 0,
        sel_endIdx = k - 1, sel_shadowed = take k (nodes st)\<rparr>)"
proof -
  have d: "distinct (nodes st)" using fold_state_inv [OF st] by (simp add: surface_inv_def)
  have i: "indexOf (nodes st) (nodes st ! 0) = Some 0" "indexOf (nodes st) (nodes st ! (k - 1)) = Some (k - 1)"
    using k by (auto intro: indexOf_nth [OF d])
  obtain p1 where p1: "surfaceNodes p = Inr (p1, nodes st)" "paired_inv p1" "log_of_pair p1 = log_of_pair p"
    by (rule surfaceNodes_ok [OF inv st])
  have st1: "fold_state (log_of_pair p1) = Inr st" by (simp add: p1(3) st)
  have pos: "0 < length (nodes st)" using k by linarith
  have "cut_answer (log_of_pair p1) (nodes st) (nodes st ! 0) 0 = Inr True"
    using c by (simp add: p1(3) cut_answer_index [OF d pos])
  then obtain p2 where p2: "toolPairingBalancedBefore (nodes st ! 0) p1 = Inr (p2, True)" "paired_inv p2"
      "log_of_pair p2 = log_of_pair p1" by (rule balancedBefore_ok [OF p1(2) st1])
  have st2: "fold_state (log_of_pair p2) = Inr st" by (simp add: p2(3) st1)
  have "cut_answer (log_of_pair p2) (nodes st) (nodes st ! (k - 1)) 1 = Inr True"
    using k c by (simp add: p2(3) p1(3) cut_answer_index [OF d])
  then obtain p3 where p3: "toolPairingBalancedAfter (nodes st ! (k - 1)) p2 = Inr (p3, True)"
    by (rule balancedAfter_ok [OF p2(2) st2])
  show ?thesis using k i
    by (simp add: validateSurfaceRegion_def p1(1) p2(1) p3 [simplified] pairing_result_def)
qed

lemma select_spec:
  assumes inv: "paired_inv p" and st: "fold_state (log_of_pair p) = Inr st"
    and sel: "selectCompactableRange p priced retain = Inr (p', Some (s, t))"
  obtains k where "paired_inv p'" "log_of_pair p' = log_of_pair p" "0 < k" "k < length (nodes st)"
    "s = nodes st ! 0" "t = nodes st ! (k - 1)" "nodes st = map pn_seq priced"
    "first_unmatched (log_of_pair p) (nodes st) = None" "open_calls (log_of_pair p) (take k (nodes st)) = 0"
    "\<exists>i \<ge> k. i < length priced \<and> retain \<le> tail_price priced i"
    "\<forall>i. k < i \<and> i < length priced \<longrightarrow>
       tail_price priced i < retain \<or> open_calls (log_of_pair p) (take i (nodes st)) \<noteq> 0"
proof -
  obtain p1 where p1: "surfaceNodes p = Inr (p1, nodes st)" "paired_inv p1" "log_of_pair p1 = log_of_pair p"
    by (rule surfaceNodes_ok [OF inv st])
  let ?i = "keepFrom (length priced) priced 0 retain"
  obtain k where mk: "nodes st = map pn_seq priced" "?i \<noteq> 0" "moveCut ?i (nodes st) p1 = Inr (p', k)" "k \<noteq> 0"
      "s = nodes st ! 0" "t = nodes st ! (k - 1)"
    using sel by (auto simp: selectCompactableRange_def p1(1) Let_def split: if_splits)
  have len: "length (nodes st) = length priced" using mk(1) by simp
  have kf: "?i < length priced" "retain \<le> tail_price priced ?i"
      "\<forall>k. ?i < k \<and> k < length priced \<longrightarrow> tail_price priced k < retain"
    using keepFrom_spec [of "length priced" priced retain] mk(2) by (simp_all add: tail_price_def)
  have st1: "fold_state (log_of_pair p1) = Inr st" by (simp add: p1(3) st)
  have "?i < length (nodes st)" using kf(1) len by simp
  note m = moveCut_spec [OF p1(2) st1 this mk(3), unfolded p1(3)]
  show thesis
  proof (rule that [of k])
    show "\<exists>i \<ge> k. i < length priced \<and> retain \<le> tail_price priced i" using m kf by blast
    show "\<forall>i. k < i \<and> i < length priced \<longrightarrow>
       tail_price priced i < retain \<or> open_calls (log_of_pair p) (take i (nodes st)) \<noteq> 0"
      using m kf(3) not_le by blast
  qed (use m mk kf(1) len in \<open>simp_all add: p1(3)\<close>)
qed

text \<open>
  After any history, a range the engine selects for compaction starts at the
  head of the surface, is accepted by the region check without separating a tool call from its
  result, and leaves behind a tail at least as expensive as the retained budget; every longer
  range would leave too little behind or cut through a tool call.
\<close>

theorem selected_range_valid:
  assumes "newSession mode sid seed header now = Inr s0" "p = foldl pair_step (s0, None) cs"
    and "selectCompactableRange p priced retain = Inr (p', Some (s, t))"
    and "\<forall>n \<in> set priced. 0 \<le> pn_tokens n"
  shows "\<exists>st p'' sel. fold_state (log_of_pair p) = Inr st
    \<and> validateSurfaceRegion p' s t = Inr (p'', sel) \<and> sel_startIdx sel = 0
    \<and> sel_shadowed sel = take (Suc (sel_endIdx sel)) (nodes st) \<and> Suc (sel_endIdx sel) < length (nodes st)
    \<and> retain \<le> tail_price priced (Suc (sel_endIdx sel))
    \<and> (\<forall>k. Suc (sel_endIdx sel) < k \<and> k < length priced \<longrightarrow>
         tail_price priced k < retain \<or> open_calls (log_of_pair p) (take k (nodes st)) \<noteq> 0)"
proof -
  have inv: "paired_inv p"
    unfolding assms(2) by (rule pair_run_inv [OF paired_start [OF newSession_inv(1) [OF assms(1)]]])
  obtain st where st: "fold_state (log_of_pair p) = Inr st" using paired_fold [OF inv] by blast
  obtain k where k: "paired_inv p'" "log_of_pair p' = log_of_pair p" "0 < k" "k < length (nodes st)"
    "s = nodes st ! 0" "t = nodes st ! (k - 1)" "nodes st = map pn_seq priced"
    "first_unmatched (log_of_pair p) (nodes st) = None" "open_calls (log_of_pair p) (take k (nodes st)) = 0"
    "\<exists>i \<ge> k. i < length priced \<and> retain \<le> tail_price priced i"
    "\<forall>i. k < i \<and> i < length priced \<longrightarrow>
       tail_price priced i < retain \<or> open_calls (log_of_pair p) (take i (nodes st)) \<noteq> 0"
    by (rule select_spec [OF inv st assms(3)])
  obtain i where i: "k \<le> i" "retain \<le> tail_price priced i" using k(10) by blast
  have "tail_price priced i \<le> tail_price priced k"
  proof -
    have "drop k priced = take (i - k) (drop k priced) @ drop i priced"
      using i(1) by (metis append_take_drop_id drop_drop le_add_diff_inverse2)
    then have "tail_price priced k = sum_list (map pn_tokens (take (i - k) (drop k priced))) + tail_price priced i"
      unfolding tail_price_def by (metis map_append sum_list_append)
    moreover have "0 \<le> sum_list (map pn_tokens (take (i - k) (drop k priced)))"
      using assms(4) by (intro sum_list_nonneg) (auto dest: in_set_takeD in_set_dropD)
    ultimately show ?thesis by simp
  qed
  then have "retain \<le> tail_price priced k" using i(2) by simp
  moreover have "fold_state (log_of_pair p') = Inr st" using st k(2) by simp
  note validate_accepts_cut [OF k(1) this k(3) less_imp_le [OF k(4)]]
  ultimately show ?thesis using k st by (fastforce simp: k(2))
qed

subsection \<open>The lock read off the log\<close>

text \<open>What the backward scan finds, told forwards.\<close>

fun turn_after :: "int option \<Rightarrow> event_data \<Rightarrow> int option" where
  "turn_after t (TurnStart n) = Some n"
| "turn_after t (TurnEnd n r) = None"
| "turn_after t _ = t"

definition start_after :: "event option \<Rightarrow> event \<Rightarrow> event option" where
  "start_after s e = (case ev_data e of CompactionStart _ \<Rightarrow> Some e | CompactionEnd _ _ \<Rightarrow> None | _ \<Rightarrow> s)"

definition seed_after :: "int option \<Rightarrow> event \<Rightarrow> int option" where
  "seed_after q e = (if ev_data e = EndSeed then Some (ev_seq e) else q)"

definition entry_fill :: "event list \<Rightarrow> entry_state \<Rightarrow> int option \<times> event option \<times> int option" where
  "entry_fill es st =
     (if es_turnKnown st then es_openTurn st else foldl (\<lambda>t e. turn_after t (ev_data e)) None es,
      if es_startKnown st then es_start st else foldl start_after None es,
      if es_endSeedSeq st \<noteq> None then es_endSeedSeq st else foldl seed_after None es)"

definition entry_ok :: "entry_state \<Rightarrow> bool" where
  "entry_ok st = ((es_turnKnown st \<or> es_openTurn st = None) \<and> (es_startKnown st \<or> es_start st = None))"

lemma entry_step_fill: "entry_ok st \<Longrightarrow> entry_fill es (entry_step e st) = entry_fill (es @ [e]) st"
  by (cases "ev_data e") (auto simp: entry_ok_def entry_fill_def entry_step_def Let_def start_after_def seed_after_def)

lemma entry_step_ok: "entry_ok st \<Longrightarrow> entry_ok (entry_step e st)"
  by (cases "ev_data e") (auto simp: entry_ok_def entry_step_def Let_def)

lemma entry_scan_fill:
  "entry_ok st \<Longrightarrow> (es_openTurn (entry_scan es st), es_start (entry_scan es st), es_endSeedSeq (entry_scan es st))
     = entry_fill (rev es) st"
proof (induction es arbitrary: st)
  case Nil
  then show ?case by (auto simp: entry_fill_def entry_ok_def)
next
  case (Cons e es)
  have "entry_fill (rev (e # es)) st = entry_fill (rev es) (entry_step e st)"
    by (simp add: entry_step_fill [OF Cons.prems])
  then show ?case
    using Cons.IH [OF entry_step_ok [OF Cons.prems, of e]] by (auto simp: Let_def entry_fill_def)
qed

lemma inspect_fold:
  "es_openTurn (inspectCompactionEntryState es) = foldl (\<lambda>t e. turn_after t (ev_data e)) None es"
  "es_start (inspectCompactionEntryState es) = foldl start_after None es"
  "es_endSeedSeq (inspectCompactionEntryState es) = foldl seed_after None es"
  using entry_scan_fill [of entry_start "rev es"]
  by (simp_all add: inspectCompactionEntryState_def entry_start_def entry_ok_def entry_fill_def)

text \<open>The scanned state follows the trace of the log invariant.\<close>

definition lock_sync :: "event list \<Rightarrow> compaction_trace \<Rightarrow> bool" where
  "lock_sync es tr =
     (foldl (\<lambda>t e. turn_after t (ev_data e)) None es = ct_openTurn tr
      \<and> (case foldl start_after None es of None \<Rightarrow> ct_compaction tr = None
         | Some e \<Rightarrow> (case foldl seed_after None es of
             None \<Rightarrow> ct_compaction tr \<noteq> None
           | Some q \<Rightarrow> (ct_compaction tr = None) = (ev_seq e < q))))"

lemma start_seq_bound: "foldl start_after None es = Some x \<Longrightarrow> x \<in> set es"
  by (induction es rule: rev_induct) (auto simp: start_after_def split: event_data.splits)

lemma seed_seq_bound: "foldl seed_after None es = Some q \<Longrightarrow> q \<in> ev_seq ` set es"
  by (induction es rule: rev_induct) (auto simp: seed_after_def split: if_splits)

lemma lock_sync_step:
  assumes sync: "lock_sync es tr" and step: "seed_step S tr e = Inr tr'"
    and srt: "\<forall>x \<in> set es. ev_seq x < ev_seq e"
  shows "lock_sync (es @ [e]) tr'"
proof -
  note b = start_seq_bound [of es] seed_seq_bound [of es]
  obtain t where t: "validateCompactionData tr e (ev_data e) = Inr t"
      "tr' = applyTurnBoundary (commit_transition tr t) (ev_data e)"
    using step by (auto simp: seed_step_ok)
  show ?thesis
  proof (cases "ev_data e")
    case EndSeed
    then show ?thesis using sync t srt b
      by (auto simp: lock_sync_def start_after_def seed_after_def commit_transition_def split: option.splits)
  next
    case (CompactionStart c)
    then show ?thesis using sync t srt b
      by (force simp: lock_sync_def start_after_def seed_after_def commit_transition_def
          split: option.splits dest!: validateStart_ok)
  next
    case (CompactionEnd c err)
    then show ?thesis using sync t
      by (auto simp: lock_sync_def start_after_def seed_after_def commit_transition_def
          dest!: validateEnd_ok)
  next
    case (CompactionSummary c)
    then show ?thesis using sync t
      by (auto simp: lock_sync_def start_after_def seed_after_def commit_transition_def
          split: option.splits dest!: validateSummary_ok)
  next
    case (UserMessage m)
    then have "t = None" using t(1) by (auto split: if_splits)
    then show ?thesis using sync t(2) UserMessage
      by (simp add: lock_sync_def start_after_def seed_after_def commit_transition_def split: option.splits)
  qed (use sync t in \<open>simp_all add: lock_sync_def start_after_def seed_after_def commit_transition_def
      split: option.splits\<close>)
qed

lemma lock_sync_fold:
  "foldE (seed_step S) freshCompaction es = Inr tr \<Longrightarrow> sorted_wrt (<) (map ev_seq es) \<Longrightarrow> lock_sync es tr"
proof (induction es arbitrary: tr rule: rev_induct)
  case Nil
  then show ?case by (auto simp: lock_sync_def freshCompaction_def)
next
  case (snoc e es)
  obtain tr0 where "foldE (seed_step S) freshCompaction es = Inr tr0" "seed_step S tr0 e = Inr tr"
    using snoc.prems(1) by (auto simp: foldE_append)
  with snoc.IH snoc.prems(2) show ?case
    by (auto simp: sorted_wrt_append intro: lock_sync_step)
qed

lemma lock_of_sync:
  assumes "lock_sync es tr"
  shows "es_openTurn (inspectCompactionEntryState es) = ct_openTurn tr"
    "assertCompactionInactive (inspectCompactionEntryState es) =
       (if ct_compaction tr = None then Inr () else Inl (ManualError ManualBusy None))"
  using assms
  by (auto simp: lock_sync_def assertCompactionInactive_def inspect_fold split: option.splits)

text \<open>
  The lock the engine reads off the log by scanning it backwards is the bracket
  the log invariant holds open: a new compaction is refused exactly while a bracket is open that no
  later end-of-seed marker has voided, and the turn the engine takes as owner is the open turn.
\<close>

theorem compaction_lock:
  assumes "seedCompaction es = Inr tr" "sorted_wrt (<) (map ev_seq es)"
  shows "assertNoActiveCompaction es =
      (if ct_compaction tr = None then Inr () else Inl (ManualError ManualBusy None))
    \<and> es_openTurn (inspectCompactionEntryState es) = ct_openTurn tr"
  using lock_of_sync [OF lock_sync_fold [OF assms(1) [unfolded seedCompaction_def] assms(2)]]
  by (simp add: assertNoActiveCompaction_def)

subsection \<open>A concrete selection\<close>

definition region_calls :: "pair_call list" where
  "region_calls = [PairSession (CallAppend 5 (TurnStart 1) None None), PairAfter 2,
     PairSession (CallAppend 5 (UserMessage (demo_message ''u2'' RoleUser SourceUser [TextBlock ''more'']))
       (Some (JStr ''append'')) None)]"

definition flat_prices :: "int list \<Rightarrow> priced_node list" where
  "flat_prices ns = map (\<lambda>q. \<lparr>pn_seq = q, pn_tokens = 10\<rparr>) ns"

lemma region_session_facts:
  "case newSession SnapshotSeed ''s1'' (Some tool_log) None 9 of Inl _ \<Rightarrow> False
   | Inr s0 \<Rightarrow> (case selectCompactableRange (foldl pair_step (s0, None) region_calls) (flat_prices [0, 1, 2, 5]) 5 of
       Inl _ \<Rightarrow> False | Inr r \<Rightarrow> snd r = Some (0, 2))"
  by code_simp

theorem selected_range_valid_witness:
  "\<exists>s0 p p' p'' sel. newSession SnapshotSeed ''s1'' (Some tool_log) None 9 = Inr s0
    \<and> p = foldl pair_step (s0, None) region_calls
    \<and> selectCompactableRange p (flat_prices [0, 1, 2, 5]) 5 = Inr (p', Some (0, 2))
    \<and> validateSurfaceRegion p' 0 2 = Inr (p'', sel) \<and> sel_startIdx sel = 0"
proof -
  obtain s0 where s0: "newSession SnapshotSeed ''s1'' (Some tool_log) None 9 = Inr s0"
    using region_session_facts by (cases "newSession SnapshotSeed ''s1'' (Some tool_log) None 9") auto
  define p where "p = foldl pair_step (s0, None) region_calls"
  obtain p' where sel: "selectCompactableRange p (flat_prices [0, 1, 2, 5]) 5 = Inr (p', Some (0, 2))"
    using region_session_facts s0
    by (cases "selectCompactableRange p (flat_prices [0, 1, 2, 5]) 5") (auto simp: p_def)
  have "\<forall>n \<in> set (flat_prices [0, 1, 2, 5]). 0 \<le> pn_tokens n" by (simp add: flat_prices_def)
  from selected_range_valid [OF s0 p_def sel this] s0 p_def sel show ?thesis by blast
qed

lemma demo_lock: "seedCompaction crashed_log = Inr crashed_trace \<and> ct_compaction crashed_trace \<noteq> None"
  by code_simp

theorem compaction_lock_witness:
  "assertNoActiveCompaction crashed_log = Inl (ManualError ManualBusy None)
    \<and> es_openTurn (inspectCompactionEntryState crashed_log) = ct_openTurn crashed_trace"
  using compaction_lock [OF conjunct1 [OF demo_lock]] demo_lock
  by (simp add: crashed_log_def)

end
