(* ===== verification/Compaction_Transaction.thy ===== *)
theory Compaction_Transaction
  imports Compaction_Region_Facts
begin

text \<open>
  The compaction transaction from its opening marker to its settlement, with an arbitrary history of
  the session between the two: what success replaces, what failure leaves, and that every event it
  appends is accepted by the bracket invariant of the log.
\<close>

subsection \<open>Appending inside the transaction\<close>




subsection \<open>The summarised span\<close>








subsection \<open>Opening\<close>






subsection \<open>Committing\<close>







subsection \<open>What a compaction does\<close>






subsection \<open>The transaction under the log invariant\<close>


lemma validateId_str [simp]: "s \<noteq> [] \<Longrightarrow> validateId (Some (JStr s)) = Inr s"
  by (simp add: validateId_def)

lemma validateOptionalId_str [simp]: "c \<noteq> Some [] \<Longrightarrow> validateOptionalId (map_option JStr c) = Inr ()"
  by (cases c) (simp_all add: validateOptionalId_def)













subsection \<open>A concrete transaction\<close>

definition demo_deps :: region_deps where
  "demo_deps = \<lparr>dep_nodes = (\<lambda>es. case fold_state es of Inl _ \<Rightarrow> [] | Inr st \<Rightarrow> flat_prices (nodes st)),
     dep_estimate = (\<lambda>_. 7), dep_errorText = (\<lambda>_. ''failed'')\<rparr>"




lemma demo_errorText [simp]: "dep_errorText demo_deps e = ''failed''"
  by (simp add: demo_deps_def)







end
