(* ===== verification/Consumed_Work.thy ===== *)
theory Consumed_Work
  imports Session_Trace
begin

text \<open>
  How an agent's log accounts for the work it consumed (\<open>core/agent/src/consumed-work.ts\<close>): one
  pass over the log keeps the open turn, the turns that entered a step, the turns that claimed
  inbox input, the latest accounting turn end and whether work was dropped after it. On a balanced
  log the pass computes what the log says about each turn separately.
\<close>

subsection \<open>The fold\<close>

record work_state =
  cw_stepped :: "int set"
  cw_claimed :: "int set"
  cw_open :: "int option"
  cw_end :: "event option"
  cw_droppedUnrun :: bool

definition work_start :: work_state where
  "work_start = \<lparr>cw_stepped = {}, cw_claimed = {}, cw_open = None, cw_end = None, cw_droppedUnrun = False\<rparr>"

fun accountsForClaim :: "turn_end_reason \<Rightarrow> bool" where
  "accountsForClaim Completed = False"
| "accountsForClaim Blocked = True"
| "accountsForClaim (Aborted _) = True"
| "accountsForClaim Interrupted = True"
| "accountsForClaim (TurnError _) = True"
| "accountsForClaim _ = True"

definition work_splice :: "work_state \<Rightarrow> inbox_splice \<Rightarrow> work_state" where
  "work_splice w sp =
     (if sp_removedCount sp = None then w
      else if sp_canceled sp then w\<lparr>cw_droppedUnrun := cw_droppedUnrun w \<or> sp_inserted sp = []\<rparr>
      else (case cw_open w of None \<Rightarrow> w | Some t \<Rightarrow> w\<lparr>cw_claimed := insert t (cw_claimed w)\<rparr>))"

text \<open>\<open>Set.delete\<close> answers whether the element was there; the second delete runs only when the first missed.\<close>

definition work_turn_end :: "work_state \<Rightarrow> event \<Rightarrow> int \<Rightarrow> turn_end_reason \<Rightarrow> work_state" where
  "work_turn_end w e t r =
     (let w0 = w\<lparr>cw_open := None\<rparr> in
      if t \<in> cw_stepped w0
      then w0\<lparr>cw_stepped := cw_stepped w0 - {t}, cw_end := Some e, cw_droppedUnrun := False\<rparr>
      else let w1 = w0\<lparr>cw_claimed := cw_claimed w0 - {t}\<rparr> in
        if t \<in> cw_claimed w0 \<and> accountsForClaim r
        then w1\<lparr>cw_end := Some e, cw_droppedUnrun := False\<rparr> else w1)"

definition work_step :: "work_state \<Rightarrow> event \<Rightarrow> work_state" where
  "work_step w e =
     (case ev_data e of
        TurnStart t \<Rightarrow> w\<lparr>cw_open := Some t\<rparr>
      | StepStart t _ \<Rightarrow> w\<lparr>cw_stepped := insert t (cw_stepped w)\<rparr>
      | InboxSpliced sp \<Rightarrow> work_splice w sp
      | TurnEnd t r \<Rightarrow> work_turn_end w e t r
      | _ \<Rightarrow> w)"

definition work_fold :: "event list \<Rightarrow> work_state" where
  "work_fold es = foldl work_step work_start es"

definition foldConsumedWork :: "event list \<Rightarrow> event option \<times> bool" where
  "foldConsumedWork es = (let w = work_fold es in (cw_end w, cw_droppedUnrun w))"

subsection \<open>What the log says\<close>

fun opens_turn :: "event_data \<Rightarrow> bool" where
  "opens_turn (TurnStart _) = True"
| "opens_turn _ = False"

fun opens_step :: "event_data \<Rightarrow> bool" where
  "opens_step (StepStart _ _) = True"
| "opens_step _ = False"

fun claims_input :: "event_data \<Rightarrow> bool" where
  "claims_input (InboxSpliced sp) = (sp_removedCount sp \<noteq> None \<and> \<not> sp_canceled sp)"
| "claims_input _ = False"

fun drops_input :: "event_data \<Rightarrow> bool" where
  "drops_input (InboxSpliced sp) = (sp_removedCount sp \<noteq> None \<and> sp_canceled sp \<and> sp_inserted sp = [])"
| "drops_input _ = False"

text \<open>The events since the last turn start.\<close>

definition turn_events :: "event list \<Rightarrow> event list" where
  "turn_events es = takeWhile (\<lambda>e. \<not> opens_turn (ev_data e)) (rev es)"

text \<open>
  The turn a \<open>turn/end\<close> closes accounts for consumed work if it entered a step, or if it claimed
  input and did not simply complete.
\<close>

definition turn_accounts :: "event list \<Rightarrow> turn_end_reason \<Rightarrow> bool" where
  "turn_accounts before r =
     ((\<exists>e \<in> set (turn_events before). opens_step (ev_data e))
      \<or> (\<exists>e \<in> set (turn_events before). claims_input (ev_data e)) \<and> r \<noteq> Completed)"

definition ends_accounting :: "event list \<Rightarrow> event \<Rightarrow> bool" where
  "ends_accounting before e = (case ev_data e of TurnEnd _ r \<Rightarrow> turn_accounts before r | _ \<Rightarrow> False)"

definition accounting_end :: "event list \<Rightarrow> nat \<Rightarrow> bool" where
  "accounting_end es i = (i < length es \<and> ends_accounting (take i es) (es ! i))"

text \<open>The last accounting end, and whether input was dropped unrun after a position.\<close>

definition last_accounting :: "event list \<Rightarrow> nat option" where
  "last_accounting es = find (accounting_end es) (rev [0..<length es])"

definition dropped_from :: "nat \<Rightarrow> event list \<Rightarrow> bool" where
  "dropped_from k es = list_ex (\<lambda>e. drops_input (ev_data e)) (drop k es)"

lemma turn_events_snoc:
  "turn_events (es @ [e]) = (if opens_turn (ev_data e) then [] else e # turn_events es)"
  by (simp add: turn_events_def)

lemma accounting_snoc:
  "i < length es \<Longrightarrow> accounting_end (es @ [e]) i = accounting_end es i"
  "accounting_end (es @ [e]) (length es) = ends_accounting es e"
  by (simp_all add: accounting_end_def nth_append)

lemma last_accounting_snoc:
  "last_accounting (es @ [e]) = (if ends_accounting es e then Some (length es) else last_accounting es)"
proof -
  have "find (accounting_end (es @ [e])) (rev [0..<length es]) = find (accounting_end es) (rev [0..<length es])"
    by (rule find_cong) (simp_all add: accounting_snoc)
  then show ?thesis by (simp add: last_accounting_def accounting_snoc)
qed

lemma last_accounting_less: "last_accounting es = Some i \<Longrightarrow> i < length es"
  by (auto simp: last_accounting_def find_Some_iff accounting_end_def)

lemma accountsForClaim_iff [simp]: "accountsForClaim r \<longleftrightarrow> r \<noteq> Completed"
  by (cases r) simp_all

subsection \<open>The fold against the trace\<close>

definition work_sync :: "event list \<Rightarrow> session_trace \<Rightarrow> work_state \<Rightarrow> bool" where
  "work_sync es tr w =
     (cw_open w = tr_openTurn tr
      \<and> (case tr_openTurn tr of
           None \<Rightarrow> (\<forall>t \<in> cw_stepped w \<union> cw_claimed w. t < tr_nextTurn tr)
         | Some n \<Rightarrow> (\<forall>t \<in> cw_stepped w \<union> cw_claimed w. t \<le> n)
             \<and> (n \<in> cw_stepped w \<longleftrightarrow> (\<exists>e \<in> set (turn_events es). opens_step (ev_data e)))
             \<and> (n \<in> cw_claimed w \<longleftrightarrow> (\<exists>e \<in> set (turn_events es). claims_input (ev_data e)))))"

lemma work_fold_snoc: "work_fold (es @ [e]) = work_step (work_fold es) e"
  by (simp add: work_fold_def)

lemma sync_quiet:
  assumes "work_sync es tr w" "tr_openTurn tr' = tr_openTurn tr" "tr_nextTurn tr' = tr_nextTurn tr"
    and "\<not> opens_turn (ev_data e)" "\<not> opens_step (ev_data e)" "\<not> claims_input (ev_data e)"
  shows "work_sync (es @ [e]) tr' w"
  using assms by (auto simp: work_sync_def turn_events_snoc split: option.splits)

lemma work_step_sync:
  assumes sync: "work_sync es tr w" and inv: "trace_inv tr" and step: "traceStep tr e = Inr tr'"
  shows "work_sync (es @ [e]) tr' (work_step w e)"
proof (cases "ev_data e")
  case (TurnStart t)
  with step have tr: "tr_openTurn tr = None" "t = tr_nextTurn tr" "tr_openTurn tr' = Some t"
    by (auto simp: trace_defs split: if_splits)
  then have old: "\<forall>u \<in> cw_stepped w \<union> cw_claimed w. u < t" using sync by (simp add: work_sync_def)
  then have "t \<notin> cw_stepped w" "t \<notin> cw_claimed w" by auto
  then show ?thesis using tr(3) old
    by (auto simp: work_sync_def work_step_def TurnStart turn_events_snoc less_imp_le)
next
  case (TurnEnd t r)
  with step have "tr_openTurn tr = Some t" "tr_openTurn tr' = None" "tr_nextTurn tr' = tr_nextTurn tr + 1"
    by (auto simp: trace_defs split: if_splits)
  moreover from this inv have "t = tr_nextTurn tr" by (simp add: trace_inv_def)
  ultimately show ?thesis using sync
    by (fastforce simp: work_sync_def work_step_def TurnEnd work_turn_end_def Let_def)
next
  case (StepStart t s)
  with step have "tr_openTurn tr = Some t" "tr_openTurn tr' = Some t"
    by (auto simp: trace_defs split: if_splits)
  then show ?thesis using sync
    by (auto simp: work_sync_def work_step_def StepStart turn_events_snoc)
next
  case (InboxSpliced sp)
  with step have "tr_openTurn tr' = tr_openTurn tr" "tr_nextTurn tr' = tr_nextTurn tr"
    by (auto simp: trace_defs split: if_splits)
  then show ?thesis using sync
    by (auto simp: work_sync_def work_step_def InboxSpliced work_splice_def turn_events_snoc
        split: option.splits)
qed (use sync step in \<open>auto intro!: sync_quiet simp: work_step_def trace_defs split: if_splits\<close>)

lemma work_fold_sync: "traceOf es = Inr tr \<Longrightarrow> work_sync es tr (work_fold es)"
proof (induction es arbitrary: tr rule: rev_induct)
  case Nil
  then show ?case by (auto simp: traceOf_def freshTrace_def work_sync_def work_fold_def work_start_def)
next
  case (snoc e es)
  then obtain tr0 where t: "traceOf es = Inr tr0" "traceStep tr0 e = Inr tr" by (auto simp: traceOf_snoc)
  show ?case unfolding work_fold_snoc
    by (rule work_step_sync [OF snoc.IH [OF t(1)] traceOf_inv [OF t(1)] t(2)])
qed

subsection \<open>The account the fold gives\<close>

text \<open>A turn end is recorded exactly when its turn accounts for work.\<close>

lemma turn_end_accounts:
  assumes sync: "work_sync es tr w" and step: "traceStep tr e = Inr tr'"
  shows "cw_end (work_step w e) = (if ends_accounting es e then Some e else cw_end w)"
    and "cw_droppedUnrun (work_step w e) \<longleftrightarrow>
      \<not> ends_accounting es e \<and> (cw_droppedUnrun w \<or> drops_input (ev_data e))"
proof -
  have "cw_end (work_step w e) = (if ends_accounting es e then Some e else cw_end w)
    \<and> (cw_droppedUnrun (work_step w e) \<longleftrightarrow>
      \<not> ends_accounting es e \<and> (cw_droppedUnrun w \<or> drops_input (ev_data e)))"
  proof (cases "ev_data e")
    case (TurnEnd t r)
    with step have "tr_openTurn tr = Some t" by (auto simp: trace_defs split: if_splits)
    with sync have "t \<in> cw_stepped w \<longleftrightarrow> (\<exists>e \<in> set (turn_events es). opens_step (ev_data e))"
      "t \<in> cw_claimed w \<longleftrightarrow> (\<exists>e \<in> set (turn_events es). claims_input (ev_data e))"
      by (simp_all add: work_sync_def)
    then have "ends_accounting es e \<longleftrightarrow> t \<in> cw_stepped w \<or> t \<in> cw_claimed w \<and> r \<noteq> Completed"
      by (simp add: ends_accounting_def TurnEnd turn_accounts_def)
    then show ?thesis by (auto simp: work_step_def TurnEnd work_turn_end_def Let_def)
  qed (auto simp: ends_accounting_def work_step_def work_splice_def split: option.splits)
  then show "cw_end (work_step w e) = (if ends_accounting es e then Some e else cw_end w)"
    "cw_droppedUnrun (work_step w e) \<longleftrightarrow>
      \<not> ends_accounting es e \<and> (cw_droppedUnrun w \<or> drops_input (ev_data e))" by simp_all
qed

text \<open>
  C20: on any log the relational trace accepts, the single pass reports the
  last \<open>turn/end\<close> whose own turn entered a step or claimed input without simply completing, and
  reports dropped work exactly when a cancellation after that end emptied input out of the inbox.
\<close>

theorem consumed_work_accounts:
  assumes "traceOf es = Inr tr"
  shows "foldConsumedWork es =
    (map_option (nth es) (last_accounting es),
     dropped_from (case last_accounting es of None \<Rightarrow> 0 | Some i \<Rightarrow> Suc i) es)"
  using assms
proof (induction es arbitrary: tr rule: rev_induct)
  case Nil
  show ?case
    by (simp add: foldConsumedWork_def work_fold_def work_start_def last_accounting_def dropped_from_def)
next
  case (snoc e es)
  then obtain tr0 where t: "traceOf es = Inr tr0" "traceStep tr0 e = Inr tr" by (auto simp: traceOf_snoc)
  note step = turn_end_accounts [OF work_fold_sync [OF t(1)] t(2)]
  show ?case using snoc.IH [OF t(1)] last_accounting_less [of es]
    by (cases "last_accounting es")
      (auto simp: foldConsumedWork_def Let_def work_fold_snoc step last_accounting_snoc dropped_from_def
        nth_append Suc_le_eq)
qed

definition work_log :: "event list" where
  "work_log =
     [plain_event 0 0 (TurnStart 1),
      plain_event 1 0 (InboxSpliced \<lparr>sp_target = NextTurn, sp_start = Fin 0, sp_removedCount = Some (Fin 1),
        sp_inserted = [], sp_canceled = False\<rparr>),
      plain_event 2 0 (TurnEnd 1 Blocked),
      plain_event 3 0 (TurnStart 2),
      plain_event 4 0 (TurnEnd 2 Completed),
      plain_event 5 0 (InboxSpliced \<lparr>sp_target = NextStep, sp_start = Fin 0, sp_removedCount = Some (Fin 1),
        sp_inserted = [], sp_canceled = True\<rparr>)]"

lemma work_log_trace: "case traceOf work_log of Inl _ \<Rightarrow> False | Inr _ \<Rightarrow> True"
  by code_simp

theorem consumed_work_accounts_witness:
  "foldConsumedWork work_log = (Some (plain_event 2 0 (TurnEnd 1 Blocked)), True)"
proof -
  obtain tr where "traceOf work_log = Inr tr" using work_log_trace by (cases "traceOf work_log") auto
  from consumed_work_accounts [OF this] show ?thesis
    by (simp add: work_log_def last_accounting_def accounting_end_def ends_accounting_def
        turn_accounts_def turn_events_def dropped_from_def upt_conv_Cons)
qed

end
