(* ===== verification/Session_Store.thy ===== *)
theory Session_Store
  imports Session_Facts
begin

text \<open>
  The in-memory session store of \<open>core/session/src/index.ts\<close>: preparing, entering, announcing,
  appending to, detaching and forking sessions. Sessions and store entries are objects, named by
  their index in the state's tables. Creation and append callbacks run while the operation that
  dispatched them is still open: the state keeps the stack of open dispatches, and whatever a
  listener does is a step taken before its frame is popped.
\<close>

subsection \<open>State\<close>

record entry =
  en_id :: string
  en_session :: nat
  en_announced :: bool
  en_announcing :: bool
  en_appending :: bool
  en_detachRequested :: bool
  en_entered :: bool

datatype frame = AnnounceFrame nat | AppendFrame nat

text \<open>
  What the store shows its observers, with the entry it concerns; \<open>Entered\<close> also records the
  log length the session entered with.
\<close>

datatype notice =
    Entered nat nat
  | Created nat
  | Published nat event
  | Disposed nat

record store =
  so_objs :: "session list"
  so_entries :: "entry list"
  so_map :: "(string \<times> nat) list"
  so_attach :: "(nat \<times> nat) list"
  so_counter :: nat
  so_stack :: "frame list"
  so_trace :: "notice list"

definition new_store :: store where
  "new_store = \<lparr>so_objs = [], so_entries = [], so_map = [], so_attach = [], so_counter = 0,
     so_stack = [], so_trace = []\<rparr>"

datatype store_error =
    AlreadyExists
  | AlreadyAttached
  | NotLive
  | AlreadyAnnounced
  | SessionFailed session_error
  | ListenerFailed string
  | ForkAlreadyExists
  | ForkNotFound
  | ForkNotLive
  | ForkInvalidBoundary
  | ForkOpenTurn

subsection \<open>Preparing\<close>

record session_meta =
  meta_createdAt :: "json option"
  meta_cwd :: "json option"
  meta_parentSession :: "json option"
  meta_seedLength :: "json option"
  meta_origin :: "json option"
  meta_delegationDepth :: "json option"
  meta_agentPreset :: "json option"

definition no_meta :: session_meta where
  "no_meta = \<lparr>meta_createdAt = None, meta_cwd = None, meta_parentSession = None,
     meta_seedLength = None, meta_origin = None, meta_delegationDepth = None, meta_agentPreset = None\<rparr>"

datatype prepare_options =
    CreateOptions "event list option" session_meta
  | RestoreOptions "event list" json

definition minted :: "nat \<Rightarrow> string" where
  "minted n = ''session-'' @ show_nat n"

interpretation minting: fresh_names minted
  by unfold_locales (simp add: minted_def)

text \<open>The \<open>do ... while\<close> loop that mints an id the store does not hold.\<close>

function mintId :: "string list \<Rightarrow> nat \<Rightarrow> nat" where
  "mintId used counter =
     (if minted (Suc counter) \<in> set used then mintId used (Suc counter) else Suc counter)"
  by pat_completeness auto

termination mintId
  by (relation "measure (\<lambda>(used, c). card {n. c < n \<and> minted n \<in> set used})")
    (use minting.taken_shrinks in \<open>auto simp: Suc_le_eq [symmetric]\<close>)

declare mintId.simps [simp del]

lemma mintId_fresh: "minted (mintId used c) \<notin> set used \<and> c < mintId used c"
  by (induction used c rule: mintId.induct) (subst mintId.simps, auto)+

definition meta_header :: "string \<Rightarrow> session_meta \<Rightarrow> int \<Rightarrow> json" where
  "meta_header sid meta now =
     JObj ([(''version'', JInt SESSION_FORMAT_VERSION), (''id'', JStr sid),
        (''createdAt'', case meta_createdAt meta of None \<Rightarrow> JInt now
           | Some v \<Rightarrow> if v = JNull then JInt now else v)]
       @ opt_field ''cwd'' id (meta_cwd meta)
       @ opt_field ''parentSession'' id (meta_parentSession meta)
       @ opt_field ''seedLength'' id (meta_seedLength meta)
       @ opt_field ''origin'' id (meta_origin meta)
       @ opt_field ''delegationDepth'' id (meta_delegationDepth meta)
       @ opt_field ''agentPreset'' id (meta_agentPreset meta))"

definition prepare ::
  "string option \<Rightarrow> prepare_options \<Rightarrow> int \<Rightarrow> store \<Rightarrow> store \<times> (store_error, nat) result" where
  "prepare sid opts now st =
     (let counter = (case sid of None \<Rightarrow> mintId (omap_keys (so_map st)) (so_counter st)
                     | Some _ \<Rightarrow> so_counter st);
          sessionId = (case sid of None \<Rightarrow> minted counter | Some i \<Rightarrow> i);
          st' = st\<lparr>so_counter := counter\<rparr>
      in if omap_has sessionId (so_map st) then (st', Inl AlreadyExists)
         else case (case opts of
             RestoreOptions seed meta \<Rightarrow> newSession RestoreSeed sessionId (Some seed) (Some meta) now
           | CreateOptions seed meta \<Rightarrow>
               newSession SnapshotSeed sessionId seed (Some (meta_header sessionId meta now)) now) of
           Inl err \<Rightarrow> (st', Inl (SessionFailed err))
         | Inr s \<Rightarrow> (st'\<lparr>so_objs := so_objs st @ [s]\<rparr>, Inr (length (so_objs st))))"

subsection \<open>Entering and detaching\<close>

definition entry_of :: "store \<Rightarrow> nat \<Rightarrow> entry" where
  "entry_of st e = so_entries st ! e"

definition obj :: "store \<Rightarrow> nat \<Rightarrow> session" where
  "obj st r = so_objs st ! r"

definition set_entry :: "nat \<Rightarrow> (entry \<Rightarrow> entry) \<Rightarrow> store \<Rightarrow> store" where
  "set_entry e f st = st\<lparr>so_entries := (so_entries st)[e := f (entry_of st e)]\<rparr>"

text \<open>The entry is the one the store holds under its id.\<close>

definition live :: "store \<Rightarrow> nat \<Rightarrow> bool" where
  "live st e = (map_of (so_map st) (en_id (entry_of st e)) = Some e)"

definition enter :: "nat \<Rightarrow> store \<Rightarrow> store \<times> (store_error, nat) result" where
  "enter r st =
     (let sid = ses_id (obj st r); e = length (so_entries st) in
      if omap_has sid (so_map st) then (st, Inl AlreadyExists)
      else if omap_has r (so_attach st) then (st, Inl AlreadyAttached)
      else (st\<lparr>so_entries := so_entries st @ [\<lparr>en_id = sid, en_session = r, en_announced = False,
                 en_announcing = False, en_appending = False, en_detachRequested = False,
                 en_entered = True\<rparr>],
              so_map := omap_set sid e (so_map st),
              so_attach := omap_set r e (so_attach st),
              so_trace := so_trace st @ [Entered e (length (ses_log (obj st r)))]\<rparr>, Inr e))"

definition detachEntered :: "nat \<Rightarrow> store \<Rightarrow> store" where
  "detachEntered e st =
     (let st1 = set_entry e (\<lambda>x. x\<lparr>en_detachRequested := False\<rparr>) st in
      if \<not> live st1 e then st1
      else let st2 = st1\<lparr>so_map := omap_delete (en_id (entry_of st e)) (so_map st1),
                 so_attach := omap_delete (en_session (entry_of st e)) (so_attach st1)\<rparr>
        in if en_announced (entry_of st e)
           then st2\<lparr>so_trace := so_trace st2 @ [Disposed e]\<rparr> else st2)"

text \<open>The detach capability \<open>enter\<close> returned, which works once.\<close>

definition detach :: "nat \<Rightarrow> store \<Rightarrow> store" where
  "detach e st =
     (if \<not> en_entered (entry_of st e) then st
      else let st1 = set_entry e (\<lambda>x. x\<lparr>en_entered := False\<rparr>) st in
        if en_announcing (entry_of st e) \<or> en_appending (entry_of st e)
        then set_entry e (\<lambda>x. x\<lparr>en_detachRequested := True\<rparr>) st1
        else detachEntered e st1)"

subsection \<open>Announcing\<close>

definition liveEntryFor :: "nat \<Rightarrow> store \<Rightarrow> (store_error, nat) result" where
  "liveEntryFor r st =
     (case map_of (so_attach st) r of
        None \<Rightarrow> Inl NotLive
      | Some e \<Rightarrow> if live st e then Inr e else Inl NotLive)"

text \<open>\<open>announce\<close> up to its callbacks, and the \<open>finally\<close> block after them.\<close>

definition announceBegin :: "nat \<Rightarrow> store \<Rightarrow> store \<times> (store_error, nat) result" where
  "announceBegin r st =
     (case liveEntryFor r st of
        Inl err \<Rightarrow> (st, Inl err)
      | Inr e \<Rightarrow>
          if en_announced (entry_of st e) \<or> en_announcing (entry_of st e)
          then (st, Inl AlreadyAnnounced)
          else ((set_entry e (\<lambda>x. x\<lparr>en_announced := True, en_announcing := True\<rparr>) st)
            \<lparr>so_stack := AnnounceFrame e # so_stack st, so_trace := so_trace st @ [Created e]\<rparr>, Inr e))"

definition announceEnd :: "nat \<Rightarrow> store \<Rightarrow> store" where
  "announceEnd e st =
     (let st1 = (set_entry e (\<lambda>x. x\<lparr>en_announcing := False\<rparr>) st)\<lparr>so_stack := tl (so_stack st)\<rparr>
      in if en_detachRequested (entry_of st e) \<and> \<not> en_appending (entry_of st e)
         then detachEntered e st1 else st1)"

subsection \<open>Appending\<close>

text \<open>
  \<open>append\<close> on a session of the store's objects. \<open>dispatches\<close> is whether resolving the listeners
  succeeds; when it throws, the \<open>finally\<close> block runs and the log is unchanged.
\<close>

definition appendFinally :: "nat \<Rightarrow> store \<Rightarrow> store" where
  "appendFinally e st =
     (let st1 = set_entry e (\<lambda>x. x\<lparr>en_appending := False\<rparr>) st
      in if en_detachRequested (entry_of st e) \<and> \<not> en_announcing (entry_of st e)
         then detachEntered e st1 else st1)"

definition set_obj :: "nat \<Rightarrow> session \<Rightarrow> store \<Rightarrow> store" where
  "set_obj r s st = st\<lparr>so_objs := (so_objs st)[r := s]\<rparr>"

definition appendBegin ::
  "nat \<Rightarrow> bool \<Rightarrow> int \<Rightarrow> event_data \<Rightarrow> json option \<Rightarrow> json option \<Rightarrow> store
     \<Rightarrow> store \<times> (store_error, event) result" where
  "appendBegin r dispatches now d op srcs st =
     (let ent = map_of (so_attach st) r;
          busy = (case ent of None \<Rightarrow> False | Some e \<Rightarrow> en_appending (entry_of st e))
      in case acceptAppend (obj st r) busy now d op srcs of
          Inl err \<Rightarrow> (st, Inl (SessionFailed err))
        | Inr (s, event) \<Rightarrow>
            (case ent of
               None \<Rightarrow> (set_obj r (commitAppend s event) st, Inr event)
             | Some e \<Rightarrow>
                 let st1 = set_entry e (\<lambda>x. x\<lparr>en_appending := True\<rparr>) st in
                 if dispatches
                 then ((set_obj r (commitAppend s event) st1)
                   \<lparr>so_stack := AppendFrame e # so_stack st,
                    so_trace := so_trace st @ [Published e event]\<rparr>, Inr event)
                 else (appendFinally e (set_obj r s st1), Inl (ListenerFailed ''dispatch''))))"

definition appendEnd :: "nat \<Rightarrow> store \<Rightarrow> store" where
  "appendEnd e st = appendFinally e (st\<lparr>so_stack := tl (so_stack st)\<rparr>)"

subsection \<open>Reading\<close>

definition get :: "string \<Rightarrow> store \<Rightarrow> nat option" where
  "get sid st = map_option (\<lambda>e. en_session (entry_of st e)) (map_of (so_map st) sid)"

definition list_sessions :: "store \<Rightarrow> nat list" where
  "list_sessions st = map (\<lambda>(_, e). en_session (entry_of st e)) (so_map st)"

text \<open>
  The durability checkpoint: every listener settles, then the first failure in registration
  order is thrown; the result tells whether any listener took part.
\<close>

definition flush :: "nat \<Rightarrow> (string, unit) result list \<Rightarrow> store \<Rightarrow> (store_error, bool) result" where
  "flush r outcomes st =
     bindE (liveEntryFor r st) (\<lambda>_.
       case find (\<lambda>out. \<not> is_ok out) outcomes of
         Some (Inl reason) \<Rightarrow> Inl (ListenerFailed reason)
       | _ \<Rightarrow> Inr (outcomes \<noteq> []))"

subsection \<open>Forking\<close>

datatype fork_source = SourceId string | SourceObject nat

definition resolveForkSource :: "fork_source \<Rightarrow> store \<Rightarrow> (store_error, nat) result" where
  "resolveForkSource source st =
     (case source of
        SourceId sid \<Rightarrow> (case get sid st of None \<Rightarrow> Inl ForkNotFound | Some r \<Rightarrow> Inr r)
      | SourceObject r \<Rightarrow>
          (case get (ses_id (obj st r)) st of
             None \<Rightarrow> Inl ForkNotFound
           | Some r' \<Rightarrow> if r' \<noteq> r then Inl ForkNotLive else Inr r))"

fun is_turn_boundary :: "event_data \<Rightarrow> bool" where
  "is_turn_boundary (TurnStart _) = True"
| "is_turn_boundary (TurnEnd _ _) = True"
| "is_turn_boundary _ = False"

fun is_turn_start :: "event_data \<Rightarrow> bool" where
  "is_turn_start (TurnStart _) = True"
| "is_turn_start _ = False"

definition lastTurnBoundary :: "event list \<Rightarrow> event option" where
  "lastTurnBoundary es = find (\<lambda>e. is_turn_boundary (ev_data e)) (rev es)"

text \<open>The prefix through an inclusive boundary, which must be an existing seq and end no open turn.\<close>

definition forkPrefix :: "event list \<Rightarrow> jsnum \<Rightarrow> (store_error, event list) result" where
  "forkPrefix es boundary =
     (if \<not> isSafeInteger boundary \<or> num_to_int boundary < 0 then Inl ForkInvalidBoundary
      else if int (length es) \<le> num_to_int boundary then Inl ForkInvalidBoundary
      else let b = nat (num_to_int boundary) in
        if ev_seq (es ! b) \<noteq> num_to_int boundary then Inl ForkInvalidBoundary
        else let prefix = take (Suc b) es in
          case lastTurnBoundary prefix of
            Some e \<Rightarrow> if is_turn_start (ev_data e) then Inl ForkOpenTurn else Inr prefix
          | None \<Rightarrow> Inr prefix)"

definition forkSeed :: "event list \<Rightarrow> jsnum option \<Rightarrow> (store_error, event list) result" where
  "forkSeed es requested =
     (case requested of
        Some boundary \<Rightarrow> forkPrefix es boundary
      | None \<Rightarrow> if es = [] then Inr [] else forkPrefix es (num_of_int (ev_seq (last es))))"

text \<open>\<open>fork\<close> up to the creation it delegates to: the child's id and creation options.\<close>

definition forkOptions ::
  "fork_source \<Rightarrow> jsnum option \<Rightarrow> string option \<Rightarrow> store \<Rightarrow> (store_error, prepare_options) result" where
  "forkOptions source boundary child st =
     (if (case child of None \<Rightarrow> False | Some c \<Rightarrow> get c st \<noteq> None) then Inl ForkAlreadyExists
      else bindE (resolveForkSource source st) (\<lambda>r.
        bindE (forkSeed (ses_log (obj st r)) boundary) (\<lambda>seed.
          Inr (CreateOptions (Some seed)
            (no_meta\<lparr>meta_cwd := field (ses_header (obj st r)) ''cwd'',
               meta_parentSession := Some (JStr (ses_id (obj st r))),
               meta_seedLength := Some (JInt (int (length seed)))\<rparr>)))))"

text \<open>\<open>create\<close> up to its creation callbacks: prepare, enter, announce.\<close>

definition createBegin ::
  "string option \<Rightarrow> prepare_options \<Rightarrow> int \<Rightarrow> store \<Rightarrow> store \<times> (store_error, nat) result" where
  "createBegin sid opts now st =
     (case prepare sid opts now st of
        (st1, Inl err) \<Rightarrow> (st1, Inl err)
      | (st1, Inr r) \<Rightarrow>
          (case enter r st1 of
             (st2, Inl err) \<Rightarrow> (st2, Inl err)
           | (st2, Inr e) \<Rightarrow> announceBegin r st2))"

definition forkBegin ::
  "fork_source \<Rightarrow> jsnum option \<Rightarrow> string option \<Rightarrow> int \<Rightarrow> store \<Rightarrow> store \<times> (store_error, nat) result" where
  "forkBegin source boundary child now st =
     (case forkOptions source boundary child st of
        Inl err \<Rightarrow> (st, Inl err)
      | Inr opts \<Rightarrow> createBegin child opts now st)"

end
