(* ===== verification/Store_Facts.thy ===== *)
theory Store_Facts
  imports Session_Store
begin

text \<open>
  The store as a transition system: reachable states under any interleaving of its operations,
  with listeners running inside open dispatches, the invariant they keep, and the lifecycle an
  observer sees of every entry.
\<close>

subsection \<open>Steps\<close>

fun is_read :: "session_call \<Rightarrow> bool" where
  "is_read (CallAppend _ _ _ _) = False"
| "is_read _ = True"

inductive store_step :: "store \<Rightarrow> store \<Rightarrow> bool" where
  step_prepare: "store_step st (fst (prepare sid opts now st))"
| step_enter: "r < length (so_objs st) \<Longrightarrow> store_step st (fst (enter r st))"
| step_detach: "e < length (so_entries st) \<Longrightarrow> store_step st (detach e st)"
| step_announce: "r < length (so_objs st) \<Longrightarrow> store_step st (fst (announceBegin r st))"
| step_announced: "so_stack st = AnnounceFrame e # fs \<Longrightarrow> store_step st (announceEnd e st)"
| step_append: "r < length (so_objs st) \<Longrightarrow> store_step st (fst (appendBegin r dispatches now d op srcs st))"
| step_appended: "so_stack st = AppendFrame e # fs \<Longrightarrow> store_step st (appendEnd e st)"
| step_read: "r < length (so_objs st) \<Longrightarrow> is_read c \<Longrightarrow>
    store_step st (set_obj r (session_step (obj st r) c) st)"

inductive reachable :: "store \<Rightarrow> bool" where
  reach_init: "reachable new_store"
| reach_step: "reachable st \<Longrightarrow> store_step st st' \<Longrightarrow> reachable st'"

subsection \<open>The lifecycle an observer sees\<close>

datatype phase = PNew | PEntered | PAnnounced | PDisposed

fun life_step :: "phase \<Rightarrow> notice \<Rightarrow> phase option" where
  "life_step PNew (Entered _ _) = Some PEntered"
| "life_step PEntered (Published _ _) = Some PEntered"
| "life_step PEntered (Created _) = Some PAnnounced"
| "life_step PAnnounced (Published _ _) = Some PAnnounced"
| "life_step PAnnounced (Disposed _) = Some PDisposed"
| "life_step _ _ = None"

primrec life_run :: "phase \<Rightarrow> notice list \<Rightarrow> phase option" where
  "life_run p [] = Some p"
| "life_run p (n # ns) = (case life_step p n of None \<Rightarrow> None | Some p' \<Rightarrow> life_run p' ns)"

fun notice_entry :: "notice \<Rightarrow> nat" where
  "notice_entry (Entered e _) = e"
| "notice_entry (Created e) = e"
| "notice_entry (Published e _) = e"
| "notice_entry (Disposed e) = e"

definition notices_of :: "nat \<Rightarrow> notice list \<Rightarrow> notice list" where
  "notices_of e tr = filter (\<lambda>n. notice_entry n = e) tr"

fun published_event :: "notice \<Rightarrow> event list" where
  "published_event (Published _ ev) = [ev]"
| "published_event _ = []"

definition published_of :: "nat \<Rightarrow> notice list \<Rightarrow> event list" where
  "published_of e tr = concat (map published_event (notices_of e tr))"

definition phase_of :: "store \<Rightarrow> nat \<Rightarrow> phase" where
  "phase_of st e =
     (if \<not> en_announced (entry_of st e) then PEntered
      else if live st e then PAnnounced else PDisposed)"

lemma life_run_append:
  "life_run p (xs @ ys) = (case life_run p xs of None \<Rightarrow> None | Some p' \<Rightarrow> life_run p' ys)"
  by (induction xs arbitrary: p) (auto split: option.splits)

lemma notices_snoc:
  "notices_of e (tr @ [n]) = notices_of e tr @ (if notice_entry n = e then [n] else [])"
  by (simp add: notices_of_def)

lemma published_snoc:
  "published_of e (tr @ [n]) = published_of e tr @ (if notice_entry n = e then published_event n else [])"
  by (simp add: published_of_def notices_snoc)

subsection \<open>Shape\<close>

fun frame_entry :: "frame \<Rightarrow> nat" where
  "frame_entry (AnnounceFrame e) = e"
| "frame_entry (AppendFrame e) = e"

definition entry_flags :: "store \<Rightarrow> nat \<Rightarrow> bool" where
  "entry_flags st e = (let x = entry_of st e in
     (en_announcing x \<longrightarrow> en_announced x \<and> live st e)
     \<and> (en_appending x \<longrightarrow> live st e)
     \<and> (en_detachRequested x \<longrightarrow> (en_announcing x \<or> en_appending x) \<and> \<not> en_entered x)
     \<and> (live st e \<longleftrightarrow> en_entered x \<or> en_detachRequested x)
     \<and> en_session x < length (so_objs st)
     \<and> (live st e \<longrightarrow> map_of (so_attach st) (en_session x) = Some e)
     \<and> (AnnounceFrame e \<in> set (so_stack st) \<longleftrightarrow> en_announcing x)
     \<and> (AppendFrame e \<in> set (so_stack st) \<longleftrightarrow> en_appending x))"

definition store_shape :: "store \<Rightarrow> bool" where
  "store_shape st =
     ((\<forall>e < length (so_entries st). entry_flags st e)
      \<and> distinct (so_stack st)
      \<and> (\<forall>f \<in> set (so_stack st). frame_entry f < length (so_entries st))
      \<and> omap_wf (so_map st)
      \<and> (\<forall>sid e. map_of (so_map st) sid = Some e \<longrightarrow>
           e < length (so_entries st) \<and> en_id (entry_of st e) = sid)
      \<and> (\<forall>r e. map_of (so_attach st) r = Some e \<longrightarrow>
           e < length (so_entries st) \<and> en_session (entry_of st e) = r \<and> live st e)
      \<and> (\<forall>s \<in> set (so_objs st). session_inv s))"

lemma store_shapeD:
  assumes "store_shape st"
  shows "e < length (so_entries st) \<Longrightarrow> entry_flags st e"
    and "distinct (so_stack st)"
    and "f \<in> set (so_stack st) \<Longrightarrow> frame_entry f < length (so_entries st)"
    and "omap_wf (so_map st)"
    and "map_of (so_map st) sid = Some e \<Longrightarrow> e < length (so_entries st) \<and> en_id (entry_of st e) = sid"
    and "map_of (so_attach st) r = Some e \<Longrightarrow>
      e < length (so_entries st) \<and> en_session (entry_of st e) = r \<and> live st e"
    and "s \<in> set (so_objs st) \<Longrightarrow> session_inv s"
  using assms by (auto simp: store_shape_def)

subsubsection \<open>Basic rewriting\<close>

lemma entry_of_set [simp]:
  "e < length (so_entries st) \<Longrightarrow>
    entry_of (set_entry e f st) e' = (if e' = e then f (entry_of st e) else entry_of st e')"
  by (simp add: entry_of_def set_entry_def nth_list_update)

lemma set_entry_fields [simp]:
  "so_objs (set_entry e f st) = so_objs st"
  "so_map (set_entry e f st) = so_map st"
  "so_attach (set_entry e f st) = so_attach st"
  "so_stack (set_entry e f st) = so_stack st"
  "so_trace (set_entry e f st) = so_trace st"
  "so_counter (set_entry e f st) = so_counter st"
  "length (so_entries (set_entry e f st)) = length (so_entries st)"
  by (simp_all add: set_entry_def)

lemma set_obj_fields [simp]:
  "so_map (set_obj r s st) = so_map st"
  "so_attach (set_obj r s st) = so_attach st"
  "so_stack (set_obj r s st) = so_stack st"
  "so_trace (set_obj r s st) = so_trace st"
  "so_entries (set_obj r s st) = so_entries st"
  "length (so_objs (set_obj r s st)) = length (so_objs st)"
  "entry_of (set_obj r s st) e = entry_of st e"
  "live (set_obj r s st) e = live st e"
  by (simp_all add: set_obj_def entry_of_def live_def)

lemma obj_set_obj [simp]:
  "r < length (so_objs st) \<Longrightarrow> obj (set_obj r s st) r' = (if r' = r then s else obj st r')"
  by (simp add: obj_def set_obj_def nth_list_update)

lemma entry_of_fields [simp]:
  "entry_of (st\<lparr>so_stack := k\<rparr>) e = entry_of st e"
  "entry_of (st\<lparr>so_trace := t\<rparr>) e = entry_of st e"
  "entry_of (st\<lparr>so_map := m\<rparr>) e = entry_of st e"
  "entry_of (st\<lparr>so_attach := a\<rparr>) e = entry_of st e"
  "entry_of (st\<lparr>so_objs := os\<rparr>) e = entry_of st e"
  "entry_of (st\<lparr>so_counter := n\<rparr>) e = entry_of st e"
  by (simp_all add: entry_of_def)

lemma live_fields [simp]:
  "live (st\<lparr>so_stack := k\<rparr>) e = live st e"
  "live (st\<lparr>so_trace := t\<rparr>) e = live st e"
  "live (st\<lparr>so_objs := os\<rparr>) e = live st e"
  "live (st\<lparr>so_counter := n\<rparr>) e = live st e"
  "live (st\<lparr>so_attach := a\<rparr>) e = live st e"
  by (simp_all add: live_def)

lemma live_set_entry [simp]:
  "e < length (so_entries st) \<Longrightarrow> en_id (f (entry_of st e)) = en_id (entry_of st e)
    \<Longrightarrow> live (set_entry e f st) e' = live st e'"
  by (cases "e' = e") (simp_all add: live_def)

text \<open>Two live entries of one id or of one session are the same.\<close>

lemma live_unique_id: "live st e \<Longrightarrow> live st e' \<Longrightarrow> en_id (entry_of st e) = en_id (entry_of st e') \<Longrightarrow> e = e'"
  by (simp add: live_def)

lemma entry_flagsD:
  assumes "entry_flags st e"
  shows "en_announcing (entry_of st e) \<Longrightarrow> en_announced (entry_of st e)"
    and "en_announcing (entry_of st e) \<Longrightarrow> live st e"
    and "en_appending (entry_of st e) \<Longrightarrow> live st e"
    and "en_detachRequested (entry_of st e) \<Longrightarrow>
      (en_announcing (entry_of st e) \<or> en_appending (entry_of st e)) \<and> \<not> en_entered (entry_of st e)"
    and "live st e \<longleftrightarrow> en_entered (entry_of st e) \<or> en_detachRequested (entry_of st e)"
    and "en_session (entry_of st e) < length (so_objs st)"
    and "live st e \<Longrightarrow> map_of (so_attach st) (en_session (entry_of st e)) = Some e"
    and "AnnounceFrame e \<in> set (so_stack st) \<longleftrightarrow> en_announcing (entry_of st e)"
    and "AppendFrame e \<in> set (so_stack st) \<longleftrightarrow> en_appending (entry_of st e)"
  using assms unfolding entry_flags_def Let_def by blast+

lemma live_less: "store_shape st \<Longrightarrow> live st e \<Longrightarrow> e < length (so_entries st)"
  unfolding live_def using store_shapeD(5) [of st "en_id (entry_of st e)" e] by blast

lemma live_unique_session:
  assumes "store_shape st" "live st e" "live st e'"
    "en_session (entry_of st e) = en_session (entry_of st e')"
  shows "e = e'"
proof -
  note fl = store_shapeD(1) [OF assms(1) live_less [OF assms(1,2)]]
    store_shapeD(1) [OF assms(1) live_less [OF assms(1,3)]]
  have "map_of (so_attach st) (en_session (entry_of st e)) = Some e"
    "map_of (so_attach st) (en_session (entry_of st e')) = Some e'"
    by (rule entry_flagsD(7) [OF fl(1) assms(2)], rule entry_flagsD(7) [OF fl(2) assms(3)])
  then have "Some e = Some e'" unfolding assms(4) by (rule trans [OF sym])
  then show ?thesis by (rule option.inject [THEN iffD1])
qed

lemma entry_flags_cong:
  assumes "entry_flags st e" "entry_of st' e = entry_of st e" "live st' e = live st e"
    "length (so_objs st) \<le> length (so_objs st')"
    "live st e \<Longrightarrow> map_of (so_attach st) (en_session (entry_of st e)) = Some e \<Longrightarrow>
       map_of (so_attach st') (en_session (entry_of st e)) = Some e"
    "AnnounceFrame e \<in> set (so_stack st') \<longleftrightarrow> AnnounceFrame e \<in> set (so_stack st)"
    "AppendFrame e \<in> set (so_stack st') \<longleftrightarrow> AppendFrame e \<in> set (so_stack st)"
  shows "entry_flags st' e"
proof -
  note f = assms(1) [unfolded entry_flags_def Let_def]
  note f5 = f [THEN conjunct2, THEN conjunct2, THEN conjunct2, THEN conjunct2]
  note f6 = f5 [THEN conjunct2]
  have c5: "en_session (entry_of st e) < length (so_objs st')"
    by (rule order_less_le_trans [OF f5 [THEN conjunct1] assms(4)])
  have c6: "live st e \<longrightarrow> map_of (so_attach st') (en_session (entry_of st e)) = Some e"
    using assms(5) f6 [THEN conjunct1] by blast
  show ?thesis unfolding entry_flags_def Let_def assms(2,3,6,7)
    by (intro conjI c5 c6 f [THEN conjunct1] f [THEN conjunct2, THEN conjunct1]
      f [THEN conjunct2, THEN conjunct2, THEN conjunct1]
      f [THEN conjunct2, THEN conjunct2, THEN conjunct2, THEN conjunct1] f6 [THEN conjunct2])
qed

subsubsection \<open>Every operation keeps the shape\<close>

lemma prepare_cases:
  obtains k where "fst (prepare sid opts now st) = st\<lparr>so_counter := k\<rparr>"
  | k s where "session_inv s"
      "fst (prepare sid opts now st) = st\<lparr>so_counter := k, so_objs := so_objs st @ [s]\<rparr>"
      "snd (prepare sid opts now st) = Inr (length (so_objs st))"
proof -
  define k where "k = (case sid of None \<Rightarrow> mintId (omap_keys (so_map st)) (so_counter st)
      | Some _ \<Rightarrow> so_counter st)"
  define i where "i = (case sid of None \<Rightarrow> minted k | Some i \<Rightarrow> i)"
  define r where "r = (case opts of
      RestoreOptions seed meta \<Rightarrow> newSession RestoreSeed i (Some seed) (Some meta) now
    | CreateOptions seed meta \<Rightarrow> newSession SnapshotSeed i seed (Some (meta_header i meta now)) now)"
  have p: "prepare sid opts now st = (if omap_has i (so_map st) then (st\<lparr>so_counter := k\<rparr>, Inl AlreadyExists)
      else case r of Inl err \<Rightarrow> (st\<lparr>so_counter := k\<rparr>, Inl (SessionFailed err))
        | Inr s \<Rightarrow> (st\<lparr>so_counter := k, so_objs := so_objs st @ [s]\<rparr>, Inr (length (so_objs st))))"
    unfolding prepare_def Let_def r_def i_def k_def by (rule refl)
  show thesis
  proof (cases "omap_has i (so_map st)")
    case True
    then show thesis using that(1) [of k] by (simp add: p)
  next
    case False
    show thesis
    proof (cases r)
      case (Inl err)
      then show thesis using that(1) [of k] False by (simp add: p)
    next
      case (Inr s)
      then have "session_inv s"
        by (cases opts) (auto simp: r_def dest: newSession_inv(1))
      then show thesis using that(2) [of s k] False Inr by (simp add: p)
    qed
  qed
qed

lemma shape_prepare: "store_shape st \<Longrightarrow> store_shape (fst (prepare sid opts now st))"
proof (rule prepare_cases [of sid opts now st])
  fix k
  assume s: "store_shape st" and p: "fst (prepare sid opts now st) = st\<lparr>so_counter := k\<rparr>"
  have "entry_flags (st\<lparr>so_counter := k\<rparr>) e = entry_flags st e" for e by (simp add: entry_flags_def)
  then show ?thesis unfolding p using s by (simp add: store_shape_def)
next
  fix k x
  assume s: "store_shape st" "session_inv x"
    and p: "fst (prepare sid opts now st) = st\<lparr>so_counter := k, so_objs := so_objs st @ [x]\<rparr>"
  let ?st = "st\<lparr>so_counter := k, so_objs := so_objs st @ [x]\<rparr>"
  have "entry_flags ?st e" if "e < length (so_entries st)" for e
    by (rule entry_flags_cong [OF store_shapeD(1) [OF s(1) that]]) simp_all
  moreover have "entry_of ?st e = entry_of st e" "live ?st e = live st e" for e by simp_all
  ultimately show ?thesis unfolding p store_shape_def
    using store_shapeD(2-7) [OF s(1)] s(2) by simp
qed

lemma shape_set_obj:
  assumes s: "store_shape st" "session_inv s"
  shows "store_shape (set_obj r s st)"
proof -
  have "entry_flags (set_obj r s st) e = entry_flags st e" for e by (simp add: entry_flags_def)
  moreover have "set (so_objs (set_obj r s st)) \<subseteq> insert s (set (so_objs st))"
    by (simp add: set_obj_def set_update_subset_insert)
  ultimately show ?thesis using s unfolding store_shape_def by auto
qed

text \<open>Entering adds one live entry and changes no other.\<close>

lemma enter_cases:
  obtains "fst (enter r st) = st" "\<exists>err. snd (enter r st) = Inl err"
  | e where "e = length (so_entries st)" "map_of (so_map st) (ses_id (obj st r)) = None"
      "map_of (so_attach st) r = None" "snd (enter r st) = Inr e"
      "fst (enter r st) = st\<lparr>so_entries := so_entries st @ [\<lparr>en_id = ses_id (obj st r), en_session = r,
           en_announced = False, en_announcing = False, en_appending = False,
           en_detachRequested = False, en_entered = True\<rparr>],
         so_map := omap_set (ses_id (obj st r)) e (so_map st), so_attach := omap_set r e (so_attach st),
         so_trace := so_trace st @ [Entered e (length (ses_log (obj st r)))]\<rparr>"
  by (cases "omap_has (ses_id (obj st r)) (so_map st)"; cases "omap_has r (so_attach st)")
    (auto simp: enter_def Let_def omap_has_def intro: that)

lemma entry_of_snoc:
  "e < length (so_entries st) \<Longrightarrow> entry_of (st\<lparr>so_entries := so_entries st @ [x]\<rparr>) e = entry_of st e"
  "entry_of (st\<lparr>so_entries := so_entries st @ [x]\<rparr>) (length (so_entries st)) = x"
  by (simp_all add: entry_of_def nth_append)

lemma shape_enter:
  assumes s: "store_shape st" and r: "r < length (so_objs st)"
  shows "store_shape (fst (enter r st))"
proof (rule enter_cases [of r st])
  assume "fst (enter r st) = st"
  then show ?thesis using s by simp
next
  fix e
  let ?x = "\<lparr>en_id = ses_id (obj st r), en_session = r, en_announced = False, en_announcing = False,
     en_appending = False, en_detachRequested = False, en_entered = True\<rparr>"
  let ?st = "st\<lparr>so_entries := so_entries st @ [?x],
         so_map := omap_set (ses_id (obj st r)) e (so_map st), so_attach := omap_set r e (so_attach st),
         so_trace := so_trace st @ [Entered e (length (ses_log (obj st r)))]\<rparr>"
  assume e: "e = length (so_entries st)" and free: "map_of (so_map st) (ses_id (obj st r)) = None"
    "map_of (so_attach st) r = None" and st: "fst (enter r st) = ?st"
  have old: "entry_of ?st e' = entry_of st e'" if "e' < e" for e'
    using that by (simp add: entry_of_snoc e)
  have new: "entry_of ?st e = ?x" by (simp add: entry_of_snoc e)
  have live_old: "live ?st e' = live st e'" if "e' < e" for e'
    using that free(1) by (auto simp: live_def e entry_of_snoc)
  have live_new: "live ?st e" by (simp add: live_def e entry_of_snoc)
  have frames: "AnnounceFrame e \<notin> set (so_stack st)" "AppendFrame e \<notin> set (so_stack st)"
    using store_shapeD(3) [OF s] e by fastforce+
  have flags_old: "entry_flags ?st e'" if "e' < e" for e'
    using that free(2) e live_old [OF that] old [OF that]
    by (intro entry_flags_cong [OF store_shapeD(1) [OF s]]) auto
  have flags_new: "entry_flags ?st e"
    unfolding entry_flags_def new Let_def using frames r live_new by simp
  have flags: "\<forall>e' < length (so_entries ?st). entry_flags ?st e'"
    using flags_old flags_new by (simp add: less_Suc_eq e [symmetric])
  have map: "e' < length (so_entries ?st) \<and> en_id (entry_of ?st e') = sid"
    if "map_of (so_map ?st) sid = Some e'" for sid e'
    using that store_shapeD(5) [OF s, of sid e'] new old [of e'] e by (auto split: if_splits)
  have att: "e' < length (so_entries ?st) \<and> en_session (entry_of ?st e') = q \<and> live ?st e'"
    if "map_of (so_attach ?st) q = Some e'" for q e'
    using that store_shapeD(6) [OF s, of q e'] new old [of e'] live_old [of e'] live_new e
    by (auto split: if_splits)
  have frames_lt: "\<forall>f \<in> set (so_stack ?st). frame_entry f < length (so_entries ?st)"
    using store_shapeD(3) [OF s] by (auto intro: less_SucI)
  show ?thesis
    unfolding st store_shape_def using flags map att frames_lt store_shapeD(2,4,7) [OF s]
    by (intro conjI allI impI) (simp_all add: omap_wf_set)
qed

text \<open>
  Changing the flags of one live entry, together with the stack: what the shape asks of the new
  flags.
\<close>

lemma shape_flags:
  assumes s: "store_shape st" and e: "e < length (so_entries st)"
    and x: "en_id (f (entry_of st e)) = en_id (entry_of st e)"
      "en_session (f (entry_of st e)) = en_session (entry_of st e)"
    and k: "distinct k" "\<forall>g \<in> set k. frame_entry g < length (so_entries st)"
      "\<forall>g. frame_entry g \<noteq> e \<longrightarrow> (g \<in> set k \<longleftrightarrow> g \<in> set (so_stack st))"
    and fl: "entry_flags ((set_entry e f st)\<lparr>so_stack := k\<rparr>) e"
  shows "store_shape ((set_entry e f st)\<lparr>so_stack := k\<rparr>)"
proof -
  let ?st = "(set_entry e f st)\<lparr>so_stack := k\<rparr>"
  have live: "live ?st e' = live st e'" for e' using e x by simp
  have ent: "entry_of ?st e' = entry_of st e'" if "e' \<noteq> e" for e' using e that by simp
  have "entry_flags ?st e'" if "e' < length (so_entries st)" for e'
  proof (cases "e' = e")
    case False
    then have "AnnounceFrame e' \<in> set k \<longleftrightarrow> AnnounceFrame e' \<in> set (so_stack st)"
      "AppendFrame e' \<in> set k \<longleftrightarrow> AppendFrame e' \<in> set (so_stack st)"
      using k(3) by simp_all
    then show ?thesis
      by (intro entry_flags_cong [OF store_shapeD(1) [OF s that]]) (simp_all add: e x False)
  qed (simp add: fl)
  moreover have "en_id (entry_of ?st e') = en_id (entry_of st e')"
    "en_session (entry_of ?st e') = en_session (entry_of st e')" for e'
    using e x by simp_all
  ultimately show ?thesis
    unfolding store_shape_def live using s k by (simp add: store_shape_def)
qed

text \<open>Removing a live entry whose dispatches are all closed and whose capability is spent.\<close>

lemma shape_remove:
  assumes s: "store_shape st" and e: "live st e"
    and x: "\<not> en_announcing (entry_of st e)" "\<not> en_appending (entry_of st e)"
      "en_id y = en_id (entry_of st e)" "en_session y = en_session (entry_of st e)"
      "\<not> en_announcing y" "\<not> en_appending y" "\<not> en_entered y" "\<not> en_detachRequested y"
    and st': "so_objs st' = so_objs st" "so_stack st' = so_stack st"
      "so_entries st' = (so_entries st)[e := y]"
      "so_map st' = omap_delete (en_id (entry_of st e)) (so_map st)"
      "so_attach st' = omap_delete (en_session (entry_of st e)) (so_attach st)"
  shows "store_shape st'"
proof -
  have lt: "e < length (so_entries st)" by (rule live_less [OF s e])
  have ent: "entry_of st' e' = (if e' = e then y else entry_of st e')" for e'
    using lt by (simp add: entry_of_def st' nth_list_update)
  have dead: "\<not> live st' e" by (simp add: live_def ent st' x)
  have live: "live st' e' = live st e'" if "e' \<noteq> e" for e'
    using that e by (auto simp: live_def ent st')
  have fl: "entry_flags st' e'" if "e' < length (so_entries st)" for e'
  proof (cases "e' = e")
    case True
    have "AnnounceFrame e \<notin> set (so_stack st)" "AppendFrame e \<notin> set (so_stack st)"
      "en_session (entry_of st e) < length (so_objs st)"
      using entry_flagsD(6,8,9) [OF store_shapeD(1) [OF s lt]] x by simp_all
    then show ?thesis unfolding True entry_flags_def Let_def ent using dead x by (simp add: st')
  next
    case False
    have "map_of (so_attach st') (en_session (entry_of st e')) = Some e'"
      if "live st e'" "map_of (so_attach st) (en_session (entry_of st e')) = Some e'"
      using live_unique_session [OF s that(1) e] False that(2) by (auto simp: st')
    then show ?thesis using False
      by (intro entry_flags_cong [OF store_shapeD(1) [OF s that]]) (simp_all add: ent live st')
  qed
  have at: "e' < length (so_entries st') \<and> en_session (entry_of st' e') = r \<and> live st' e'"
    if "map_of (so_attach st') r = Some e'" for r e'
  proof -
    from that have r: "r \<noteq> en_session (entry_of st e)" and m: "map_of (so_attach st) r = Some e'"
      by (auto simp: st' split: if_splits)
    note a = store_shapeD(6) [OF s m]
    then have "e' \<noteq> e" using r by auto
    then show ?thesis using a live by (simp add: ent st')
  qed
  have mp: "e' < length (so_entries st') \<and> en_id (entry_of st' e') = sid"
    if "map_of (so_map st') sid = Some e'" for sid e'
    using that store_shapeD(5) [OF s, of sid e'] x(3) by (auto simp: st' ent split: if_splits)
  show ?thesis unfolding store_shape_def
    using fl at mp store_shapeD(2,3,4,7) [OF s] by (simp add: st' omap_wf_delete)
qed

lemma detachEntered_live:
  assumes "live st e" "e < length (so_entries st)"
  shows "so_objs (detachEntered e st) = so_objs st" "so_stack (detachEntered e st) = so_stack st"
    "so_entries (detachEntered e st) = (so_entries st)[e := entry_of st e\<lparr>en_detachRequested := False\<rparr>]"
    "so_map (detachEntered e st) = omap_delete (en_id (entry_of st e)) (so_map st)"
    "so_attach (detachEntered e st) = omap_delete (en_session (entry_of st e)) (so_attach st)"
    "so_trace (detachEntered e st) = so_trace st @ (if en_announced (entry_of st e) then [Disposed e] else [])"
  using assms by (simp_all add: detachEntered_def Let_def) (simp add: set_entry_def)

lemma set_entry_stack [simp]: "(set_entry e f st)\<lparr>so_stack := so_stack st\<rparr> = set_entry e f st"
  by (simp add: set_entry_def)

lemma set_entry_twice:
  "e < length (so_entries st) \<Longrightarrow> set_entry e g (set_entry e f st) = set_entry e (\<lambda>x. g (f x)) st"
  by (simp add: set_entry_def entry_of_def)

lemma shape_detach:
  assumes s: "store_shape st" and e: "e < length (so_entries st)"
  shows "store_shape (detach e st)"
proof (cases "en_entered (entry_of st e)")
  case False
  then show ?thesis using s by (simp add: detach_def)
next
  case True
  note fl = entry_flagsD [OF store_shapeD(1) [OF s e]]
  have lv: "live st e" using fl(5) True by simp
  show ?thesis
  proof (cases "en_announcing (entry_of st e) \<or> en_appending (entry_of st e)")
    case busy: True
    let ?f = "\<lambda>x. x\<lparr>en_entered := False, en_detachRequested := True\<rparr>"
    have "detach e st = set_entry e ?f st"
      using True busy by (simp add: detach_def Let_def set_entry_twice e)
    moreover have "entry_flags (set_entry e ?f st) e"
      unfolding entry_flags_def Let_def using e lv busy fl(1,6-9) by simp
    ultimately show ?thesis
      using shape_flags [OF s e, of ?f "so_stack st"] store_shapeD(2,3) [OF s] by simp
  next
    case idle: False
    let ?st1 = "set_entry e (\<lambda>x. x\<lparr>en_entered := False\<rparr>) st"
    have d: "detach e st = detachEntered e ?st1"
      using True idle by (simp add: detach_def Let_def)
    have lv1: "live ?st1 e" using lv e by simp
    have e1: "e < length (so_entries ?st1)" using e by simp
    note dt = detachEntered_live [OF lv1 e1]
    show ?thesis unfolding d
      using idle e
      by (intro shape_remove [OF s lv, where y = "entry_of st e\<lparr>en_entered := False, en_detachRequested := False\<rparr>"])
        (simp_all add: dt, simp add: set_entry_def)
  qed
qed

text \<open>
  Closing one dispatch of an entry: the flag and its frame go, and a detach that was waiting runs
  when no other dispatch is open.
\<close>

lemma shape_close:
  assumes s: "store_shape st" and e: "e < length (so_entries st)" and lv: "live st e"
    and f: "f = (\<lambda>x. x\<lparr>en_announcing := False\<rparr>) \<and> so_stack st = AnnounceFrame e # k
      \<or> f = (\<lambda>x. x\<lparr>en_appending := False\<rparr>) \<and> so_stack st = AppendFrame e # k"
  defines "st1 \<equiv> (set_entry e f st)\<lparr>so_stack := k\<rparr>"
  shows "store_shape (if en_detachRequested (entry_of st e) \<and> \<not> en_announcing (entry_of st1 e)
      \<and> \<not> en_appending (entry_of st1 e) then detachEntered e st1 else st1)"
proof -
  note fl = entry_flagsD [OF store_shapeD(1) [OF s e]]
  have kd: "distinct k" "\<forall>g \<in> set k. frame_entry g < length (so_entries st)"
    using f store_shapeD(2,3) [OF s] by auto
  have others: "\<forall>g. frame_entry g \<noteq> e \<longrightarrow> (g \<in> set k \<longleftrightarrow> g \<in> set (so_stack st))"
    using f by auto
  have frames: "AnnounceFrame e \<in> set k \<longleftrightarrow> en_announcing (f (entry_of st e))"
    "AppendFrame e \<in> set k \<longleftrightarrow> en_appending (f (entry_of st e))"
    using f fl(8,9) store_shapeD(2) [OF s] by auto
  have keep: "en_id (f (entry_of st e)) = en_id (entry_of st e)"
    "en_session (f (entry_of st e)) = en_session (entry_of st e)"
    "en_entered (f (entry_of st e)) = en_entered (entry_of st e)"
    "en_announced (f (entry_of st e)) = en_announced (entry_of st e)"
    "en_detachRequested (f (entry_of st e)) = en_detachRequested (entry_of st e)"
    "en_announcing (f (entry_of st e)) \<longrightarrow> en_announcing (entry_of st e)"
    using f by auto
  have ent1: "entry_of st1 e = f (entry_of st e)" and lv1: "live st1 e"
    using e lv keep by (simp_all add: st1_def)
  show ?thesis
  proof (cases "en_detachRequested (entry_of st e) \<and> \<not> en_announcing (f (entry_of st e))
      \<and> \<not> en_appending (f (entry_of st e))")
    case False
    have "entry_flags st1 e"
      unfolding entry_flags_def Let_def ent1
      using False lv1 keep fl(1,4-7) lv frames by (auto simp: st1_def)
    then have "store_shape st1" unfolding st1_def
      by (intro shape_flags [OF s e] keep kd others)
    with False show ?thesis by (auto simp: ent1)
  next
    case True
    let ?st' = "st\<lparr>so_entries := so_entries st, so_stack := k\<rparr>"
    have e1: "e < length (so_entries st1)" using e by (simp add: st1_def)
    note dt = detachEntered_live [OF lv1 e1]
    define f0 where "f0 = (\<lambda>x. (f x)\<lparr>en_detachRequested := False, en_entered := True\<rparr>)"
    define st0 where "st0 = (set_entry e f0 st)\<lparr>so_stack := k\<rparr>"
    have ent0: "entry_of st0 e = f0 (entry_of st e)" and lv0: "live st0 e"
      using e lv keep by (simp_all add: st0_def f0_def)
    have "entry_flags st0 e"
      unfolding entry_flags_def Let_def ent0
      using True lv0 keep fl(6,7) lv frames by (simp add: st0_def f0_def)
    then have s0: "store_shape st0" unfolding st0_def
      by (intro shape_flags [OF s e] kd others) (simp_all add: f0_def keep)
    have "store_shape (detachEntered e st1)"
      using True keep fl(4) e
      by (intro shape_remove [OF s0 lv0, where y = "f (entry_of st e)\<lparr>en_detachRequested := False\<rparr>"])
        (simp_all add: dt ent0 ent1 f0_def, simp_all add: st0_def st1_def set_entry_def f0_def keep)
    with True show ?thesis by (simp add: ent1)
  qed
qed

lemma shape_announceEnd:
  assumes s: "store_shape st" and k: "so_stack st = AnnounceFrame e # fs"
  shows "store_shape (announceEnd e st)"
proof -
  have e: "e < length (so_entries st)" using store_shapeD(3) [OF s, of "AnnounceFrame e"] k by simp
  have a: "en_announcing (entry_of st e)" using entry_flagsD(8) [OF store_shapeD(1) [OF s e]] k by simp
  have lv: "live st e" using entry_flagsD(2) [OF store_shapeD(1) [OF s e] a] .
  show ?thesis
    using shape_close [OF s e lv, of "\<lambda>x. x\<lparr>en_announcing := False\<rparr>" fs] k e
    by (simp add: announceEnd_def Let_def)
qed

lemma shape_appendEnd:
  assumes s: "store_shape st" and k: "so_stack st = AppendFrame e # fs"
  shows "store_shape (appendEnd e st)"
proof -
  have e: "e < length (so_entries st)" using store_shapeD(3) [OF s, of "AppendFrame e"] k by simp
  have a: "en_appending (entry_of st e)" using entry_flagsD(9) [OF store_shapeD(1) [OF s e]] k by simp
  have lv: "live st e" using entry_flagsD(3) [OF store_shapeD(1) [OF s e] a] .
  have swap: "set_entry e f (st\<lparr>so_stack := fs\<rparr>) = (set_entry e f st)\<lparr>so_stack := fs\<rparr>" for f
    by (simp add: set_entry_def)
  show ?thesis
    using shape_close [OF s e lv, of "\<lambda>x. x\<lparr>en_appending := False\<rparr>" fs] k e
    by (simp add: appendEnd_def appendFinally_def Let_def swap)
qed

lemma announceBegin_cases:
  obtains "fst (announceBegin r st) = st" "\<exists>err. snd (announceBegin r st) = Inl err"
  | e where "map_of (so_attach st) r = Some e" "live st e" "\<not> en_announced (entry_of st e)"
      "\<not> en_announcing (entry_of st e)" "snd (announceBegin r st) = Inr e"
      "fst (announceBegin r st) = (set_entry e (\<lambda>x. x\<lparr>en_announced := True, en_announcing := True\<rparr>) st)
            \<lparr>so_stack := AnnounceFrame e # so_stack st, so_trace := so_trace st @ [Created e]\<rparr>"
proof (cases "liveEntryFor r st")
  case (Inl err)
  then show thesis using that(1) by (simp add: announceBegin_def)
next
  case (Inr e)
  then have m: "map_of (so_attach st) r = Some e" "live st e"
    by (auto simp: liveEntryFor_def split: option.splits if_splits)
  show thesis
    using that(1) that(2) [OF m] Inr
    by (cases "en_announced (entry_of st e) \<or> en_announcing (entry_of st e)")
      (simp_all add: announceBegin_def)
qed

lemma store_shape_trace [simp]: "store_shape (st\<lparr>so_trace := t\<rparr>) = store_shape st"
  by (simp add: store_shape_def entry_flags_def)

lemma shape_announceBegin:
  assumes s: "store_shape st"
  shows "store_shape (fst (announceBegin r st))"
proof (rule announceBegin_cases [of r st])
  assume "fst (announceBegin r st) = st"
  then show ?thesis using s by simp
next
  fix e
  let ?f = "\<lambda>x. x\<lparr>en_announced := True, en_announcing := True\<rparr>"
  assume lv: "live st e" and n: "\<not> en_announcing (entry_of st e)"
    and b: "fst (announceBegin r st) = (set_entry e ?f st)
      \<lparr>so_stack := AnnounceFrame e # so_stack st, so_trace := so_trace st @ [Created e]\<rparr>"
  have e: "e < length (so_entries st)" by (rule live_less [OF s lv])
  note fl = entry_flagsD [OF store_shapeD(1) [OF s e]]
  have "entry_flags ((set_entry e ?f st)\<lparr>so_stack := AnnounceFrame e # so_stack st\<rparr>) e"
    unfolding entry_flags_def Let_def using e lv fl(4-7,9) by auto
  then have "store_shape ((set_entry e ?f st)\<lparr>so_stack := AnnounceFrame e # so_stack st\<rparr>)"
    using e n fl(8) store_shapeD(2,3) [OF s] by (intro shape_flags [OF s e]) auto
  then show ?thesis unfolding b by simp
qed

lemma acceptAppend_busy: "acceptAppend s True now d op srcs \<noteq> Inr p"
  by (simp add: acceptAppend_def)

lemma accepted_session:
  assumes "session_inv s" "acceptAppend s False now d op srcs = Inr (s', e)"
  shows "session_inv s'" "session_inv (commitAppend s' e)" "ses_log s' = ses_log s"
proof -
  from acceptAppend_cases(1) [OF assms] obtain m where m: "s' = s\<lparr>ses_mgr := m\<rparr>" "mgr_inv m" "mgr_log m = ses_log s"
    and ok: "append_allowed s now d op srcs" "e = next_event s now d op srcs" by blast
  show 1: "session_inv s'" unfolding m(1) by (rule session_inv_mgr [OF assms(1) m(2,3)])
  show 2: "ses_log s' = ses_log s" using m by (simp add: ses_log_def)
  show "session_inv (commitAppend s' e)"
    using session_inv_commit [OF 1] ok 2 by (simp add: append_allowed_def)
qed

text \<open>What an append can do to the store.\<close>

lemma appendBegin_cases:
  assumes s: "store_shape st" and r: "r < length (so_objs st)"
  obtains (rejected) "fst (appendBegin r dispatches now d op srcs st) = st"
      "\<exists>err. snd (appendBegin r dispatches now d op srcs st) = Inl err"
  | (free) x ev where "map_of (so_attach st) r = None" "acceptAppend (obj st r) False now d op srcs = Inr (x, ev)"
      "fst (appendBegin r dispatches now d op srcs st) = set_obj r (commitAppend x ev) st"
  | (failed) x where "session_inv x" "ses_log x = ses_log (obj st r)"
      "fst (appendBegin r dispatches now d op srcs st) = set_obj r x st"
      "\<exists>err. snd (appendBegin r dispatches now d op srcs st) = Inl err"
  | (published) x ev e where "map_of (so_attach st) r = Some e" "live st e" "\<not> en_appending (entry_of st e)"
      "en_session (entry_of st e) = r" "acceptAppend (obj st r) False now d op srcs = Inr (x, ev)"
      "fst (appendBegin r dispatches now d op srcs st) =
        (set_obj r (commitAppend x ev) (set_entry e (\<lambda>x. x\<lparr>en_appending := True\<rparr>) st))
          \<lparr>so_stack := AppendFrame e # so_stack st, so_trace := so_trace st @ [Published e ev]\<rparr>"
proof -
  let ?ab = "appendBegin r dispatches now d op srcs st"
  have inv: "session_inv (obj st r)" using store_shapeD(7) [OF s] r by (simp add: obj_def)
  show thesis
  proof (cases "map_of (so_attach st) r")
    case None
    then show thesis using rejected free
      by (cases "acceptAppend (obj st r) False now d op srcs") (auto simp: appendBegin_def)
  next
    case (Some e)
    note at = store_shapeD(6) [OF s Some]
    note fl = entry_flagsD [OF store_shapeD(1) [OF s at [THEN conjunct1]]]
    show thesis
    proof (cases "acceptAppend (obj st r) (en_appending (entry_of st e)) now d op srcs")
      case (Inl err)
      then show thesis using rejected Some by (simp add: appendBegin_def)
    next
      case (Inr p)
      obtain x ev where p: "p = (x, ev)" by (cases p)
      have n: "\<not> en_appending (entry_of st e)" using Inr acceptAppend_busy by (metis (full_types))
      then have acc: "acceptAppend (obj st r) False now d op srcs = Inr (x, ev)" using Inr p by simp
      show thesis
      proof (cases dispatches)
        case True
        then show thesis
          using published [OF Some _ n _ acc] at Some acc n by (simp add: appendBegin_def Let_def)
      next
        case False
        have same: "set_entry e (\<lambda>x. x\<lparr>en_appending := False\<rparr>)
            (set_obj r x (set_entry e (\<lambda>x. x\<lparr>en_appending := True\<rparr>) st)) = set_obj r x st"
          using at n by (simp add: set_entry_def set_obj_def entry_of_def list_update_same_conv)
        have idle: "\<not> (en_detachRequested (entry_of st e) \<and> \<not> en_announcing (entry_of st e))"
          using fl(4) n by blast
        have "fst ?ab = set_obj r x st"
          using False Some acc n at idle same
          by (auto simp: appendBegin_def Let_def appendFinally_def)
        then show thesis
          using failed [of x] accepted_session(1,3) [OF inv acc] False Some acc n
          by (simp add: appendBegin_def Let_def)
      qed
    qed
  qed
qed

lemma shape_appendBegin:
  assumes s: "store_shape st" and r: "r < length (so_objs st)"
  shows "store_shape (fst (appendBegin r dispatches now d op srcs st))"
proof (rule appendBegin_cases [OF s r, of dispatches now d op srcs])
  have inv: "session_inv (obj st r)" using store_shapeD(7) [OF s] r by (simp add: obj_def)
  let ?st' = "fst (appendBegin r dispatches now d op srcs st)"
  show "store_shape ?st'" if "?st' = st" using that s by simp
  show "store_shape ?st'"
    if "acceptAppend (obj st r) False now d op srcs = Inr (x, ev)" "?st' = set_obj r (commitAppend x ev) st"
    for x ev
    unfolding that(2) by (rule shape_set_obj [OF s accepted_session(2) [OF inv that(1)]])
  show "store_shape ?st'" if "session_inv x" "?st' = set_obj r x st" for x
    unfolding that(2) by (rule shape_set_obj [OF s that(1)])
  fix x ev e
  let ?f = "\<lambda>x. x\<lparr>en_appending := True\<rparr>"
  assume lv: "live st e" and n: "\<not> en_appending (entry_of st e)"
    and acc: "acceptAppend (obj st r) False now d op srcs = Inr (x, ev)"
    and st': "?st' = (set_obj r (commitAppend x ev) (set_entry e ?f st))
          \<lparr>so_stack := AppendFrame e # so_stack st, so_trace := so_trace st @ [Published e ev]\<rparr>"
  have e: "e < length (so_entries st)" by (rule live_less [OF s lv])
  note fl = entry_flagsD [OF store_shapeD(1) [OF s e]]
  have "entry_flags ((set_entry e ?f st)\<lparr>so_stack := AppendFrame e # so_stack st\<rparr>) e"
    unfolding entry_flags_def Let_def using e lv fl(1,4-8) by auto
  then have 1: "store_shape ((set_entry e ?f st)\<lparr>so_stack := AppendFrame e # so_stack st\<rparr>)"
    using e n fl(9) store_shapeD(2,3) [OF s] by (intro shape_flags [OF s e]) auto
  have "?st' = (set_obj r (commitAppend x ev) ((set_entry e ?f st)\<lparr>so_stack := AppendFrame e # so_stack st\<rparr>))
      \<lparr>so_trace := so_trace st @ [Published e ev]\<rparr>"
    unfolding st' by (simp add: set_obj_def set_entry_def)
  then show "store_shape ?st'"
    using shape_set_obj [OF 1 accepted_session(2) [OF inv acc]] by simp
qed

lemma store_shape_step: "store_step st st' \<Longrightarrow> store_shape st \<Longrightarrow> store_shape st'"
proof (induction rule: store_step.induct)
  case (step_read r st c)
  then have "session_inv (obj st r)" using store_shapeD(7) by (simp add: obj_def)
  then show ?case using step_read shape_set_obj session_step_inv by blast
qed (simp_all add: shape_prepare shape_enter shape_detach shape_announceBegin shape_announceEnd
    shape_appendBegin shape_appendEnd)

lemma reachable_shape: "reachable st \<Longrightarrow> store_shape st"
proof (induction rule: reachable.induct)
  case reach_init
  show ?case by (simp add: store_shape_def new_store_def)
qed (rule store_shape_step)


subsection \<open>The trace\<close>

definition log_of_entry :: "store \<Rightarrow> nat \<Rightarrow> event list" where
  "log_of_entry st e = ses_log (obj st (en_session (entry_of st e)))"

text \<open>
  An entry's notices are a run of the lifecycle that ends in the entry's phase, and the events it
  published are the log from where it entered, all of it while the entry is live.
\<close>

definition notices_ok :: "store \<Rightarrow> nat \<Rightarrow> bool" where
  "notices_ok st e =
     (life_run PNew (notices_of e (so_trace st)) = Some (phase_of st e)
      \<and> (\<exists>start ns rest. notices_of e (so_trace st) = Entered e start # ns
           \<and> start \<le> length (log_of_entry st e)
           \<and> drop start (log_of_entry st e) = published_of e (so_trace st) @ rest
           \<and> (live st e \<longrightarrow> rest = [])))"

definition notices_inv :: "store \<Rightarrow> bool" where
  "notices_inv st = ((\<forall>e < length (so_entries st). notices_ok st e)
     \<and> (\<forall>n \<in> set (so_trace st). notice_entry n < length (so_entries st)))"

lemma trace_keep:
  assumes "notices_ok st e" "notices_of e (so_trace st') = notices_of e (so_trace st)"
    "phase_of st' e = phase_of st e" "log_of_entry st' e = log_of_entry st e @ ys"
    "live st' e \<Longrightarrow> live st e \<and> ys = []"
  shows "notices_ok st' e"
proof -
  from assms(1) obtain start ns rest where t: "notices_of e (so_trace st) = Entered e start # ns"
    "start \<le> length (log_of_entry st e)"
    "drop start (log_of_entry st e) = published_of e (so_trace st) @ rest" "live st e \<longrightarrow> rest = []"
    by (auto simp: notices_ok_def)
  show ?thesis unfolding notices_ok_def
  proof (intro conjI exI [of _ start] exI [of _ ns] exI [of _ "rest @ ys"])
    show "life_run PNew (notices_of e (so_trace st')) = Some (phase_of st' e)"
      unfolding assms(2,3) using assms(1) by (simp add: notices_ok_def)
    show "notices_of e (so_trace st') = Entered e start # ns" unfolding assms(2) by (rule t(1))
    show "start \<le> length (log_of_entry st' e)" unfolding assms(4) using t(2) by simp
    show "drop start (log_of_entry st' e) = published_of e (so_trace st') @ rest @ ys"
      unfolding assms(2,4) published_of_def using t(2,3) by (simp add: published_of_def)
    show "live st' e \<longrightarrow> rest @ ys = []" using t(4) assms(5) by blast
  qed
qed

lemma trace_notice:
  assumes "notices_ok st e" "notices_of e (so_trace st') = notices_of e (so_trace st) @ [n]"
    "life_step (phase_of st e) n = Some (phase_of st' e)" "live st e"
    "log_of_entry st' e = log_of_entry st e @ published_event n"
  shows "notices_ok st' e"
proof -
  from assms(1,4) obtain start ns where t: "notices_of e (so_trace st) = Entered e start # ns"
    "start \<le> length (log_of_entry st e)"
    "drop start (log_of_entry st e) = published_of e (so_trace st)"
    by (auto simp: notices_ok_def)
  show ?thesis unfolding notices_ok_def
  proof (intro conjI exI [of _ start] exI [of _ "ns @ [n]"] exI [of _ "[]"])
    show "life_run PNew (notices_of e (so_trace st')) = Some (phase_of st' e)"
      unfolding assms(2) using assms(1,3) by (simp add: notices_ok_def life_run_append)
    show "notices_of e (so_trace st') = Entered e start # ns @ [n]" unfolding assms(2) t(1) by simp
    show "start \<le> length (log_of_entry st' e)" unfolding assms(5) using t(2) by simp
    show "drop start (log_of_entry st' e) = published_of e (so_trace st') @ []"
      unfolding assms(2,5) published_of_def using t(2,3) by (simp add: published_of_def)
    show "live st' e \<longrightarrow> [] = []" by simp
  qed
qed

lemma notices_invD: "notices_inv st \<Longrightarrow> e < length (so_entries st) \<Longrightarrow> notices_ok st e"
  by (simp add: notices_inv_def)

text \<open>A change of flags that keeps identities, announcements, liveness, logs and trace.\<close>

lemma trace_same:
  assumes t: "notices_inv st" and l: "length (so_entries st') = length (so_entries st)"
    and tr: "so_trace st' = so_trace st"
    and e: "\<And>e. e < length (so_entries st) \<Longrightarrow> en_announced (entry_of st' e) = en_announced (entry_of st e)"
      "\<And>e. e < length (so_entries st) \<Longrightarrow> live st' e = live st e"
      "\<And>e. e < length (so_entries st) \<Longrightarrow> log_of_entry st' e = log_of_entry st e"
  shows "notices_inv st'"
proof -
  have "notices_ok st' k" if k: "k < length (so_entries st)" for k
    by (rule trace_keep [OF notices_invD [OF t k], where ys = "[]"])
      (simp_all add: tr phase_of_def e [OF k])
  then show ?thesis using t by (simp add: notices_inv_def l tr)
qed

text \<open>Removing a live entry.\<close>

lemma trace_remove:
  assumes t: "notices_inv st" and lv: "live st e" and lt: "e < length (so_entries st)"
    and y: "en_id y = en_id (entry_of st e)" "en_session y = en_session (entry_of st e)"
      "en_announced y = en_announced (entry_of st e)"
    and st': "so_objs st' = so_objs st" "so_entries st' = (so_entries st)[e := y]"
      "so_map st' = omap_delete (en_id (entry_of st e)) (so_map st)"
      "so_trace st' = so_trace st @ (if en_announced (entry_of st e) then [Disposed e] else [])"
  shows "notices_inv st'"
proof -
  have ent: "entry_of st' e' = (if e' = e then y else entry_of st e')" for e'
    using lt by (simp add: entry_of_def st' nth_list_update)
  have dead: "\<not> live st' e" by (simp add: live_def ent st' y)
  have live: "live st' e' = live st e'" if "e' \<noteq> e" for e'
    using that lv by (auto simp: live_def ent st')
  have log: "log_of_entry st' e' = log_of_entry st e'" for e'
    by (simp add: log_of_entry_def ent st' obj_def y)
  have ok: "notices_ok st' e'" if "e' < length (so_entries st)" for e'
  proof (cases "e' = e")
    case False
    then show ?thesis
      by (intro trace_keep [OF notices_invD [OF t that], where ys = "[]"])
        (simp_all add: st' notices_of_def phase_of_def ent log live)
  next
    case True
    note ok = notices_invD [OF t lt]
    show ?thesis
    proof (cases "en_announced (entry_of st e)")
      case an: True
      show ?thesis unfolding True
        by (rule trace_notice [OF ok, where n = "Disposed e"])
          (use an lv dead y in \<open>simp_all add: st' notices_snoc phase_of_def ent log\<close>)
    next
      case False
      show ?thesis unfolding True
        by (rule trace_keep [OF ok, where ys = "[]"])
          (use False dead y in \<open>simp_all add: st' phase_of_def ent log\<close>)
    qed
  qed
  then show ?thesis using t lt by (auto simp: notices_inv_def st')
qed

lemma trace_prepare:
  assumes s: "store_shape st" and t: "notices_inv st"
  shows "notices_inv (fst (prepare sid opts now st))"
proof (rule prepare_cases [of sid opts now st])
  fix k
  assume p: "fst (prepare sid opts now st) = st\<lparr>so_counter := k\<rparr>"
  show ?thesis unfolding p by (rule trace_same [OF t]) (simp_all add: log_of_entry_def obj_def)
next
  fix k x
  assume p: "fst (prepare sid opts now st) = st\<lparr>so_counter := k, so_objs := so_objs st @ [x]\<rparr>"
  show ?thesis unfolding p
    using entry_flagsD(6) [OF store_shapeD(1) [OF s]]
    by (intro trace_same [OF t]) (simp_all add: log_of_entry_def obj_def nth_append)
qed

lemma trace_enter:
  assumes s: "store_shape st" and t: "notices_inv st" and r: "r < length (so_objs st)"
  shows "notices_inv (fst (enter r st))"
proof (rule enter_cases [of r st])
  assume "fst (enter r st) = st"
  then show ?thesis using t by simp
next
  fix e
  let ?x = "\<lparr>en_id = ses_id (obj st r), en_session = r, en_announced = False, en_announcing = False,
     en_appending = False, en_detachRequested = False, en_entered = True\<rparr>"
  let ?st = "st\<lparr>so_entries := so_entries st @ [?x],
         so_map := omap_set (ses_id (obj st r)) e (so_map st), so_attach := omap_set r e (so_attach st),
         so_trace := so_trace st @ [Entered e (length (ses_log (obj st r)))]\<rparr>"
  assume e: "e = length (so_entries st)" and free: "map_of (so_map st) (ses_id (obj st r)) = None"
    and st: "fst (enter r st) = ?st"
  have old: "entry_of ?st e' = entry_of st e'" if "e' < e" for e'
    using that by (simp add: entry_of_snoc e)
  have new: "entry_of ?st e = ?x" by (simp add: entry_of_snoc e)
  have live_old: "live ?st e' = live st e'" if "e' < e" for e'
    using that free(1) by (auto simp: live_def e entry_of_snoc)
  have "notice_entry n < e" if "n \<in> set (so_trace st)" for n
    using t that by (simp add: notices_inv_def e)
  then have fresh: "notices_of e (so_trace st) = []"
    by (auto simp: notices_of_def filter_empty_conv)
  have log: "log_of_entry ?st e' = log_of_entry st e'" if "e' < e" for e'
    unfolding log_of_entry_def old [OF that] by (simp add: obj_def)
  have ok_old: "notices_ok ?st e'" if "e' < e" for e'
  proof (rule trace_keep [OF notices_invD [OF t], where ys = "[]"])
    show "e' < length (so_entries st)" using that e by simp
    show "notices_of e' (so_trace ?st) = notices_of e' (so_trace st)"
      using that by (simp add: notices_snoc)
    show "phase_of ?st e' = phase_of st e'" unfolding phase_of_def live_old [OF that] old [OF that] ..
    show "log_of_entry ?st e' = log_of_entry st e' @ []" unfolding log [OF that] by simp
    show "live st e' \<and> ([]::event list) = []" if "live ?st e'"
      using that live_old [OF \<open>e' < e\<close>] by simp
  qed
  have nt: "notices_of e (so_trace ?st) = [Entered e (length (ses_log (obj st r)))]"
    by (simp add: notices_snoc fresh)
  have "log_of_entry ?st e = ses_log (obj st r)"
    unfolding log_of_entry_def new by (simp add: obj_def)
  moreover have "phase_of ?st e = PEntered" unfolding phase_of_def new by simp
  ultimately have ok_new: "notices_ok ?st e"
    unfolding notices_ok_def nt published_of_def by simp
  show ?thesis unfolding st notices_inv_def
    using ok_old ok_new t e by (auto simp: less_Suc_eq notices_inv_def)
qed

lemma log_set_entry [simp]:
  "e < length (so_entries st) \<Longrightarrow> en_session (f (entry_of st e)) = en_session (entry_of st e)
    \<Longrightarrow> log_of_entry (set_entry e f st) e' = log_of_entry st e'"
  by (cases "e' = e") (simp_all add: log_of_entry_def obj_def)

lemma log_fields [simp]:
  "log_of_entry (st\<lparr>so_stack := k\<rparr>) e = log_of_entry st e"
  "log_of_entry (st\<lparr>so_trace := t\<rparr>) e = log_of_entry st e"
  by (simp_all add: log_of_entry_def obj_def)

lemma trace_detach:
  assumes s: "store_shape st" and t: "notices_inv st" and e: "e < length (so_entries st)"
  shows "notices_inv (detach e st)"
proof (cases "en_entered (entry_of st e)")
  case False
  then show ?thesis using t by (simp add: detach_def)
next
  case True
  have lv: "live st e" using entry_flagsD(5) [OF store_shapeD(1) [OF s e]] True by simp
  show ?thesis
  proof (cases "en_announcing (entry_of st e) \<or> en_appending (entry_of st e)")
    case busy: True
    let ?f = "\<lambda>x. x\<lparr>en_entered := False, en_detachRequested := True\<rparr>"
    have "detach e st = set_entry e ?f st"
      using True busy by (simp add: detach_def Let_def set_entry_twice e)
    moreover have "notices_inv (set_entry e ?f st)" by (rule trace_same [OF t]) (simp_all add: e)
    ultimately show ?thesis by simp
  next
    case idle: False
    let ?st1 = "set_entry e (\<lambda>x. x\<lparr>en_entered := False\<rparr>) st"
    have d: "detach e st = detachEntered e ?st1"
      using True idle by (simp add: detach_def Let_def)
    have lv1: "live ?st1 e" using lv e by simp
    have e1: "e < length (so_entries ?st1)" using e by simp
    have t1: "notices_inv ?st1" by (rule trace_same [OF t]) (simp_all add: e)
    show ?thesis unfolding d
      by (rule trace_remove [OF t1 lv1 e1 _ _ _ detachEntered_live(1,3,4,6) [OF lv1 e1]]) (simp_all add: e)
  qed
qed

lemma trace_close:
  assumes t: "notices_inv st" and lv: "live st e" and e: "e < length (so_entries st)"
    and f: "en_id (f (entry_of st e)) = en_id (entry_of st e)"
      "en_session (f (entry_of st e)) = en_session (entry_of st e)"
      "en_announced (f (entry_of st e)) = en_announced (entry_of st e)"
    and st1_def: "st1 = (set_entry e f st)\<lparr>so_stack := k\<rparr>"
  shows "notices_inv (if c then detachEntered e st1 else st1)"
proof -
  have t1: "notices_inv st1" unfolding st1_def by (rule trace_same [OF t]) (simp_all add: e f)
  have lv1: "live st1 e" and e1: "e < length (so_entries st1)" using lv e f by (simp_all add: st1_def)
  have "notices_inv (detachEntered e st1)"
    by (rule trace_remove [OF t1 lv1 e1 _ _ _ detachEntered_live(1,3,4,6) [OF lv1 e1]]) simp_all
  with t1 show ?thesis by simp
qed

lemma trace_announceEnd:
  assumes s: "store_shape st" and t: "notices_inv st" and k: "so_stack st = AnnounceFrame e # fs"
  shows "notices_inv (announceEnd e st)"
proof -
  have e: "e < length (so_entries st)" using store_shapeD(3) [OF s, of "AnnounceFrame e"] k by simp
  have "en_announcing (entry_of st e)" using entry_flagsD(8) [OF store_shapeD(1) [OF s e]] k by simp
  then have lv: "live st e" by (rule entry_flagsD(2) [OF store_shapeD(1) [OF s e]])
  show ?thesis unfolding announceEnd_def Let_def
    by (rule trace_close [OF t lv e _ _ _ refl]) simp_all
qed

lemma trace_appendEnd:
  assumes s: "store_shape st" and t: "notices_inv st" and k: "so_stack st = AppendFrame e # fs"
  shows "notices_inv (appendEnd e st)"
proof -
  have e: "e < length (so_entries st)" using store_shapeD(3) [OF s, of "AppendFrame e"] k by simp
  have "en_appending (entry_of st e)" using entry_flagsD(9) [OF store_shapeD(1) [OF s e]] k by simp
  then have lv: "live st e" by (rule entry_flagsD(3) [OF store_shapeD(1) [OF s e]])
  have swap: "set_entry e f (st\<lparr>so_stack := fs\<rparr>) = (set_entry e f st)\<lparr>so_stack := fs\<rparr>" for f
    by (simp add: set_entry_def)
  show ?thesis unfolding appendEnd_def appendFinally_def Let_def k list.sel swap
    by (rule trace_close [OF t lv e _ _ _ refl]) simp_all
qed

lemma trace_announceBegin:
  assumes s: "store_shape st" and t: "notices_inv st"
  shows "notices_inv (fst (announceBegin r st))"
proof (rule announceBegin_cases [of r st])
  assume "fst (announceBegin r st) = st"
  then show ?thesis using t by simp
next
  fix e
  let ?f = "\<lambda>x. x\<lparr>en_announced := True, en_announcing := True\<rparr>"
  assume lv: "live st e" and n: "\<not> en_announced (entry_of st e)"
    and b: "fst (announceBegin r st) = (set_entry e ?f st)
      \<lparr>so_stack := AnnounceFrame e # so_stack st, so_trace := so_trace st @ [Created e]\<rparr>"
  have e: "e < length (so_entries st)" by (rule live_less [OF s lv])
  let ?st' = "(set_entry e ?f st)
      \<lparr>so_stack := AnnounceFrame e # so_stack st, so_trace := so_trace st @ [Created e]\<rparr>"
  have "notices_ok ?st' e'" if e': "e' < length (so_entries st)" for e'
  proof (cases "e' = e")
    case True
    show ?thesis unfolding True
      by (rule trace_notice [OF notices_invD [OF t e], where n = "Created e"])
        (simp_all add: notices_snoc phase_of_def e n lv)
  next
    case False
    then show ?thesis
      by (intro trace_keep [OF notices_invD [OF t e'], where ys = "[]"])
        (simp_all add: notices_snoc phase_of_def e)
  qed
  then show ?thesis unfolding b using t e by (auto simp: notices_inv_def)
qed

lemma log_set_obj:
  "en_session (entry_of st e) \<noteq> r \<Longrightarrow> log_of_entry (set_obj r x st) e = log_of_entry st e"
  "en_session (entry_of st e) = r \<Longrightarrow> r < length (so_objs st) \<Longrightarrow> log_of_entry (set_obj r x st) e = ses_log x"
  by (simp_all add: log_of_entry_def obj_def set_obj_def entry_of_def)

text \<open>Replacing a session by one with the same log, or growing the log of an unattached session.\<close>

lemma trace_set_obj:
  assumes s: "store_shape st" and t: "notices_inv st" and r: "r < length (so_objs st)"
    and x: "ses_log x = ses_log (obj st r) @ ys" "ys \<noteq> [] \<Longrightarrow> map_of (so_attach st) r = None"
  shows "notices_inv (set_obj r x st)"
proof -
  have "notices_ok (set_obj r x st) e" if e: "e < length (so_entries st)" for e
  proof (cases "en_session (entry_of st e) = r")
    case True
    have "ys = []" if "live st e"
      using entry_flagsD(7) [OF store_shapeD(1) [OF s e] that] x(2) True by auto
    then show ?thesis using True r x(1)
      by (intro trace_keep [OF notices_invD [OF t e], where ys = ys])
        (simp_all add: log_set_obj log_of_entry_def phase_of_def)
  next
    case False
    then show ?thesis
      by (intro trace_keep [OF notices_invD [OF t e], where ys = "[]"])
        (simp_all add: log_set_obj phase_of_def)
  qed
  then show ?thesis using t by (simp add: notices_inv_def)
qed

lemma trace_appendBegin:
  assumes s: "store_shape st" and t: "notices_inv st" and r: "r < length (so_objs st)"
  shows "notices_inv (fst (appendBegin r dispatches now d op srcs st))"
proof (rule appendBegin_cases [OF s r, of dispatches now d op srcs])
  let ?st' = "fst (appendBegin r dispatches now d op srcs st)"
  have inv: "session_inv (obj st r)" using store_shapeD(7) [OF s] r by (simp add: obj_def)
  show "notices_inv ?st'" if "?st' = st" using that t by simp
  show "notices_inv ?st'"
    if "map_of (so_attach st) r = None" "acceptAppend (obj st r) False now d op srcs = Inr (x, ev)"
      "?st' = set_obj r (commitAppend x ev) st" for x ev
    unfolding that(3)
    by (rule trace_set_obj [OF s t r, where ys = "[ev]"])
      (simp_all add: that accepted_session(3) [OF inv that(2)])
  show "notices_inv ?st'" if "ses_log x = ses_log (obj st r)" "?st' = set_obj r x st" for x
    unfolding that(2) by (rule trace_set_obj [OF s t r, where ys = "[]"]) (simp_all add: that)
  fix x ev e
  let ?f = "\<lambda>x. x\<lparr>en_appending := True\<rparr>"
  assume at: "map_of (so_attach st) r = Some e" and lv: "live st e" and es: "en_session (entry_of st e) = r"
    and acc: "acceptAppend (obj st r) False now d op srcs = Inr (x, ev)"
    and st': "?st' = (set_obj r (commitAppend x ev) (set_entry e ?f st))
          \<lparr>so_stack := AppendFrame e # so_stack st, so_trace := so_trace st @ [Published e ev]\<rparr>"
  have e: "e < length (so_entries st)" by (rule live_less [OF s lv])
  let ?s1 = "set_obj r (commitAppend x ev) (set_entry e ?f st)"
  have ent: "en_session (entry_of (set_entry e ?f st) k) = en_session (entry_of st k)" for k
    using e by simp
  have len: "r < length (so_objs (set_entry e ?f st))" using r by simp
  have log: "log_of_entry ?s1 k = log_of_entry st k @ (if en_session (entry_of st k) = r then [ev] else [])" for k
  proof (cases "en_session (entry_of st k) = r")
    case True
    then have "log_of_entry st k = ses_log (obj st r)" by (simp add: log_of_entry_def)
    then show ?thesis
      using log_set_obj(2) [OF _ len, of k "commitAppend x ev"] ent True
        accepted_session(3) [OF inv acc] by simp
  next
    case False
    then show ?thesis using log_set_obj(1) [of "set_entry e ?f st" k r "commitAppend x ev"] ent e by simp
  qed
  have "notices_ok ?st' k" if k: "k < length (so_entries st)" for k
  proof (cases "k = e")
    case True
    show ?thesis unfolding True st'
      by (rule trace_notice [OF notices_invD [OF t e], where n = "Published e ev"])
        (use log [of e] es lv e in \<open>simp_all add: notices_snoc phase_of_def\<close>)
  next
    case False
    have "\<not> live st k" if "en_session (entry_of st k) = r"
      using live_unique_session [OF s lv] that es False by metis
    then show ?thesis unfolding st'
      by (intro trace_keep [OF notices_invD [OF t k],
            where ys = "if en_session (entry_of st k) = r then [ev] else []"])
        (use log [of k] False e in \<open>auto simp: notices_snoc phase_of_def\<close>)
  qed
  then show "notices_inv ?st'" using t e unfolding notices_inv_def st' by auto
qed

lemma read_keeps_log:
  "session_inv s \<Longrightarrow> is_read c \<Longrightarrow> ses_log (session_step s c) = ses_log s"
  using derive_logs [of s] by (cases c) (auto simp: read_logs keep_on_error_def split: sum.splits)

lemma trace_step: "store_step st st' \<Longrightarrow> store_shape st \<Longrightarrow> notices_inv st \<Longrightarrow> notices_inv st'"
proof (induction rule: store_step.induct)
  case (step_read r st c)
  then have "session_inv (obj st r)" using store_shapeD(7) by (simp add: obj_def)
  then show ?case using step_read read_keeps_log
    by (intro trace_set_obj [where ys = "[]"]) simp_all
qed (simp_all add: trace_prepare trace_enter trace_detach trace_announceBegin trace_announceEnd
    trace_appendBegin trace_appendEnd)

lemma reachable_trace: "reachable st \<Longrightarrow> notices_inv st"
proof (induction rule: reachable.induct)
  case reach_init
  show ?case by (simp add: notices_inv_def new_store_def)
qed (blast intro: trace_step reachable_shape)

subsection \<open>Properties\<close>

text \<open>
  C2: the abstract contract of the store, under every interleaving of preparing,
  entering, announcing, appending, reading and detaching, with any of them called by listeners
  inside an open creation or append dispatch. Every entry's notices are a run of the lifecycle
  entered, then created, then disposed, with publications only before disposal: creation is
  announced at most once, disposal is emitted only for an announced entry and once it has left
  the store, and an announced entry that is not live has had its disposal.
\<close>

theorem store_lifecycle:
  assumes "reachable st" "e < length (so_entries st)"
  shows "life_run PNew (notices_of e (so_trace st)) = Some (phase_of st e)"
  using notices_invD [OF reachable_trace [OF assms(1)] assms(2)] by (simp add: notices_ok_def)

text \<open>
  C15: the publications of a live entry are exactly the events its session has
  logged since it entered, in log order, none lost, duplicated or added.
\<close>

theorem store_publishes_log:
  assumes "reachable st" "e < length (so_entries st)" "live st e"
  shows "\<exists>start ns. notices_of e (so_trace st) = Entered e start # ns
    \<and> published_of e (so_trace st) = drop start (ses_log (obj st (en_session (entry_of st e))))"
  using notices_invD [OF reachable_trace [OF assms(1)] assms(2)] assms(3)
  by (auto simp: notices_ok_def log_of_entry_def)

text \<open>
  C16: once no creation or append dispatch is open, no entry is marked as
  announcing or appending, no detach request is pending, and an entry is in the store exactly
  when its detach capability has not been used: a detach requested by a listener is deferred,
  never lost.
\<close>

theorem store_no_lost_detach:
  assumes "reachable st" "so_stack st = []" "e < length (so_entries st)"
  shows "\<not> en_announcing (entry_of st e) \<and> \<not> en_appending (entry_of st e)
    \<and> \<not> en_detachRequested (entry_of st e) \<and> (live st e \<longleftrightarrow> en_entered (entry_of st e))"
proof -
  note fl = entry_flagsD [OF store_shapeD(1) [OF reachable_shape [OF assms(1)] assms(3)]]
  have n: "\<not> en_announcing (entry_of st e)" "\<not> en_appending (entry_of st e)"
    using fl(8,9) assms(2) by simp_all
  then have "\<not> en_detachRequested (entry_of st e)" using fl(4) by blast
  with n fl(5) show ?thesis by simp
qed

text \<open>
  Live entries never share an id nor a session object, and the store's map and
  the sessions' attachments are the same relation: an attached session is the one the store
  returns for the entry's id.
\<close>

theorem store_exclusive:
  assumes "reachable st"
  shows "(live st e \<and> live st e' \<and> (en_id (entry_of st e) = en_id (entry_of st e')
        \<or> en_session (entry_of st e) = en_session (entry_of st e')) \<longrightarrow> e = e')
    \<and> (map_of (so_attach st) r = Some e \<longrightarrow> get (en_id (entry_of st e)) st = Some r)
    \<and> (get sid st = Some r \<longrightarrow> (\<exists>k. map_of (so_attach st) r = Some k \<and> en_id (entry_of st k) = sid))"
proof (intro conjI impI)
  note s = reachable_shape [OF assms]
  show "e = e'" if "live st e \<and> live st e' \<and> (en_id (entry_of st e) = en_id (entry_of st e')
        \<or> en_session (entry_of st e) = en_session (entry_of st e'))"
    using that live_unique_id [of st e e'] live_unique_session [OF s, of e e'] by blast
  show "get (en_id (entry_of st e)) st = Some r" if "map_of (so_attach st) r = Some e"
    using store_shapeD(6) [OF s that] by (simp add: get_def live_def)
  show "\<exists>k. map_of (so_attach st) r = Some k \<and> en_id (entry_of st k) = sid" if "get sid st = Some r"
  proof -
    from that obtain k where k: "map_of (so_map st) sid = Some k" "en_session (entry_of st k) = r"
      by (auto simp: get_def)
    note m = store_shapeD(5) [OF s k(1)]
    then have "live st k" using k(1) by (simp add: live_def)
    then show ?thesis
      using entry_flagsD(7) [OF store_shapeD(1) [OF s m [THEN conjunct1]]] k(2) m by blast
  qed
qed

subsection \<open>A concrete run\<close>

text \<open>
  A listener of the creation announcement appends a turn start and asks for the entry's detach;
  both dispatches close afterwards, and the deferred detach runs.
\<close>

definition demo_opts :: prepare_options where
  "demo_opts = CreateOptions None no_meta"

definition run1 :: store where "run1 = fst (prepare None demo_opts 5 new_store)"
definition run2 :: store where "run2 = fst (enter 0 run1)"
definition run3 :: store where "run3 = fst (announceBegin 0 run2)"
definition run4 :: store where "run4 = fst (appendBegin 0 True 6 (TurnStart 1) None None run3)"
definition run5 :: store where "run5 = detach 0 run4"
definition run6 :: store where "run6 = appendEnd 0 run5"
definition run7 :: store where "run7 = announceEnd 0 run6"

lemmas run_defs = run1_def run2_def run3_def run4_def run5_def run6_def run7_def

lemma run_reachable: "reachable run4" "reachable run7"
proof -
  have 1: "reachable run1" unfolding run1_def by (rule reach_step [OF reach_init step_prepare])
  have "0 < length (so_objs run1)" by code_simp
  with 1 have 2: "reachable run2" unfolding run2_def by (blast intro: reach_step step_enter)
  have "0 < length (so_objs run2)" by code_simp
  with 2 have 3: "reachable run3" unfolding run3_def by (blast intro: reach_step step_announce)
  have "0 < length (so_objs run3)" by code_simp
  with 3 show 4: "reachable run4" unfolding run4_def by (blast intro: reach_step step_append)
  have "0 < length (so_entries run4)" by code_simp
  with 4 have 5: "reachable run5" unfolding run5_def by (blast intro: reach_step step_detach)
  have "so_stack run5 = [AppendFrame 0, AnnounceFrame 0]" by code_simp
  with 5 have 6: "reachable run6" unfolding run6_def by (blast intro: reach_step step_appended)
  have "so_stack run6 = [AnnounceFrame 0]" by code_simp
  with 6 show "reachable run7" unfolding run7_def by (blast intro: reach_step step_announced)
qed

theorem store_lifecycle_witness:
  "life_run PNew (notices_of 0 (so_trace run7)) = Some PDisposed \<and> length (so_trace run7) = 4"
proof -
  have "0 < length (so_entries run7)" "length (so_trace run7) = 4" "phase_of run7 0 = PDisposed"
    by code_simp+
  with store_lifecycle [OF run_reachable(2), of 0] show ?thesis by simp
qed

theorem store_publishes_log_witness:
  "published_of 0 (so_trace run4) = drop 0 (ses_log (obj run4 0))
    \<and> map ev_data (ses_log (obj run4 0)) = [TurnStart 1]"
proof -
  have r: "0 < length (so_entries run4)" "live run4 0" "en_session (entry_of run4 0) = 0"
    "notices_of 0 (so_trace run4) = so_trace run4" "hd (so_trace run4) = Entered 0 0"
    "map ev_data (ses_log (obj run4 0)) = [TurnStart 1]"
    by code_simp+
  from store_publishes_log [OF run_reachable(1) r(1,2)] r show ?thesis by auto
qed

theorem store_no_lost_detach_witness:
  "\<not> en_detachRequested (entry_of run7 0) \<and> \<not> live run7 0 \<and> so_map run7 = []"
proof -
  have r: "so_stack run7 = []" "0 < length (so_entries run7)" "so_map run7 = []"
    "\<not> en_entered (entry_of run7 0)"
    by code_simp+
  from store_no_lost_detach [OF run_reachable(2) r(1,2)] r(3,4) show ?thesis by blast
qed

theorem store_exclusive_witness:
  "get (en_id (entry_of run4 0)) run4 = Some 0 \<and> en_id (entry_of run4 0) = ''session-1''"
proof -
  have r: "map_of (so_attach run4) 0 = Some 0" "en_id (entry_of run4 0) = ''session-1''"
    by code_simp+
  from store_exclusive [OF run_reachable(1), of 0 0 0 "''session-1''"] r show ?thesis by blast
qed

end
