(* ===== verification/Fork_Facts.thy ===== *)
theory Fork_Facts
  imports Store_Facts Session_Trace
begin

text \<open>
  Forks (\<open>SessionStore.fork\<close>): the boundary check against the relational trace of the log.
\<close>

subsection \<open>The last turn boundary and the open turn\<close>






lemma last_boundary_kind:
  "lastTurnBoundary es = Some e \<Longrightarrow> is_turn_boundary (ev_data e)"
  by (auto simp: lastTurnBoundary_def find_Some_iff)





end
