(* ===== verification/Goal_Fold.thy ===== *)
theory Goal_Fold
  imports Session_Log JS_String
begin

text \<open>
  The durable goal of a session (\<open>goal/goal/src/types.ts\<close>, \<open>domain.ts\<close>, \<open>fold.ts\<close>): goals change by
  \<open>goal/change\<close> events that carry the whole state after the change, and continuation rounds are user
  messages attributed to the goal. The strict fold decodes every change and validates it as a
  transition of the current goal.
\<close>

subsection \<open>Data\<close>

datatype goal_phase = PhaseActive | PhasePaused | PhaseBlocked | PhaseComplete

record block_reason =
  br_code :: string
  br_message :: string

record goal_ref =
  gr_id :: string
  gr_revision :: int

record goal_snapshot =
  gs_id :: string
  gs_revision :: int
  gs_objective :: string
  gs_phase :: goal_phase
  gs_blockedReason :: "block_reason option"
  gs_maxGoalRounds :: int

datatype snapshot_operation = OpCreate | OpEdit | OpPause | OpResume | OpComplete | OpBlock

record snapshot_change =
  sc_operation :: snapshot_operation
  sc_goal :: goal_snapshot
  sc_roundsStarted :: int
  sc_createdAt :: int
  sc_updatedAt :: int

datatype goal_change =
    SnapshotChange snapshot_change
  | ClearChange goal_ref int

record goal_fold =
  gf_goal :: "goal_snapshot option"
  gf_roundsStarted :: int
  gf_createdAt :: "int option"
  gf_updatedAt :: "int option"
  gf_lastRef :: "goal_ref option"
  gf_seenGoalIds :: "string set"

definition emptyGoalFoldState :: goal_fold where
  "emptyGoalFoldState = \<lparr>gf_goal = None, gf_roundsStarted = 0, gf_createdAt = None, gf_updatedAt = None,
     gf_lastRef = None, gf_seenGoalIds = {}\<rparr>"

datatype goal_fold_error =
    NotPositive string
  | NotNonNegative string
  | BlockReasonFields
  | BlockReasonCode
  | BlockReasonMessage
  | GoalNotRecord
  | GoalIdInvalid
  | ObjectiveInvalid
  | PhaseInvalid
  | GoalFields goal_phase
  | TombstoneFields
  | TombstoneId
  | UnsupportedVersion
  | ClearFields
  | OperationInvalid
  | SnapshotFields
  | UpdatedBeforeCreated
  | SourceInvalid
  | DefinitionChanged snapshot_operation
  | NotNextRevision
  | LacksUpdatedAt
  | CountersNotPreserved snapshot_operation
  | EditChangesPhase
  | InvalidPhaseTransition snapshot_operation
  | CreateAsTransition
  | ClearWithoutGoal
  | ClearBeforeUpdate
  | CreateNotFresh
  | NoCurrentGoal snapshot_operation
  | InvalidKind int
  | NotNextRound int

subsection \<open>Strings\<close>

definition is_word :: "char \<Rightarrow> bool" where
  "is_word c = (is_lower c \<or> is_digit c)"

text \<open>\<open>/^[a-z][a-z0-9]*(?:-[a-z0-9]+)*$/\<close>: after the first letter, a dash must be followed by a word
  character.\<close>

fun kebab_rest :: "string \<Rightarrow> bool" where
  "kebab_rest [] = True"
| "kebab_rest [c] = is_word c"
| "kebab_rest (c # d # cs) =
     (if is_word c then kebab_rest (d # cs)
      else c = CHR ''-'' \<and> is_word d \<and> kebab_rest cs)"

definition is_kebab :: "string \<Rightarrow> bool" where
  "is_kebab s = (case s of [] \<Rightarrow> False | c # cs \<Rightarrow> is_lower c \<and> kebab_rest cs)"

subsection \<open>Decoding\<close>

text \<open>A decoded integer; the checks leave no fraction and no value outside the safe range.\<close>

definition positiveInteger :: "json option \<Rightarrow> string \<Rightarrow> (goal_fold_error, int) result" where
  "positiveInteger v f =
     (case v of
        Some (JNum n) \<Rightarrow> if \<not> isSafeInteger n \<or> js_lt n (num_of_int 1) then Inl (NotPositive f) else Inr (num_to_int n)
      | _ \<Rightarrow> Inl (NotPositive f))"

definition nonNegativeInteger :: "json option \<Rightarrow> string \<Rightarrow> (goal_fold_error, int) result" where
  "nonNegativeInteger v f =
     (case v of
        Some (JNum n) \<Rightarrow> if \<not> isSafeInteger n \<or> js_lt n (num_of_int 0) then Inl (NotNonNegative f) else Inr (num_to_int n)
      | _ \<Rightarrow> Inl (NotNonNegative f))"

text \<open>A string that is non-empty after trimming and equal to its trimmed form.\<close>

definition normalized_string :: "json option \<Rightarrow> string option" where
  "normalized_string v =
     (case v of Some (JStr s) \<Rightarrow> if js_trim s = [] \<or> s \<noteq> js_trim s then None else Some s | _ \<Rightarrow> None)"

definition decodeBlockReason :: "json option \<Rightarrow> (goal_fold_error, block_reason) result" where
  "decodeBlockReason v =
     (case v of
        None \<Rightarrow> Inl BlockReasonFields
      | Some r \<Rightarrow>
          if \<not> isRecord r \<or> \<not> hasExactKeys r [''code'', ''message''] then Inl BlockReasonFields
          else case field r ''code'' of
            Some (JStr code) \<Rightarrow>
              if \<not> is_kebab code then Inl BlockReasonCode
              else (case normalized_string (field r ''message'') of
                  None \<Rightarrow> Inl BlockReasonMessage
                | Some m \<Rightarrow> Inr \<lparr>br_code = code, br_message = m\<rparr>)
          | _ \<Rightarrow> Inl BlockReasonCode)"

definition phase_of :: "json option \<Rightarrow> goal_phase option" where
  "phase_of v =
     (if v = Some (JStr ''active'') then Some PhaseActive
      else if v = Some (JStr ''paused'') then Some PhasePaused
      else if v = Some (JStr ''blocked'') then Some PhaseBlocked
      else if v = Some (JStr ''complete'') then Some PhaseComplete
      else None)"

definition snapshot_keys :: "goal_phase \<Rightarrow> string list" where
  "snapshot_keys phase =
     (if phase = PhaseBlocked then [''blockedReason'', ''id'', ''maxGoalRounds'', ''objective'', ''phase'', ''revision'']
      else [''id'', ''maxGoalRounds'', ''objective'', ''phase'', ''revision''])"

definition decodeSnapshot :: "json option \<Rightarrow> (goal_fold_error, goal_snapshot) result" where
  "decodeSnapshot v =
     (case v of
        None \<Rightarrow> Inl GoalNotRecord
      | Some r \<Rightarrow>
          if \<not> isRecord r then Inl GoalNotRecord
          else case field r ''id'' of
            Some (JStr i) \<Rightarrow>
              if i = [] then Inl GoalIdInvalid
              else (case normalized_string (field r ''objective'') of
                  None \<Rightarrow> Inl ObjectiveInvalid
                | Some objective \<Rightarrow>
                    (case phase_of (field r ''phase'') of
                       None \<Rightarrow> Inl PhaseInvalid
                     | Some phase \<Rightarrow>
                         if \<not> hasExactKeys r (snapshot_keys phase) then Inl (GoalFields phase)
                         else bindE (positiveInteger (field r ''revision'') ''goal.revision'') (\<lambda>revision.
                              bindE (positiveInteger (field r ''maxGoalRounds'') ''goal.maxGoalRounds'') (\<lambda>cap.
                              bindE (if phase = PhaseBlocked
                                     then res_map Some (decodeBlockReason (field r ''blockedReason'')) else Inr None) (\<lambda>reason.
                                Inr \<lparr>gs_id = i, gs_revision = revision, gs_objective = objective, gs_phase = phase,
                                     gs_blockedReason = reason, gs_maxGoalRounds = cap\<rparr>)))))
          | _ \<Rightarrow> Inl GoalIdInvalid)"

definition decodeRef :: "json option \<Rightarrow> (goal_fold_error, goal_ref) result" where
  "decodeRef v =
     (case v of
        None \<Rightarrow> Inl TombstoneFields
      | Some r \<Rightarrow>
          if \<not> isRecord r \<or> \<not> hasExactKeys r [''id'', ''revision''] then Inl TombstoneFields
          else case field r ''id'' of
            Some (JStr i) \<Rightarrow>
              if i = [] then Inl TombstoneId
              else res_map (\<lambda>n. \<lparr>gr_id = i, gr_revision = n\<rparr>) (positiveInteger (field r ''revision'') ''cleared.revision'')
          | _ \<Rightarrow> Inl TombstoneId)"

definition operation_of :: "json option \<Rightarrow> snapshot_operation option" where
  "operation_of v =
     (if v = Some (JStr ''create'') then Some OpCreate
      else if v = Some (JStr ''edit'') then Some OpEdit
      else if v = Some (JStr ''pause'') then Some OpPause
      else if v = Some (JStr ''resume'') then Some OpResume
      else if v = Some (JStr ''complete'') then Some OpComplete
      else if v = Some (JStr ''block'') then Some OpBlock
      else None)"

definition is_version :: "json option \<Rightarrow> bool" where
  "is_version v = (case v of Some (JNum n) \<Rightarrow> js_eq n (num_of_int 1) | _ \<Rightarrow> False)"

definition decodeGoalChange :: "json \<Rightarrow> (goal_fold_error, goal_change option) result" where
  "decodeGoalChange v =
     (if \<not> isRecord v \<or> field v ''kind'' \<noteq> Some (JStr ''goal/change'') then Inr None
      else if \<not> is_version (field v ''version'') then Inl UnsupportedVersion
      else if field v ''operation'' = Some (JStr ''clear'') then
        (if \<not> hasExactKeys v [''cleared'', ''clearedAt'', ''kind'', ''operation'', ''version''] then Inl ClearFields
         else bindE (decodeRef (field v ''cleared'')) (\<lambda>ref.
              bindE (nonNegativeInteger (field v ''clearedAt'') ''clearedAt'') (\<lambda>t.
                Inr (Some (ClearChange ref t)))))
      else case operation_of (field v ''operation'') of
        None \<Rightarrow> Inl OperationInvalid
      | Some op \<Rightarrow>
          if \<not> hasExactKeys v [''createdAt'', ''goal'', ''kind'', ''operation'', ''roundsStarted'', ''updatedAt'', ''version'']
          then Inl SnapshotFields
          else bindE (nonNegativeInteger (field v ''createdAt'') ''createdAt'') (\<lambda>createdAt.
               bindE (nonNegativeInteger (field v ''updatedAt'') ''updatedAt'') (\<lambda>updatedAt.
               bindE (throw_if (updatedAt < createdAt) UpdatedBeforeCreated) (\<lambda>_.
               bindE (decodeSnapshot (field v ''goal'')) (\<lambda>goal.
               bindE (nonNegativeInteger (field v ''roundsStarted'') ''roundsStarted'') (\<lambda>rounds.
                 Inr (Some (SnapshotChange \<lparr>sc_operation = op, sc_goal = goal, sc_roundsStarted = rounds,
                   sc_createdAt = createdAt, sc_updatedAt = updatedAt\<rparr>))))))))"

text \<open>The valid goal attribution of a message, if it has one.\<close>

fun goalSource :: "message_source \<Rightarrow> (goal_fold_error, (string \<times> int \<times> int) option) result" where
  "goalSource (SourceGoal goalId revision n) =
     (case goalId of
        JStr i \<Rightarrow>
          if i = [] \<or> \<not> isSafeInteger revision \<or> js_lt revision (num_of_int 1)
             \<or> \<not> isSafeInteger n \<or> js_lt n (num_of_int 1)
          then Inl SourceInvalid else Inr (Some (i, num_to_int revision, num_to_int n))
      | _ \<Rightarrow> Inl SourceInvalid)"
| "goalSource _ = Inr None"

subsection \<open>Transitions\<close>

definition requireSameDefinition ::
  "goal_snapshot \<Rightarrow> goal_snapshot \<Rightarrow> snapshot_operation \<Rightarrow> (goal_fold_error, unit) result" where
  "requireSameDefinition current n op =
     throw_if (gs_objective n \<noteq> gs_objective current \<or> gs_maxGoalRounds n \<noteq> gs_maxGoalRounds current)
       (DefinitionChanged op)"

definition requireNextRevision :: "goal_snapshot \<Rightarrow> goal_ref \<Rightarrow> (goal_fold_error, unit) result" where
  "requireNextRevision current n =
     throw_if (gr_id n \<noteq> gs_id current \<or> gr_revision n \<noteq> gs_revision current + 1) NotNextRevision"

definition snapshot_ref :: "goal_snapshot \<Rightarrow> goal_ref" where
  "snapshot_ref g = \<lparr>gr_id = gs_id g, gr_revision = gs_revision g\<rparr>"

text \<open>The rule of each operation, once revision, counters and timestamps have been checked.\<close>

fun validateOperation ::
  "snapshot_operation \<Rightarrow> int \<Rightarrow> goal_snapshot \<Rightarrow> goal_snapshot \<Rightarrow> (goal_fold_error, unit) result" where
  "validateOperation OpEdit rounds current n =
     throw_if (gs_phase n \<noteq> gs_phase current \<or> gs_blockedReason n \<noteq> gs_blockedReason current) EditChangesPhase"
| "validateOperation OpPause rounds current n =
     bindE (requireSameDefinition current n OpPause) (\<lambda>_.
       throw_if (gs_phase current \<noteq> PhaseActive \<or> gs_phase n \<noteq> PhasePaused) (InvalidPhaseTransition OpPause))"
| "validateOperation OpResume rounds current n =
     bindE (requireSameDefinition current n OpResume) (\<lambda>_.
       throw_if (gs_phase current \<notin> {PhaseActive, PhasePaused, PhaseBlocked} \<or> gs_phase n \<noteq> PhaseActive
           \<or> gs_maxGoalRounds n \<le> rounds) (InvalidPhaseTransition OpResume))"
| "validateOperation OpComplete rounds current n =
     bindE (requireSameDefinition current n OpComplete) (\<lambda>_.
       throw_if (gs_phase current = PhaseComplete \<or> gs_phase n \<noteq> PhaseComplete) (InvalidPhaseTransition OpComplete))"
| "validateOperation OpBlock rounds current n =
     bindE (requireSameDefinition current n OpBlock) (\<lambda>_.
       throw_if (gs_phase current \<noteq> PhaseActive \<or> gs_phase n \<noteq> PhaseBlocked) (InvalidPhaseTransition OpBlock))"
| "validateOperation OpCreate rounds current n = Inl CreateAsTransition"

definition validateSnapshotTransition ::
  "goal_fold \<Rightarrow> snapshot_change \<Rightarrow> goal_snapshot \<Rightarrow> (goal_fold_error, unit) result" where
  "validateSnapshotTransition st change current =
     bindE (requireNextRevision current (snapshot_ref (sc_goal change))) (\<lambda>_.
       case gf_updatedAt st of
         None \<Rightarrow> Inl LacksUpdatedAt
       | Some u \<Rightarrow>
           bindE (throw_if (gf_createdAt st \<noteq> Some (sc_createdAt change) \<or> sc_updatedAt change < u
                    \<or> sc_roundsStarted change \<noteq> gf_roundsStarted st) (CountersNotPreserved (sc_operation change))) (\<lambda>_.
             validateOperation (sc_operation change) (gf_roundsStarted st) current (sc_goal change)))"

fun goalChangeRef :: "goal_change \<Rightarrow> goal_ref" where
  "goalChangeRef (ClearChange r t) = r"
| "goalChangeRef (SnapshotChange c) = snapshot_ref (sc_goal c)"

definition create_fresh :: "goal_fold \<Rightarrow> snapshot_change \<Rightarrow> bool" where
  "create_fresh st c =
     (gs_revision (sc_goal c) = 1 \<and> gs_phase (sc_goal c) = PhaseActive \<and> sc_roundsStarted c = 0
      \<and> (case gf_goal st of None \<Rightarrow> True | Some g \<Rightarrow> gs_phase g = PhaseComplete)
      \<and> gs_id (sc_goal c) \<notin> gf_seenGoalIds st)"

definition install_snapshot :: "goal_fold \<Rightarrow> snapshot_change \<Rightarrow> goal_fold" where
  "install_snapshot st c = st\<lparr>gf_goal := Some (sc_goal c), gf_roundsStarted := sc_roundsStarted c,
     gf_createdAt := Some (sc_createdAt c), gf_updatedAt := Some (sc_updatedAt c),
     gf_lastRef := Some (snapshot_ref (sc_goal c))\<rparr>"

fun applyGoalChange :: "goal_fold \<Rightarrow> goal_change \<Rightarrow> (goal_fold_error, goal_fold) result" where
  "applyGoalChange st (ClearChange ref t) =
     (case gf_goal st of
        None \<Rightarrow> Inl ClearWithoutGoal
      | Some current \<Rightarrow>
          bindE (requireNextRevision current ref) (\<lambda>_.
            case gf_updatedAt st of
              None \<Rightarrow> Inl LacksUpdatedAt
            | Some u \<Rightarrow>
                bindE (throw_if (t < u) ClearBeforeUpdate) (\<lambda>_.
                  Inr (st\<lparr>gf_goal := None, gf_roundsStarted := 0, gf_createdAt := None, gf_updatedAt := None,
                          gf_lastRef := Some ref\<rparr>))))"
| "applyGoalChange st (SnapshotChange c) =
     (if sc_operation c = OpCreate
      then bindE (throw_if (\<not> create_fresh st c) CreateNotFresh) (\<lambda>_.
             Inr (install_snapshot (st\<lparr>gf_seenGoalIds := insert (gs_id (sc_goal c)) (gf_seenGoalIds st)\<rparr>) c))
      else case gf_goal st of
        None \<Rightarrow> Inl (NoCurrentGoal (sc_operation c))
      | Some current \<Rightarrow>
          bindE (validateSnapshotTransition st c current) (\<lambda>_. Inr (install_snapshot st c)))"

definition next_round :: "goal_fold \<Rightarrow> string \<Rightarrow> int \<Rightarrow> int \<Rightarrow> bool" where
  "next_round st i revision n =
     (case gf_goal st of
        None \<Rightarrow> False
      | Some g \<Rightarrow> gs_phase g = PhaseActive \<and> i = gs_id g \<and> revision = gs_revision g
          \<and> n = gf_roundsStarted st + 1 \<and> n \<le> gs_maxGoalRounds g)"

fun applyGoalData :: "goal_fold \<Rightarrow> int \<Rightarrow> event_data \<Rightarrow> (goal_fold_error, goal_fold) result" where
  "applyGoalData st seq (GoalChange v) =
     bindE (decodeGoalChange v) (\<lambda>change.
       case change of None \<Rightarrow> Inl (InvalidKind seq) | Some c \<Rightarrow> applyGoalChange st c)"
| "applyGoalData st seq (UserMessage m) =
     bindE (goalSource (msg_source m)) (\<lambda>src.
       case src of
         None \<Rightarrow> Inr st
       | Some (i, revision, n) \<Rightarrow>
           bindE (throw_if (\<not> next_round st i revision n) (NotNextRound seq)) (\<lambda>_.
             Inr (st\<lparr>gf_roundsStarted := n\<rparr>)))"
| "applyGoalData st seq _ = Inr st"

definition applyGoalEvent :: "goal_fold \<Rightarrow> event \<Rightarrow> (goal_fold_error, goal_fold) result" where
  "applyGoalEvent st e = applyGoalData st (ev_seq e) (ev_data e)"

text \<open>The loop of \<open>foldGoal\<close>; the projection it returns omits the ids seen so far.\<close>

definition goal_state :: "event list \<Rightarrow> (goal_fold_error, goal_fold) result" where
  "goal_state es = foldE applyGoalEvent emptyGoalFoldState es"

record folded_goal =
  fg_goal :: "goal_snapshot option"
  fg_roundsStarted :: int
  fg_createdAt :: "int option"
  fg_updatedAt :: "int option"
  fg_lastRef :: "goal_ref option"

definition foldGoal :: "event list \<Rightarrow> (goal_fold_error, folded_goal) result" where
  "foldGoal es = res_map (\<lambda>st. \<lparr>fg_goal = gf_goal st, fg_roundsStarted = gf_roundsStarted st,
     fg_createdAt = gf_createdAt st, fg_updatedAt = gf_updatedAt st, fg_lastRef = gf_lastRef st\<rparr>) (goal_state es)"

subsection \<open>The projection\<close>

record goal_projection =
  gp_goal :: goal_snapshot
  gp_roundsStarted :: int
  gp_createdAt :: int
  gp_updatedAt :: int

text \<open>The last-wins projection: it skips what it cannot decode.\<close>

definition applyGoalProjection :: "goal_projection option \<Rightarrow> event \<Rightarrow> goal_projection option" where
  "applyGoalProjection p e =
     (case ev_data e of
        GoalChange v \<Rightarrow>
          (case decodeGoalChange v of
             Inl _ \<Rightarrow> p
           | Inr None \<Rightarrow> p
           | Inr (Some (ClearChange r t)) \<Rightarrow> None
           | Inr (Some (SnapshotChange c)) \<Rightarrow>
               Some \<lparr>gp_goal = sc_goal c, gp_roundsStarted = sc_roundsStarted c, gp_createdAt = sc_createdAt c,
                     gp_updatedAt = sc_updatedAt c\<rparr>)
      | _ \<Rightarrow> p)"

subsection \<open>The written form\<close>

fun phase_name :: "goal_phase \<Rightarrow> string" where
  "phase_name PhaseActive = ''active''"
| "phase_name PhasePaused = ''paused''"
| "phase_name PhaseBlocked = ''blocked''"
| "phase_name PhaseComplete = ''complete''"

fun operation_name :: "snapshot_operation \<Rightarrow> string" where
  "operation_name OpCreate = ''create''"
| "operation_name OpEdit = ''edit''"
| "operation_name OpPause = ''pause''"
| "operation_name OpResume = ''resume''"
| "operation_name OpComplete = ''complete''"
| "operation_name OpBlock = ''block''"

definition reason_json :: "block_reason \<Rightarrow> json" where
  "reason_json r = JObj [(''code'', JStr (br_code r)), (''message'', JStr (br_message r))]"

definition snapshot_json :: "goal_snapshot \<Rightarrow> json" where
  "snapshot_json g =
     JObj ([(''id'', JStr (gs_id g)), (''revision'', JInt (gs_revision g)), (''objective'', JStr (gs_objective g)),
            (''phase'', JStr (phase_name (gs_phase g))), (''maxGoalRounds'', JInt (gs_maxGoalRounds g))]
           @ opt_field ''blockedReason'' reason_json (gs_blockedReason g))"

fun change_json :: "goal_change \<Rightarrow> json" where
  "change_json (SnapshotChange c) =
     JObj [(''kind'', JStr ''goal/change''), (''version'', JInt 1), (''operation'', JStr (operation_name (sc_operation c))),
           (''goal'', snapshot_json (sc_goal c)), (''roundsStarted'', JInt (sc_roundsStarted c)),
           (''createdAt'', JInt (sc_createdAt c)), (''updatedAt'', JInt (sc_updatedAt c))]"
| "change_json (ClearChange r t) =
     JObj [(''kind'', JStr ''goal/change''), (''version'', JInt 1), (''operation'', JStr ''clear''),
           (''cleared'', JObj [(''id'', JStr (gr_id r)), (''revision'', JInt (gr_revision r))]), (''clearedAt'', JInt t)]"

end
