(* ===== verification/Goal_Service.thy ===== *)
theory Goal_Service
  imports Goal_Fold Session_Facts
begin

text \<open>
  The goal service (\<open>goal/goal/src/index.ts\<close>): compare-and-set mutations of a session's goal. A mutation
  brings a per-session cache of the strict fold up to date, checks its own preconditions, appends one
  \<open>goal/change\<close> event with the whole state after the change, and folds it into the cache. Whether the
  process may continue the goal on its own (its activation) is kept in the cache only.
\<close>

subsection \<open>State\<close>

datatype activation = Armed | Disarmed

record goal_cache =
  gc_state :: goal_fold
  gc_activation :: activation
  gc_observedSeq :: nat

text \<open>A session and its entry in the weak map of caches.\<close>

record goal_session =
  gx_session :: session
  gx_cache :: "goal_cache option"

record goal_view =
  gv_goal :: goal_snapshot
  gv_roundsStarted :: int
  gv_createdAt :: int
  gv_updatedAt :: int
  gv_activation :: activation

datatype goal_error =
    GoalAgentNotLive
  | GoalNotFound
  | GoalAlreadyExists
  | GoalStaleRevision
  | GoalInvalidObjective
  | GoalInvalidMaxRounds
  | GoalInvalidBlockReason
  | GoalInvalidEdit
  | GoalInvalidTransition
  | GoalFoldFailed goal_fold_error
  | GoalAppendFailed session_error
  | GoalCacheBroken

text \<open>A call that may throw keeps what it did to the session and the cache before.\<close>

type_synonym 'a goal_call = "goal_session \<Rightarrow> goal_session \<times> (goal_error, 'a) result"

definition and_then :: "'a goal_call \<Rightarrow> ('a \<Rightarrow> 'b goal_call) \<Rightarrow> 'b goal_call" where
  "and_then m f x = (case m x of (y, Inl e) \<Rightarrow> (y, Inl e) | (y, Inr a) \<Rightarrow> f a y)"

definition pure :: "(goal_error, 'a) result \<Rightarrow> 'a goal_call" where
  "pure r x = (x, r)"

subsection \<open>Requests\<close>

definition resolveMaxGoalRounds :: "jsnum \<Rightarrow> (goal_error, int) result" where
  "resolveMaxGoalRounds v =
     (if \<not> isSafeInteger v \<or> js_lt v (num_of_int 1) then Inl GoalInvalidMaxRounds else Inr (num_to_int v))"

definition resolveObjective :: "string \<Rightarrow> (goal_error, string) result" where
  "resolveObjective v = (if js_trim v = [] then Inl GoalInvalidObjective else Inr (js_trim v))"

record create_request =
  cq_objective :: string
  cq_maxGoalRounds :: "jsnum option"

record edit_request =
  eq_objective :: "string option"
  eq_maxGoalRounds :: "jsnum option"

definition resolveCreateGoal :: "create_request \<Rightarrow> int \<Rightarrow> (goal_error, string \<times> int) result" where
  "resolveCreateGoal r defaultMax =
     bindE (resolveObjective (cq_objective r)) (\<lambda>objective.
     bindE (resolveMaxGoalRounds (case cq_maxGoalRounds r of None \<Rightarrow> num_of_int defaultMax | Some n \<Rightarrow> n)) (\<lambda>cap.
       Inr (objective, cap)))"

text \<open>The reason is a run-time value of unknown shape.\<close>

definition resolveBlockReason :: "json \<Rightarrow> (goal_error, block_reason) result" where
  "resolveBlockReason r =
     (case (field r ''code'', field r ''message'') of
        (Some (JStr code), Some (JStr m)) \<Rightarrow>
          if \<not> is_kebab code \<or> js_trim m = [] then Inl GoalInvalidBlockReason
          else Inr \<lparr>br_code = code, br_message = js_trim m\<rparr>
      | _ \<Rightarrow> Inl GoalInvalidBlockReason)"

subsection \<open>The cache\<close>

text \<open>The loop of \<open>sync\<close> over the unseen events, with the activation intent of an append under way.\<close>

primrec sync_loop ::
  "(int \<times> activation) option \<Rightarrow> event list \<Rightarrow> goal_cache \<Rightarrow> goal_cache \<times> (goal_error, unit) result" where
  "sync_loop pending [] c = (c, Inr ())"
| "sync_loop pending (e # es) c =
     (case applyGoalEvent (gc_state c) e of
        Inl err \<Rightarrow> (c, Inl (GoalFoldFailed err))
      | Inr st \<Rightarrow> sync_loop pending es
          (c\<lparr>gc_state := st,
             gc_activation := (case ev_data e of
                 GoalChange _ \<Rightarrow> (case pending of
                     Some (q, a) \<Rightarrow> if q = ev_seq e then a else Disarmed
                   | None \<Rightarrow> Disarmed)
               | _ \<Rightarrow> gc_activation c),
             gc_observedSeq := Suc (gc_observedSeq c)\<rparr>))"

text \<open>\<open>cache\<close>: the entry of the session, folded from its whole log when there is none.\<close>

definition getCache :: "goal_cache goal_call" where
  "getCache x =
     (case gx_cache x of
        Some c \<Rightarrow> (x, Inr c)
      | None \<Rightarrow>
          (case goal_state (ses_log (gx_session x)) of
             Inl err \<Rightarrow> (x, Inl (GoalFoldFailed err))
           | Inr st \<Rightarrow>
               let c = \<lparr>gc_state = st, gc_activation = Disarmed,
                        gc_observedSeq = length (ses_log (gx_session x))\<rparr>
               in (x\<lparr>gx_cache := Some c\<rparr>, Inr c)))"

definition sync :: "(int \<times> activation) option \<Rightarrow> goal_cache \<Rightarrow> goal_cache goal_call" where
  "sync pending c x =
     (case sync_loop pending (drop (gc_observedSeq c) (ses_log (gx_session x))) c of
        (c', r) \<Rightarrow> (x\<lparr>gx_cache := Some c'\<rparr>, res_map (\<lambda>_. c') r))"

definition assertLive :: "bool \<Rightarrow> unit goal_call" where
  "assertLive live = pure (throw_if (\<not> live) GoalAgentNotLive)"

definition prepareMutation :: "bool \<Rightarrow> goal_cache goal_call" where
  "prepareMutation live = and_then (assertLive live) (\<lambda>_. and_then getCache (sync None))"

definition view :: "goal_cache \<Rightarrow> (goal_error, goal_view option) result" where
  "view c =
     (case gf_goal (gc_state c) of
        None \<Rightarrow> Inr None
      | Some g \<Rightarrow>
          (case (gf_createdAt (gc_state c), gf_updatedAt (gc_state c)) of
             (Some a, Some b) \<Rightarrow>
               Inr (Some \<lparr>gv_goal = g, gv_roundsStarted = gf_roundsStarted (gc_state c), gv_createdAt = a,
                          gv_updatedAt = b, gv_activation = gc_activation c\<rparr>)
           | _ \<Rightarrow> Inl GoalCacheBroken))"

definition get_goal :: "bool \<Rightarrow> goal_view option goal_call" where
  "get_goal live = and_then (prepareMutation live) (\<lambda>c. pure (view c))"

definition disarm :: "bool \<Rightarrow> goal_view option goal_call" where
  "disarm live = and_then (prepareMutation live) (\<lambda>c x.
     let c' = c\<lparr>gc_activation := Disarmed\<rparr> in (x\<lparr>gx_cache := Some c'\<rparr>, view c'))"

text \<open>The \<open>agent/session-start\<close> listener.\<close>

definition sessionStart :: "unit goal_call" where
  "sessionStart = and_then getCache (\<lambda>c x. (x\<lparr>gx_cache := Some (c\<lparr>gc_activation := Disarmed\<rparr>)\<rparr>, Inr ()))"

subsection \<open>Committing\<close>

definition nextMutationTime :: "int \<Rightarrow> goal_cache \<Rightarrow> (goal_error, int) result" where
  "nextMutationTime now c =
     (case gf_updatedAt (gc_state c) of None \<Rightarrow> Inl GoalCacheBroken | Some u \<Rightarrow> Inr (max now u))"

text \<open>The append and the fold of the appended event with the activation it is to have; the pending
  intent is gone afterwards whatever happens.\<close>

definition commit_change :: "int \<Rightarrow> goal_cache \<Rightarrow> goal_change \<Rightarrow> activation \<Rightarrow> goal_cache goal_call" where
  "commit_change now c change a x =
     (let seq = int (length (ses_log (gx_session x))) in
      case append_detached (gx_session x) now (GoalChange (change_json change)) None None of
        Inl e \<Rightarrow> (x, Inl (GoalAppendFailed e))
      | Inr (s, _) \<Rightarrow> sync (Some (seq, a)) c (x\<lparr>gx_session := s\<rparr>))"

text \<open>The commit reads the view once for the notification and, for a snapshot, once for its caller.\<close>

definition commitSnapshot ::
  "int \<Rightarrow> goal_cache \<Rightarrow> snapshot_operation \<Rightarrow> goal_snapshot \<Rightarrow> int \<Rightarrow> int \<Rightarrow> int \<Rightarrow> activation \<Rightarrow> goal_view goal_call" where
  "commitSnapshot now c op goal rounds createdAt updatedAt a =
     and_then (commit_change now c (SnapshotChange \<lparr>sc_operation = op, sc_goal = goal, sc_roundsStarted = rounds,
         sc_createdAt = createdAt, sc_updatedAt = updatedAt\<rparr>) a) (\<lambda>c'.
       pure (bindE (view c') (\<lambda>v. case v of None \<Rightarrow> Inl GoalCacheBroken | Some w \<Rightarrow> Inr w)))"

definition commitCurrent ::
  "int \<Rightarrow> goal_cache \<Rightarrow> snapshot_operation \<Rightarrow> goal_snapshot \<Rightarrow> activation \<Rightarrow> goal_view goal_call" where
  "commitCurrent now c op goal a =
     (case gf_createdAt (gc_state c) of
        None \<Rightarrow> pure (Inl GoalCacheBroken)
      | Some createdAt \<Rightarrow>
          and_then (pure (nextMutationTime now c)) (\<lambda>updatedAt.
            commitSnapshot now c op goal (gf_roundsStarted (gc_state c)) createdAt updatedAt a))"

subsection \<open>Mutations\<close>

definition expectCurrent :: "goal_cache \<Rightarrow> goal_ref \<Rightarrow> (goal_error, goal_snapshot) result" where
  "expectCurrent c ref =
     (case gf_goal (gc_state c) of
        None \<Rightarrow> Inl GoalNotFound
      | Some g \<Rightarrow>
          if gr_id ref \<noteq> gs_id g \<or> gr_revision ref \<noteq> gs_revision g then Inl GoalStaleRevision else Inr g)"

definition withPhase :: "goal_snapshot \<Rightarrow> goal_phase \<Rightarrow> goal_snapshot" where
  "withPhase g phase = \<lparr>gs_id = gs_id g, gs_revision = gs_revision g + 1, gs_objective = gs_objective g,
     gs_phase = phase, gs_blockedReason = None, gs_maxGoalRounds = gs_maxGoalRounds g\<rparr>"

definition create_goal :: "bool \<Rightarrow> int \<Rightarrow> string \<Rightarrow> int \<Rightarrow> create_request \<Rightarrow> goal_view goal_call" where
  "create_goal live now uuid defaultMax request =
     and_then (pure (resolveCreateGoal request defaultMax)) (\<lambda>(objective, cap).
     and_then (prepareMutation live) (\<lambda>c.
     and_then (pure (throw_if (case gf_goal (gc_state c) of None \<Rightarrow> False | Some g \<Rightarrow> gs_phase g \<noteq> PhaseComplete)
         GoalAlreadyExists)) (\<lambda>_.
       commitSnapshot now c OpCreate
         \<lparr>gs_id = ''goal-'' @ uuid, gs_revision = 1, gs_objective = objective, gs_phase = PhaseActive,
          gs_blockedReason = None, gs_maxGoalRounds = cap\<rparr> 0 now now Armed)))"

text \<open>The edited snapshot: the current one with the requested fields and the next revision.\<close>

definition edited :: "goal_snapshot \<Rightarrow> edit_request \<Rightarrow> (goal_error, goal_snapshot) result" where
  "edited g r =
     bindE (case eq_objective r of None \<Rightarrow> Inr (gs_objective g) | Some v \<Rightarrow> resolveObjective v) (\<lambda>objective.
     bindE (case eq_maxGoalRounds r of None \<Rightarrow> Inr (gs_maxGoalRounds g) | Some v \<Rightarrow> resolveMaxGoalRounds v) (\<lambda>cap.
       Inr (g\<lparr>gs_revision := gs_revision g + 1, gs_objective := objective, gs_maxGoalRounds := cap\<rparr>)))"

definition edit_goal :: "bool \<Rightarrow> int \<Rightarrow> goal_ref \<Rightarrow> edit_request \<Rightarrow> goal_view goal_call" where
  "edit_goal live now ref request =
     and_then (prepareMutation live) (\<lambda>c.
     and_then (pure (expectCurrent c ref)) (\<lambda>g.
     and_then (pure (throw_if (eq_objective request = None \<and> eq_maxGoalRounds request = None) GoalInvalidEdit)) (\<lambda>_.
     and_then (pure (edited g request)) (\<lambda>g'.
       commitCurrent now c OpEdit g' (gc_activation c)))))"

definition transition ::
  "bool \<Rightarrow> int \<Rightarrow> goal_ref \<Rightarrow> snapshot_operation \<Rightarrow> goal_phase set \<Rightarrow> goal_phase \<Rightarrow> activation \<Rightarrow> goal_view goal_call" where
  "transition live now ref op allowed phase a =
     and_then (prepareMutation live) (\<lambda>c.
     and_then (pure (expectCurrent c ref)) (\<lambda>g.
     and_then (pure (throw_if (gs_phase g \<notin> allowed) GoalInvalidTransition)) (\<lambda>_.
       commitCurrent now c op (withPhase g phase) a)))"

definition pause_goal :: "bool \<Rightarrow> int \<Rightarrow> goal_ref \<Rightarrow> goal_view goal_call" where
  "pause_goal live now ref = transition live now ref OpPause {PhaseActive} PhasePaused Disarmed"

definition complete_goal :: "bool \<Rightarrow> int \<Rightarrow> goal_ref \<Rightarrow> goal_view goal_call" where
  "complete_goal live now ref =
     transition live now ref OpComplete {PhaseActive, PhasePaused, PhaseBlocked} PhaseComplete Disarmed"

definition resume_goal :: "bool \<Rightarrow> int \<Rightarrow> goal_ref \<Rightarrow> goal_view goal_call" where
  "resume_goal live now ref =
     and_then (prepareMutation live) (\<lambda>c.
     and_then (pure (expectCurrent c ref)) (\<lambda>g.
     and_then (pure (throw_if (gs_phase g \<notin> {PhaseActive, PhasePaused, PhaseBlocked}) GoalInvalidTransition)) (\<lambda>_.
     and_then (pure (throw_if (gs_phase g = PhaseActive \<and> gc_activation c = Armed) GoalInvalidTransition)) (\<lambda>_.
     and_then (pure (throw_if (gs_maxGoalRounds g \<le> gf_roundsStarted (gc_state c)) GoalInvalidTransition)) (\<lambda>_.
       commitCurrent now c OpResume (withPhase g PhaseActive) Armed)))))"

definition block_goal :: "bool \<Rightarrow> int \<Rightarrow> goal_ref \<Rightarrow> json \<Rightarrow> goal_view goal_call" where
  "block_goal live now ref reason =
     and_then (prepareMutation live) (\<lambda>c.
     and_then (pure (expectCurrent c ref)) (\<lambda>g.
     and_then (pure (throw_if (gs_phase g \<noteq> PhaseActive) GoalInvalidTransition)) (\<lambda>_.
     and_then (pure (resolveBlockReason reason)) (\<lambda>r.
       commitCurrent now c OpBlock ((withPhase g PhaseBlocked)\<lparr>gs_blockedReason := Some r\<rparr>) Disarmed))))"

definition clear_goal :: "bool \<Rightarrow> int \<Rightarrow> goal_ref \<Rightarrow> goal_ref goal_call" where
  "clear_goal live now ref =
     and_then (prepareMutation live) (\<lambda>c.
     and_then (pure (expectCurrent c ref)) (\<lambda>g.
     and_then (pure (nextMutationTime now c)) (\<lambda>t.
       let tombstone = \<lparr>gr_id = gs_id g, gr_revision = gs_revision g + 1\<rparr> in
       and_then (commit_change now c (ClearChange tombstone t) Disarmed) (\<lambda>c'.
         and_then (pure (view c')) (\<lambda>_. pure (Inr tombstone))))))"

definition remoteExportCreate :: "bool \<Rightarrow> int \<Rightarrow> string \<Rightarrow> int \<Rightarrow> create_request \<Rightarrow> goal_ref goal_call" where
  "remoteExportCreate live now uuid defaultMax request =
     and_then (create_goal live now uuid defaultMax request) (\<lambda>v. pure (Inr (snapshot_ref (gv_goal v))))"

end
