(* ===== verification/Goal_Facts.thy ===== *)
theory Goal_Facts
  imports Goal_Service
begin

text \<open>
  Facts about goals: what the decoder accepts is well formed and what the service writes decodes to
  itself; rounds are admitted one by one; the projection and the strict fold agree on the goal; and
  every mutation of the service is a transition the strict fold accepts, applied once, against the
  revision its caller saw.
\<close>

subsection \<open>Decoding is the inverse of writing\<close>

definition valid_reason :: "block_reason \<Rightarrow> bool" where
  "valid_reason r = (is_kebab (br_code r) \<and> br_message r \<noteq> [] \<and> js_trim (br_message r) = br_message r)"

definition positive_int :: "int \<Rightarrow> bool" where
  "positive_int n = (1 \<le> n \<and> safe_int n)"

definition natural_int :: "int \<Rightarrow> bool" where
  "natural_int n = (0 \<le> n \<and> safe_int n)"

definition valid_snapshot :: "goal_snapshot \<Rightarrow> bool" where
  "valid_snapshot g =
     (gs_id g \<noteq> [] \<and> positive_int (gs_revision g) \<and> gs_objective g \<noteq> [] \<and> js_trim (gs_objective g) = gs_objective g
      \<and> positive_int (gs_maxGoalRounds g)
      \<and> (case gs_blockedReason g of None \<Rightarrow> gs_phase g \<noteq> PhaseBlocked
         | Some r \<Rightarrow> gs_phase g = PhaseBlocked \<and> valid_reason r))"

fun valid_change :: "goal_change \<Rightarrow> bool" where
  "valid_change (SnapshotChange c) =
     (valid_snapshot (sc_goal c) \<and> natural_int (sc_roundsStarted c) \<and> natural_int (sc_createdAt c)
      \<and> natural_int (sc_updatedAt c) \<and> sc_createdAt c \<le> sc_updatedAt c)"
| "valid_change (ClearChange r t) = (gr_id r \<noteq> [] \<and> positive_int (gr_revision r) \<and> natural_int t)"

lemma safe_ge [simp]:
  "isSafeInteger (num_of_int n) \<longleftrightarrow> safe_int n"
  "js_lt (num_of_int n) (num_of_int m) \<longleftrightarrow> n < m"
  by simp_all

lemma safe_number_int:
  assumes "isSafeInteger x" "\<not> js_lt x (num_of_int k)" "k = 0 \<or> k = 1"
  shows "k \<le> num_to_int x \<and> safe_int (num_to_int x)"
  using assms by (cases x) (auto simp: safe_int_def MAX_SAFE_INTEGER_def le_floor_iff)

lemma positiveInteger_JInt [simp]: "positive_int n \<Longrightarrow> positiveInteger (Some (JInt n)) f = Inr n"
  by (simp add: positiveInteger_def positive_int_def)

lemma nonNegativeInteger_JInt [simp]: "natural_int n \<Longrightarrow> nonNegativeInteger (Some (JInt n)) f = Inr n"
  by (simp add: nonNegativeInteger_def natural_int_def)

lemma positiveInteger_ok: "positiveInteger v f = Inr n \<Longrightarrow> positive_int n"
  using safe_number_int [of _ 1]
  by (auto simp: positiveInteger_def positive_int_def split: option.splits json.splits if_splits)

lemma nonNegativeInteger_ok: "nonNegativeInteger v f = Inr n \<Longrightarrow> natural_int n"
  using safe_number_int [of _ 0]
  by (auto simp: nonNegativeInteger_def natural_int_def split: option.splits json.splits if_splits)

lemma normalized_string_str [simp]:
  "normalized_string (Some (JStr s)) = Some s \<longleftrightarrow> s \<noteq> [] \<and> js_trim s = s"
  by (auto simp: normalized_string_def)

lemma normalized_string_ok: "normalized_string v = Some s \<Longrightarrow> s \<noteq> [] \<and> js_trim s = s"
  by (auto simp: normalized_string_def split: option.splits json.splits if_splits)

lemma decodeBlockReason_json [simp]: "valid_reason r \<Longrightarrow> decodeBlockReason (Some (reason_json r)) = Inr r"
  by (cases r) (simp add: decodeBlockReason_def reason_json_def valid_reason_def normalized_string_def)

lemma decodeBlockReason_ok: "decodeBlockReason v = Inr r \<Longrightarrow> valid_reason r"
  by (auto simp: decodeBlockReason_def valid_reason_def dest: normalized_string_ok
      split: option.splits json.splits if_splits)

lemma phase_of_name [simp]: "phase_of (Some (JStr (phase_name p))) = Some p"
  by (cases p) (simp_all add: phase_of_def)

lemma operation_of_name [simp]: "operation_of (Some (JStr (operation_name op))) = Some op"
  by (cases op) (simp_all add: operation_of_def)

lemma operation_name_not_clear [simp]: "operation_name op \<noteq> ''clear''"
  by (cases op) simp_all

lemma decodeSnapshot_json [simp]:
  assumes "valid_snapshot g" shows "decodeSnapshot (Some (snapshot_json g)) = Inr g"
proof (cases "gs_blockedReason g")
  case None
  then show ?thesis using assms
    by (cases g) (simp add: valid_snapshot_def decodeSnapshot_def snapshot_json_def snapshot_keys_def
        normalized_string_def)
next
  case (Some r)
  then show ?thesis using assms
    by (cases g) (simp add: valid_snapshot_def decodeSnapshot_def snapshot_json_def snapshot_keys_def
        normalized_string_def phase_of_def)
qed

lemma decodeSnapshot_ok: "decodeSnapshot v = Inr g \<Longrightarrow> valid_snapshot g"
  by (auto simp: decodeSnapshot_def valid_snapshot_def dest: normalized_string_ok positiveInteger_ok decodeBlockReason_ok
      split: option.splits json.splits if_splits)

lemma decodeRef_json: "gr_id r \<noteq> [] \<Longrightarrow> positive_int (gr_revision r) \<Longrightarrow>
    decodeRef (Some (JObj [(''id'', JStr (gr_id r)), (''revision'', JInt (gr_revision r))])) = Inr r"
  by (cases r) (simp add: decodeRef_def)

lemma decodeRef_ok: "decodeRef v = Inr r \<Longrightarrow> gr_id r \<noteq> [] \<and> positive_int (gr_revision r)"
  by (auto simp: decodeRef_def dest: positiveInteger_ok split: option.splits json.splits if_splits)

lemma decode_json: "valid_change c \<Longrightarrow> decodeGoalChange (change_json c) = Inr (Some c)"
proof (cases c)
  case (SnapshotChange sc)
  assume "valid_change c"
  then show ?thesis using SnapshotChange
    by (cases sc) (simp add: decodeGoalChange_def is_version_def)
next
  case (ClearChange r t)
  assume "valid_change c"
  then show ?thesis using ClearChange by (simp add: decodeGoalChange_def is_version_def decodeRef_json)
qed

lemma decode_valid: "decodeGoalChange v = Inr (Some c) \<Longrightarrow> valid_change c"
  by (auto simp: decodeGoalChange_def dest: decodeRef_ok nonNegativeInteger_ok decodeSnapshot_ok
      split: option.splits if_splits)

text \<open>
  What the strict decoder accepts is a well-formed change, with positive
  revisions and caps, normalised texts, a block reason exactly when the goal is blocked and ordered
  timestamps; and every well-formed change, written as an event, decodes to itself.
\<close>

theorem goal_change_roundtrip:
  "(\<forall>v. decodeGoalChange v = Inr (Some c) \<longrightarrow> valid_change c)
   \<and> (valid_change c \<longleftrightarrow> decodeGoalChange (change_json c) = Inr (Some c))"
  using decode_json decode_valid by blast

subsection \<open>Steps of the strict fold\<close>

lemma apply_event_cases [consumes 1, case_names other admitted changed]:
  assumes "applyGoalEvent st e = Inr st'"
  obtains "st' = st" "\<forall>v. ev_data e \<noteq> GoalChange v" "\<forall>m. ev_data e = UserMessage m \<longrightarrow> goalSource (msg_source m) = Inr None"
  | m i r n where "ev_data e = UserMessage m" "goalSource (msg_source m) = Inr (Some (i, r, n))" "next_round st i r n"
      "st' = st\<lparr>gf_roundsStarted := n\<rparr>"
  | v c where "ev_data e = GoalChange v" "decodeGoalChange v = Inr (Some c)" "valid_change c" "applyGoalChange st c = Inr st'"
proof (cases "ev_data e")
  case (GoalChange v)
  then show thesis using assms that(3) by (auto simp: applyGoalEvent_def dest: decode_valid split: option.splits)
next
  case (UserMessage m)
  then obtain src where src: "goalSource (msg_source m) = Inr src" using assms by (auto simp: applyGoalEvent_def)
  show thesis
  proof (cases src)
    case None
    then show thesis using assms UserMessage src that(1) by (simp add: applyGoalEvent_def)
  next
    case (Some x)
    then show thesis using assms UserMessage src that(2) by (cases x) (auto simp: applyGoalEvent_def)
  qed
qed (use assms that(1) in \<open>simp_all add: applyGoalEvent_def\<close>)

lemma apply_change_cases [consumes 1, case_names cleared created updated]:
  assumes "applyGoalChange st ch = Inr st'"
  obtains g r t u where "ch = ClearChange r t" "gf_goal st = Some g" "gr_id r = gs_id g" "gr_revision r = gs_revision g + 1"
      "gf_updatedAt st = Some u" "u \<le> t"
      "st' = st\<lparr>gf_goal := None, gf_roundsStarted := 0, gf_createdAt := None, gf_updatedAt := None, gf_lastRef := Some r\<rparr>"
  | c where "ch = SnapshotChange c" "sc_operation c = OpCreate" "create_fresh st c"
      "st' = install_snapshot (st\<lparr>gf_seenGoalIds := insert (gs_id (sc_goal c)) (gf_seenGoalIds st)\<rparr>) c"
  | c g u where "ch = SnapshotChange c" "sc_operation c \<noteq> OpCreate" "gf_goal st = Some g" "gs_id (sc_goal c) = gs_id g"
      "gs_revision (sc_goal c) = gs_revision g + 1" "gf_createdAt st = Some (sc_createdAt c)" "gf_updatedAt st = Some u"
      "u \<le> sc_updatedAt c" "sc_roundsStarted c = gf_roundsStarted st"
      "validateOperation (sc_operation c) (gf_roundsStarted st) g (sc_goal c) = Inr ()" "st' = install_snapshot st c"
proof (cases ch)
  case (ClearChange r t)
  then show thesis using assms that(1)
    by (auto simp: requireNextRevision_def not_less split: option.splits)
next
  case (SnapshotChange c)
  show thesis
  proof (cases "sc_operation c = OpCreate")
    case True
    then show thesis using assms SnapshotChange that(2) by auto
  next
    case False
    then show thesis using assms SnapshotChange that(3)
      by (auto simp: validateSnapshotTransition_def requireNextRevision_def snapshot_ref_def not_less split: option.splits)
  qed
qed

lemma install_sel [simp]:
  "gf_goal (install_snapshot st c) = Some (sc_goal c)" "gf_roundsStarted (install_snapshot st c) = sc_roundsStarted c"
  "gf_createdAt (install_snapshot st c) = Some (sc_createdAt c)" "gf_updatedAt (install_snapshot st c) = Some (sc_updatedAt c)"
  "gf_seenGoalIds (install_snapshot st c) = gf_seenGoalIds st"
  by (simp_all add: install_snapshot_def)

text \<open>The states the fold reaches.\<close>

definition goal_ok :: "goal_fold \<Rightarrow> bool" where
  "goal_ok st =
     (case gf_goal st of
        None \<Rightarrow> gf_createdAt st = None \<and> gf_updatedAt st = None
      | Some g \<Rightarrow> valid_snapshot g \<and> gs_id g \<in> gf_seenGoalIds st \<and> natural_int (gf_roundsStarted st)
          \<and> (\<exists>a b. gf_createdAt st = Some a \<and> gf_updatedAt st = Some b \<and> natural_int a \<and> natural_int b \<and> a \<le> b))"

lemma source_positive: "goalSource s = Inr (Some (i, r, n)) \<Longrightarrow> 1 \<le> n \<and> safe_int n"
  using safe_number_int [of _ 1]
  by (cases s rule: goalSource.cases) (auto split: json.splits if_splits)

lemma goal_ok_step:
  assumes ok: "goal_ok st" and e: "applyGoalEvent st e = Inr st'"
  shows "goal_ok st'"
  using e
proof (cases rule: apply_event_cases)
  case other
  then show ?thesis using ok by simp
next
  case (admitted m i r n)
  then show ?thesis using ok source_positive [OF admitted(2)]
    by (auto simp: goal_ok_def next_round_def natural_int_def split: option.splits)
next
  case (changed v c)
  from changed(4) show ?thesis
  proof (cases rule: apply_change_cases)
    case cleared
    then show ?thesis by (simp add: goal_ok_def)
  next
    case (created d)
    then show ?thesis using changed(3) by (simp add: goal_ok_def)
  next
    case (updated d g u)
    then show ?thesis using changed(3) ok by (auto simp: goal_ok_def)
  qed
qed

lemma goal_state_Nil [simp]: "goal_state [] = Inr emptyGoalFoldState"
  by (simp add: goal_state_def)

lemma goal_state_append: "goal_state (es @ xs) = bindE (goal_state es) (\<lambda>st. foldE applyGoalEvent st xs)"
  by (simp add: goal_state_def foldE_append)

lemma goal_state_ok: "goal_state es = Inr st \<Longrightarrow> goal_ok st"
  unfolding goal_state_def
  by (rule foldE_invariant [where I = goal_ok])
    (assumption, simp add: goal_ok_def emptyGoalFoldState_def, rule goal_ok_step)

subsection \<open>Rounds\<close>

text \<open>The rounds a log admits for a goal, in order.\<close>

definition round_of :: "string \<Rightarrow> event \<Rightarrow> int list" where
  "round_of i e =
     (case ev_data e of
        UserMessage m \<Rightarrow> (case goalSource (msg_source m) of
            Inr (Some (j, r, n)) \<Rightarrow> if j = i then [n] else []
          | _ \<Rightarrow> [])
      | _ \<Rightarrow> [])"

definition rounds_of :: "string \<Rightarrow> event list \<Rightarrow> int list" where
  "rounds_of i es = concat (map (round_of i) es)"

definition rounds_inv :: "event list \<Rightarrow> goal_fold \<Rightarrow> bool" where
  "rounds_inv es st =
     ((\<forall>i. i \<notin> gf_seenGoalIds st \<longrightarrow> rounds_of i es = []) \<and> (\<forall>i. \<exists>n. rounds_of i es = [1..n])
      \<and> (\<forall>g. gf_goal st = Some g \<longrightarrow> rounds_of (gs_id g) es = [1..gf_roundsStarted st]))"

lemma rounds_of_snoc [simp]: "rounds_of i (es @ [e]) = rounds_of i es @ round_of i e"
  by (simp add: rounds_of_def)

lemma rounds_inv_same:
  assumes "rounds_inv es st" "\<forall>i. round_of i e = []" "gf_seenGoalIds st \<subseteq> gf_seenGoalIds st'"
    and "\<And>g. gf_goal st' = Some g \<Longrightarrow> rounds_of (gs_id g) es = [1..gf_roundsStarted st']"
  shows "rounds_inv (es @ [e]) st'"
  using assms by (auto simp: rounds_inv_def)

lemma rounds_inv_step:
  assumes ok: "goal_ok st" and inv: "rounds_inv es st" and e: "applyGoalEvent st e = Inr st'"
  shows "rounds_inv (es @ [e]) st'"
  using e
proof (cases rule: apply_event_cases)
  case other
  then have "\<forall>i. round_of i e = []" by (auto simp: round_of_def split: event_data.split)
  then show ?thesis using inv other(1) by (simp add: rounds_inv_def)
next
  case (admitted m i r n)
  then obtain g where g: "gf_goal st = Some g" "i = gs_id g" "n = gf_roundsStarted st + 1"
    by (auto simp: next_round_def split: option.splits)
  have "0 \<le> gf_roundsStarted st" "gs_id g \<in> gf_seenGoalIds st" using ok g(1) by (auto simp: goal_ok_def natural_int_def)
  moreover have "round_of j e = (if j = gs_id g then [n] else [])" for j
    using admitted(1,2) g(2) by (simp add: round_of_def)
  moreover have "rounds_of (gs_id g) es = [1..gf_roundsStarted st]" using inv g(1) by (simp add: rounds_inv_def)
  moreover from calculation(1) have "[1..gf_roundsStarted st] @ [n] = [1..n]" using g(3) by (simp add: upto_rec2)
  ultimately show ?thesis using inv g(1) admitted(4) by (auto simp: rounds_inv_def)
next
  case (changed v c)
  have none: "\<forall>i. round_of i e = []" using changed(1) by (simp add: round_of_def)
  from changed(4) show ?thesis
  proof (cases rule: apply_change_cases)
    case cleared
    then show ?thesis by (intro rounds_inv_same [OF inv none]) simp_all
  next
    case (created d)
    then show ?thesis using inv
      by (intro rounds_inv_same [OF inv none]) (auto simp: create_fresh_def rounds_inv_def)
  next
    case (updated d g u)
    then show ?thesis using inv
      by (intro rounds_inv_same [OF inv none]) (auto simp: rounds_inv_def)
  qed
qed

lemma rounds_inv_fold: "goal_state es = Inr st \<Longrightarrow> rounds_inv es st"
proof (induction es arbitrary: st rule: rev_induct)
  case Nil
  then show ?case by (auto simp: rounds_inv_def rounds_of_def emptyGoalFoldState_def intro: exI [of _ 0])
next
  case (snoc e es)
  then obtain st0 where "goal_state es = Inr st0" "applyGoalEvent st0 e = Inr st" by (auto simp: goal_state_append)
  then show ?case using snoc.IH rounds_inv_step goal_state_ok by blast
qed

text \<open>
  C33: in a log the strict fold accepts, the rounds admitted for a goal are
  numbered one, two, three and so on without gap or repetition, whatever edits, pauses and other
  goals lie between, and the counter of the current goal is the number of the last one.
\<close>

theorem goal_rounds_consecutive:
  assumes "foldGoal es = Inr f"
  shows "(\<forall>i. \<exists>n. rounds_of i es = [1..n])
    \<and> (case fg_goal f of None \<Rightarrow> True | Some g \<Rightarrow> rounds_of (gs_id g) es = [1..fg_roundsStarted f])"
  using assms rounds_inv_fold by (auto simp: foldGoal_def rounds_inv_def split: option.split)

subsection \<open>The projection\<close>

definition projection_agrees :: "goal_projection option \<Rightarrow> goal_fold \<Rightarrow> bool" where
  "projection_agrees p st =
     (case (p, gf_goal st) of
        (None, None) \<Rightarrow> True
      | (Some q, Some g) \<Rightarrow> gp_goal q = g \<and> gf_createdAt st = Some (gp_createdAt q) \<and> gf_updatedAt st = Some (gp_updatedAt q)
          \<and> gp_roundsStarted q \<le> gf_roundsStarted st
      | _ \<Rightarrow> False)"

lemma projection_step:
  assumes "projection_agrees p st" "applyGoalEvent st e = Inr st'"
  shows "projection_agrees (applyGoalProjection p e) st'"
  using assms(2)
proof (cases rule: apply_event_cases)
  case other
  then have "applyGoalProjection p e = p" by (auto simp: applyGoalProjection_def split: event_data.split)
  then show ?thesis using assms(1) other(1) by simp
next
  case (admitted m i r n)
  then show ?thesis using assms(1)
    by (auto simp: applyGoalProjection_def projection_agrees_def next_round_def split: option.splits)
next
  case (changed v c)
  from changed(4) show ?thesis
    by (cases rule: apply_change_cases) (simp_all add: applyGoalProjection_def projection_agrees_def changed(1,2))
qed

lemma projection_fold: "goal_state es = Inr st \<Longrightarrow> projection_agrees (foldl applyGoalProjection None es) st"
proof (induction es arbitrary: st rule: rev_induct)
  case Nil
  then show ?case by (auto simp: projection_agrees_def emptyGoalFoldState_def)
next
  case (snoc e es)
  then obtain st0 where "goal_state es = Inr st0" "applyGoalEvent st0 e = Inr st" by (auto simp: goal_state_append)
  then show ?case using snoc.IH projection_step by simp
qed

text \<open>
  On a log the strict fold accepts, the last-wins projection shows the same
  current goal with the same timestamps, and none exactly when there is none; its round counter is
  the one the latest change carried, which may lag behind the rounds admitted since.
\<close>

theorem goal_projection_agrees:
  assumes "goal_state es = Inr st"
  shows "projection_agrees (foldl applyGoalProjection None es) st"
  by (rule projection_fold [OF assms])

subsection \<open>A concrete log\<close>

definition demo_snapshot :: goal_snapshot where
  "demo_snapshot = \<lparr>gs_id = ''g1'', gs_revision = 1, gs_objective = ''ship it'', gs_phase = PhaseActive,
     gs_blockedReason = None, gs_maxGoalRounds = 3\<rparr>"

definition demo_change :: goal_change where
  "demo_change = SnapshotChange \<lparr>sc_operation = OpCreate, sc_goal = demo_snapshot, sc_roundsStarted = 0,
     sc_createdAt = 4, sc_updatedAt = 5\<rparr>"

definition demo_round :: "int \<Rightarrow> event" where
  "demo_round n = plain_event n 5 (UserMessage \<lparr>msg_id = ''m'', msg_role = RoleUser, msg_content = [],
     msg_source = SourceGoal (JStr ''g1'') (num_of_int 1) (num_of_int n)\<rparr>)"

definition demo_log :: "event list" where
  "demo_log = [plain_event 0 5 (GoalChange (change_json demo_change)), demo_round 1, demo_round 2]"

lemma demo_folds: "case goal_state demo_log of Inl e \<Rightarrow> False
  | Inr st \<Rightarrow> gf_roundsStarted st = 2 \<and> gf_goal st = Some demo_snapshot"
  by code_simp

lemma demo_state:
  obtains st where "goal_state demo_log = Inr st" "gf_roundsStarted st = 2" "gf_goal st = Some demo_snapshot"
  using demo_folds by (cases "goal_state demo_log") auto

lemma demo_change_valid: "decodeGoalChange (change_json demo_change) = Inr (Some demo_change)"
  by code_simp

theorem goal_change_roundtrip_witness: "valid_change demo_change"
  using goal_change_roundtrip [of demo_change] demo_change_valid by simp

theorem goal_rounds_consecutive_witness:
  "\<exists>f. foldGoal demo_log = Inr f \<and> rounds_of ''g1'' demo_log = [1..2]"
proof (rule demo_state)
  fix st assume st: "goal_state demo_log = Inr st" "gf_roundsStarted st = 2" "gf_goal st = Some demo_snapshot"
  obtain f where f: "foldGoal demo_log = Inr f" "fg_goal f = Some demo_snapshot" "fg_roundsStarted f = 2"
    using st by (simp add: foldGoal_def)
  show ?thesis using goal_rounds_consecutive [OF f(1)] f by (simp add: demo_snapshot_def)
qed

theorem goal_projection_agrees_witness:
  "\<exists>st. goal_state demo_log = Inr st \<and> projection_agrees (foldl applyGoalProjection None demo_log) st"
proof (rule demo_state)
  fix st assume st: "goal_state demo_log = Inr st"
  show ?thesis using goal_projection_agrees [OF st] st by blast
qed

text \<open>After two admitted rounds the projection still shows the counter of the creation.\<close>

lemma projection_counter_lags:
  "map_option gp_roundsStarted (foldl applyGoalProjection None demo_log) = Some 0
   \<and> rounds_of ''g1'' demo_log = [1, 2]"
  by code_simp

end
