(* ===== verification/Goal_Service_Facts.thy ===== *)
theory Goal_Service_Facts
  imports Goal_Facts
begin

text \<open>
  The goal service against the strict fold: its cache is the fold of the log, every mutation it lets
  through is a transition the fold accepts, a rejected call appends nothing, and a revision that was
  used once is stale for ever.
\<close>

subsection \<open>The cache invariant\<close>

definition goal_inv :: "goal_session \<Rightarrow> bool" where
  "goal_inv x =
     (session_inv (gx_session x) \<and> is_ok (goal_state (ses_log (gx_session x)))
      \<and> (\<forall>c. gx_cache x = Some c \<longrightarrow> gc_observedSeq c \<le> length (ses_log (gx_session x))
           \<and> goal_state (take (gc_observedSeq c) (ses_log (gx_session x))) = Inr (gc_state c)))"

definition gx_log :: "goal_session \<Rightarrow> event list" where
  "gx_log x = ses_log (gx_session x)"

text \<open>A cache that has seen the whole log.\<close>

definition current_cache :: "goal_session \<Rightarrow> goal_cache \<Rightarrow> bool" where
  "current_cache x c = (gx_cache x = Some c \<and> gc_observedSeq c = length (gx_log x) \<and> goal_state (gx_log x) = Inr (gc_state c))"

lemma sync_loop_ok:
  "foldE applyGoalEvent (gc_state c) es = Inr st \<Longrightarrow>
   \<exists>c'. sync_loop pending es c = (c', Inr ()) \<and> gc_state c' = st
     \<and> gc_observedSeq c' = gc_observedSeq c + length es"
proof (induction es arbitrary: c)
  case (Cons e es)
  obtain s where s: "applyGoalEvent (gc_state c) e = Inr s" "foldE applyGoalEvent s es = Inr st"
    using Cons.prems by auto
  show ?case unfolding sync_loop.simps s(1) sum.case
    using Cons.IH [of "c\<lparr>gc_state := s, gc_activation := _, gc_observedSeq := Suc (gc_observedSeq c)\<rparr>"] s(2)
    by simp
qed simp

lemma sync_ok:
  assumes inv: "goal_inv x" and c: "gx_cache x = Some c"
  obtains y c' where "sync pending c x = (y, Inr c')" "goal_inv y" "gx_session y = gx_session x" "current_cache y c'"
proof -
  let ?k = "gc_observedSeq c" and ?log = "ses_log (gx_session x)"
  obtain st where st: "goal_state ?log = Inr st" using inv by (auto simp: goal_inv_def is_ok_iff)
  have k: "?k \<le> length ?log" "goal_state (take ?k ?log) = Inr (gc_state c)" using inv c by (simp_all add: goal_inv_def)
  have "foldE applyGoalEvent (gc_state c) (drop ?k ?log) = Inr st"
    using st goal_state_append [of "take ?k ?log" "drop ?k ?log"] k(2) by simp
  from sync_loop_ok [OF this, of pending] obtain c' where c': "sync_loop pending (drop ?k ?log) c = (c', Inr ())"
      "gc_state c' = st" "gc_observedSeq c' = ?k + length (drop ?k ?log)" by blast
  let ?y = "x\<lparr>gx_cache := Some c'\<rparr>"
  have "gc_observedSeq c' = length ?log" using c'(3) k(1) by simp
  then have "goal_inv ?y" "current_cache ?y c'" using inv st c'(2) by (simp_all add: goal_inv_def current_cache_def gx_log_def)
  then show thesis using that [of ?y c'] c'(1) by (simp add: sync_def)
qed

lemma getCache_ok:
  assumes inv: "goal_inv x"
  obtains y c where "getCache x = (y, Inr c)" "goal_inv y" "gx_session y = gx_session x" "gx_cache y = Some c"
proof (cases "gx_cache x")
  case None
  obtain st where st: "goal_state (ses_log (gx_session x)) = Inr st" using inv by (auto simp: goal_inv_def is_ok_iff)
  let ?c = "\<lparr>gc_state = st, gc_activation = Disarmed, gc_observedSeq = length (ses_log (gx_session x))\<rparr>"
  have "getCache x = (x\<lparr>gx_cache := Some ?c\<rparr>, Inr ?c)" using None st by (simp add: getCache_def Let_def)
  moreover have "goal_inv (x\<lparr>gx_cache := Some ?c\<rparr>)" using inv st by (simp add: goal_inv_def)
  ultimately show thesis using that by simp
next
  case (Some c)
  then show thesis using that inv by (simp add: getCache_def)
qed

lemma prepare_ok:
  assumes inv: "goal_inv x"
  obtains y c where "prepareMutation True x = (y, Inr c)" "goal_inv y" "gx_session y = gx_session x" "current_cache y c"
proof -
  obtain y1 c1 where g: "getCache x = (y1, Inr c1)" "goal_inv y1" "gx_session y1 = gx_session x" "gx_cache y1 = Some c1"
    by (rule getCache_ok [OF inv])
  obtain y c where s: "sync None c1 y1 = (y, Inr c)" "goal_inv y" "gx_session y = gx_session y1" "current_cache y c"
    by (rule sync_ok [OF g(2,4)])
  have "prepareMutation True x = (y, Inr c)"
    by (simp add: prepareMutation_def assertLive_def pure_def and_then_def g(1) s(1))
  then show thesis using that s g(3) by simp
qed

lemma prepare_dead: "prepareMutation False x = (x, Inl GoalAgentNotLive)"
  by (simp add: prepareMutation_def assertLive_def pure_def and_then_def)

subsection \<open>Outcomes\<close>

text \<open>
  What a call may do: reject without touching the log, or append one change the fold accepts. The
  errors that would mean a broken cache or a change the fold refuses do not occur.
\<close>

definition honest :: "goal_error \<Rightarrow> bool" where
  "honest e = (e \<noteq> GoalCacheBroken \<and> (\<forall>f. e \<noteq> GoalFoldFailed f))"

definition one_change :: "goal_session \<Rightarrow> goal_session \<Rightarrow> goal_change \<Rightarrow> bool" where
  "one_change x y ch =
     (\<exists>e st st'. gx_log y = gx_log x @ [e] \<and> ev_data e = GoalChange (change_json ch)
        \<and> goal_state (gx_log x) = Inr st \<and> applyGoalChange st ch = Inr st' \<and> goal_state (gx_log y) = Inr st')"

definition outcome :: "goal_session \<Rightarrow> ('a \<Rightarrow> goal_change \<Rightarrow> bool) \<Rightarrow> goal_session \<times> (goal_error, 'a) result \<Rightarrow> bool" where
  "outcome x Q r =
     (goal_inv (fst r)
      \<and> (case snd r of
           Inl e \<Rightarrow> gx_log (fst r) = gx_log x \<and> honest e
         | Inr v \<Rightarrow> \<exists>ch. one_change x (fst r) ch \<and> Q v ch))"

lemma outcome_reject: "goal_inv x \<Longrightarrow> gx_log x = gx_log x0 \<Longrightarrow> honest e \<Longrightarrow> outcome x0 Q (x, Inl e)"
  by (simp add: outcome_def)

lemma outcome_prepare:
  assumes inv: "goal_inv x"
    and k: "\<And>y c. goal_inv y \<Longrightarrow> gx_log y = gx_log x \<Longrightarrow> current_cache y c \<Longrightarrow> outcome x Q (f c y)"
  shows "outcome x Q (and_then (prepareMutation live) f x)"
proof (cases live)
  case True
  obtain y c where "prepareMutation True x = (y, Inr c)" "goal_inv y" "gx_session y = gx_session x" "current_cache y c"
    by (rule prepare_ok [OF inv])
  then show ?thesis using k True by (simp add: and_then_def gx_log_def)
next
  case False
  then show ?thesis using inv by (simp add: and_then_def prepare_dead outcome_def honest_def)
qed

lemma outcome_pure:
  assumes "goal_inv y" "gx_log y = gx_log x" "\<And>e. r = Inl e \<Longrightarrow> honest e" "\<And>a. r = Inr a \<Longrightarrow> outcome x Q (f a y)"
  shows "outcome x Q (and_then (pure r) f y)"
  using assms by (cases r) (simp_all add: and_then_def pure_def outcome_def)

lemma outcome_throw:
  assumes "goal_inv y" "gx_log y = gx_log x" "honest e" "\<not> b \<Longrightarrow> outcome x Q (f () y)"
  shows "outcome x Q (and_then (pure (throw_if b e)) f y)"
  by (rule outcome_pure [OF assms(1,2)]) (use assms(3,4) in auto)

lemma honest_simps [simp]:
  "honest GoalAgentNotLive" "honest GoalNotFound" "honest GoalAlreadyExists" "honest GoalStaleRevision"
  "honest GoalInvalidObjective" "honest GoalInvalidMaxRounds" "honest GoalInvalidBlockReason" "honest GoalInvalidEdit"
  "honest GoalInvalidTransition" "honest (GoalAppendFailed e)"
  by (simp_all add: honest_def)

subsection \<open>Committing a valid transition\<close>

lemma commit_ok:
  assumes inv: "goal_inv x" and c: "current_cache x c" and v: "valid_change ch"
    and ap: "applyGoalChange (gc_state c) ch = Inr st'"
  shows "(\<exists>e. commit_change now c ch a x = (x, Inl (GoalAppendFailed e)))
    \<or> (\<exists>y c'. commit_change now c ch a x = (y, Inr c') \<and> goal_inv y \<and> current_cache y c' \<and> gc_state c' = st'
         \<and> one_change x y ch)"
proof (cases "append_detached (gx_session x) now (GoalChange (change_json ch)) None None")
  case (Inl e)
  then show ?thesis by (simp add: commit_change_def Let_def)
next
  case (Inr q)
  obtain s e where q: "q = (s, e)" by (cases q)
  have si: "session_inv (gx_session x)" using inv by (simp add: goal_inv_def)
  note a1 = append_inv [OF si Inr [unfolded q]]
  then have e: "ev_data e = GoalChange (change_json ch)" by (simp add: next_event_def)
  have st: "goal_state (gx_log x) = Inr (gc_state c)" "gx_cache x = Some c" "gc_observedSeq c = length (gx_log x)"
    using c by (simp_all add: current_cache_def)
  have ev: "applyGoalEvent (gc_state c) e = Inr st'"
    by (simp add: applyGoalEvent_def e decode_json [OF v] ap)
  have log: "ses_log s = gx_log x @ [e]" using a1 by (simp add: gx_log_def)
  then have new: "goal_state (ses_log s) = Inr st'" using st(1) ev by (simp add: goal_state_append)
  let ?x = "x\<lparr>gx_session := s\<rparr>"
  have inv': "goal_inv ?x" using a1 inv new st log by (simp add: goal_inv_def gx_log_def)
  have "gx_cache ?x = Some c" using st(2) by simp
  from sync_ok [OF inv' this] obtain y c' where y: "sync (Some (int (length (gx_log x)), a)) c ?x = (y, Inr c')"
      "goal_inv y" "gx_session y = gx_session ?x" "current_cache y c'" by metis
  have "commit_change now c ch a x = (y, Inr c')"
    using y(1) by (simp add: commit_change_def Inr q gx_log_def)
  moreover have "gc_state c' = st'" using y(3,4) new by (simp add: current_cache_def gx_log_def)
  moreover have "one_change x y ch"
    unfolding one_change_def using y(3) log e st(1) ap new by (auto simp: gx_log_def)
  ultimately show ?thesis using y(2,4) by blast
qed

lemma outcome_commit:
  assumes inv: "goal_inv x" and log: "gx_log x = gx_log x0" and c: "current_cache x c" and v: "valid_change ch"
    and ap: "applyGoalChange (gc_state c) ch = Inr st'"
    and k: "\<And>y c'. goal_inv y \<Longrightarrow> gc_state c' = st' \<Longrightarrow> one_change x0 y ch \<Longrightarrow>
      \<exists>r. f c' y = (y, Inr r) \<and> Q r ch"
  shows "outcome x0 Q (and_then (commit_change now c ch a) f x)"
proof -
  from commit_ok [OF inv c v ap, of now a] show ?thesis
  proof (elim disjE exE conjE)
    fix e assume "commit_change now c ch a x = (x, Inl (GoalAppendFailed e))"
    then show ?thesis using inv log by (simp add: and_then_def outcome_def)
  next
    fix y c' assume y: "commit_change now c ch a x = (y, Inr c')" "goal_inv y" "gc_state c' = st'" "one_change x y ch"
    then have "one_change x0 y ch" using log by (simp add: one_change_def)
    from k [OF y(2,3) this] y(1,2) this show ?thesis by (auto simp: and_then_def outcome_def)
  qed
qed

lemma snapshot_committed:
  assumes "goal_inv x" "gx_log x = gx_log x0" "current_cache x c"
    and "valid_change (SnapshotChange \<lparr>sc_operation = op, sc_goal = g, sc_roundsStarted = n, sc_createdAt = t0, sc_updatedAt = t1\<rparr>)"
    and "applyGoalChange (gc_state c)
      (SnapshotChange \<lparr>sc_operation = op, sc_goal = g, sc_roundsStarted = n, sc_createdAt = t0, sc_updatedAt = t1\<rparr>) = Inr st'"
    and "gf_goal st' = Some g" "gf_createdAt st' = Some t0" "gf_updatedAt st' = Some t1"
    and "\<And>v. gv_goal v = g \<Longrightarrow> Q v
      (SnapshotChange \<lparr>sc_operation = op, sc_goal = g, sc_roundsStarted = n, sc_createdAt = t0, sc_updatedAt = t1\<rparr>)"
  shows "outcome x0 Q (commitSnapshot now c op g n t0 t1 a x)"
  unfolding commitSnapshot_def
  by (rule outcome_commit [OF assms(1-5)]) (auto simp: pure_def view_def assms(6-9))

text \<open>A change of the current goal keeps its counters and its creation time.\<close>

lemma current_committed:
  assumes inv: "goal_inv x" and log: "gx_log x = gx_log x0" and c: "current_cache x c"
    and g: "gf_goal (gc_state c) = Some g" and now: "natural_int now"
    and v: "valid_snapshot g'" "gs_id g' = gs_id g" "gs_revision g' = gs_revision g + 1"
    and op: "op \<noteq> OpCreate" "validateOperation op (gf_roundsStarted (gc_state c)) g g' = Inr ()"
    and q: "\<And>w n t0 t1. gv_goal w = g' \<Longrightarrow> Q w
      (SnapshotChange \<lparr>sc_operation = op, sc_goal = g', sc_roundsStarted = n, sc_createdAt = t0, sc_updatedAt = t1\<rparr>)"
  shows "outcome x0 Q (commitCurrent now c op g' a x)"
proof -
  have "goal_state (gx_log x) = Inr (gc_state c)" using c by (simp add: current_cache_def)
  then have "goal_ok (gc_state c)" by (rule goal_state_ok)
  then obtain t0 u where t: "gf_createdAt (gc_state c) = Some t0" "gf_updatedAt (gc_state c) = Some u"
      "natural_int t0" "natural_int u" "t0 \<le> u" "natural_int (gf_roundsStarted (gc_state c))"
    using g by (auto simp: goal_ok_def)
  let ?ch = "\<lparr>sc_operation = op, sc_goal = g', sc_roundsStarted = gf_roundsStarted (gc_state c), sc_createdAt = t0,
      sc_updatedAt = max now u\<rparr>"
  have "natural_int (max now u)" using t(4) now by (simp add: max_def)
  then have va: "valid_change (SnapshotChange ?ch)" using v(1) t by simp
  have ap: "applyGoalChange (gc_state c) (SnapshotChange ?ch) = Inr (install_snapshot (gc_state c) ?ch)"
    using g op v(2,3) t by (simp add: validateSnapshotTransition_def requireNextRevision_def snapshot_ref_def)
  have "commitCurrent now c op g' a x
      = commitSnapshot now c op g' (gf_roundsStarted (gc_state c)) t0 (max now u) a x"
    by (simp add: commitCurrent_def t(1,2) nextMutationTime_def and_then_def pure_def)
  moreover have "outcome x0 Q (commitSnapshot now c op g' (gf_roundsStarted (gc_state c)) t0 (max now u) a x)"
    by (rule snapshot_committed [OF inv log c va ap]) (simp_all add: q)
  ultimately show ?thesis by simp
qed

subsection \<open>Mutations\<close>

datatype goal_mutation =
    MCreate string create_request
  | MEdit goal_ref edit_request
  | MPause goal_ref
  | MResume goal_ref
  | MComplete goal_ref
  | MBlock goal_ref json
  | MClear goal_ref

definition viewed :: "goal_view goal_call \<Rightarrow> goal_ref goal_call" where
  "viewed f = and_then f (\<lambda>v. pure (Inr (snapshot_ref (gv_goal v))))"

text \<open>One mutation of an agent, live or not, at a wall-clock time; the result is the reference it returns.\<close>

fun mutate_goal :: "bool \<Rightarrow> int \<Rightarrow> int \<Rightarrow> goal_mutation \<Rightarrow> goal_ref goal_call" where
  "mutate_goal live now cap (MCreate uuid request) = remoteExportCreate live now uuid cap request"
| "mutate_goal live now cap (MEdit ref request) = viewed (edit_goal live now ref request)"
| "mutate_goal live now cap (MPause ref) = viewed (pause_goal live now ref)"
| "mutate_goal live now cap (MResume ref) = viewed (resume_goal live now ref)"
| "mutate_goal live now cap (MComplete ref) = viewed (complete_goal live now ref)"
| "mutate_goal live now cap (MBlock ref reason) = viewed (block_goal live now ref reason)"
| "mutate_goal live now cap (MClear ref) = clear_goal live now ref"

fun mutation_ref :: "goal_mutation \<Rightarrow> goal_ref option" where
  "mutation_ref (MCreate uuid request) = None"
| "mutation_ref (MEdit ref request) = Some ref"
| "mutation_ref (MPause ref) = Some ref"
| "mutation_ref (MResume ref) = Some ref"
| "mutation_ref (MComplete ref) = Some ref"
| "mutation_ref (MBlock ref reason) = Some ref"
| "mutation_ref (MClear ref) = Some ref"

fun mutation_operation :: "goal_mutation \<Rightarrow> snapshot_operation option" where
  "mutation_operation (MCreate uuid request) = Some OpCreate"
| "mutation_operation (MEdit ref request) = Some OpEdit"
| "mutation_operation (MPause ref) = Some OpPause"
| "mutation_operation (MResume ref) = Some OpResume"
| "mutation_operation (MComplete ref) = Some OpComplete"
| "mutation_operation (MBlock ref reason) = Some OpBlock"
| "mutation_operation (MClear ref) = None"

fun change_operation :: "goal_change \<Rightarrow> snapshot_operation option" where
  "change_operation (SnapshotChange c) = Some (sc_operation c)"
| "change_operation (ClearChange r t) = None"

text \<open>The change is the mutation's own, and the reference it returns is the next one after the caller's.\<close>

definition answers :: "goal_mutation \<Rightarrow> goal_ref \<Rightarrow> goal_change \<Rightarrow> bool" where
  "answers m r ch =
     (goalChangeRef ch = r \<and> change_operation ch = mutation_operation m
      \<and> (case mutation_ref m of
           None \<Rightarrow> gr_revision r = 1
         | Some ref \<Rightarrow> gr_id r = gr_id ref \<and> gr_revision r = gr_revision ref + 1))"

text \<open>What the caller and the platform provide: a clock that reads a natural number, an id that was
  never used, and a revision that can still grow.\<close>

definition mutation_ready :: "goal_session \<Rightarrow> int \<Rightarrow> goal_mutation \<Rightarrow> bool" where
  "mutation_ready x now m =
     (natural_int now
      \<and> (case goal_state (gx_log x) of
           Inl e \<Rightarrow> False
         | Inr st \<Rightarrow>
             (case gf_goal st of None \<Rightarrow> True | Some g \<Rightarrow> gs_revision g < MAX_SAFE_INTEGER)
             \<and> (case m of MCreate uuid request \<Rightarrow> ''goal-'' @ uuid \<notin> gf_seenGoalIds st | _ \<Rightarrow> True)))"

lemma outcome_viewed:
  assumes "outcome x (\<lambda>v. Q (snapshot_ref (gv_goal v))) (f y)"
  shows "outcome x Q (viewed f y)"
  using assms by (cases "f y") (auto simp: viewed_def outcome_def and_then_def pure_def split: sum.splits)

lemma expect_ok: "expectCurrent c ref = Inr g \<Longrightarrow> gf_goal (gc_state c) = Some g \<and> ref = snapshot_ref g"
  by (auto simp: expectCurrent_def snapshot_ref_def split: option.splits if_splits)

lemma expect_honest: "expectCurrent c ref = Inl e \<Longrightarrow> honest e"
  by (auto simp: expectCurrent_def split: option.splits if_splits)

lemma current_state: "current_cache y c \<Longrightarrow> gx_log y = gx_log x \<Longrightarrow> goal_state (gx_log x) = Inr (gc_state c)"
  by (simp add: current_cache_def)

lemma next_positive: "positive_int n \<Longrightarrow> n < MAX_SAFE_INTEGER \<Longrightarrow> positive_int (n + 1)"
  by (simp add: positive_int_def safe_int_def)

lemma outcome_current:
  assumes inv: "goal_inv x" and ready: "mutation_ready x now m"
    and k: "\<And>y c g. goal_inv y \<Longrightarrow> gx_log y = gx_log x \<Longrightarrow> current_cache y c \<Longrightarrow> gf_goal (gc_state c) = Some g \<Longrightarrow>
      valid_snapshot g \<Longrightarrow> ref = snapshot_ref g \<Longrightarrow> positive_int (gs_revision g + 1) \<Longrightarrow> natural_int now \<Longrightarrow>
      outcome x Q (f c g y)"
  shows "outcome x Q (and_then (prepareMutation live) (\<lambda>c. and_then (pure (expectCurrent c ref)) (f c)) x)"
proof (rule outcome_prepare [OF inv], rule outcome_pure)
  fix y c g assume y: "goal_inv y" "gx_log y = gx_log x" "current_cache y c" and "expectCurrent c ref = Inr g"
  then have g: "gf_goal (gc_state c) = Some g" "ref = snapshot_ref g" using expect_ok by blast+
  have st: "goal_state (gx_log x) = Inr (gc_state c)" by (rule current_state [OF y(3,2)])
  then have v: "valid_snapshot g" using goal_state_ok [OF st] g(1) by (simp add: goal_ok_def)
  moreover have "positive_int (gs_revision g + 1)"
    using next_positive v ready st g(1) by (simp add: mutation_ready_def valid_snapshot_def)
  moreover have "natural_int now" using ready by (simp add: mutation_ready_def)
  ultimately show "outcome x Q (f c g y)" using k y g by blast
qed (simp_all add: expect_honest)

subsection \<open>Each mutation\<close>

lemma withPhase_sel [simp]:
  "gs_id (withPhase g p) = gs_id g" "gs_revision (withPhase g p) = gs_revision g + 1"
  "gs_objective (withPhase g p) = gs_objective g" "gs_phase (withPhase g p) = p"
  "gs_blockedReason (withPhase g p) = None" "gs_maxGoalRounds (withPhase g p) = gs_maxGoalRounds g"
  by (simp_all add: withPhase_def)

lemma withPhase_valid:
  "valid_snapshot g \<Longrightarrow> positive_int (gs_revision g + 1) \<Longrightarrow> p \<noteq> PhaseBlocked \<Longrightarrow> valid_snapshot (withPhase g p)"
  by (simp add: valid_snapshot_def)

lemmas answers_simps = answers_def snapshot_ref_def

lemma and_then_value: "and_then (pure (Inr a)) f x = f a x"
  by (simp add: and_then_def pure_def)

lemma resolveMax_ok: "resolveMaxGoalRounds v = Inr n \<Longrightarrow> positive_int n"
  using safe_number_int [of v 1] by (auto simp: resolveMaxGoalRounds_def positive_int_def split: if_splits)

lemma resolveObjective_ok: "resolveObjective v = Inr s \<Longrightarrow> s \<noteq> [] \<and> js_trim s = s"
  by (auto simp: resolveObjective_def split: if_splits)

lemma resolve_honest:
  "resolveMaxGoalRounds v = Inl e \<Longrightarrow> honest e" "resolveObjective s = Inl e \<Longrightarrow> honest e"
  "resolveBlockReason j = Inl e \<Longrightarrow> honest e"
  by (auto simp: resolveMaxGoalRounds_def resolveObjective_def resolveBlockReason_def split: if_splits option.splits json.splits)

lemma resolveBlockReason_ok: "resolveBlockReason j = Inr r \<Longrightarrow> valid_reason r"
  by (auto simp: resolveBlockReason_def valid_reason_def split: if_splits option.splits json.splits)

lemma edited_ok:
  assumes "edited g r = Inr g'" "valid_snapshot g" "positive_int (gs_revision g + 1)"
  shows "valid_snapshot g' \<and> gs_id g' = gs_id g \<and> gs_revision g' = gs_revision g + 1
    \<and> gs_phase g' = gs_phase g \<and> gs_blockedReason g' = gs_blockedReason g"
  using assms by (auto simp: edited_def valid_snapshot_def dest: resolveMax_ok resolveObjective_ok split: option.splits)

lemma bind_honest: "bindE r f = Inl e \<Longrightarrow> (r = Inl e \<Longrightarrow> honest e) \<Longrightarrow> (\<And>a. f a = Inl e \<Longrightarrow> honest e) \<Longrightarrow> honest e"
  by (cases r) auto

lemma edited_honest: "edited g r = Inl e \<Longrightarrow> honest e"
  unfolding edited_def by (elim bind_honest) (auto simp: resolve_honest split: option.splits)

lemma edit_sound:
  assumes "goal_inv x" "mutation_ready x now m" "m = MEdit ref request"
  shows "outcome x (answers m) (mutate_goal live now cap m x)"
  unfolding assms(3) mutate_goal.simps edit_goal_def
proof (rule outcome_viewed, rule outcome_current [OF assms(1,2)], rule outcome_throw)
  fix y c g
  assume y: "goal_inv y" "gx_log y = gx_log x" "current_cache y c" and g: "gf_goal (gc_state c) = Some g"
    "valid_snapshot g" "ref = snapshot_ref g" "positive_int (gs_revision g + 1)" "natural_int now"
  show "outcome x (\<lambda>v. answers (MEdit ref request) (snapshot_ref (gv_goal v)))
      (and_then (pure (edited g request)) (\<lambda>g'. commitCurrent now c OpEdit g' (gc_activation c)) y)"
  proof (rule outcome_pure [OF y(1,2)])
    fix g' assume "edited g request = Inr g'"
    from edited_ok [OF this g(2,4)] show "outcome x (\<lambda>v. answers (MEdit ref request) (snapshot_ref (gv_goal v)))
        (commitCurrent now c OpEdit g' (gc_activation c) y)"
      by (intro current_committed [OF y g(1,5)]) (simp_all add: answers_simps g(3))
  qed (rule edited_honest)
qed simp_all

lemma transition_sound:
  assumes inv: "goal_inv x" and ready: "mutation_ready x now m" and p: "p \<noteq> PhaseBlocked"
    and m: "mutation_ref m = Some ref" "mutation_operation m = Some op" "op \<noteq> OpCreate"
    and step: "\<And>g rounds. gs_phase g \<in> allowed \<Longrightarrow> validateOperation op rounds g (withPhase g p) = Inr ()"
  shows "outcome x (answers m) (viewed (transition live now ref op allowed p a) x)"
  unfolding transition_def
proof (rule outcome_viewed, rule outcome_current [OF inv ready], rule outcome_throw)
  fix y c g
  assume y: "goal_inv y" "gx_log y = gx_log x" "current_cache y c" and g: "gf_goal (gc_state c) = Some g"
    "valid_snapshot g" "ref = snapshot_ref g" "positive_int (gs_revision g + 1)" "natural_int now"
    and phase: "\<not> gs_phase g \<notin> allowed"
  then show "outcome x (\<lambda>v. answers m (snapshot_ref (gv_goal v))) (commitCurrent now c op (withPhase g p) a y)"
    using m p by (intro current_committed [OF y g(1,5)]) (simp_all add: answers_simps withPhase_valid step)
qed simp_all

lemma resume_sound:
  assumes "goal_inv x" "mutation_ready x now m" "m = MResume ref"
  shows "outcome x (answers m) (mutate_goal live now cap m x)"
  unfolding assms(3) mutate_goal.simps resume_goal_def
proof (rule outcome_viewed, rule outcome_current [OF assms(1,2)], rule outcome_throw)
  fix y c g
  assume y: "goal_inv y" "gx_log y = gx_log x" "current_cache y c" and g: "gf_goal (gc_state c) = Some g"
    "valid_snapshot g" "ref = snapshot_ref g" "positive_int (gs_revision g + 1)" "natural_int now"
    and phase: "\<not> gs_phase g \<notin> {PhaseActive, PhasePaused, PhaseBlocked}"
  show "outcome x (\<lambda>v. answers (MResume ref) (snapshot_ref (gv_goal v)))
      (and_then (pure (throw_if (gs_phase g = PhaseActive \<and> gc_activation c = Armed) GoalInvalidTransition)) (\<lambda>_.
       and_then (pure (throw_if (gs_maxGoalRounds g \<le> gf_roundsStarted (gc_state c)) GoalInvalidTransition)) (\<lambda>_.
         commitCurrent now c OpResume (withPhase g PhaseActive) Armed)) y)"
  proof (rule outcome_throw [OF y(1,2)], simp, rule outcome_throw [OF y(1,2)], simp)
    assume "\<not> gs_maxGoalRounds g \<le> gf_roundsStarted (gc_state c)"
    then show "outcome x (\<lambda>v. answers (MResume ref) (snapshot_ref (gv_goal v)))
        (commitCurrent now c OpResume (withPhase g PhaseActive) Armed y)"
      using phase g by (intro current_committed [OF y g(1,5)])
        (simp_all add: answers_simps withPhase_valid requireSameDefinition_def)
  qed
qed simp_all

lemma block_sound:
  assumes "goal_inv x" "mutation_ready x now m" "m = MBlock ref reason"
  shows "outcome x (answers m) (mutate_goal live now cap m x)"
  unfolding assms(3) mutate_goal.simps block_goal_def
proof (rule outcome_viewed, rule outcome_current [OF assms(1,2)], rule outcome_throw)
  fix y c g
  assume y: "goal_inv y" "gx_log y = gx_log x" "current_cache y c" and g: "gf_goal (gc_state c) = Some g"
    "valid_snapshot g" "ref = snapshot_ref g" "positive_int (gs_revision g + 1)" "natural_int now"
    and phase: "\<not> gs_phase g \<noteq> PhaseActive"
  show "outcome x (\<lambda>v. answers (MBlock ref reason) (snapshot_ref (gv_goal v)))
      (and_then (pure (resolveBlockReason reason)) (\<lambda>r.
        commitCurrent now c OpBlock ((withPhase g PhaseBlocked)\<lparr>gs_blockedReason := Some r\<rparr>) Disarmed) y)"
  proof (rule outcome_pure [OF y(1,2)])
    fix r assume "resolveBlockReason reason = Inr r"
    then have "valid_snapshot ((withPhase g PhaseBlocked)\<lparr>gs_blockedReason := Some r\<rparr>)"
      using g(2,4) resolveBlockReason_ok by (simp add: valid_snapshot_def)
    then show "outcome x (\<lambda>v. answers (MBlock ref reason) (snapshot_ref (gv_goal v)))
        (commitCurrent now c OpBlock ((withPhase g PhaseBlocked)\<lparr>gs_blockedReason := Some r\<rparr>) Disarmed y)"
      using phase by (intro current_committed [OF y g(1,5)])
        (simp_all add: answers_simps g(3) requireSameDefinition_def)
  qed (rule resolve_honest)
qed simp_all

lemma clear_sound:
  assumes "goal_inv x" "mutation_ready x now m" "m = MClear ref"
  shows "outcome x (answers m) (mutate_goal live now cap m x)"
  unfolding assms(3) mutate_goal.simps clear_goal_def
proof (rule outcome_current [OF assms(1,2)])
  fix y c g
  assume y: "goal_inv y" "gx_log y = gx_log x" "current_cache y c" and g: "gf_goal (gc_state c) = Some g"
    "valid_snapshot g" "ref = snapshot_ref g" "positive_int (gs_revision g + 1)" "natural_int now"
  let ?r = "\<lparr>gr_id = gs_id g, gr_revision = gs_revision g + 1\<rparr>"
  have "goal_ok (gc_state c)" using current_state [OF y(3,2)] by (rule goal_state_ok)
  then obtain u where u: "gf_updatedAt (gc_state c) = Some u" "natural_int u" using g(1) by (auto simp: goal_ok_def)
  let ?t = "max now u"
  have t: "nextMutationTime now c = Inr ?t" using u(1) by (simp add: nextMutationTime_def)
  have v: "valid_change (ClearChange ?r ?t)" using g u(2) by (simp add: valid_snapshot_def max_def)
  let ?st = "(gc_state c)\<lparr>gf_goal := None, gf_roundsStarted := 0, gf_createdAt := None, gf_updatedAt := None, gf_lastRef := Some ?r\<rparr>"
  have ap: "applyGoalChange (gc_state c) (ClearChange ?r ?t) = Inr ?st"
    using g(1) u(1) by (simp add: requireNextRevision_def)
  have "outcome x (answers (MClear ref)) (and_then (commit_change now c (ClearChange ?r ?t) Disarmed) (\<lambda>c'.
      and_then (pure (view c')) (\<lambda>_. pure (Inr ?r))) y)"
    by (rule outcome_commit [OF y v ap]) (simp add: view_def and_then_def pure_def answers_def g(3) snapshot_ref_def)
  then show "outcome x (answers (MClear ref)) (and_then (pure (nextMutationTime now c)) (\<lambda>t.
      let tombstone = ?r in and_then (commit_change now c (ClearChange tombstone t) Disarmed) (\<lambda>c'.
        and_then (pure (view c')) (\<lambda>_. pure (Inr tombstone)))) y)"
    by (simp add: t Let_def and_then_value)
qed

lemma create_sound:
  assumes "goal_inv x" "mutation_ready x now m" "m = MCreate uuid request"
  shows "outcome x (answers m) (mutate_goal live now cap m x)"
proof -
  let ?Q = "\<lambda>v. answers (MCreate uuid request) (snapshot_ref (gv_goal v))"
  have "outcome x ?Q (create_goal live now uuid cap request x)"
    unfolding create_goal_def
  proof (rule outcome_pure [OF assms(1) refl])
    fix e assume "resolveCreateGoal request cap = Inl e"
    then show "honest e" by (auto simp: resolveCreateGoal_def bindE_eq_Inl resolve_honest)
  next
    fix p assume p: "resolveCreateGoal request cap = Inr p"
    obtain objective n where on: "p = (objective, n)" "objective \<noteq> []" "js_trim objective = objective" "positive_int n"
      using p by (auto simp: resolveCreateGoal_def dest: resolveObjective_ok resolveMax_ok)
    let ?g = "\<lparr>gs_id = ''goal-'' @ uuid, gs_revision = 1, gs_objective = objective, gs_phase = PhaseActive,
       gs_blockedReason = None, gs_maxGoalRounds = n\<rparr>"
    let ?ch = "\<lparr>sc_operation = OpCreate, sc_goal = ?g, sc_roundsStarted = 0, sc_createdAt = now, sc_updatedAt = now\<rparr>"
    show "outcome x ?Q ((case p of (objective, cap) \<Rightarrow>
        and_then (prepareMutation live) (\<lambda>c.
        and_then (pure (throw_if (case gf_goal (gc_state c) of None \<Rightarrow> False | Some g \<Rightarrow> gs_phase g \<noteq> PhaseComplete)
           GoalAlreadyExists)) (\<lambda>_.
         commitSnapshot now c OpCreate
           \<lparr>gs_id = ''goal-'' @ uuid, gs_revision = 1, gs_objective = objective, gs_phase = PhaseActive,
            gs_blockedReason = None, gs_maxGoalRounds = cap\<rparr> 0 now now Armed))) x)"
      unfolding on(1) prod.case
    proof (rule outcome_prepare [OF assms(1)], rule outcome_throw)
      fix y c
      assume y: "goal_inv y" "gx_log y = gx_log x" "current_cache y c"
        and free: "\<not> (case gf_goal (gc_state c) of None \<Rightarrow> False | Some g \<Rightarrow> gs_phase g \<noteq> PhaseComplete)"
      have ready: "natural_int now" "''goal-'' @ uuid \<notin> gf_seenGoalIds (gc_state c)"
        using assms(2,3) current_state [OF y(3,2)] by (simp_all add: mutation_ready_def)
      have v: "valid_change (SnapshotChange ?ch)"
        using on(2-4) ready(1) by (simp add: valid_snapshot_def positive_int_def natural_int_def)
      have ap: "applyGoalChange (gc_state c) (SnapshotChange ?ch)
          = Inr (install_snapshot ((gc_state c)\<lparr>gf_seenGoalIds := insert (''goal-'' @ uuid) (gf_seenGoalIds (gc_state c))\<rparr>) ?ch)"
        using free ready(2) by (simp add: create_fresh_def split: option.splits)
      show "outcome x ?Q (commitSnapshot now c OpCreate ?g 0 now now Armed y)"
        by (rule snapshot_committed [OF y v ap]) (simp_all add: answers_simps)
    qed simp_all
  qed
  then show ?thesis unfolding assms(3) mutate_goal.simps remoteExportCreate_def
    by (rule outcome_viewed [unfolded viewed_def])
qed

lemma mutation_sound:
  assumes "goal_inv x" "mutation_ready x now m"
  shows "outcome x (answers m) (mutate_goal live now cap m x)"
proof (cases m)
  case (MPause ref)
  have "outcome x (answers m) (viewed (transition live now ref OpPause {PhaseActive} PhasePaused Disarmed) x)"
    by (rule transition_sound [OF assms]) (simp_all add: MPause requireSameDefinition_def)
  then show ?thesis by (simp add: MPause pause_goal_def)
next
  case (MComplete ref)
  have "outcome x (answers m)
      (viewed (transition live now ref OpComplete {PhaseActive, PhasePaused, PhaseBlocked} PhaseComplete Disarmed) x)"
    by (rule transition_sound [OF assms]) (auto simp: MComplete requireSameDefinition_def)
  then show ?thesis by (simp add: MComplete complete_goal_def)
next
  case (MCreate uuid request) then show ?thesis by (rule create_sound [OF assms])
next
  case (MEdit ref request) then show ?thesis by (rule edit_sound [OF assms])
next
  case (MResume ref) then show ?thesis by (rule resume_sound [OF assms])
next
  case (MBlock ref reason) then show ?thesis by (rule block_sound [OF assms])
next
  case (MClear ref) then show ?thesis by (rule clear_sound [OF assms])
qed

text \<open>
  C28: every goal mutation, on a session whose log the strict fold accepts, either
  rejects with one of its documented errors and leaves the log alone, or appends exactly one change
  event, which the strict fold accepts as the transition the mutation names and whose reference, the
  one returned, is the successor of the caller's. The cache stays the fold of the log.
\<close>

theorem goal_mutation_sound:
  assumes "goal_inv x" "mutation_ready x now m"
  shows "outcome x (answers m) (mutate_goal live now cap m x)"
  by (rule mutation_sound [OF assms])

subsection \<open>Compare and set\<close>

text \<open>A reference that is used up: its goal was seen, and where it is current the revision has moved on.\<close>

definition superseded :: "goal_fold \<Rightarrow> goal_ref \<Rightarrow> bool" where
  "superseded st r =
     (gr_id r \<in> gf_seenGoalIds st
      \<and> (case gf_goal st of None \<Rightarrow> True | Some g \<Rightarrow> gs_id g = gr_id r \<longrightarrow> gr_revision r < gs_revision g))"

lemma superseded_step:
  assumes "superseded st r" "applyGoalEvent st e = Inr st'"
  shows "superseded st' r"
  using assms(2)
proof (cases rule: apply_event_cases)
  case (changed v c)
  from changed(4) show ?thesis
    by (cases rule: apply_change_cases)
      (use assms(1) in \<open>auto simp: superseded_def create_fresh_def split: option.splits\<close>)
qed (use assms(1) in \<open>simp_all add: superseded_def\<close>)

lemma superseded_fold: "superseded st r \<Longrightarrow> foldE applyGoalEvent st es = Inr st' \<Longrightarrow> superseded st' r"
  by (induction es arbitrary: st) (auto dest: superseded_step)

text \<open>A change whose reference is the successor of another took that one's place.\<close>

lemma successor_supersedes:
  assumes ok: "goal_ok st" and ap: "applyGoalChange st ch = Inr st'" and op: "change_operation ch \<noteq> Some OpCreate"
    and n: "gr_id (goalChangeRef ch) = gr_id r" "gr_revision (goalChangeRef ch) = gr_revision r + 1"
  shows "(\<exists>g. gf_goal st = Some g \<and> snapshot_ref g = r) \<and> superseded st' r"
  using ap
proof (cases rule: apply_change_cases)
  case (cleared g t u)
  then show ?thesis using ok n by (auto simp: superseded_def goal_ok_def snapshot_ref_def)
next
  case (created c)
  then show ?thesis using op by simp
next
  case (updated c g u)
  then show ?thesis using ok n by (auto simp: superseded_def goal_ok_def snapshot_ref_def)
qed

definition refused :: "goal_error \<Rightarrow> bool" where
  "refused e = (e = GoalAgentNotLive \<or> e = GoalNotFound \<or> e = GoalStaleRevision)"

lemma stale_current:
  assumes inv: "goal_inv z" and st: "goal_state (gx_log z) = Inr st" and r: "superseded st r"
  shows "\<exists>w e. and_then (prepareMutation live) (\<lambda>c. and_then (pure (expectCurrent c r)) (f c)) z = (w, Inl e)
    \<and> gx_log w = gx_log z \<and> refused e"
proof (cases live)
  case True
  obtain y c where y: "prepareMutation True z = (y, Inr c)" "gx_session y = gx_session z" "current_cache y c"
    by (rule prepare_ok [OF inv])
  then have "superseded (gc_state c) r" using st r by (simp add: current_cache_def gx_log_def)
  then obtain e where "expectCurrent c r = Inl e" "refused e"
    by (auto simp: superseded_def expectCurrent_def refused_def split: option.splits)
  then show ?thesis using True y(1,2) by (simp add: and_then_def pure_def gx_log_def)
qed (simp add: and_then_def prepare_dead refused_def)

lemma stale_rejected:
  assumes "goal_inv z" "goal_state (gx_log z) = Inr st" "superseded st r" "mutation_ref m = Some r"
  shows "\<exists>w e. mutate_goal live now cap m z = (w, Inl e) \<and> gx_log w = gx_log z \<and> refused e"
proof -
  note stale = stale_current [OF assms(1-3), of live]
  have viewed: "\<exists>w e. viewed (and_then (prepareMutation live) (\<lambda>c. and_then (pure (expectCurrent c r)) (f c))) z = (w, Inl e)
      \<and> gx_log w = gx_log z \<and> refused e" for f
    using stale [of f] by (auto simp: viewed_def and_then_def [of _ "\<lambda>v. pure (Inr (snapshot_ref (gv_goal v)))"])
  show ?thesis using assms(4)
    by (cases m) (simp_all add: edit_goal_def pause_goal_def resume_goal_def complete_goal_def block_goal_def
        clear_goal_def transition_def viewed stale)
qed

text \<open>
  C29: a mutation that carries a reference succeeds only if that reference names
  the current goal and revision, and it uses the reference up: on every session whose log extends the
  one it left, any later mutation with the same reference is refused and appends nothing.
\<close>

theorem goal_compare_and_set:
  assumes "goal_inv x" "mutation_ready x now m" "mutation_ref m = Some r"
    and "mutate_goal live now cap m x = (y, Inr r')"
    and "goal_inv z" "gx_log z = gx_log y @ later" "mutation_ref m' = Some r"
  shows "(\<exists>st g. goal_state (gx_log x) = Inr st \<and> gf_goal st = Some g \<and> snapshot_ref g = r)
    \<and> (\<exists>w e. mutate_goal live' now' cap' m' z = (w, Inl e) \<and> gx_log w = gx_log z \<and> refused e)"
proof -
  obtain ch where ch: "one_change x y ch" "answers m r' ch"
    using mutation_sound [OF assms(1,2), of live cap] by (auto simp: assms(4) outcome_def)
  then obtain st st1 where st: "goal_state (gx_log x) = Inr st" "applyGoalChange st ch = Inr st1"
      "goal_state (gx_log y) = Inr st1" by (auto simp: one_change_def)
  have "mutation_operation m \<noteq> Some OpCreate" using assms(3) by (cases m) simp_all
  then have "change_operation ch \<noteq> Some OpCreate" "gr_id (goalChangeRef ch) = gr_id r"
      "gr_revision (goalChangeRef ch) = gr_revision r + 1" using ch(2) assms(3) by (auto simp: answers_def)
  note used = successor_supersedes [OF goal_state_ok [OF st(1)] st(2) this]
  obtain st2 where st2: "goal_state (gx_log z) = Inr st2" "foldE applyGoalEvent st1 later = Inr st2"
    using assms(5,6) st(3) by (auto simp: goal_inv_def is_ok_iff gx_log_def goal_state_append)
  have "superseded st2 r" using superseded_fold used st2(2) by blast
  then show ?thesis using used st(1) stale_rejected [OF assms(5) st2(1) _ assms(7)] by blast
qed

subsection \<open>Concrete sessions\<close>

definition demo_goals :: "session \<Rightarrow> goal_mutation list \<Rightarrow> goal_session" where
  "demo_goals s ms = foldl (\<lambda>x m. fst (mutate_goal True 20 3 m x)) \<lparr>gx_session = s, gx_cache = None\<rparr> ms"

definition demo_create :: goal_mutation where
  "demo_create = MCreate ''u1'' \<lparr>cq_objective = '' ship it '', cq_maxGoalRounds = None\<rparr>"

definition demo_ref :: goal_ref where
  "demo_ref = \<lparr>gr_id = ''goal-u1'', gr_revision = 1\<rparr>"

definition demo_edit :: goal_mutation where
  "demo_edit = MEdit demo_ref \<lparr>eq_objective = Some ''test it'', eq_maxGoalRounds = None\<rparr>"

lemma demo_runs:
  "case newSession SnapshotSeed ''s1'' None None 9 of Inl e \<Rightarrow> False
   | Inr s \<Rightarrow> ses_log s = [] \<and> mutation_ready (demo_goals s []) 20 demo_create
      \<and> is_ok (snd (mutate_goal True 20 3 demo_create (demo_goals s [])))
      \<and> mutation_ready (demo_goals s [demo_create]) 21 demo_edit
      \<and> is_ok (snd (mutate_goal True 21 3 demo_edit (demo_goals s [demo_create])))"
  by code_simp

lemma demo_inv:
  assumes "newSession SnapshotSeed ''s1'' None None 9 = Inr s" "ses_log s = []"
  shows "goal_inv (demo_goals s [])"
  using newSession_inv(1) [OF assms(1)] assms(2) by (simp add: demo_goals_def goal_inv_def)

text \<open>The demo session, its creation and the edit of the created goal.\<close>

lemma demo_steps:
  obtains s x y r r' where "newSession SnapshotSeed ''s1'' None None 9 = Inr s"
    "x = demo_goals s [demo_create]" "goal_inv (demo_goals s [])" "mutation_ready (demo_goals s []) 20 demo_create"
    "mutate_goal True 20 3 demo_create (demo_goals s []) = (x, Inr r)"
    "goal_inv x" "mutation_ready x 21 demo_edit" "mutate_goal True 21 3 demo_edit x = (y, Inr r')" "goal_inv y"
proof -
  obtain s where s: "newSession SnapshotSeed ''s1'' None None 9 = Inr s"
    using demo_runs by (cases "newSession SnapshotSeed ''s1'' None None 9") auto
  define x0 where "x0 = demo_goals s []"
  have run: "ses_log s = []" "mutation_ready x0 20 demo_create" "is_ok (snd (mutate_goal True 20 3 demo_create x0))"
      "mutation_ready (demo_goals s [demo_create]) 21 demo_edit"
      "is_ok (snd (mutate_goal True 21 3 demo_edit (demo_goals s [demo_create])))"
    using demo_runs by (simp_all only: s sum.case x0_def)
  have inv0: "goal_inv x0" unfolding x0_def by (rule demo_inv [OF s run(1)])
  obtain x r where x: "mutate_goal True 20 3 demo_create x0 = (x, Inr r)"
    using run(3) by (cases "mutate_goal True 20 3 demo_create x0") (auto simp: is_ok_iff)
  have xd: "x = demo_goals s [demo_create]" using x by (simp add: demo_goals_def x0_def del: mutate_goal.simps)
  obtain y r' where y: "mutate_goal True 21 3 demo_edit x = (y, Inr r')"
    using run(5) xd by (cases "mutate_goal True 21 3 demo_edit x") (auto simp: is_ok_iff simp del: mutate_goal.simps)
  have invx: "goal_inv x" using mutation_sound [OF inv0 run(2), of True 3] by (simp add: x outcome_def)
  have "goal_inv y" using mutation_sound [OF invx run(4) [folded xd], of True 3] by (simp add: y outcome_def)
  then show thesis using that [of s x r y r'] s xd inv0 run(2,4) x invx y by (simp add: x0_def)
qed

theorem goal_mutation_sound_witness:
  "\<exists>s x r. newSession SnapshotSeed ''s1'' None None 9 = Inr s
    \<and> mutate_goal True 20 3 demo_create (demo_goals s []) = (x, Inr r)
    \<and> outcome (demo_goals s []) (answers demo_create) (x, Inr r)"
proof (rule demo_steps)
  fix s x r
  assume s: "newSession SnapshotSeed ''s1'' None None 9 = Inr s" and i: "goal_inv (demo_goals s [])"
    "mutation_ready (demo_goals s []) 20 demo_create"
    and x: "mutate_goal True 20 3 demo_create (demo_goals s []) = (x, Inr r)"
  show ?thesis using goal_mutation_sound [OF i, of True 3] s unfolding x by (intro exI conjI) (rule s, rule x, assumption)
qed

theorem goal_compare_and_set_witness:
  "\<exists>s y r' w e. newSession SnapshotSeed ''s1'' None None 9 = Inr s
    \<and> mutate_goal True 21 3 demo_edit (demo_goals s [demo_create]) = (y, Inr r')
    \<and> mutate_goal True 22 3 (MPause demo_ref) y = (w, Inl e) \<and> gx_log w = gx_log y \<and> refused e"
proof (rule demo_steps)
  fix s x y r'
  assume s: "newSession SnapshotSeed ''s1'' None None 9 = Inr s" and xd: "x = demo_goals s [demo_create]"
    and x: "goal_inv x" "mutation_ready x 21 demo_edit" and y: "mutate_goal True 21 3 demo_edit x = (y, Inr r')" "goal_inv y"
  have "mutation_ref demo_edit = Some demo_ref" "mutation_ref (MPause demo_ref) = Some demo_ref"
    by (simp_all add: demo_edit_def)
  from goal_compare_and_set [OF x this(1) y, of "[]" _ True 22 3, OF _ this(2)]
  show ?thesis using s y(1) unfolding xd by (metis append_Nil2)
qed

end
