(* ===== verification/Llm_Stream.thy ===== *)
theory Llm_Stream
  imports Block_Assembler
begin

text \<open>
  The provider-stream grammar the LLM invariant enforces (\<open>llm/llm/src/invariant.ts\<close>) against what
  the assembler makes of an accepted stream.
\<close>

subsection \<open>The monitor\<close>

record stream_monitor =
  sm_open :: "int \<rightharpoonup> string"
  sm_usageSeen :: bool
  sm_finished :: bool

definition new_monitor :: stream_monitor where
  "new_monitor = \<lparr>sm_open = Map.empty, sm_usageSeen = False, sm_finished = False\<rparr>"

datatype stream_violation =
    AfterFinish | BadIndex int | RepeatedStart int | WrongDelta int | NoOpenBlock int
  | WrongClose int | RepeatedUsage | OpenAtFinish | NoFinish

definition validateIndex :: "int \<Rightarrow> (stream_violation, unit) result" where
  "validateIndex i = throw_if (\<not> safe_int i \<or> i < 0) (BadIndex i)"

definition validateDelta :: "stream_monitor \<Rightarrow> int \<Rightarrow> string \<Rightarrow> (stream_violation, unit) result" where
  "validateDelta m i expected =
     bindE (validateIndex i) (\<lambda>_. throw_if (sm_open m i \<noteq> Some expected) (WrongDelta i))"

fun finish_failed :: "finish_reason \<Rightarrow> bool" where
  "finish_failed (FinishError _) = True"
| "finish_failed (FinishAborted _) = True"
| "finish_failed _ = False"

fun validateByChunk :: "stream_monitor \<Rightarrow> stream_chunk \<Rightarrow> (stream_violation, stream_monitor) result" where
  "validateByChunk m (BlockStart i t) =
     bindE (validateIndex i) (\<lambda>_.
     bindE (throw_if (sm_open m i \<noteq> None) (RepeatedStart i)) (\<lambda>_.
       Inr (m\<lparr>sm_open := (sm_open m)(i \<mapsto> t)\<rparr>)))"
| "validateByChunk m (TextDelta i _) = bindE (validateDelta m i ''text'') (\<lambda>_. Inr m)"
| "validateByChunk m (ReasoningDelta i _) = bindE (validateDelta m i ''reasoning'') (\<lambda>_. Inr m)"
| "validateByChunk m (ToolCallDelta i _ _ _) = bindE (validateDelta m i ''tool-call'') (\<lambda>_. Inr m)"
| "validateByChunk m (BlockEnd i b) =
     bindE (validateIndex i) (\<lambda>_.
     (case sm_open m i of
        None \<Rightarrow> Inl (NoOpenBlock i)
      | Some t \<Rightarrow>
          bindE (throw_if (block_type b \<noteq> t) (WrongClose i)) (\<lambda>_.
            Inr (m\<lparr>sm_open := (sm_open m)(i := None)\<rparr>))))"
| "validateByChunk m (UsageChunk _) =
     bindE (throw_if (sm_usageSeen m) RepeatedUsage) (\<lambda>_. Inr (m\<lparr>sm_usageSeen := True\<rparr>))"
| "validateByChunk m (FinishChunk r _) =
     bindE (throw_if (sm_open m \<noteq> Map.empty \<and> \<not> finish_failed r) OpenAtFinish) (\<lambda>_.
       Inr (m\<lparr>sm_finished := True\<rparr>))"

definition validateChunk :: "stream_monitor \<Rightarrow> stream_chunk \<Rightarrow> (stream_violation, stream_monitor) result" where
  "validateChunk m c = bindE (throw_if (sm_finished m) AfterFinish) (\<lambda>_. validateByChunk m c)"

definition validateStream :: "stream_chunk list \<Rightarrow> (stream_violation, stream_monitor) result" where
  "validateStream cs =
     bindE (foldE validateChunk new_monitor cs) (\<lambda>m.
       bindE (throw_if (\<not> sm_finished m) NoFinish) (\<lambda>_. Inr m))"

subsection \<open>What the monitor's state says about the stream\<close>

text \<open>
  An index that has been seen is open under the type of its first chunk, or has been closed by a
  block of that type.
\<close>

definition monitor_sync :: "stream_chunk list \<Rightarrow> stream_monitor \<Rightarrow> bool" where
  "monitor_sync cs m =
     (\<forall>i. (own_chunks i cs = [] \<longrightarrow> sm_open m i = None)
        \<and> (own_chunks i cs \<noteq> [] \<longrightarrow> first_end (own_chunks i cs) = None
             \<longrightarrow> sm_open m i = Some (chunk_type (hd (own_chunks i cs))))
        \<and> (\<forall>b. first_end (own_chunks i cs) = Some b \<longrightarrow> block_type b = chunk_type (hd (own_chunks i cs))))"

lemma monitor_fold_snoc:
  "foldE validateChunk m (cs @ [c]) = bindE (foldE validateChunk m cs) (\<lambda>m'. validateChunk m' c)"
  by (cases "foldE validateChunk m cs"; cases "validateChunk (projr (foldE validateChunk m cs)) c")
    (simp_all add: foldE_append)

lemma monitor_step_sync:
  assumes sync: "monitor_sync cs m" and step: "validateChunk m c = Inr m'"
  shows "monitor_sync (cs @ [c]) m'"
proof -
  have "(own_chunks i (cs @ [c]) = [] \<longrightarrow> sm_open m' i = None)
      \<and> (own_chunks i (cs @ [c]) \<noteq> [] \<longrightarrow> first_end (own_chunks i (cs @ [c])) = None
           \<longrightarrow> sm_open m' i = Some (chunk_type (hd (own_chunks i (cs @ [c])))))
      \<and> (\<forall>b. first_end (own_chunks i (cs @ [c])) = Some b
           \<longrightarrow> block_type b = chunk_type (hd (own_chunks i (cs @ [c]))))" for i
  proof -
    from sync have i: "own_chunks i cs = [] \<longrightarrow> sm_open m i = None"
      "own_chunks i cs \<noteq> [] \<and> first_end (own_chunks i cs) = None
         \<longrightarrow> sm_open m i = Some (chunk_type (hd (own_chunks i cs)))"
      "\<forall>b. first_end (own_chunks i cs) = Some b \<longrightarrow> block_type b = chunk_type (hd (own_chunks i cs))"
      by (simp_all add: monitor_sync_def)
    show ?thesis using step i
      by (cases c; cases "own_chunks i cs = []")
        (auto simp: validateChunk_def validateDelta_def own_chunks_snoc first_end_snoc
          hd_append split: if_splits option.splits)
  qed
  then show ?thesis by (simp add: monitor_sync_def)
qed

lemma monitor_sync_fold:
  "foldE validateChunk new_monitor cs = Inr m \<Longrightarrow> monitor_sync cs m"
proof (induction cs arbitrary: m rule: rev_induct)
  case Nil
  then show ?case by (auto simp: monitor_sync_def new_monitor_def own_chunks_def)
next
  case (snoc c cs)
  then obtain m0 where "foldE validateChunk new_monitor cs = Inr m0" "validateChunk m0 c = Inr m"
    by (auto simp: monitor_fold_snoc)
  with snoc.IH show ?case by (blast intro: monitor_step_sync)
qed

text \<open>After a terminal finish that is no failure, nothing is open.\<close>

lemma finished_closed:
  assumes "foldE validateChunk new_monitor cs = Inr m" "sm_finished m"
  shows "\<exists>r. last_some finish_chunk cs = Some r \<and> (finish_failed r \<or> sm_open m = Map.empty)"
  using assms
proof (induction cs arbitrary: m rule: rev_induct)
  case Nil
  then show ?case by (auto simp: new_monitor_def)
next
  case (snoc c cs)
  then obtain m0 where "validateChunk m0 c = Inr m" by (auto simp: monitor_fold_snoc)
  with snoc.prems(2) show ?case
    by (cases c) (auto simp: validateChunk_def validateDelta_def last_some_snoc split: option.splits if_splits)
qed

lemma accepted_closed:
  assumes v: "validateStream cs = Inr m" and f: "last_some finish_chunk cs = Some r" "\<not> finish_failed r"
    and i: "i \<in> set (seen_indexes cs)"
  shows "\<exists>b. first_end (own_chunks i cs) = Some b \<and> block_type b = chunk_type (hd (own_chunks i cs))"
proof -
  from v have m: "foldE validateChunk new_monitor cs = Inr m" "sm_finished m"
    by (auto simp: validateStream_def)
  have "sm_open m = Map.empty" using finished_closed [OF m] f by simp
  moreover have "own_chunks i cs \<noteq> []" using i by (auto simp: seen_indexes_def dest: first_seen_own)
  ultimately show ?thesis using monitor_sync_fold [OF m(1)]
    by (cases "first_end (own_chunks i cs)") (auto simp: monitor_sync_def)
qed

lemma all_ok_map: "(\<And>x. x \<in> set xs \<Longrightarrow> f x = Inr (g x)) \<Longrightarrow> all_ok (map f xs) = Inr (map g xs)"
  by (induction xs) simp_all

text \<open>
  C22: a stream the grammar accepts and that finishes without failure always
  assembles. Every block seen was closed, the message holds exactly the blocks their first
  \<open>block-end\<close> carried, in order of first appearance, each of the type its first chunk announced; a
  stream cut by the token limit keeps all but the tool calls.
\<close>

theorem accepted_stream_assembles:
  assumes "validateStream cs = Inr m" "last_some finish_chunk cs = Some r" "\<not> finish_failed r"
  shows "blocks (foldl push_chunk new_assembler cs) =
      Inr (executable_blocks cs (map (\<lambda>i. the (first_end (own_chunks i cs))) (seen_indexes cs)))
    \<and> (\<forall>i \<in> set (seen_indexes cs). \<exists>b. first_end (own_chunks i cs) = Some b
        \<and> block_type b = chunk_type (hd (own_chunks i cs)))"
proof -
  note closed = accepted_closed [OF assms]
  have "all_ok (map (\<lambda>i. block_of i (own_chunks i cs)) (seen_indexes cs))
      = Inr (map (\<lambda>i. the (first_end (own_chunks i cs))) (seen_indexes cs))"
    by (rule all_ok_map) (use closed in \<open>fastforce simp: block_of_def\<close>)
  then show ?thesis using closed assembler_blocks [of cs] by simp
qed

definition demo_stream :: "stream_chunk list" where
  "demo_stream = [BlockStart 0 ''text'', TextDelta 0 ''he'', BlockStart 1 ''tool-call'',
     ToolCallDelta 1 ''c1'' (Some ''read'') ''{'', TextDelta 0 ''y'', BlockEnd 0 (TextBlock ''hey''),
     BlockEnd 1 (ToolCallBlock ''c1'' ''read'' ''{}''), FinishChunk FinishToolCalls None]"

lemma demo_stream_accepted: "case validateStream demo_stream of Inl _ \<Rightarrow> False | Inr m \<Rightarrow> sm_finished m"
  by (simp add: demo_stream_def validateStream_def validateChunk_def validateDelta_def validateIndex_def
      new_monitor_def safe_int_def MAX_SAFE_INTEGER_def)

theorem accepted_stream_assembles_witness:
  "blocks (foldl push_chunk new_assembler demo_stream)
    = Inr [TextBlock ''hey'', ToolCallBlock ''c1'' ''read'' ''{}'']"
proof -
  obtain m where m: "validateStream demo_stream = Inr m"
    using demo_stream_accepted by (cases "validateStream demo_stream") auto
  have f: "last_some finish_chunk demo_stream = Some FinishToolCalls" by (simp add: demo_stream_def)
  from accepted_stream_assembles [OF m f] show ?thesis
    by (simp add: demo_stream_def executable_blocks_def seen_indexes_def own_chunks_def first_end_def)
qed

subsection \<open>A reused index\<close>

lemma accepted_index:
  "foldE validateChunk m cs = Inr m' \<Longrightarrow> c \<in> set cs \<Longrightarrow> chunk_index c = Some i \<Longrightarrow> validateIndex i = Inr ()"
proof (induction cs arbitrary: m)
  case (Cons d cs)
  then obtain m1 where m1: "validateChunk m d = Inr m1" "foldE validateChunk m1 cs = Inr m'" by auto
  show ?case
  proof (cases "c = d")
    case True
    with m1(1) Cons.prems(3) show ?thesis
      by (cases d) (auto simp: validateChunk_def validateDelta_def)
  next
    case False
    with Cons.prems Cons.IH [OF m1(2)] show ?thesis by simp
  qed
qed simp

lemma first_end_closed: "first_end xs = Some b \<Longrightarrow> first_end (xs @ ys) = Some b"
  by (induction ys rule: rev_induct) (simp_all add: first_end_snoc append_assoc [symmetric] del: append_assoc)

lemma seen_indexes_known:
  "chunk_index c = Some i \<Longrightarrow> own_chunks i cs \<noteq> [] \<Longrightarrow> seen_indexes (cs @ [c]) = seen_indexes cs"
  by (simp add: seen_indexes_def first_seen_snoc)

definition text_block_chunks :: "int \<Rightarrow> string \<Rightarrow> stream_chunk list" where
  "text_block_chunks i t = [BlockStart i ''text'', TextDelta i t, BlockEnd i (TextBlock t)]"

text \<open>
  The grammar lets a provider reuse the index of a block it has closed, and
  the assembler then drops the new block. If a stream is accepted, inserting before its finish a
  complete text block under an index it has used already is accepted as well, and the assembled
  message does not change.
\<close>

theorem reused_index_dropped:
  assumes "validateStream (cs @ [FinishChunk FinishStop None]) = Inr m" "i \<in> set (seen_indexes cs)"
  shows "is_ok (validateStream (cs @ text_block_chunks i t @ [FinishChunk FinishStop None]))
    \<and> blocks (foldl push_chunk new_assembler (cs @ text_block_chunks i t @ [FinishChunk FinishStop None]))
      = blocks (foldl push_chunk new_assembler (cs @ [FinishChunk FinishStop None]))"
proof -
  have own: "own_chunks i cs \<noteq> []" using assms(2) by (auto simp: seen_indexes_def dest: first_seen_own)
  from assms(1) obtain m0 where m0: "foldE validateChunk new_monitor cs = Inr m0"
    and fin: "\<not> sm_finished m0" "sm_open m0 = Map.empty"
    by (auto simp: validateStream_def monitor_fold_snoc validateChunk_def)
  from own obtain c where c: "c \<in> set cs" "chunk_index c = Some i"
    by (auto simp: own_chunks_def filter_empty_conv)
  have vi: "validateIndex i = Inr ()" by (rule accepted_index [OF m0 c])
  have acc: "is_ok (validateStream (cs @ text_block_chunks i t @ [FinishChunk FinishStop None]))"
    by (simp add: validateStream_def foldE_append m0 text_block_chunks_def validateChunk_def validateDelta_def
        fin vi)
  from own fin monitor_sync_fold [OF m0] obtain b where b: "first_end (own_chunks i cs) = Some b"
    by (cases "first_end (own_chunks i cs)") (auto simp: monitor_sync_def)
  have three: "cs @ text_block_chunks i t =
      ((cs @ [BlockStart i ''text'']) @ [TextDelta i t]) @ [BlockEnd i (TextBlock t)]"
    by (simp add: text_block_chunks_def)
  have seen: "seen_indexes (cs @ text_block_chunks i t) = seen_indexes cs"
    unfolding three using own by (simp only: seen_indexes_known chunk_index.simps own_chunks_snoc append_is_Nil_conv simp_thms)
  have own_all: "own_chunks j (cs @ text_block_chunks i t) = own_chunks j cs @ (if j = i then text_block_chunks i t else [])" for j
    by (simp add: own_chunks_def text_block_chunks_def)
  have block: "block_of j (own_chunks j (cs @ text_block_chunks i t)) = block_of j (own_chunks j cs)" for j
    using b by (cases "j = i") (simp_all add: own_all block_of_def first_end_closed)
  have fin_seen: "seen_indexes (xs @ [FinishChunk FinishStop None]) = seen_indexes xs"
    "own_chunks j (xs @ [FinishChunk FinishStop None]) = own_chunks j xs"
    "executable_blocks (xs @ [FinishChunk FinishStop None]) bs = bs" for xs j bs
    by (simp_all add: seen_indexes_def first_seen_snoc own_chunks_snoc executable_blocks_def last_some_snoc)
  have "blocks (foldl push_chunk new_assembler ((cs @ text_block_chunks i t) @ [FinishChunk FinishStop None]))
      = blocks (foldl push_chunk new_assembler (cs @ [FinishChunk FinishStop None]))"
    unfolding assembler_blocks fin_seen seen block ..
  then show ?thesis using acc by simp
qed

theorem reused_index_dropped_witness:
  "is_ok (validateStream ([BlockStart 0 ''text'', BlockEnd 0 (TextBlock ''a'')]
      @ text_block_chunks 0 ''b'' @ [FinishChunk FinishStop None]))"
proof -
  let ?cs = "[BlockStart 0 ''text'', BlockEnd 0 (TextBlock ''a'')]"
  have "is_ok (validateStream (?cs @ [FinishChunk FinishStop None]))"
    by (simp add: validateStream_def validateChunk_def validateIndex_def new_monitor_def safe_int_def
        MAX_SAFE_INTEGER_def fun_eq_iff)
  then obtain m where m: "validateStream (?cs @ [FinishChunk FinishStop None]) = Inr m"
    by (auto simp: is_ok_iff)
  have "0 \<in> set (seen_indexes ?cs)" by (simp add: seen_indexes_def)
  from reused_index_dropped [OF m this, of "''b''"] show ?thesis by blast
qed

end
