(* ===== verification/Runtime_Context_Facts.thy ===== *)
theory Runtime_Context_Facts
  imports Runtime_Context
begin

text \<open>
  The projection never believes in a snapshot the conversation does not show: what it retains while
  following the log is what a fresh projection restores from it.
\<close>

subsection \<open>One more event on the surface\<close>

text \<open>An event keeps the nodes it does not cite, and adds its own seq at most.\<close>

lemma commit_nodes:
  assumes p: "planSurfaceEvent st e k es b = Inr plan"
  shows "set (nodes (commitPlan st plan)) \<subseteq> insert (ev_seq e) (set (nodes st))"
    and "isSurfaceEligible (ev_data e) \<Longrightarrow> ev_seq e \<in> set (nodes (commitPlan st plan))"
    and "s \<in> set (nodes st) \<Longrightarrow> \<not> (isReplacementSurfaceEvent e \<and> cites e s) \<Longrightarrow> s \<in> set (nodes (commitPlan st plan))"
proof -
  obtain op where op: "surfaceOpOf e = Inr op" and pl: "planOp st e op es b = Inr plan"
    using p by (auto simp: planSurfaceEvent_def split: if_splits)
  consider (none) "op = None" "plan = None" "\<not> isSurfaceEligible (ev_data e)"
    | (append) "op = Some OpAppend" "plan = Some (PlanAppend (ev_seq e))"
    | (replace) x y where "op = Some (OpReplace x y)" "planReplace st e x y es b = Inr plan"
  proof (cases op)
    case None
    with pl op that(1) surfaceOpOf_None show thesis by simp
  next
    case (Some o')
    with pl that(2,3) show thesis by (cases o') auto
  qed
  then have "set (nodes (commitPlan st plan)) \<subseteq> insert (ev_seq e) (set (nodes st))
    \<and> (isSurfaceEligible (ev_data e) \<longrightarrow> ev_seq e \<in> set (nodes (commitPlan st plan)))
    \<and> (s \<in> set (nodes st) \<longrightarrow> \<not> (isReplacementSurfaceEvent e \<and> cites e s) \<longrightarrow> s \<in> set (nodes (commitPlan st plan)))"
  proof cases
    case none
    then show ?thesis by (auto simp: commitPlan_def)
  next
    case append
    then show ?thesis by (auto simp: commitPlan_def)
  next
    case (replace x y)
    then obtain i j shadowed where rr: "replacementRange st x y = Inr (i, j, shadowed)"
      and ap: "assertProvenance e shadowed = Inr ()"
      and plan: "plan = Some (PlanReplace \<lparr>rep_seq = ev_seq e, rep_start = x, rep_end = y, rep_shadowed = shadowed\<rparr> i j)"
      by (auto simp: planReplace_def)
    from rr have ij: "i \<le> j" and sh: "shadowed = take (Suc j - i) (drop i (nodes st))"
      by (auto simp: replacementRange_def split: option.splits if_splits)
    have n: "nodes (commitPlan st plan) = take i (nodes st) @ [ev_seq e] @ drop (Suc j) (nodes st)"
      using ij by (simp add: plan commitPlan_def splice_def)
    have split: "nodes st = take i (nodes st) @ shadowed @ drop (Suc j) (nodes st)"
    proof -
      have "drop (Suc j) (nodes st) = drop (Suc j - i) (drop i (nodes st))" using ij by simp
      then show ?thesis unfolding sh by (metis append_take_drop_id)
    qed
    have rep: "isReplacementSurfaceEvent e"
      using op replace(1) by (auto simp: isReplacementSurfaceEvent_def isSurfaceEvent_def surfaceOpOf_def split: if_splits option.splits)
    have cited: "cites e s" if "s \<in> set shadowed"
    proof -
      obtain sources where src: "sourceSeqs e = Inr sources" and all: "\<forall>s \<in> set shadowed. s \<in> set sources"
        using ap by (auto simp: assertProvenance_def filter_empty_conv)
      have "s \<in> set sources" using that all by blast
      with src show ?thesis
        by (auto simp: sourceSeqs_def cites_def list_all_iff list_ex_iff split: option.splits json.splits if_splits)
    qed
    have "set (nodes st) = set (take i (nodes st)) \<union> set shadowed \<union> set (drop (Suc j) (nodes st))"
      by (subst split) auto
    with rep cited n show ?thesis by auto
  qed
  then show "set (nodes (commitPlan st plan)) \<subseteq> insert (ev_seq e) (set (nodes st))"
    and "isSurfaceEligible (ev_data e) \<Longrightarrow> ev_seq e \<in> set (nodes (commitPlan st plan))"
    and "s \<in> set (nodes st) \<Longrightarrow> \<not> (isReplacementSurfaceEvent e \<and> cites e s) \<Longrightarrow> s \<in> set (nodes (commitPlan st plan))"
    by blast+
qed

subsection \<open>Following and restoring\<close>

lemma scan_back_found:
  assumes "scan_back ns es r = Retained s t" "\<forall>s t. r \<noteq> Retained s t"
  obtains e m where "e \<in> set es" "ev_seq e = s" "s \<in> set ns" "owned_message (ev_data e) = Some m" "textOf m = t"
  using assms
proof (induction es arbitrary: r thesis)
  case (Cons e es)
  show ?case
  proof (cases "owned_message (ev_data e)")
    case None
    with Cons.prems(2) have "scan_back ns es r = Retained s t" by simp
    from Cons.IH [OF _ this Cons.prems(3)] Cons.prems(1) show ?thesis by (metis list.set_intros(2))
  next
    case (Some m)
    show ?thesis
    proof (cases "ev_seq e \<in> set ns")
      case True
      with Some Cons.prems(2) Cons.prems(1) [of e m] show ?thesis by simp
    next
      case False
      with Some Cons.prems(2) have "scan_back ns es NothingRetained = Retained s t" by simp
      from Cons.IH [OF _ this] Cons.prems(1) show ?thesis by (metis list.set_intros(2) retained.distinct(5))
    qed
  qed
qed simp

lemma scan_back_kept:
  assumes "scan_back ns es r = Retained s t" "\<forall>s t. r \<noteq> Retained s t"
    and "\<forall>e \<in> set es. ev_seq e \<in> set ns' \<longrightarrow> ev_seq e \<in> set ns" "s \<in> set ns'"
  shows "scan_back ns' es r = Retained s t"
  using assms
proof (induction es arbitrary: r)
  case (Cons e es)
  show ?case
  proof (cases "owned_message (ev_data e)")
    case None
    with Cons show ?thesis by simp
  next
    case (Some m)
    with Cons.prems Cons.IH [of NothingRetained] show ?thesis by (cases "ev_seq e \<in> set ns") auto
  qed
qed simp

lemma restore_snoc:
  "restoreContext ns (es @ [e]) =
     (case owned_message (ev_data e) of
        None \<Rightarrow> restoreContext ns es
      | Some m \<Rightarrow> if ev_seq e \<in> set ns then Retained (ev_seq e) (textOf m)
          else scan_back ns (rev es) NothingRetained)"
  by (simp add: restoreContext_def split: option.split)

lemma follow_other:
  "owned_message (ev_data e) = None \<Longrightarrow> followContext r e = Retained s t
    \<Longrightarrow> r = Retained s t \<and> \<not> (isReplacementSurfaceEvent e \<and> cites e s)"
  by (auto simp: followContext_def split: retained.splits if_splits)

lemma owned_eligible: "owned_message d = Some m \<Longrightarrow> isSurfaceEligible d \<and> d = UserMessage m \<and> isOwned m"
  by (cases d) (auto split: if_splits)

lemma follow_restores:
  assumes "fold_state xs = Inr st0"
  shows "fold_state (xs @ ys) = Inr st \<Longrightarrow>
    foldl followContext (restoreContext (nodes st0) xs) ys = Retained s t \<Longrightarrow>
    restoreContext (nodes st) (xs @ ys) = Retained s t"
proof (induction ys arbitrary: st s t rule: rev_induct)
  case Nil
  with assms show ?case by simp
next
  case (snoc e ys)
  let ?es = "xs @ ys"
  let ?r = "foldl followContext (restoreContext (nodes st0) xs) ys"
  obtain st1 r where st1: "fold_state ?es = Inr st1" and ap: "applySurfaceEvent st1 e (int (length ?es)) ?es 0 = Inr (st, r)"
    using snoc.prems(1) by (auto simp: fold_state_snoc simp flip: append_assoc)
  then obtain plan where pl: "planSurfaceEvent st1 e (int (length ?es)) ?es 0 = Inr plan" and st: "st = commitPlan st1 plan"
    by (auto simp: applySurfaceEvent_def)
  note n = commit_nodes [OF pl, folded st]
  show ?case
  proof (cases "owned_message (ev_data e)")
    case (Some m)
    with owned_eligible [OF Some] n(2) snoc.prems(2) show ?thesis
      by (auto simp: restore_snoc followContext_def simp flip: append_assoc)
  next
    case None
    have "followContext ?r e = Retained s t" using snoc.prems(2) by simp
    from follow_other [OF None this] have r: "?r = Retained s t" and c: "\<not> (isReplacementSurfaceEvent e \<and> cites e s)"
      by simp_all
    have k: "scan_back (nodes st1) (rev ?es) NeverRetained = Retained s t"
      using snoc.IH [OF st1 r] by (simp add: restoreContext_def)
    have "s \<in> set (nodes st1)" by (rule scan_back_found [OF k]) simp_all
    then have s: "s \<in> set (nodes st)" by (rule n(3)) (rule c)
    have e: "ev_seq e = int (length ?es)" by (rule plan_seq [OF pl])
    have "\<forall>x \<in> set (rev ?es). ev_seq x \<in> set (nodes st) \<longrightarrow> ev_seq x \<in> set (nodes st1)"
    proof (intro ballI impI)
      fix x assume x: "x \<in> set (rev ?es)" "ev_seq x \<in> set (nodes st)"
      from x(1) obtain i where "i < length ?es" "?es ! i = x" using in_set_conv_nth [of x ?es] by auto
      then have "ev_seq x < int (length ?es)" using fold_state_nth_seq [OF st1, of i] by auto
      with x(2) n(1) e show "ev_seq x \<in> set (nodes st1)" by auto
    qed
    from scan_back_kept [OF k _ this s] None show ?thesis
      by (simp add: restore_snoc restoreContext_def flip: append_assoc)
  qed
qed

text \<open>
  C14: when the projection proposes no new snapshot for a non-empty context, the conversation shows that
  very context: the newest of the projection's own messages still on the surface has exactly this text,
  whether the projection was restored from the log just now or has followed it for a while.
\<close>

theorem context_shown:
  assumes "fold_state xs = Inr st0" "fold_state (xs @ ys) = Inr st" "current \<noteq> []"
    and "projectContext mid (foldl followContext (restoreContext (nodes st0) xs) ys) current sections = None"
  shows "\<exists>e m. e \<in> set (xs @ ys) \<and> ev_seq e \<in> set (nodes st) \<and> ev_data e = UserMessage m \<and> isOwned m
    \<and> textOf m = Some current \<and> restoreContext (nodes st) (xs @ ys) = Retained (ev_seq e) (Some current)"
proof -
  obtain s where "foldl followContext (restoreContext (nodes st0) xs) ys = Retained s (Some current)"
    using assms(3,4) by (auto simp: projectContext_def Let_def split: if_splits retained.splits)
  from follow_restores [OF assms(1,2) this] have r: "restoreContext (nodes st) (xs @ ys) = Retained s (Some current)" .
  then have "scan_back (nodes st) (rev (xs @ ys)) NeverRetained = Retained s (Some current)"
    by (simp add: restoreContext_def)
  then obtain e m where "e \<in> set (rev (xs @ ys))" "ev_seq e = s" "s \<in> set (nodes st)"
    "owned_message (ev_data e) = Some m" "textOf m = Some current"
    by (rule scan_back_found) simp_all
  with r owned_eligible show ?thesis by (metis set_rev)
qed

definition demo_snapshot :: message where
  "demo_snapshot = \<lparr>msg_id = ''c1'', msg_role = RoleUser, msg_content = [TextBlock ''ctx''],
     msg_source = SourcePlugin CONTEXT_SOURCE []\<rparr>"

definition demo_shown :: event where
  "demo_shown = \<lparr>ev_seq = 1, ev_time = 0, ev_data = UserMessage demo_snapshot,
     ev_surfaceOp = Some (JStr ''append''), ev_sourceEventSeqs = None\<rparr>"

definition demo_later :: event where
  "demo_later = \<lparr>ev_seq = 2, ev_time = 0,
     ev_data = UserMessage \<lparr>msg_id = ''u'', msg_role = RoleUser, msg_content = [], msg_source = SourceUser\<rparr>,
     ev_surfaceOp = Some (JStr ''append''), ev_sourceEventSeqs = None\<rparr>"

theorem context_shown_witness:
  "\<exists>e m. e \<in> set ([plain_event 0 0 (TurnStart 1)] @ [demo_shown, demo_later]) \<and> ev_data e = UserMessage m
    \<and> isOwned m \<and> textOf m = Some ''ctx''"
proof -
  have f: "fold_state [plain_event 0 0 (TurnStart 1)] = Inr createFoldState"
    "fold_state ([plain_event 0 0 (TurnStart 1)] @ [demo_shown, demo_later]) = Inr (createFoldState\<lparr>nodes := [1, 2]\<rparr>)"
    by code_simp+
  have "projectContext ''x'' (foldl followContext (restoreContext (nodes createFoldState) [plain_event 0 0 (TurnStart 1)])
      [demo_shown, demo_later]) ''ctx'' [] = None"
    by code_simp
  from context_shown [OF f _ this] show ?thesis by blast
qed

end
