(* ===== verification/ISO_Instant.thy ===== *)
theory ISO_Instant
  imports JS_String
begin

text \<open>
  Instants of time as the run time has them: an epoch in milliseconds, its fields in the proleptic
  Gregorian calendar (the getters and setters of \<open>Date\<close>, which normalise out-of-range months and
  days), and the strings \<open>toISOString\<close> writes and \<open>Date.parse\<close> reads. The last section is the decoder
  of canonical instants of \<open>schedule/schedule/src/domain.ts\<close>.
\<close>

subsection \<open>Years and months\<close>

text \<open>Days are counted from the first of January of the year 1.\<close>

definition leap :: "int \<Rightarrow> bool" where
  "leap y = (y mod 4 = 0 \<and> (y mod 100 \<noteq> 0 \<or> y mod 400 = 0))"

definition jan1 :: "int \<Rightarrow> int" where
  "jan1 y = 365 * (y - 1) + (y - 1) div 4 - (y - 1) div 100 + (y - 1) div 400"

definition year_length :: "int \<Rightarrow> int" where
  "year_length y = (if leap y then 366 else 365)"

definition year_of :: "int \<Rightarrow> int" where
  "year_of n =
     (let q = n div 146097; r = n mod 146097; c = min (r div 36524) 3; r' = r - c * 36524;
          f = r' div 1461; g = min ((r' mod 1461) div 365) 3
      in 400 * q + 100 * c + 4 * f + g + 1)"

definition month_starts :: "bool \<Rightarrow> int list" where
  "month_starts lp =
     (if lp then [0, 31, 60, 91, 121, 152, 182, 213, 244, 274, 305, 335, 366]
      else [0, 31, 59, 90, 120, 151, 181, 212, 243, 273, 304, 334, 365])"

definition month_length :: "bool \<Rightarrow> nat \<Rightarrow> int" where
  "month_length lp m = month_starts lp ! Suc m - month_starts lp ! m"

text \<open>The month, from 0, of a day of the year.\<close>

definition month_of :: "bool \<Rightarrow> int \<Rightarrow> nat" where
  "month_of lp d = length (takeWhile (\<lambda>s. s \<le> d) (tl (month_starts lp)))"

lemma div_step:
  fixes k y :: int
  assumes "0 < k"
  shows "y div k = (y - 1) div k + (if y mod k = 0 then 1 else 0)"
proof (cases "y mod k = 0")
  case True
  then obtain c where y: "y = k * c" by (auto simp: mod_eq_0_iff_dvd dvd_def)
  have "y - 1 = (k - 1) + k * (c - 1)" by (simp add: y algebra_simps)
  then have "(y - 1) div k = (k - 1) div k + (c - 1)" using assms by (metis div_mult_self2 less_irrefl add.commute)
  then show ?thesis using assms True y by simp
next
  case False
  have "y - 1 = (y mod k - 1) + k * (y div k)" by simp
  then have "(y - 1) div k = (y mod k - 1) div k + y div k" using assms by (metis div_mult_self2 less_irrefl add.commute)
  moreover have "(y mod k - 1) div k = 0"
    using False assms pos_mod_sign [of k y] pos_mod_bound [of k y] by (intro div_pos_pos_trivial) linarith+
  ultimately show ?thesis using False by simp
qed

lemma jan1_step: "jan1 (y + 1) = jan1 y + year_length y"
proof -
  have "(400 :: int) dvd y \<Longrightarrow> 100 dvd y" "(100 :: int) dvd y \<Longrightarrow> 4 dvd y"
    by (erule dvd_trans [rotated], simp)+
  then have d: "y mod 400 = 0 \<Longrightarrow> y mod 100 = 0" "y mod 100 = 0 \<Longrightarrow> y mod 4 = 0"
    by (simp_all add: mod_eq_0_iff_dvd)
  define a b e A B E where "a = (y - 1) div 4" and "b = (y - 1) div 100" and "e = (y - 1) div 400"
    and "A \<longleftrightarrow> y mod 4 = 0" and "B \<longleftrightarrow> y mod 100 = 0" and "E \<longleftrightarrow> y mod 400 = 0"
  note defs = this
  have "y div 4 = a + (if A then 1 else 0)" "y div 100 = b + (if B then 1 else 0)" "y div 400 = e + (if E then 1 else 0)"
    unfolding defs by (rule div_step, simp)+
  moreover have "jan1 (y + 1) = 365 * y + y div 4 - y div 100 + y div 400" by (simp add: jan1_def)
  moreover have "jan1 y = 365 * (y - 1) + a - b + e" by (simp only: jan1_def defs)
  moreover have "year_length y = (if A \<and> (\<not> B \<or> E) then 366 else 365)" by (simp only: year_length_def leap_def defs)
  moreover have "E \<longrightarrow> B" "B \<longrightarrow> A" unfolding defs using d by blast+
  ultimately show ?thesis by (cases A; cases B; cases E) simp_all
qed

lemma year_length_pos: "365 \<le> year_length y"
  by (simp add: year_length_def)

lemma jan1_less: "x < y \<Longrightarrow> jan1 (x + 1) \<le> jan1 y"
proof (induction "nat (y - x - 1)" arbitrary: y)
  case 0
  then have "y = x + 1" by simp
  then show ?case by simp
next
  case (Suc k)
  then have "jan1 (x + 1) \<le> jan1 (y - 1)" by simp
  also have "\<dots> \<le> jan1 y" using jan1_step [of "y - 1"] year_length_pos [of "y - 1"] by simp
  finally show ?case .
qed

lemma jan1_mono: "x \<le> y \<Longrightarrow> jan1 x \<le> jan1 y"
  using jan1_less [of x y] jan1_step [of x] year_length_pos [of x] by (cases "x = y") auto

lemma year_unique:
  assumes "jan1 x \<le> n" "n < jan1 (x + 1)" "jan1 y \<le> n" "n < jan1 (y + 1)"
  shows "x = y"
  using assms jan1_less [of x y] jan1_less [of y x] by (cases x y rule: linorder_cases) auto

lemma jan1_decomposed:
  assumes "0 \<le> c" "c \<le> 3" "0 \<le> f" "f \<le> 24" "0 \<le> g" "g \<le> 3"
  shows "jan1 (400 * q + 100 * c + 4 * f + g + 1) = 146097 * q + 36524 * c + 1461 * f + 365 * g"
proof -
  have e: "400 * q + 100 * c + 4 * f + g = g + 4 * (100 * q + 25 * c + f)"
    "400 * q + 100 * c + 4 * f + g = (4 * f + g) + 100 * (4 * q + c)"
    "400 * q + 100 * c + 4 * f + g = (100 * c + 4 * f + g) + 400 * q" by simp_all
  have "(400 * q + 100 * c + 4 * f + g) div 4 = 100 * q + 25 * c + f"
    unfolding e(1) using assms by (simp add: div_pos_pos_trivial)
  moreover have "(400 * q + 100 * c + 4 * f + g) div 100 = 4 * q + c"
    unfolding e(2) using assms by (simp add: div_pos_pos_trivial)
  moreover have "(400 * q + 100 * c + 4 * f + g) div 400 = q"
    unfolding e(3) using assms by (simp add: div_pos_pos_trivial)
  ultimately show ?thesis by (simp add: jan1_def)
qed

lemma year_of_bounds: "jan1 (year_of n) \<le> n \<and> n < jan1 (year_of n + 1)"
proof -
  define q r where "q = n div 146097" and "r = n mod 146097"
  define c where "c = min (r div 36524) 3"
  define r' where "r' = r - c * 36524"
  define f where "f = r' div 1461"
  define s where "s = r' mod 1461"
  define g where "g = min (s div 365) 3"
  let ?y = "400 * q + 100 * c + 4 * f + g + 1"
  have y: "year_of n = ?y"
    by (simp add: year_of_def Let_def q_def r_def c_def r'_def f_def s_def g_def)
  have n: "n = 146097 * q + r" by (simp add: q_def r_def)
  have r: "0 \<le> r" "r < 146097" by (simp_all add: r_def)
  have c: "0 \<le> c" "c \<le> 3" "36524 * c \<le> r" "c < 3 \<Longrightarrow> r < 36524 * c + 36524"
    using r by (auto simp: c_def min_def)
  have r': "r = 36524 * c + r'" "0 \<le> r'" "r' \<le> 36524" "c < 3 \<Longrightarrow> r' < 36524"
    using c(1,2) c(3) c(4) r by (cases "c < 3"; simp add: r'_def)+
  have s: "r' = 1461 * f + s" "0 \<le> s" "s < 1461" by (simp_all add: f_def s_def)
  have f: "0 \<le> f" "f \<le> 24" using r'(2,3) s by linarith+
  have g: "0 \<le> g" "g \<le> 3" "365 * g \<le> s" "g < 3 \<Longrightarrow> s < 365 * g + 365"
    using s by (auto simp: g_def min_def)
  have j: "jan1 ?y = 146097 * q + 36524 * c + 1461 * f + 365 * g"
    by (rule jan1_decomposed [OF c(1,2) f g(1,2)])
  have "s - 365 * g < year_length ?y"
  proof (cases "g < 3")
    case True
    then show ?thesis using g(4) year_length_pos [of ?y] by linarith
  next
    case False
    then have g3: "g = 3" using g by simp
    show ?thesis
    proof (cases "s = 1460")
      case True
      have "leap ?y"
      proof (cases "f = 24")
        case True
        then have "\<not> c < 3" using r' s \<open>s = 1460\<close> by auto
        then have "c = 3" using c by linarith
        then have y400: "?y = 400 * (q + 1)" using g3 True by simp
        have "leap (400 * (q + 1))" by (simp add: leap_def)
        then show ?thesis unfolding y400 .
      next
        case False
        have "?y = (4 * f + 4) + 100 * (4 * q + c)" using g3 by simp
        moreover have "((4 * f + 4) + 100 * (4 * q + c)) mod 100 = 4 * f + 4"
          using f False by (subst mod_mult_self2) (simp add: mod_pos_pos_trivial)
        moreover have "?y = 4 * (100 * q + 25 * c + f + 1)" using g3 by simp
        ultimately show ?thesis using f unfolding leap_def by (metis add_pos_pos le_less mod_mult_self1_is_0 mult_pos_pos zero_less_numeral
             add_nonneg_pos less_irrefl mult_nonneg_nonneg)
      qed
      then show ?thesis using s g3 by (simp add: year_length_def)
    next
      case False
      then show ?thesis using s g3 year_length_pos [of ?y] by simp
    qed
  qed
  then show ?thesis using jan1_step [of ?y] j n r' s g unfolding y by simp
qed

lemma year_of_unique: "jan1 y \<le> n \<Longrightarrow> n < jan1 (y + 1) \<Longrightarrow> year_of n = y"
  using year_of_bounds [of n] year_unique by blast

lemma month_of_bounds:
  assumes "0 \<le> d" "d < (if lp then 366 else 365)"
  shows "month_of lp d < 12 \<and> month_starts lp ! month_of lp d \<le> d \<and> d < month_starts lp ! Suc (month_of lp d)"
  using assms by (cases lp) (auto simp: month_of_def month_starts_def)

lemma month_cases:
  assumes "m < (12 :: nat)"
  obtains "m = 0" | "m = 1" | "m = 2" | "m = 3" | "m = 4" | "m = 5" | "m = 6" | "m = 7" | "m = 8" | "m = 9"
    | "m = 10" | "m = 11"
proof -
  have "m = 0 \<or> m = 1 \<or> m = 2 \<or> m = 3 \<or> m = 4 \<or> m = 5 \<or> m = 6 \<or> m = 7 \<or> m = 8 \<or> m = 9 \<or> m = 10 \<or> m = 11"
    using assms by presburger
  then show ?thesis using that by blast
qed

lemma month_of_start:
  assumes "m < 12" "0 \<le> x" "x < month_length lp m"
  shows "month_of lp (month_starts lp ! m + x) = m"
  using assms by (cases m rule: month_cases; cases lp) (auto simp: month_of_def month_length_def month_starts_def)

lemma month_inside:
  assumes "m < 12" "x < month_length lp m"
  shows "month_starts lp ! m + x < (if lp then 366 else 365)"
  using assms by (cases m rule: month_cases; cases lp) (auto simp: month_length_def month_starts_def)

lemma month_start_nonneg: "m < 12 \<Longrightarrow> 0 \<le> month_starts lp ! m"
  by (cases m rule: month_cases; cases lp) (auto simp: month_starts_def)

lemma month_length_le: "m < 12 \<Longrightarrow> month_length lp m \<le> 31"
  by (cases m rule: month_cases; cases lp) (auto simp: month_starts_def month_length_def)

subsection \<open>Fields of an epoch\<close>

text \<open>The fields of \<open>CalendarParts\<close>; months and days count from 1.\<close>

record calendar_parts =
  cal_year :: int
  cal_month :: int
  cal_day :: int
  cal_hour :: int
  cal_minute :: int
  cal_second :: int
  cal_millisecond :: int

text \<open>The setters of \<open>Date\<close>: months and days out of range carry over.\<close>

definition make_day :: "int \<Rightarrow> int \<Rightarrow> int \<Rightarrow> int" where
  "make_day y m d =
     (let y' = y + (m - 1) div 12 in jan1 y' + month_starts (leap y') ! nat ((m - 1) mod 12) + d - 1)"

definition UNIX_DAY :: int where
  "UNIX_DAY = 719162"

definition make_epoch :: "calendar_parts \<Rightarrow> int" where
  "make_epoch p =
     (make_day (cal_year p) (cal_month p) (cal_day p) - UNIX_DAY) * 86400000
     + cal_hour p * 3600000 + cal_minute p * 60000 + cal_second p * 1000 + cal_millisecond p"

text \<open>The getters.\<close>

definition fields_of :: "int \<Rightarrow> calendar_parts" where
  "fields_of e =
     (let n = e div 86400000 + UNIX_DAY; t = e mod 86400000; y = year_of n; d = n - jan1 y; m = month_of (leap y) d
      in \<lparr>cal_year = y, cal_month = int m + 1, cal_day = d - month_starts (leap y) ! m + 1,
          cal_hour = t div 3600000, cal_minute = t div 60000 mod 60, cal_second = t div 1000 mod 60,
          cal_millisecond = t mod 1000\<rparr>)"

text \<open>The dates of the calendar and the times of the day.\<close>

definition valid_parts :: "calendar_parts \<Rightarrow> bool" where
  "valid_parts p =
     (1 \<le> cal_month p \<and> cal_month p \<le> 12
      \<and> 1 \<le> cal_day p \<and> cal_day p \<le> month_length (leap (cal_year p)) (nat (cal_month p - 1))
      \<and> 0 \<le> cal_hour p \<and> cal_hour p < 24 \<and> 0 \<le> cal_minute p \<and> cal_minute p < 60
      \<and> 0 \<le> cal_second p \<and> cal_second p < 60 \<and> 0 \<le> cal_millisecond p \<and> cal_millisecond p < 1000)"

lemma day_fields:
  fixes n :: int
  defines "y \<equiv> year_of n"
  defines "m \<equiv> month_of (leap y) (n - jan1 y)"
  shows "m < 12" "month_starts (leap y) ! m \<le> n - jan1 y"
    "n - jan1 y - month_starts (leap y) ! m < month_length (leap y) m"
  using month_of_bounds [of "n - jan1 y" "leap y"] year_of_bounds [of n] jan1_step [of y]
  by (auto simp: y_def m_def year_length_def month_length_def)

lemma make_day_fields:
  "make_day (year_of n) (int (month_of (leap (year_of n)) (n - jan1 (year_of n))) + 1)
     (n - jan1 (year_of n) - month_starts (leap (year_of n)) ! month_of (leap (year_of n)) (n - jan1 (year_of n)) + 1) = n"
  using day_fields(1) [of n] by (simp add: make_day_def Let_def div_pos_pos_trivial mod_pos_pos_trivial)

lemma time_split:
  fixes t :: int
  shows "t div 3600000 * 3600000 + t div 60000 mod 60 * 60000 + t div 1000 mod 60 * 1000 + t mod 1000 = t"
proof -
  have "t div 3600000 = t div 60000 div 60" "t div 60000 = t div 1000 div 60"
    by (simp_all add: div_mult2_eq [symmetric])
  then show ?thesis
    using div_mult_mod_eq [of t 1000] div_mult_mod_eq [of "t div 1000" 60] div_mult_mod_eq [of "t div 60000" 60]
    by linarith
qed

lemma make_epoch_fields [simp]: "make_epoch (fields_of e) = e"
proof -
  have "make_epoch (fields_of e) = e div 86400000 * 86400000 + (e mod 86400000 div 3600000 * 3600000
      + e mod 86400000 div 60000 mod 60 * 60000 + e mod 86400000 div 1000 mod 60 * 1000 + e mod 86400000 mod 1000)"
    unfolding make_epoch_def fields_of_def Let_def calendar_parts.simps make_day_fields by simp
  then show ?thesis unfolding time_split by simp
qed

lemma valid_fields: "valid_parts (fields_of e)"
proof -
  define n where "n = e div 86400000 + UNIX_DAY"
  define t where "t = e mod 86400000"
  have "0 \<le> t" "t < 86400000" by (simp_all add: t_def)
  then have "0 \<le> t div 3600000" "t div 3600000 < 24" by (auto simp: pos_imp_zdiv_nonneg_iff)
  then show ?thesis
    using day_fields [of n] by (simp add: valid_parts_def fields_of_def Let_def n_def [symmetric] t_def [symmetric])
qed

lemma day_of_make_day:
  assumes "1 \<le> m" "m \<le> 12" "1 \<le> d" "d \<le> month_length (leap y) (nat (m - 1))"
  shows "year_of (make_day y m d) = y" "month_of (leap y) (make_day y m d - jan1 y) = nat (m - 1)"
    "make_day y m d - jan1 y = month_starts (leap y) ! nat (m - 1) + (d - 1)"
proof -
  have k: "nat (m - 1) < 12" using assms by simp
  have v: "make_day y m d = jan1 y + month_starts (leap y) ! nat (m - 1) + d - 1"
    using assms by (simp add: make_day_def Let_def div_pos_pos_trivial mod_pos_pos_trivial)
  have x: "0 \<le> d - 1" "d - 1 < month_length (leap y) (nat (m - 1))" using assms by simp_all
  show "make_day y m d - jan1 y = month_starts (leap y) ! nat (m - 1) + (d - 1)" by (simp add: v)
  show "month_of (leap y) (make_day y m d - jan1 y) = nat (m - 1)"
    using month_of_start [OF k x] by (simp add: v)
  show "year_of (make_day y m d) = y"
    using month_inside [OF k x(2)] month_start_nonneg [OF k, of "leap y"] jan1_step [of y] x(1)
    by (intro year_of_unique) (auto simp: v year_length_def)
qed

lemma fields_make_epoch:
  assumes "valid_parts p" shows "fields_of (make_epoch p) = p"
proof -
  define t where "t = cal_hour p * 3600000 + cal_minute p * 60000 + cal_second p * 1000 + cal_millisecond p"
  define n where "n = make_day (cal_year p) (cal_month p) (cal_day p)"
  have v: "0 \<le> cal_hour p" "cal_hour p < 24" "0 \<le> cal_minute p" "cal_minute p < 60"
    "0 \<le> cal_second p" "cal_second p < 60" "0 \<le> cal_millisecond p" "cal_millisecond p < 1000"
    using assms by (simp_all add: valid_parts_def)
  have t: "0 \<le> t" "t < 86400000" using v by (simp_all add: t_def)
  have t': "t = (cal_minute p * 60000 + cal_second p * 1000 + cal_millisecond p) + 3600000 * cal_hour p"
    "t = (cal_second p * 1000 + cal_millisecond p) + 60000 * (cal_hour p * 60 + cal_minute p)"
    "t = cal_millisecond p + 1000 * ((cal_hour p * 60 + cal_minute p) * 60 + cal_second p)"
    by (simp_all add: t_def)
  have h: "t div 3600000 = cal_hour p" "t div 60000 = cal_hour p * 60 + cal_minute p"
    "t div 1000 = (cal_hour p * 60 + cal_minute p) * 60 + cal_second p" "t mod 1000 = cal_millisecond p"
    using v by (subst t'(1), simp, subst t'(2), simp, subst t'(3), simp,
        subst t'(3), simp only: mod_mult_self2 mod_pos_pos_trivial)
  have hm: "t div 60000 mod 60 = cal_minute p" "t div 1000 mod 60 = cal_second p"
    unfolding h using v by (simp_all only: mod_mult_self3 mod_pos_pos_trivial)
  have e: "make_epoch p = t + 86400000 * (n - UNIX_DAY)" by (simp add: make_epoch_def t_def n_def)
  have d: "make_epoch p div 86400000 = n - UNIX_DAY" "make_epoch p mod 86400000 = t"
    unfolding e using t by (simp, simp only: mod_mult_self2 mod_pos_pos_trivial)
  have "year_of n = cal_year p" "month_of (leap (cal_year p)) (n - jan1 (cal_year p)) = nat (cal_month p - 1)"
    "n - jan1 (cal_year p) = month_starts (leap (cal_year p)) ! nat (cal_month p - 1) + (cal_day p - 1)"
    using assms unfolding n_def by (intro day_of_make_day; simp add: valid_parts_def)+
  then show ?thesis using v assms
    unfolding fields_of_def Let_def d hm h(1,4) by (simp add: valid_parts_def)
qed

lemma make_epoch_inj: "valid_parts p \<Longrightarrow> valid_parts q \<Longrightarrow> make_epoch p = make_epoch q \<longleftrightarrow> p = q"
  by (metis fields_make_epoch)

lemma fields_inj: "fields_of d = fields_of e \<longleftrightarrow> d = e"
  by (metis make_epoch_fields)

lemma valid_iff_fields: "valid_parts p \<longleftrightarrow> fields_of (make_epoch p) = p"
  by (metis fields_make_epoch valid_fields)

subsection \<open>Fixed-width digits\<close>

primrec digits :: "nat \<Rightarrow> nat \<Rightarrow> string" where
  "digits 0 n = []"
| "digits (Suc k) n = digits k (n div 10) @ [digit_char (n mod 10)]"

definition all_digits :: "string \<Rightarrow> bool" where
  "all_digits s = list_all is_digit s"

lemma length_digits [simp]: "length (digits k n) = k"
  by (induction k arbitrary: n) simp_all

lemma is_digit_char: "d < 10 \<Longrightarrow> is_digit (digit_char d)"
  by (simp add: is_digit_def of_char_digit)

lemma all_digits_digits [simp]: "all_digits (digits k n)"
  by (induction k arbitrary: n) (simp_all add: all_digits_def is_digit_char)

lemma read_digits_snoc: "read_digits (s @ [c]) = 10 * read_digits s + (of_char c - 48)"
  by (simp add: read_digits_def)

lemma read_digits_digits: "read_digits (digits k n) = n mod 10 ^ k"
proof (induction k arbitrary: n)
  case (Suc k)
  show ?case by (simp add: read_digits_snoc Suc of_char_digit mod_mult2_eq)
qed (simp add: read_digits_def)

lemma read_digits_small [simp]: "n < 10 ^ k \<Longrightarrow> read_digits (digits k n) = n"
  by (simp add: read_digits_digits)

lemma read_digits_int:
  assumes "0 \<le> v" "v < 10 ^ k" shows "int (read_digits (digits k (nat v))) = v"
proof -
  have "nat v < 10 ^ k" using assms by (simp add: nat_less_iff)
  then show ?thesis using assms by simp
qed

lemmas read_digits_fields =
  read_digits_int [of _ 2, simplified] read_digits_int [of _ 3, simplified] read_digits_int [of _ 4, simplified]

lemma digit_char_of: "is_digit c \<Longrightarrow> digit_char (of_char c - 48) = c"
  by (simp add: is_digit_def digit_char_def)

lemma digits_read_digits: "all_digits s \<Longrightarrow> digits (length s) (read_digits s) = s"
proof (induction s rule: rev_induct)
  case (snoc c s)
  then have c: "of_char c - 48 < (10 :: nat)" "digit_char (of_char c - 48) = c"
    by (auto simp: all_digits_def digit_char_of is_digit_def)
  from snoc have "digits (length s) (read_digits s) = s" by (simp add: all_digits_def)
  then show ?case using c by (simp add: read_digits_snoc)
qed simp

lemma read_digits_less: "all_digits s \<Longrightarrow> read_digits s < 10 ^ length s"
proof (induction s rule: rev_induct)
  case (snoc c s)
  then have "of_char c - 48 < (10 :: nat)" "read_digits s < 10 ^ length s"
    by (auto simp: all_digits_def is_digit_def)
  then show ?case by (simp add: read_digits_snoc)
qed (simp add: read_digits_def)

subsection \<open>ISO strings\<close>

definition year_text :: "int \<Rightarrow> string" where
  "year_text y =
     (if 0 \<le> y \<and> y \<le> 9999 then digits 4 (nat y)
      else (if y < 0 then CHR ''-'' else CHR ''+'') # digits 6 (nat \<bar>y\<bar>))"

definition iso_text :: "calendar_parts \<Rightarrow> string" where
  "iso_text p =
     year_text (cal_year p) @ ''-'' @ digits 2 (nat (cal_month p)) @ ''-'' @ digits 2 (nat (cal_day p)) @ ''T''
     @ digits 2 (nat (cal_hour p)) @ '':'' @ digits 2 (nat (cal_minute p)) @ '':'' @ digits 2 (nat (cal_second p))
     @ ''.'' @ digits 3 (nat (cal_millisecond p)) @ ''Z''"

text \<open>\<open>new Date(e).toISOString()\<close>\<close>

definition to_iso :: "int \<Rightarrow> string" where
  "to_iso e = iso_text (fields_of e)"

text \<open>The regular expression \<open>UTC_INSTANT\<close>: the digits in their places, each field in its range.\<close>

definition slice :: "nat \<Rightarrow> nat \<Rightarrow> string \<Rightarrow> string" where
  "slice i n s = take n (drop i s)"

definition number_at :: "nat \<Rightarrow> nat \<Rightarrow> string \<Rightarrow> int" where
  "number_at i n s = int (read_digits (slice i n s))"

definition utc_parts :: "string \<Rightarrow> calendar_parts" where
  "utc_parts s = \<lparr>cal_year = number_at 0 4 s, cal_month = number_at 5 2 s, cal_day = number_at 8 2 s,
     cal_hour = number_at 11 2 s, cal_minute = number_at 14 2 s, cal_second = number_at 17 2 s,
     cal_millisecond = number_at 20 3 s\<rparr>"

definition UTC_INSTANT :: "string \<Rightarrow> bool" where
  "UTC_INSTANT s =
     (length s = 24 \<and> all_digits (slice 0 4 s) \<and> slice 4 1 s = ''-'' \<and> all_digits (slice 5 2 s) \<and> slice 7 1 s = ''-''
      \<and> all_digits (slice 8 2 s) \<and> slice 10 1 s = ''T'' \<and> all_digits (slice 11 2 s) \<and> slice 13 1 s = '':''
      \<and> all_digits (slice 14 2 s) \<and> slice 16 1 s = '':'' \<and> all_digits (slice 17 2 s) \<and> slice 19 1 s = ''.''
      \<and> all_digits (slice 20 3 s) \<and> slice 23 1 s = ''Z''
      \<and> 1 \<le> number_at 0 4 s \<and> 1 \<le> number_at 5 2 s \<and> number_at 5 2 s \<le> 12 \<and> 1 \<le> number_at 8 2 s \<and> number_at 8 2 s \<le> 31
      \<and> number_at 11 2 s \<le> 23 \<and> number_at 14 2 s \<le> 59 \<and> number_at 17 2 s \<le> 59)"

text \<open>
  \<open>Date.parse\<close> on such strings; a day after the end of its month carries over. Other strings are
  \<open>NaN\<close>, which is \<open>None\<close>: the code reads only strings it tested.
\<close>

definition date_parse :: "string \<Rightarrow> int option" where
  "date_parse s = (if UTC_INSTANT s then Some (make_epoch (utc_parts s)) else None)"

definition MIN_FOUR_DIGIT_YEAR_MS :: int where
  "MIN_FOUR_DIGIT_YEAR_MS = - 62135596800000"

definition MAX_FOUR_DIGIT_YEAR_MS :: int where
  "MAX_FOUR_DIGIT_YEAR_MS = 253402300799999"

definition four_digit_year :: "int \<Rightarrow> bool" where
  "four_digit_year e = (MIN_FOUR_DIGIT_YEAR_MS \<le> e \<and> e \<le> MAX_FOUR_DIGIT_YEAR_MS)"

text \<open>The canonical instants: what \<open>decodeInstant\<close> returns.\<close>

definition canonical_instant :: "string \<Rightarrow> bool" where
  "canonical_instant s = (case date_parse s of None \<Rightarrow> False | Some e \<Rightarrow> to_iso e = s)"

lemma four_digit_year_iff: "four_digit_year e \<longleftrightarrow> 1 \<le> cal_year (fields_of e) \<and> cal_year (fields_of e) \<le> 9999"
proof -
  define n where "n = e div 86400000 + UNIX_DAY"
  have y: "cal_year (fields_of e) = year_of n" by (simp add: fields_of_def Let_def n_def)
  have "jan1 1 = 0" "jan1 10000 = 3652059" by (simp_all add: jan1_def)
  then have b: "1 \<le> year_of n \<longleftrightarrow> 0 \<le> n" "year_of n \<le> 9999 \<longleftrightarrow> n < 3652059"
    using year_of_bounds [of n] jan1_mono [of 1 "year_of n"] jan1_mono [of "year_of n + 1" 1]
      jan1_mono [of 10000 "year_of n"] jan1_mono [of "year_of n + 1" 10000] by linarith+
  show ?thesis unfolding y b unfolding n_def four_digit_year_def MIN_FOUR_DIGIT_YEAR_MS_def MAX_FOUR_DIGIT_YEAR_MS_def UNIX_DAY_def
    by linarith
qed

lemma slice_append: "length a = i \<Longrightarrow> length b = n \<Longrightarrow> slice i n (a @ b @ c) = b"
  by (simp add: slice_def)

definition digit_parts :: "calendar_parts \<Rightarrow> bool" where
  "digit_parts p =
     (0 \<le> cal_year p \<and> cal_year p < 10000 \<and> 0 \<le> cal_month p \<and> cal_month p < 100 \<and> 0 \<le> cal_day p \<and> cal_day p < 100
      \<and> 0 \<le> cal_hour p \<and> cal_hour p < 100 \<and> 0 \<le> cal_minute p \<and> cal_minute p < 100
      \<and> 0 \<le> cal_second p \<and> cal_second p < 100 \<and> 0 \<le> cal_millisecond p \<and> cal_millisecond p < 1000)"

text \<open>The slices of a text that is written field by field.\<close>

lemma iso_slices:
  assumes "length y = 4" "length mo = 2" "length d = 2" "length h = 2" "length mi = 2" "length se = 2" "length ms = 3"
  defines "s \<equiv> y @ ''-'' @ mo @ ''-'' @ d @ ''T'' @ h @ '':'' @ mi @ '':'' @ se @ ''.'' @ ms @ ''Z''"
  shows "length s = 24" "slice 0 4 s = y" "slice 4 1 s = ''-''" "slice 5 2 s = mo" "slice 7 1 s = ''-''"
    "slice 8 2 s = d" "slice 10 1 s = ''T''" "slice 11 2 s = h" "slice 13 1 s = '':''" "slice 14 2 s = mi"
    "slice 16 1 s = '':''" "slice 17 2 s = se" "slice 19 1 s = ''.''" "slice 20 3 s = ms" "slice 23 1 s = ''Z''"
  using assms(1-7) by (simp_all add: s_def slice_def)

lemma slice_split: "i + n \<le> length s \<Longrightarrow> drop i s = slice i n s @ drop (i + n) s"
  by (simp add: slice_def) (metis append_take_drop_id drop_drop add.commute)

lemma iso_join:
  assumes "length s = 24"
  shows "s = slice 0 4 s @ slice 4 1 s @ slice 5 2 s @ slice 7 1 s @ slice 8 2 s @ slice 10 1 s @ slice 11 2 s
    @ slice 13 1 s @ slice 14 2 s @ slice 16 1 s @ slice 17 2 s @ slice 19 1 s @ slice 20 3 s @ slice 23 1 s"
proof -
  have "drop 24 s = []" using assms by simp
  then show ?thesis using assms
    slice_split [of 0 4 s] slice_split [of 4 1 s] slice_split [of 5 2 s] slice_split [of 7 1 s] slice_split [of 8 2 s]
    slice_split [of 10 1 s] slice_split [of 11 2 s] slice_split [of 13 1 s] slice_split [of 14 2 s]
    slice_split [of 16 1 s] slice_split [of 17 2 s] slice_split [of 19 1 s] slice_split [of 20 3 s] slice_split [of 23 1 s]
    by simp
qed

lemma digits_number_at:
  assumes "all_digits (slice i n s)" "i + n \<le> length s"
  shows "digits n (nat (number_at i n s)) = slice i n s" "0 \<le> number_at i n s" "number_at i n s < 10 ^ n"
proof -
  have l: "length (slice i n s) = n" using assms(2) by (simp add: slice_def)
  show "digits n (nat (number_at i n s)) = slice i n s"
    using digits_read_digits [OF assms(1)] by (simp add: number_at_def l)
  show "0 \<le> number_at i n s" by (simp add: number_at_def)
  have "read_digits (slice i n s) < 10 ^ n" using read_digits_less [OF assms(1)] by (simp add: l)
  then show "number_at i n s < 10 ^ n" unfolding number_at_def by (metis of_nat_less_iff of_nat_numeral of_nat_power)
qed

lemma utc_parts_iso:
  assumes "digit_parts p" shows "utc_parts (iso_text p) = p"
proof -
  have y: "year_text (cal_year p) = digits 4 (nat (cal_year p))" using assms by (simp add: year_text_def digit_parts_def)
  show ?thesis using assms
    unfolding iso_text_def y utc_parts_def number_at_def
    by (simp only: iso_slices length_digits) (simp add: digit_parts_def read_digits_fields)
qed

lemma iso_utc_parts: "UTC_INSTANT s \<Longrightarrow> iso_text (utc_parts s) = s"
proof -
  assume u: "UTC_INSTANT s"
  then have l: "length s = 24" by (simp add: UTC_INSTANT_def)
  have "year_text (number_at 0 4 s) = slice 0 4 s"
    using u digits_number_at [of 0 4 s] by (simp add: UTC_INSTANT_def year_text_def)
  then have "iso_text (utc_parts s) = slice 0 4 s @ slice 4 1 s @ slice 5 2 s @ slice 7 1 s @ slice 8 2 s @ slice 10 1 s
    @ slice 11 2 s @ slice 13 1 s @ slice 14 2 s @ slice 16 1 s @ slice 17 2 s @ slice 19 1 s @ slice 20 3 s @ slice 23 1 s"
    using u digits_number_at(1) [of 5 2 s] digits_number_at(1) [of 8 2 s] digits_number_at(1) [of 11 2 s]
      digits_number_at(1) [of 14 2 s] digits_number_at(1) [of 17 2 s] digits_number_at(1) [of 20 3 s]
    by (simp add: iso_text_def utc_parts_def UTC_INSTANT_def)
  then show ?thesis using iso_join [OF l] by simp
qed

lemma valid_day:
  assumes "valid_parts p" shows "cal_day p \<le> 31"
proof -
  have "nat (cal_month p - 1) < 12" using assms by (simp add: valid_parts_def nat_less_iff)
  from month_length_le [OF this, of "leap (cal_year p)"] show ?thesis using assms by (simp add: valid_parts_def)
qed

lemma valid_digit_parts:
  assumes "valid_parts p" "0 \<le> cal_year p" "cal_year p \<le> 9999" shows "digit_parts p"
  using assms valid_day [OF assms(1)] by (auto simp: valid_parts_def digit_parts_def)

lemma UTC_INSTANT_iso:
  assumes "valid_parts p" "1 \<le> cal_year p" "cal_year p \<le> 9999" shows "UTC_INSTANT (iso_text p)"
proof -
  have d: "digit_parts p" using assms by (intro valid_digit_parts) simp_all
  have y: "year_text (cal_year p) = digits 4 (nat (cal_year p))" using assms by (simp add: year_text_def)
  show ?thesis using assms d valid_day [OF assms(1)]
    unfolding iso_text_def y UTC_INSTANT_def number_at_def
    by (simp only: iso_slices length_digits) (simp add: digit_parts_def valid_parts_def read_digits_fields)
qed

text \<open>Every four-digit-year epoch is read back from its text.\<close>

lemma date_parse_to_iso:
  assumes "four_digit_year e" shows "date_parse (to_iso e) = Some e"
proof -
  have y: "1 \<le> cal_year (fields_of e)" "cal_year (fields_of e) \<le> 9999" using assms by (simp_all add: four_digit_year_iff)
  have "UTC_INSTANT (to_iso e)" unfolding to_iso_def by (rule UTC_INSTANT_iso [OF valid_fields y])
  moreover have "utc_parts (to_iso e) = fields_of e"
    unfolding to_iso_def by (rule utc_parts_iso, rule valid_digit_parts [OF valid_fields]) (use y in simp_all)
  ultimately show ?thesis by (simp add: date_parse_def)
qed

lemma to_iso_inj: "four_digit_year d \<Longrightarrow> four_digit_year e \<Longrightarrow> to_iso d = to_iso e \<longleftrightarrow> d = e"
  by (metis date_parse_to_iso option.inject)

lemma length_to_iso_wide:
  assumes "\<not> (0 \<le> cal_year (fields_of e) \<and> cal_year (fields_of e) \<le> 9999)" shows "length (to_iso e) = 27"
  using assms by (simp add: to_iso_def iso_text_def year_text_def)

lemma canonical_epoch:
  assumes "date_parse s = Some e" "to_iso e = s" shows "four_digit_year e"
proof -
  have u: "UTC_INSTANT s" "e = make_epoch (utc_parts s)"
    using assms(1) by (auto simp: date_parse_def split: if_splits)
  then have "length (to_iso e) = 24" using assms(2) by (simp add: UTC_INSTANT_def)
  then have r: "0 \<le> cal_year (fields_of e)" "cal_year (fields_of e) \<le> 9999" using length_to_iso_wide by fastforce+
  have "utc_parts s = fields_of e"
    using assms(2) utc_parts_iso [OF valid_digit_parts [OF valid_fields r]] by (metis to_iso_def)
  moreover have "1 \<le> cal_year (utc_parts s)" using u(1) by (simp add: UTC_INSTANT_def utc_parts_def)
  ultimately show ?thesis using r by (simp add: four_digit_year_iff)
qed

lemma canonical_instant_iff: "canonical_instant s \<longleftrightarrow> (\<exists>e. four_digit_year e \<and> s = to_iso e)"
proof
  assume "canonical_instant s"
  then obtain e where "date_parse s = Some e" "to_iso e = s" by (auto simp: canonical_instant_def split: option.splits)
  then show "\<exists>e. four_digit_year e \<and> s = to_iso e" using canonical_epoch by blast
next
  assume "\<exists>e. four_digit_year e \<and> s = to_iso e"
  then show "canonical_instant s" using date_parse_to_iso by (auto simp: canonical_instant_def)
qed

lemma canonical_to_iso [simp]: "four_digit_year e \<Longrightarrow> canonical_instant (to_iso e)"
  by (auto simp: canonical_instant_iff)

lemma canonical_parse:
  assumes "canonical_instant s"
  obtains e where "date_parse s = Some e" "four_digit_year e" "s = to_iso e"
  using assms date_parse_to_iso by (auto simp: canonical_instant_iff)

end
