(* ===== verification/Schedule_Runtime.thy ===== *)
theory Schedule_Runtime
  imports Schedule_Domain Inbox
begin

text \<open>
  The live timer projection of one agent's schedules (\<open>schedule/schedule/src/runtime.ts\<close>): the decision
  what is due, and the drive that hands one due reminder, or one batch of fixed-rate reminders, to the
  agent and records the dispatch. The agent is its inbox, which holds the session. \<open>driveOnce\<close> is cut at
  its awaits: what the rest of the program does in between is another call on the agent.
\<close>

subsection \<open>Decisions\<close>

datatype due_decision =
    DueOneShot schedule_record
  | DueEvery "(schedule_record \<times> string) list" string
  | DueWait "int option"

definition due_one_shots :: "int \<Rightarrow> schedule_record list \<Rightarrow> schedule_record list" where
  "due_one_shots now rs = filter (\<lambda>r. \<not> is_every r \<and> target_due now r) rs"

definition due_every :: "int \<Rightarrow> schedule_record list \<Rightarrow> schedule_record list" where
  "due_every now rs = filter (\<lambda>r. is_every r \<and> target_due now r) rs"

text \<open>The reduction to the earliest future target.\<close>

definition earlier_wake :: "int \<Rightarrow> int option \<Rightarrow> schedule_record \<Rightarrow> int option" where
  "earlier_wake now sel r =
     (case date_parse (sr_scheduledAt r) of
        None \<Rightarrow> sel
      | Some t \<Rightarrow> if now < t \<and> (case sel of None \<Rightarrow> True | Some s \<Rightarrow> t < s) then Some t else sel)"

text \<open>Sorting by target, then by creation order, is a stable sort by target.\<close>

definition dueDecision :: "folded_schedules \<Rightarrow> int \<Rightarrow> (schedule_log_error, due_decision) result" where
  "dueDecision f now =
     (case sort_key target_of (due_one_shots now (fd_active f)) of
        r # _ \<Rightarrow> Inr (DueOneShot r)
      | [] \<Rightarrow>
          (case sort_key target_of (due_every now (fd_active f)) of
             [] \<Rightarrow> Inr (DueWait (foldl (earlier_wake now) None (fd_active f)))
           | every \<Rightarrow>
               res_map (\<lambda>reminders. DueEvery reminders (to_iso now))
                 (mapE (\<lambda>r. res_map (\<lambda>occ. (r, eo_occurrenceAt occ)) (resolveEveryOccurrence r (Some now))) every)))"

subsection \<open>State\<close>

definition MAX_TIMER_DELAY_MS :: int where
  "MAX_TIMER_DELAY_MS = 2147483647"

text \<open>The armed timer is its delay; \<open>rt_running\<close> is a pending \<open>run\<close>, \<open>rt_idleWait\<close> a pending idle wait.\<close>

record schedule_runtime =
  rt_agent :: inbox
  rt_timer :: "int option"
  rt_requested :: bool
  rt_running :: bool
  rt_idleWait :: bool
  rt_stopping :: bool
  rt_faulted :: bool

definition newRuntime :: "inbox \<Rightarrow> schedule_runtime" where
  "newRuntime ib = \<lparr>rt_agent = ib, rt_timer = None, rt_requested = False, rt_running = False, rt_idleWait = False,
     rt_stopping = False, rt_faulted = False\<rparr>"

definition clearTimer :: "schedule_runtime \<Rightarrow> schedule_runtime" where
  "clearTimer rt = rt\<lparr>rt_timer := None\<rparr>"

definition arm :: "int \<Rightarrow> int \<Rightarrow> schedule_runtime \<Rightarrow> schedule_runtime" where
  "arm target now rt = rt\<lparr>rt_timer := Some (min (target - now) MAX_TIMER_DELAY_MS)\<rparr>"

text \<open>\<open>live\<close> is the answer of the registry of agents; \<open>started\<close> that the run could be started.\<close>

definition isRunnable :: "bool \<Rightarrow> schedule_runtime \<Rightarrow> bool" where
  "isRunnable live rt = (\<not> rt_stopping rt \<and> live)"

definition requestDrive :: "bool \<Rightarrow> schedule_runtime \<Rightarrow> schedule_runtime" where
  "requestDrive started rt =
     (if rt_stopping rt \<or> rt_faulted rt then rt
      else let rt' = (clearTimer rt)\<lparr>rt_requested := True\<rparr> in
        if rt_running rt' \<or> \<not> started then rt' else rt'\<lparr>rt_running := True\<rparr>)"

definition dispose :: "schedule_runtime \<Rightarrow> schedule_runtime" where
  "dispose rt = (clearTimer rt)\<lparr>rt_stopping := True, rt_requested := False\<rparr>"

text \<open>The head of the loop in \<open>runRequested\<close>: take the request, or leave the loop and retire the run.\<close>

definition runRequested :: "schedule_runtime \<Rightarrow> schedule_runtime \<times> bool" where
  "runRequested rt =
     (if rt_requested rt \<and> \<not> rt_stopping rt \<and> \<not> rt_faulted rt then (rt\<lparr>rt_requested := False\<rparr>, True) else (rt, False))"

definition retire :: "bool \<Rightarrow> schedule_runtime \<Rightarrow> schedule_runtime" where
  "retire started rt =
     (let rt' = rt\<lparr>rt_running := False\<rparr> in
      if rt_requested rt' \<and> \<not> rt_stopping rt' \<and> \<not> rt_faulted rt' then requestDrive started rt' else rt')"

definition waitForIdle :: "schedule_runtime \<Rightarrow> schedule_runtime" where
  "waitForIdle rt = rt\<lparr>rt_idleWait := True\<rparr>"

text \<open>The end of the idle wait; \<open>ok\<close> is false when it failed.\<close>

definition idleWaitDone :: "bool \<Rightarrow> bool \<Rightarrow> schedule_runtime \<Rightarrow> schedule_runtime" where
  "idleWaitDone ok started rt =
     (let rt' = rt\<lparr>rt_idleWait := False\<rparr> in if ok then requestDrive started rt' else rt')"

definition timerFired :: "bool \<Rightarrow> schedule_runtime \<Rightarrow> schedule_runtime" where
  "timerFired started rt = requestDrive started (rt\<lparr>rt_timer := None\<rparr>)"

subsection \<open>Reading the log\<close>

definition agent_log :: "schedule_runtime \<Rightarrow> event list" where
  "agent_log rt = ses_log (ib_session (rt_agent rt))"

definition fold_session :: "session \<Rightarrow> (schedule_log_error, folded_schedules) result" where
  "fold_session s = foldScheduleEvents (ses_log s) (int (seed_length s))"

definition readFolded :: "schedule_runtime \<Rightarrow> schedule_runtime \<times> folded_schedules option" where
  "readFolded rt =
     (case fold_session (ib_session (rt_agent rt)) of
        Inl _ \<Rightarrow> (rt\<lparr>rt_faulted := True\<rparr>, None)
      | Inr f \<Rightarrow> (rt, Some f))"

definition decide :: "folded_schedules \<Rightarrow> int \<Rightarrow> due_decision option" where
  "decide f now = (case dueDecision f now of Inl _ \<Rightarrow> None | Inr d \<Rightarrow> Some d)"

subsection \<open>Dispatch\<close>

text \<open>The message of a due reminder; its id is random.\<close>

definition reminder_message :: "string \<Rightarrow> string \<Rightarrow> message" where
  "reminder_message mid body = \<lparr>msg_id = mid, msg_role = RoleUser, msg_content = [TextBlock body],
     msg_source = SourcePlugin ''schedule'' []\<rparr>"

fun decision_text :: "due_decision \<Rightarrow> string" where
  "decision_text (DueOneShot r) = renderReminderFraming r"
| "decision_text (DueEvery rs _) = renderEveryReminderBatchFraming rs"
| "decision_text (DueWait _) = []"

fun decision_changes :: "due_decision \<Rightarrow> schedule_change list" where
  "decision_changes (DueOneShot r) = [ScheduleDispatch (sr_id r) None]"
| "decision_changes (DueEvery rs acceptedAt) = map (\<lambda>(r, _). ScheduleDispatch (sr_id r) (Some acceptedAt)) rs"
| "decision_changes (DueWait _) = []"

text \<open>\<open>agent.followup\<close>: the message goes to the end of the next-turn list.\<close>

definition followup :: "message \<Rightarrow> int \<Rightarrow> inbox \<Rightarrow> inbox \<times> (inbox_error, message list) result" where
  "followup m t ib = inbox_splice NextTurn PosInf (num_of_int 0) [m] t ib"

text \<open>The appends of the dispatch events, one after the other; the truth value is that all succeeded.\<close>

primrec append_changes :: "int \<Rightarrow> schedule_change list \<Rightarrow> session \<Rightarrow> session \<times> bool" where
  "append_changes t [] s = (s, True)"
| "append_changes t (c # cs) s =
     (case append_detached s t (schedule_data c) None None of
        Inl _ \<Rightarrow> (s, False)
      | Inr (s', _) \<Rightarrow> append_changes t cs s')"

text \<open>The job given to \<open>runMaintenance\<close>, which runs it at once; the result is its boolean.\<close>

definition maintenance_job ::
  "bool \<Rightarrow> int \<Rightarrow> int \<Rightarrow> string \<Rightarrow> schedule_runtime \<Rightarrow> schedule_runtime \<times> bool" where
  "maintenance_job live now t mid rt =
     (if \<not> isRunnable live rt then (rt, False)
      else case readFolded rt of
        (rt1, None) \<Rightarrow> (rt1, False)
      | (rt1, Some f) \<Rightarrow>
          (case decide f now of
             None \<Rightarrow> (rt1, False)
           | Some (DueWait target) \<Rightarrow>
               (case target of None \<Rightarrow> (rt1, False) | Some w \<Rightarrow> (arm w now rt1, False))
           | Some d \<Rightarrow>
               (case followup (reminder_message mid (decision_text d)) t (rt_agent rt1) of
                  (ib, Inl _) \<Rightarrow> (rt1\<lparr>rt_agent := ib\<rparr>, False)
                | (ib, Inr _) \<Rightarrow>
                    (case append_changes t (decision_changes d) (ib_session ib) of
                       (s, True) \<Rightarrow> (rt1\<lparr>rt_agent := ib\<lparr>ib_session := s\<rparr>\<rparr>, True)
                     | (s, False) \<Rightarrow>
                         (clearTimer (rt1\<lparr>rt_agent := ib\<lparr>ib_session := s\<rparr>, rt_faulted := True\<rparr>), False)))))"

subsection \<open>One drive\<close>

datatype drive_await = AwaitPreflight | AwaitBarrier | DriveDone

text \<open>Up to the preflight flush.\<close>

definition drive_begin :: "bool \<Rightarrow> schedule_runtime \<Rightarrow> schedule_runtime \<times> drive_await" where
  "drive_begin live rt =
     (let rt' = clearTimer rt in (rt', if isRunnable live rt' then AwaitPreflight else DriveDone))"

text \<open>From the preflight flush to the dispatch barrier; \<open>busy\<close> is an agent with active work.\<close>

definition drive_decide ::
  "bool \<Rightarrow> bool \<Rightarrow> bool \<Rightarrow> int \<Rightarrow> int \<Rightarrow> int \<Rightarrow> string \<Rightarrow> schedule_runtime \<Rightarrow> schedule_runtime \<times> drive_await" where
  "drive_decide flushed live busy wakeNow now t mid rt =
     (if \<not> flushed \<or> \<not> isRunnable live rt then (rt, DriveDone)
      else case readFolded rt of
        (rt1, None) \<Rightarrow> (rt1, DriveDone)
      | (rt1, Some f) \<Rightarrow>
          (case decide f wakeNow of
             None \<Rightarrow> (rt1, DriveDone)
           | Some (DueWait target) \<Rightarrow>
               (case target of None \<Rightarrow> (rt1, DriveDone) | Some w \<Rightarrow> (arm w wakeNow rt1, DriveDone))
           | Some _ \<Rightarrow>
               if busy then (if live then waitForIdle rt1 else rt1, DriveDone)
               else (case maintenance_job live now t mid rt1 of
                  (rt2, dispatched) \<Rightarrow> (rt2, if dispatched then AwaitBarrier else DriveDone))))"

definition drive_end :: "bool \<Rightarrow> bool \<Rightarrow> bool \<Rightarrow> schedule_runtime \<Rightarrow> schedule_runtime" where
  "drive_end flushed live started rt =
     (if flushed \<and> isRunnable live rt then requestDrive started rt else rt)"

end
