(* ===== verification/Schedule_Input.thy ===== *)
theory Schedule_Input
  imports Schedule_Domain
begin

text \<open>
  From a model's arguments to a durable record (\<open>schedule/schedule/src/domain.ts\<close>): explicit-offset
  instants, local calendar values in a time zone, and the three creators. The time-zone database of the
  run time is two arguments: \<open>canon\<close> resolves a zone name (\<open>Intl.DateTimeFormat\<close> throws on \<open>None\<close>), and
  \<open>zoff\<close> is the offset in seconds of a zone at an epoch.
\<close>

datatype schedule_input_error =
    InvalidPrompt
  | InvalidRule
  | InvalidTimeZone
  | NotFuture
  | TimeOutOfRange
  | FrequencyTooHigh

subsection \<open>Calendar values\<close>

text \<open>The largest time value of \<open>Date\<close>; beyond it a date is \<open>NaN\<close>.\<close>

definition MAX_TIME_VALUE :: int where
  "MAX_TIME_VALUE = 8640000000000000"

definition calendarEpoch :: "calendar_parts \<Rightarrow> (schedule_input_error, int) result" where
  "calendarEpoch p =
     (let e = make_epoch p in
      if MAX_TIME_VALUE < \<bar>e\<bar> \<or> fields_of e \<noteq> p then Inl InvalidRule else Inr e)"

text \<open>\<open>Number(value.padEnd(3, '0'))\<close>\<close>

definition milliseconds :: "string option \<Rightarrow> int" where
  "milliseconds v =
     (case v of None \<Rightarrow> 0 | Some ds \<Rightarrow> int (read_digits (ds @ replicate (3 - length ds) (CHR ''0''))))"

definition futureInstant :: "int \<Rightarrow> int \<Rightarrow> (schedule_input_error, string) result" where
  "futureInstant e now =
     (if \<not> safe_int now \<or> \<not> safe_int e \<or> e < MIN_FOUR_DIGIT_YEAR_MS \<or> MAX_FOUR_DIGIT_YEAR_MS < e then Inl TimeOutOfRange
      else if e \<le> now then Inl NotFuture
      else if \<not> UTC_INSTANT (to_iso e) then Inl TimeOutOfRange
      else Inr (to_iso e))"

subsection \<open>Shapes\<close>

text \<open>\<open>YYYY-MM-DD\<close> and \<open>HH:mm:ss\<close>.\<close>

definition date_shape :: "string \<Rightarrow> bool" where
  "date_shape s =
     (length s = 10 \<and> all_digits (slice 0 4 s) \<and> slice 4 1 s = ''-'' \<and> all_digits (slice 5 2 s) \<and> slice 7 1 s = ''-''
      \<and> all_digits (slice 8 2 s))"

definition time_shape :: "string \<Rightarrow> bool" where
  "time_shape s =
     (length s = 8 \<and> all_digits (slice 0 2 s) \<and> slice 2 1 s = '':'' \<and> all_digits (slice 3 2 s) \<and> slice 5 1 s = '':''
      \<and> all_digits (slice 6 2 s))"

text \<open>The optional fraction: a dot and one to three digits. \<open>None\<close> when a dot is not followed by them.\<close>

definition split_fraction :: "string \<Rightarrow> (string option \<times> string) option" where
  "split_fraction s =
     (if take 1 s = ''.'' then
        let ds = takeWhile is_digit (drop 1 s) in
        if 1 \<le> length ds \<and> length ds \<le> 3 then Some (Some ds, drop (1 + length ds) s) else None
      else Some (None, s))"

definition parts_from :: "string \<Rightarrow> string \<Rightarrow> string option \<Rightarrow> calendar_parts" where
  "parts_from d t fs = \<lparr>cal_year = number_at 0 4 d, cal_month = number_at 5 2 d, cal_day = number_at 8 2 d,
     cal_hour = number_at 0 2 t, cal_minute = number_at 3 2 t, cal_second = number_at 6 2 t,
     cal_millisecond = milliseconds fs\<rparr>"

definition unreal_parts :: "calendar_parts \<Rightarrow> bool" where
  "unreal_parts p = (cal_year p = 0 \<or> 23 < cal_hour p \<or> 59 < cal_minute p \<or> 59 < cal_second p)"

subsection \<open>Explicit offsets\<close>

datatype offset_zone = ZoneUtc | ZoneOffset bool int int

text \<open>\<open>Z\<close> or a signed \<open>HH:mm\<close>; the truth value is the plus sign.\<close>

definition parse_zone :: "string \<Rightarrow> offset_zone option" where
  "parse_zone s =
     (if s = ''Z'' then Some ZoneUtc
      else if length s = 6 \<and> (take 1 s = ''+'' \<or> take 1 s = ''-'') \<and> all_digits (slice 1 2 s) \<and> slice 3 1 s = '':''
          \<and> all_digits (slice 4 2 s)
        then Some (ZoneOffset (take 1 s = ''+'') (number_at 1 2 s) (number_at 4 2 s))
      else None)"

text \<open>The regular expression \<open>OFFSET_INSTANT\<close> with its groups.\<close>

definition OFFSET_INSTANT :: "string \<Rightarrow> (calendar_parts \<times> offset_zone) option" where
  "OFFSET_INSTANT s =
     (if date_shape (slice 0 10 s) \<and> slice 10 1 s = ''T'' \<and> time_shape (slice 11 8 s) then
        (case split_fraction (drop 19 s) of
           None \<Rightarrow> None
         | Some (fs, rest) \<Rightarrow> map_option (\<lambda>z. (parts_from (slice 0 10 s) (slice 11 8 s) fs, z)) (parse_zone rest))
      else None)"

definition parseOffsetInstant :: "string \<Rightarrow> (schedule_input_error, int) result" where
  "parseOffsetInstant s =
     (case OFFSET_INSTANT s of
        None \<Rightarrow> Inl InvalidRule
      | Some (p, z) \<Rightarrow>
          if unreal_parts p then Inl InvalidRule
          else bindE (calendarEpoch p) (\<lambda>localEpoch.
            (case z of
               ZoneUtc \<Rightarrow> Inr localEpoch
             | ZoneOffset ahead h m \<Rightarrow>
                 if 23 < h \<or> 59 < m \<or> (\<not> ahead \<and> h = 0 \<and> m = 0) then Inl InvalidRule
                 else Inr (localEpoch - (if ahead then 1 else - 1) * (h * 60 + m) * 60000))))"

subsection \<open>Time zones\<close>

definition zone_char :: "char \<Rightarrow> bool" where
  "zone_char c = (is_lower c \<or> is_digit c \<or> ((65 :: nat) \<le> of_char c \<and> of_char c \<le> (90 :: nat))
     \<or> c \<in> set ''_+.-'')"

definition zone_letter :: "char \<Rightarrow> bool" where
  "zone_letter c = (is_lower c \<or> ((65 :: nat) \<le> of_char c \<and> of_char c \<le> (90 :: nat)))"

text \<open>The regular expression \<open>IANA_ZONE\<close>.\<close>

definition IANA_ZONE :: "string \<Rightarrow> bool" where
  "IANA_ZONE s =
     (case split_on (CHR ''/'') s of
        (c # area) # location # others \<Rightarrow>
          zone_letter c \<and> list_all zone_char area
          \<and> list_all (\<lambda>w. w \<noteq> [] \<and> list_all zone_char w) (location # others)
      | _ \<Rightarrow> False)"

definition canonicalizeTimeZone ::
  "(string \<Rightarrow> string option) \<Rightarrow> string \<Rightarrow> (schedule_input_error, string) result" where
  "canonicalizeTimeZone canon v =
     (if v = [] \<or> js_trim v \<noteq> v \<or> (v \<noteq> ''UTC'' \<and> \<not> IANA_ZONE v) then Inl InvalidTimeZone
      else case canon v of
        None \<Rightarrow> Inl InvalidTimeZone
      | Some c \<Rightarrow> if c \<noteq> ''UTC'' \<and> \<not> IANA_ZONE c then Inl InvalidTimeZone else Inr c)"

text \<open>
  \<open>formatToParts\<close> with the options of the code: the fields of the local time, and the \<open>longOffset\<close> name
  of the offset, whose seconds are printed only when there are some.
\<close>

definition long_offset :: "int \<Rightarrow> string" where
  "long_offset off =
     (if off = 0 then ''GMT''
      else let a = nat \<bar>off\<bar> in
        ''GMT'' @ (if off < 0 then ''-'' else ''+'') @ digits 2 (a div 3600) @ '':'' @ digits 2 (a div 60 mod 60)
        @ (if a mod 60 = 0 then [] else '':'' @ digits 2 (a mod 60)))"

definition format_parts :: "(string \<Rightarrow> int \<Rightarrow> int) \<Rightarrow> string \<Rightarrow> int \<Rightarrow> calendar_parts \<times> string" where
  "format_parts zoff zone e = (fields_of (e + 1000 * zoff zone e), long_offset (zoff zone e))"

text \<open>The regular expression \<open>OFFSET_NAME\<close>; the value is in seconds.\<close>

definition OFFSET_NAME :: "string \<Rightarrow> int option" where
  "OFFSET_NAME s =
     (if s = ''GMT'' then Some 0
      else if take 3 s = ''GMT'' \<and> (slice 3 1 s = ''+'' \<or> slice 3 1 s = ''-'') \<and> all_digits (slice 4 2 s)
          \<and> slice 6 1 s = '':'' \<and> all_digits (slice 7 2 s)
          \<and> (length s = 9 \<or> length s = 12 \<and> slice 9 1 s = '':'' \<and> all_digits (slice 10 2 s))
        then Some ((if slice 3 1 s = ''-'' then - 1 else 1)
          * (number_at 4 2 s * 3600 + number_at 7 2 s * 60 + (if length s = 12 then number_at 10 2 s else 0)))
      else None)"

definition localProjection ::
  "(string \<Rightarrow> int \<Rightarrow> int) \<Rightarrow> string \<Rightarrow> int \<Rightarrow> (schedule_input_error, calendar_parts \<times> int) result" where
  "localProjection zoff zone e =
     (case format_parts zoff zone e of (p, name) \<Rightarrow>
        (case OFFSET_NAME name of
           None \<Rightarrow> Inl InvalidTimeZone
         | Some seconds \<Rightarrow> Inr (p, seconds * 1000)))"

definition parseLocalAt :: "string \<Rightarrow> string \<Rightarrow> (schedule_input_error, calendar_parts) result" where
  "parseLocalAt date time =
     (case split_fraction (drop 8 time) of
        Some (fs, []) \<Rightarrow>
          if \<not> date_shape date \<or> \<not> time_shape (take 8 time) then Inl InvalidRule
          else let p = parts_from date (take 8 time) fs in
            if unreal_parts p then Inl InvalidRule else res_map (\<lambda>_. p) (calendarEpoch p)
      | _ \<Rightarrow> Inl InvalidRule)"

definition clamp_four_digit :: "int \<Rightarrow> int" where
  "clamp_four_digit e = min MAX_FOUR_DIGIT_YEAR_MS (max MIN_FOUR_DIGIT_YEAR_MS e)"

definition sample_deltas :: "int list" where
  "sample_deltas = [-172800000, -86400000, 0, 86400000, 172800000]"

text \<open>The set of offsets the zone has around a local time.\<close>

definition sample_offsets ::
  "(string \<Rightarrow> int \<Rightarrow> int) \<Rightarrow> string \<Rightarrow> int \<Rightarrow> (schedule_input_error, int list) result" where
  "sample_offsets zoff zone localEpoch =
     foldE (\<lambda>offs delta. res_map (\<lambda>(p, off). if off \<in> set offs then offs else offs @ [off])
       (localProjection zoff zone (clamp_four_digit (localEpoch + delta)))) [] sample_deltas"

text \<open>The loop over the offsets; the truth value is \<open>outOfRange\<close>.\<close>

definition try_offset ::
  "(string \<Rightarrow> int \<Rightarrow> int) \<Rightarrow> string \<Rightarrow> calendar_parts \<Rightarrow> int \<Rightarrow> int list \<times> bool \<Rightarrow> int
     \<Rightarrow> (schedule_input_error, int list \<times> bool) result" where
  "try_offset zoff zone p localEpoch acc off =
     (let candidate = localEpoch - off in
      if candidate < MIN_FOUR_DIGIT_YEAR_MS \<or> MAX_FOUR_DIGIT_YEAR_MS < candidate then Inr (fst acc, True)
      else res_map (\<lambda>(q, _). if q = p then (fst acc @ [candidate], snd acc) else acc)
        (localProjection zoff zone candidate))"

definition resolveLocalInstant ::
  "(string \<Rightarrow> int \<Rightarrow> int) \<Rightarrow> calendar_parts \<Rightarrow> string \<Rightarrow> (schedule_input_error, int) result" where
  "resolveLocalInstant zoff p zone =
     bindE (calendarEpoch p) (\<lambda>localEpoch.
     bindE (sample_offsets zoff zone localEpoch) (\<lambda>offs.
     bindE (foldE (try_offset zoff zone p localEpoch) ([], False) offs) (\<lambda>(candidates, outOfRange).
       (case sort candidates of
          [] \<Rightarrow> if outOfRange then Inl TimeOutOfRange else Inl InvalidRule
        | first # _ \<Rightarrow> Inr first))))"

subsection \<open>Creation\<close>

definition createAfterScheduleRecord ::
  "string \<Rightarrow> string \<Rightarrow> jsnum \<Rightarrow> int \<Rightarrow> (schedule_input_error, schedule_record) result" where
  "createAfterScheduleRecord i prompt afterSeconds now =
     (let normalized = js_trim prompt in
      if normalized = [] then Inl InvalidPrompt
      else if \<not> isSafeInteger afterSeconds \<or> js_le afterSeconds (num_of_int 0) then Inl InvalidRule
      else res_map (\<lambda>t. \<lparr>sr_id = i, sr_rule = RuleAfter (num_to_int afterSeconds), sr_prompt = normalized, sr_scheduledAt = t\<rparr>)
        (futureInstant (now + num_to_int afterSeconds * 1000) now))"

definition createEveryScheduleRecord ::
  "string \<Rightarrow> string \<Rightarrow> jsnum \<Rightarrow> int \<Rightarrow> (schedule_input_error, schedule_record) result" where
  "createEveryScheduleRecord i prompt everySeconds now =
     (let normalized = js_trim prompt in
      if normalized = [] then Inl InvalidPrompt
      else if \<not> isSafeInteger everySeconds then Inl InvalidRule
      else if js_lt everySeconds (num_of_int MIN_EVERY_INTERVAL_SECONDS) then Inl FrequencyTooHigh
      else res_map (\<lambda>t. \<lparr>sr_id = i, sr_rule = RuleEvery (num_to_int everySeconds), sr_prompt = normalized, sr_scheduledAt = t\<rparr>)
        (futureInstant (now + num_to_int everySeconds * 1000) now))"

text \<open>The absolute selector is a run-time value: a string, or an object with three string fields.\<close>

definition at_target ::
  "(string \<Rightarrow> string option) \<Rightarrow> (string \<Rightarrow> int \<Rightarrow> int) \<Rightarrow> json \<Rightarrow> (schedule_input_error, int) result" where
  "at_target canon zoff v =
     (case v of
        JStr s \<Rightarrow> parseOffsetInstant s
      | JObj kvs \<Rightarrow>
          if \<not> hasExactKeys v [''date'', ''time'', ''time_zone''] then Inl InvalidRule
          else (case (field v ''date'', field v ''time'') of
              (Some (JStr date), Some (JStr time)) \<Rightarrow>
                (case field v ''time_zone'' of
                   Some (JStr raw) \<Rightarrow>
                     bindE (parseLocalAt date time) (\<lambda>p.
                     bindE (canonicalizeTimeZone canon raw) (\<lambda>zone. resolveLocalInstant zoff p zone))
                 | _ \<Rightarrow> Inl InvalidTimeZone)
            | _ \<Rightarrow> Inl InvalidRule)
      | _ \<Rightarrow> Inl InvalidRule)"

definition createAtScheduleRecord ::
  "(string \<Rightarrow> string option) \<Rightarrow> (string \<Rightarrow> int \<Rightarrow> int) \<Rightarrow> string \<Rightarrow> string \<Rightarrow> json \<Rightarrow> int
     \<Rightarrow> (schedule_input_error, schedule_record) result" where
  "createAtScheduleRecord canon zoff i prompt v now =
     (let normalized = js_trim prompt in
      if normalized = [] then Inl InvalidPrompt
      else bindE (at_target canon zoff v) (\<lambda>target.
        res_map (\<lambda>t. \<lparr>sr_id = i, sr_rule = RuleAt, sr_prompt = normalized, sr_scheduledAt = t\<rparr>)
          (futureInstant target now)))"

end
