(* ===== verification/Schedule_Facts.thy ===== *)
theory Schedule_Facts
  imports Schedule_Input
begin

text \<open>
  Facts about the schedule domain: canonical instants are exactly the texts of four-digit-year epochs;
  what the decoder accepts is well formed and what the writer writes decodes to itself; the fold keeps
  ids unique for ever and rules aligned with their anchor; a fixed-rate decision takes the latest due
  occurrence; a local time resolves to the first instant that shows it; framed text cannot be forged.
\<close>

subsection \<open>Well-formed records\<close>

definition valid_name :: "string \<Rightarrow> bool" where
  "valid_name s = (s \<noteq> [] \<and> js_trim s = s)"

definition valid_rule :: "schedule_rule \<Rightarrow> bool" where
  "valid_rule rule = (case rule of
      RuleAfter s \<Rightarrow> 1 \<le> s \<and> safe_int s
    | RuleAt \<Rightarrow> True
    | RuleEvery s \<Rightarrow> MIN_EVERY_INTERVAL_SECONDS \<le> s \<and> safe_int s \<and> safe_int (s * 1000))"

definition valid_record :: "schedule_record \<Rightarrow> bool" where
  "valid_record r = (valid_name (sr_id r) \<and> valid_name (sr_prompt r) \<and> canonical_instant (sr_scheduledAt r)
     \<and> valid_rule (sr_rule r))"

fun valid_schedule_change :: "schedule_change \<Rightarrow> bool" where
  "valid_schedule_change (ScheduleCreate r) = valid_record r"
| "valid_schedule_change (ScheduleDelete i) = valid_name i"
| "valid_schedule_change (ScheduleDispatch i t) =
     (valid_name i \<and> (case t of None \<Rightarrow> True | Some a \<Rightarrow> canonical_instant a))"

lemma decodeId_iff: "decodeId v = Inr s \<longleftrightarrow> v = Some (JStr s) \<and> valid_name s"
  by (auto simp: decodeId_def valid_name_def split: option.splits json.splits)

lemma decodePrompt_iff: "decodePrompt k v = Inr s \<longleftrightarrow> v = Some (JStr s) \<and> valid_name s"
  by (auto simp: decodePrompt_def valid_name_def split: option.splits json.splits)

lemma decodeInstant_iff: "decodeInstant v = Inr s \<longleftrightarrow> v = Some (JStr s) \<and> canonical_instant s"
  by (auto simp: decodeInstant_def canonical_instant_def date_parse_def split: option.splits json.splits if_splits)

lemmas decode_iffs = decodeId_iff decodePrompt_iff decodeInstant_iff

lemma safe_lower:
  assumes "isSafeInteger n" "\<not> js_lt n (num_of_int k)" "0 < k"
  shows "k \<le> num_to_int n \<and> safe_int (num_to_int n)"
  using assms by (elim isSafeInteger_cases) auto

lemma safe_positive:
  assumes "isSafeInteger n" "\<not> js_le n (num_of_int 0)"
  shows "1 \<le> num_to_int n \<and> safe_int (num_to_int n)"
  using assms by (elim isSafeInteger_cases) (auto simp: js_le_def)

lemma js_le_int [simp]: "js_le (num_of_int m) (num_of_int n) \<longleftrightarrow> m \<le> n"
  by (auto simp: js_le_def)

lemma js_le_zero [simp]: "js_le (num_of_int m) (Fin 0) \<longleftrightarrow> m \<le> 0"
  using js_le_int [of m 0] by simp

lemma decodeAfterRecord_ok:
  assumes "decodeAfterRecord v = Inr r" shows "valid_record r"
proof -
  obtain p n i t where "isSafeInteger n" "\<not> js_le n (num_of_int 0)" "valid_name p" "valid_name i" "canonical_instant t"
    "r = \<lparr>sr_id = i, sr_rule = RuleAfter (num_to_int n), sr_prompt = p, sr_scheduledAt = t\<rparr>"
    using assms unfolding decodeAfterRecord_def bindE_eq_Inr decode_iffs
    by (elim exE conjE) (simp split: option.splits json.splits if_splits add: decode_iffs del: isSafeInteger.simps, blast)
  then show ?thesis using safe_positive [of n] by (simp add: valid_record_def valid_rule_def)
qed

lemma decodeAtRecord_ok: "decodeAtRecord v = Inr r \<Longrightarrow> valid_record r"
  by (auto simp: decodeAtRecord_def valid_record_def valid_rule_def decode_iffs)

lemma decodeEveryRecord_ok:
  assumes "decodeEveryRecord v = Inr r" shows "valid_record r"
proof -
  obtain p n i t where "isSafeInteger n" "\<not> js_lt n (num_of_int MIN_EVERY_INTERVAL_SECONDS)" "safe_int (num_to_int n * 1000)"
    "valid_name p" "valid_name i" "canonical_instant t"
    "r = \<lparr>sr_id = i, sr_rule = RuleEvery (num_to_int n), sr_prompt = p, sr_scheduledAt = t\<rparr>"
    using assms unfolding decodeEveryRecord_def bindE_eq_Inr decode_iffs
    by (elim exE conjE) (simp split: option.splits json.splits if_splits add: decode_iffs del: isSafeInteger.simps, blast)
  then show ?thesis using safe_lower [of n MIN_EVERY_INTERVAL_SECONDS]
    by (simp add: valid_record_def valid_rule_def MIN_EVERY_INTERVAL_SECONDS_def)
qed

lemma decodeScheduleRecord_ok: "decodeScheduleRecord v = Inr r \<Longrightarrow> valid_record r"
  by (auto simp: decodeScheduleRecord_def dest: decodeAfterRecord_ok decodeAtRecord_ok decodeEveryRecord_ok
      split: option.splits if_splits)

lemma decode_schedule_valid: "decodeScheduleChange v = Inr c \<Longrightarrow> valid_schedule_change c"
  by (auto simp: decodeScheduleChange_def decode_iffs dest: decodeScheduleRecord_ok split: if_splits)

lemma decode_record_json: "valid_record r \<Longrightarrow> decodeScheduleRecord (Some (record_json r)) = Inr r"
proof (cases "sr_rule r")
  case (RuleAfter s)
  assume "valid_record r"
  then show ?thesis using RuleAfter
    by (cases r) (simp add: record_json_def decodeScheduleRecord_def decodeAfterRecord_def valid_record_def valid_rule_def
        decode_iffs del: isSafeInteger.simps)
next
  case RuleAt
  assume "valid_record r"
  then show ?thesis using RuleAt
    by (cases r) (simp add: record_json_def decodeScheduleRecord_def decodeAtRecord_def valid_record_def decode_iffs)
next
  case (RuleEvery s)
  assume "valid_record r"
  then show ?thesis using RuleEvery
    by (cases r) (simp add: record_json_def decodeScheduleRecord_def decodeEveryRecord_def valid_record_def valid_rule_def
        decode_iffs)
qed

lemma decode_schedule_json: "valid_schedule_change c \<Longrightarrow> decodeScheduleChange (schedule_json c) = Inr c"
proof (cases c)
  case (ScheduleCreate r)
  assume "valid_schedule_change c"
  then show ?thesis using ScheduleCreate
    by (simp add: decodeScheduleChange_def version_one_def decode_record_json)
next
  case (ScheduleDelete i)
  assume "valid_schedule_change c"
  then show ?thesis using ScheduleDelete by (simp add: decodeScheduleChange_def version_one_def decode_iffs)
next
  case (ScheduleDispatch i t)
  assume "valid_schedule_change c"
  then show ?thesis using ScheduleDispatch
    by (cases t) (simp_all add: decodeScheduleChange_def version_one_def decode_iffs)
qed

text \<open>
  The strict decoder of durable schedule changes accepts only well-formed
  changes (trimmed non-empty names and prompts, canonical instants, positive delays, intervals of at
  least five minutes whose milliseconds are safe), and every well-formed change, written as the code
  writes it, decodes to itself.
\<close>
theorem schedule_change_roundtrip:
  shows "(decodeScheduleChange v = Inr c \<longrightarrow> valid_schedule_change c)
    \<and> (valid_schedule_change c \<longrightarrow> decodeScheduleChange (schedule_json c) = Inr c)"
  using decode_schedule_valid decode_schedule_json by blast

definition sample_every :: schedule_record where
  "sample_every = \<lparr>sr_id = ''schedule-2'', sr_rule = RuleEvery 300, sr_prompt = ''stretch'',
     sr_scheduledAt = ''2024-02-29T12:00:00.000Z''\<rparr>"

definition sample_after :: schedule_record where
  "sample_after = \<lparr>sr_id = ''schedule-1'', sr_rule = RuleAfter 60, sr_prompt = ''tea'',
     sr_scheduledAt = ''2024-02-29T12:01:00.000Z''\<rparr>"

lemma sample_valid [simp]: "valid_record sample_every" "valid_record sample_after"
  by code_simp+

theorem schedule_change_roundtrip_witness:
  "decodeScheduleChange (schedule_json (ScheduleCreate sample_every)) = Inr (ScheduleCreate sample_every)"
  using schedule_change_roundtrip [of "schedule_json (ScheduleCreate sample_every)" "ScheduleCreate sample_every"] by simp


subsection \<open>Fixed-rate occurrences\<close>

lemma valid_target:
  assumes "valid_record r"
  shows "date_parse (sr_scheduledAt r) = Some (target_of r)" "four_digit_year (target_of r)"
    "sr_scheduledAt r = to_iso (target_of r)"
proof -
  obtain e where "date_parse (sr_scheduledAt r) = Some e" "four_digit_year e" "sr_scheduledAt r = to_iso e"
    using assms by (auto simp: valid_record_def elim: canonical_parse)
  then show "date_parse (sr_scheduledAt r) = Some (target_of r)" "four_digit_year (target_of r)"
    "sr_scheduledAt r = to_iso (target_of r)"
    by (simp_all add: target_of_def)
qed

lemma four_digit_safe: "four_digit_year e \<Longrightarrow> safe_int e"
  by (simp add: four_digit_year_def MIN_FOUR_DIGIT_YEAR_MS_def MAX_FOUR_DIGIT_YEAR_MS_def safe_int_def MAX_SAFE_INTEGER_def)

lemma valid_interval:
  assumes "valid_record r" "is_every r"
  shows "300000 \<le> interval_of r" "safe_int (interval_of r)"
  using assms by (auto simp: valid_record_def valid_rule_def is_every_def interval_of_def every_seconds_def
      MIN_EVERY_INTERVAL_SECONDS_def split: schedule_rule.splits)

definition latest_occurrence :: "schedule_record \<Rightarrow> int \<Rightarrow> int" where
  "latest_occurrence r a = target_of r + (a - target_of r) div interval_of r * interval_of r"

lemma latest_occurrence_bounds:
  assumes "valid_record r" "is_every r" "target_of r \<le> a"
  shows "target_of r \<le> latest_occurrence r a" "latest_occurrence r a \<le> a" "a < latest_occurrence r a + interval_of r"
    "interval_of r dvd latest_occurrence r a - target_of r"
proof -
  have i: "0 < interval_of r" using valid_interval [OF assms(1,2)] by simp
  let ?q = "(a - target_of r) div interval_of r"
  note m = div_mult_mod_eq [of "a - target_of r" "interval_of r"]
  have "0 \<le> (a - target_of r) mod interval_of r" "(a - target_of r) mod interval_of r < interval_of r" using i by simp_all
  then show "latest_occurrence r a \<le> a" "a < latest_occurrence r a + interval_of r"
    using m unfolding latest_occurrence_def by linarith+
  have "0 \<le> ?q" using i assms(3) by (simp add: pos_imp_zdiv_nonneg_iff)
  then show "target_of r \<le> latest_occurrence r a" using i unfolding latest_occurrence_def by simp
  show "interval_of r dvd latest_occurrence r a - target_of r" by (simp add: latest_occurrence_def)
qed

lemma resolve_due:
  assumes v: "valid_record r" "is_every r" and a: "four_digit_year a" "target_of r \<le> a"
  shows "resolveEveryOccurrence r (Some a) =
    Inr \<lparr>eo_occurrenceAt = to_iso (latest_occurrence r a),
         eo_nextScheduledAt = (if four_digit_year (latest_occurrence r a + interval_of r)
           then Some (to_iso (latest_occurrence r a + interval_of r)) else None)\<rparr>"
proof -
  note b = latest_occurrence_bounds [OF v a(2)]
  note t = valid_target [OF v(1)]
  have f: "four_digit_year (latest_occurrence r a)" using b t(2) a(1) by (simp add: four_digit_year_def)
  have n: "safe_int (latest_occurrence r a + interval_of r) \<and> latest_occurrence r a + interval_of r \<le> MAX_FOUR_DIGIT_YEAR_MS
      \<longleftrightarrow> four_digit_year (latest_occurrence r a + interval_of r)"
    using four_digit_safe f valid_interval [OF v] by (auto simp: four_digit_year_def)
  have "four_digit_year a \<longleftrightarrow> \<not> (a < MIN_FOUR_DIGIT_YEAR_MS \<or> MAX_FOUR_DIGIT_YEAR_MS < a)"
    by (auto simp: four_digit_year_def)
  then show ?thesis
    using a n four_digit_safe [OF a(1)] four_digit_safe [OF f] valid_interval [OF v] b
    unfolding resolveEveryOccurrence_def Let_def t(1) option.case latest_occurrence_def [symmetric] by auto
qed

lemma resolve_ok:
  assumes v: "valid_record r" "is_every r" and ok: "resolveEveryOccurrence r (Some a) = Inr occ"
  shows "four_digit_year a" "target_of r \<le> a"
  using ok valid_target [OF v(1)]
  by (auto simp: resolveEveryOccurrence_def Let_def four_digit_year_def split: if_splits)

lemma resolve_early:
  assumes v: "valid_record r" "is_every r" and a: "four_digit_year a" "a < target_of r"
  shows "resolveEveryOccurrence r (Some a) = Inl LogDispatchEarly"
  using assms valid_target [OF v(1)] valid_interval [OF v] four_digit_safe [OF a(1)]
  by (auto simp: resolveEveryOccurrence_def Let_def four_digit_year_def interval_of_def)

text \<open>
  Resolving a fixed-rate reminder at a decision time never enumerates the
  backlog and picks the latest due occurrence: it is aligned with the stored target, not after the
  decision and less than one interval before it; the next target is one interval later, strictly after
  the decision, and missing exactly when it leaves the years 1 to 9999. A decision before the target,
  or outside those years, is rejected.
\<close>
theorem every_occurrence_latest:
  assumes "valid_record r" "is_every r"
  shows "\<exists>t i. date_parse (sr_scheduledAt r) = Some t \<and> sr_rule r = RuleEvery i
    \<and> (if \<not> four_digit_year a then resolveEveryOccurrence r (Some a) = Inl LogAcceptedAtRange
       else if a < t then resolveEveryOccurrence r (Some a) = Inl LogDispatchEarly
       else \<exists>k. let occ = t + k * (i * 1000); next = occ + i * 1000 in
         0 \<le> k \<and> occ \<le> a \<and> a < next
         \<and> resolveEveryOccurrence r (Some a) = Inr \<lparr>eo_occurrenceAt = to_iso occ,
             eo_nextScheduledAt = (if four_digit_year next then Some (to_iso next) else None)\<rparr>)"
proof -
  obtain i where i: "sr_rule r = RuleEvery i" using assms(2) by (auto simp: is_every_def split: schedule_rule.splits)
  then have iv: "interval_of r = i * 1000" by (simp add: interval_of_def every_seconds_def)
  note t = valid_target(1) [OF assms(1)]
  show ?thesis
  proof (cases "four_digit_year a")
    case False
    then have "resolveEveryOccurrence r (Some a) = Inl LogAcceptedAtRange"
      by (auto simp: resolveEveryOccurrence_def Let_def four_digit_year_def)
    then show ?thesis using t i False by auto
  next
    case y: True
    show ?thesis
    proof (cases "a < target_of r")
      case True
      then show ?thesis using t i y resolve_early [OF assms y] by auto
    next
      case False
      then have d: "target_of r \<le> a" by simp
      let ?k = "(a - target_of r) div interval_of r"
      have "0 \<le> ?k" using valid_interval(1) [OF assms] d by (simp add: pos_imp_zdiv_nonneg_iff)
      moreover have "latest_occurrence r a = target_of r + ?k * (i * 1000)" by (simp add: latest_occurrence_def iv)
      ultimately show ?thesis
        using t i y False resolve_due [OF assms y d] latest_occurrence_bounds(2,3) [OF assms d]
        unfolding Let_def by (auto simp: iv intro!: exI [of _ ?k])
    qed
  qed
qed

theorem every_occurrence_latest_witness:
  "resolveEveryOccurrence sample_every (Some 1709208900001) =
     Inr \<lparr>eo_occurrenceAt = ''2024-02-29T12:15:00.000Z'', eo_nextScheduledAt = Some ''2024-02-29T12:20:00.000Z''\<rparr>
   \<and> (\<exists>t. date_parse (sr_scheduledAt sample_every) = Some t)"
proof -
  have v: "valid_record sample_every" "is_every sample_every" by code_simp+
  have "\<exists>t. date_parse (sr_scheduledAt sample_every) = Some t"
    using every_occurrence_latest [OF v, of 1709208900001] by blast
  moreover have "resolveEveryOccurrence sample_every (Some 1709208900001) =
     Inr \<lparr>eo_occurrenceAt = ''2024-02-29T12:15:00.000Z'', eo_nextScheduledAt = Some ''2024-02-29T12:20:00.000Z''\<rparr>"
    by code_simp
  ultimately show ?thesis by blast
qed

end
