(* ===== verification/Schedule_Fold_Facts.thy ===== *)
theory Schedule_Fold_Facts
  imports Schedule_Facts
begin

text \<open>
  Facts about the schedule fold: its state invariant, what an active reminder may turn into while the
  log grows, and the freshness of allocated ids.
\<close>

subsection \<open>The state invariant\<close>

definition sched_inv :: "schedule_fold \<Rightarrow> bool" where
  "sched_inv st = (distinct (sf_seen st) \<and> omap_wf (sf_active st)
     \<and> (\<forall>(i, r) \<in> set (sf_active st). sr_id r = i \<and> valid_record r \<and> i \<in> set (sf_seen st)))"

lemma sched_inv_empty [simp]: "sched_inv empty_schedules"
  by (simp add: sched_inv_def empty_schedules_def)

lemma sched_inv_active:
  "sched_inv st \<Longrightarrow> map_of (sf_active st) i = Some r \<Longrightarrow> sr_id r = i \<and> valid_record r \<and> i \<in> set (sf_seen st)"
  by (auto simp: sched_inv_def dest!: map_of_SomeD)

text \<open>The invariant read through the map.\<close>

lemma sched_invI:
  assumes "distinct (sf_seen st)" "omap_wf (sf_active st)"
    and "\<And>i r. map_of (sf_active st) i = Some r \<Longrightarrow> sr_id r = i \<and> valid_record r \<and> i \<in> set (sf_seen st)"
  shows "sched_inv st"
  using assms by (auto simp: sched_inv_def omap_wf_map_of_in_set [symmetric])

text \<open>The same reminder, at the same or a later target on the grid of its rule.\<close>

definition follows :: "schedule_record \<Rightarrow> schedule_record \<Rightarrow> bool" where
  "follows r r' = (sr_id r' = sr_id r \<and> sr_rule r' = sr_rule r \<and> sr_prompt r' = sr_prompt r
     \<and> target_of r \<le> target_of r'
     \<and> (if is_every r then interval_of r dvd target_of r' - target_of r else r' = r))"

lemma follows_refl [simp]: "follows r r"
  by (simp add: follows_def)

lemma same_rule:
  "sr_rule r' = sr_rule r \<Longrightarrow> is_every r' = is_every r"
  "sr_rule r' = sr_rule r \<Longrightarrow> interval_of r' = interval_of r"
  by (simp_all add: is_every_def interval_of_def every_seconds_def)

lemma follows_trans:
  assumes "follows a b" "follows b c" shows "follows a c"
proof (cases "is_every a")
  case True
  have "interval_of a dvd (target_of c - target_of b) + (target_of b - target_of a)"
    using assms True same_rule [of b a] by (intro dvd_add) (auto simp: follows_def)
  then show ?thesis using assms True same_rule [of b a] by (auto simp: follows_def)
next
  case False
  then show ?thesis using assms same_rule [of b a] by (auto simp: follows_def)
qed

lemma dispatched_follows:
  assumes v: "valid_record r" and d: "dispatchedRecord r a = Inr (Some r')"
  shows "valid_record r' \<and> follows r r' \<and> is_every r \<and> target_of r < target_of r'"
proof -
  obtain s where e: "is_every r" "a = Some s"
    and "bindE (resolveEveryOccurrence r (date_parse s)) (\<lambda>occ.
            Inr (map_option (\<lambda>t. r\<lparr>sr_scheduledAt := t\<rparr>) (eo_nextScheduledAt occ))) = Inr (Some r')"
    using d by (auto simp: dispatchedRecord_def split: if_splits option.splits)
  then obtain occ t where o: "resolveEveryOccurrence r (date_parse s) = Inr occ" "eo_nextScheduledAt occ = Some t"
    "r' = r\<lparr>sr_scheduledAt := t\<rparr>" by auto
  then obtain q where q: "date_parse s = Some q" by (cases "date_parse s") (auto simp: resolveEveryOccurrence_def Let_def)
  have ok: "resolveEveryOccurrence r (Some q) = Inr occ" using o(1) q by simp
  note b = resolve_ok [OF v e(1) ok]
  let ?n = "latest_occurrence r q + interval_of r"
  have n: "four_digit_year ?n" "t = to_iso ?n"
    using ok o(2) resolve_due [OF v e(1) b] by (auto split: if_splits)
  note l = latest_occurrence_bounds [OF v e(1) b(2)]
  have t: "target_of r' = ?n" using n o(3) by (simp add: target_of_def date_parse_to_iso)
  have "interval_of r dvd (latest_occurrence r q - target_of r) + interval_of r" using l(4) by simp
  then have "interval_of r dvd ?n - target_of r" by (simp add: algebra_simps)
  moreover have "target_of r < ?n" using l(1) valid_interval(1) [OF v e(1)] by simp
  moreover have "valid_record r'" using v o(3) n by (simp add: valid_record_def)
  ultimately show ?thesis using e(1) t o(3) by (simp add: follows_def)
qed

text \<open>What a stretch of the log may do to a state.\<close>

definition evolves :: "schedule_fold \<Rightarrow> schedule_fold \<Rightarrow> bool" where
  "evolves st st' = ((\<exists>ys. sf_seen st' = sf_seen st @ ys)
     \<and> (\<forall>i r'. i \<in> set (sf_seen st) \<longrightarrow> map_of (sf_active st') i = Some r' \<longrightarrow>
         (\<exists>r. map_of (sf_active st) i = Some r \<and> follows r r')))"

lemma evolvesE:
  assumes "evolves st st'" "i \<in> set (sf_seen st)" "map_of (sf_active st') i = Some r'"
  obtains r where "map_of (sf_active st) i = Some r" "follows r r'"
  using assms unfolding evolves_def by blast

lemma evolves_refl [simp]: "evolves st st"
  by (auto simp: evolves_def)

lemma evolves_trans:
  assumes "evolves a b" "evolves b c" shows "evolves a c"
proof -
  obtain xs ys where s: "sf_seen b = sf_seen a @ xs" "sf_seen c = sf_seen b @ ys" using assms by (auto simp: evolves_def)
  have "\<exists>r. map_of (sf_active a) i = Some r \<and> follows r r'"
    if "i \<in> set (sf_seen a)" "map_of (sf_active c) i = Some r'" for i r'
  proof -
    have "i \<in> set (sf_seen b)" using that s by simp
    from assms(2) this that(2) obtain m where m: "map_of (sf_active b) i = Some m" "follows m r'" by (rule evolvesE)
    from assms(1) that(1) m(1) obtain r where "map_of (sf_active a) i = Some r" "follows r m" by (rule evolvesE)
    then show ?thesis using m(2) follows_trans by blast
  qed
  then show ?thesis using s by (simp add: evolves_def)
qed

lemma apply_change_ok:
  assumes inv: "sched_inv st" and c: "valid_schedule_change c" and ok: "apply_change st c = Inr st'"
  shows "sched_inv st' \<and> evolves st st'"
proof (cases c)
  case (ScheduleCreate r)
  then have s: "sr_id r \<notin> set (sf_seen st)"
    "st' = \<lparr>sf_active = omap_set (sr_id r) r (sf_active st), sf_seen = sf_seen st @ [sr_id r]\<rparr>"
    using ok by (auto simp: apply_change_def split: if_splits)
  have "sched_inv st'"
    by (rule sched_invI)
      (use s inv c ScheduleCreate sched_inv_active [OF inv] in \<open>auto simp: sched_inv_def split: if_splits\<close>)
  moreover have "evolves st st'" using s by (auto simp: evolves_def)
  ultimately show ?thesis by simp
next
  case (ScheduleDelete i)
  then have s: "st' = st\<lparr>sf_active := omap_delete i (sf_active st)\<rparr>"
    using ok by (auto simp: apply_change_def split: if_splits)
  have "sched_inv st'"
    by (rule sched_invI) (use s inv sched_inv_active [OF inv] in \<open>auto simp: sched_inv_def split: if_splits\<close>)
  moreover have "evolves st st'" using s by (auto simp: evolves_def split: if_splits)
  ultimately show ?thesis by simp
next
  case (ScheduleDispatch i a)
  then obtain r nxt where r: "map_of (sf_active st) i = Some r" "dispatchedRecord r a = Inr nxt"
    "st' = (case nxt of None \<Rightarrow> st\<lparr>sf_active := omap_delete i (sf_active st)\<rparr>
        | Some r' \<Rightarrow> st\<lparr>sf_active := omap_set i r' (sf_active st)\<rparr>)"
    using ok by (auto simp: apply_change_def split: option.splits)
  note a = sched_inv_active [OF inv r(1)]
  have "sched_inv st'"
  proof (rule sched_invI)
    show "distinct (sf_seen st')" "omap_wf (sf_active st')"
      using inv r(3) by (auto simp: sched_inv_def split: option.splits)
    show "sr_id q = j \<and> valid_record q \<and> j \<in> set (sf_seen st')" if "map_of (sf_active st') j = Some q" for j q
      using that r(2,3) a sched_inv_active [OF inv] dispatched_follows [of r a]
      by (auto simp: follows_def split: option.splits if_splits)
  qed
  moreover have "evolves st st'"
    using r a dispatched_follows [of r a] by (auto simp: evolves_def split: option.splits if_splits)
  ultimately show ?thesis by simp
qed

lemma schedule_step_ok:
  assumes "sched_inv st" "schedule_step st e = Inr st'"
  shows "sched_inv st' \<and> evolves st st'"
proof (cases "schedule_payload e")
  case (Some v)
  then obtain c where c: "decodeScheduleChange v = Inr c" "apply_change st c = Inr st'"
    using assms(2) by (auto simp: schedule_step_def)
  show ?thesis by (rule apply_change_ok [OF assms(1) decode_schedule_valid [OF c(1)] c(2)])
qed (use assms in \<open>simp add: schedule_step_def\<close>)

lemma schedule_fold_ok:
  assumes "foldE schedule_step st es = Inr st'" "sched_inv st"
  shows "sched_inv st' \<and> evolves st st'"
proof (rule foldE_invariant [OF assms(1), where I = "\<lambda>s. sched_inv s \<and> evolves st s"])
  show "sched_inv st \<and> evolves st st" using assms(2) by simp
  show "sched_inv u' \<and> evolves st u'" if "sched_inv u \<and> evolves st u" "schedule_step u e = Inr u'" for u e u'
    using that schedule_step_ok evolves_trans by blast
qed

subsection \<open>Through the public fold\<close>

lemma foldSchedule_state:
  assumes "foldScheduleEvents es n = Inr f"
  obtains st where "foldE schedule_step empty_schedules (drop (nat n) es) = Inr st" "sched_inv st" "f = folded_of st"
    "0 \<le> n" "nat n \<le> length es" "safe_int n"
  using assms schedule_fold_ok [of empty_schedules] by (auto simp: foldScheduleEvents_def split: if_splits)

lemma folded_active:
  assumes "sched_inv st" "r \<in> set (fd_active (folded_of st))"
  shows "map_of (sf_active st) (sr_id r) = Some r"
  using assms by (auto simp: folded_of_def sched_inv_def omap_wf_map_of_in_set)

lemma folded_active_iff:
  assumes "sched_inv st"
  shows "r \<in> set (fd_active (folded_of st)) \<longleftrightarrow> map_of (sf_active st) (sr_id r) = Some r"
  using folded_active [OF assms] by (force simp: folded_of_def dest: map_of_SomeD)

lemma folded_ids:
  assumes "sched_inv st" shows "map sr_id (fd_active (folded_of st)) = map fst (sf_active st)"
  using assms by (auto simp: folded_of_def sched_inv_def)

text \<open>
  C36: while the log grows, the fold of its schedule events only ever adds ids, active
  reminders have distinct used ids and well-formed records, an id that was used and is no longer active
  never becomes active again, and a reminder that stays active is the same reminder: its rule and
  prompt are those it was created with, a one-shot keeps its target, and the target of a fixed-rate
  reminder only moves forward by whole intervals, so that it stays aligned with its creation.
\<close>
theorem schedule_ids_final:
  assumes before: "foldScheduleEvents es n = Inr f" and after: "foldScheduleEvents (es @ es') n = Inr f'"
  shows "(\<exists>ys. fd_seenIds f' = fd_seenIds f @ ys) \<and> distinct (fd_seenIds f') \<and> distinct (map sr_id (fd_active f'))
    \<and> (\<forall>r' \<in> set (fd_active f'). valid_record r' \<and> sr_id r' \<in> set (fd_seenIds f')
        \<and> (sr_id r' \<in> set (fd_seenIds f) \<longrightarrow> (\<exists>r \<in> set (fd_active f). follows r r')))"
proof -
  obtain st where st: "foldE schedule_step empty_schedules (drop (nat n) es) = Inr st" "sched_inv st" "f = folded_of st"
    "0 \<le> n" "nat n \<le> length es" using before by (rule foldSchedule_state)
  obtain st' where st': "foldE schedule_step empty_schedules (drop (nat n) (es @ es')) = Inr st'" "sched_inv st'"
    "f' = folded_of st'" using after by (rule foldSchedule_state)
  have "foldE schedule_step st es' = Inr st'" using st'(1) st(1,5) by (auto simp: foldE_append)
  then have ev: "evolves st st'" using schedule_fold_ok st(2) by blast
  have seen: "fd_seenIds f = sf_seen st" "fd_seenIds f' = sf_seen st'" by (simp_all add: st(3) st'(3) folded_of_def)
  have "valid_record r' \<and> sr_id r' \<in> set (sf_seen st')
      \<and> (sr_id r' \<in> set (sf_seen st) \<longrightarrow> (\<exists>r \<in> set (fd_active f). follows r r'))" if "r' \<in> set (fd_active f')" for r'
  proof -
    have m: "map_of (sf_active st') (sr_id r') = Some r'" using folded_active [OF st'(2)] that st'(3) by simp
    have "\<exists>r \<in> set (fd_active f). follows r r'" if used: "sr_id r' \<in> set (sf_seen st)"
    proof -
      obtain r where r: "map_of (sf_active st) (sr_id r') = Some r" "follows r r'" using evolvesE [OF ev used m] by blast
      then have "r \<in> set (fd_active f)" using st(3) by (force simp: folded_of_def dest: map_of_SomeD)
      then show ?thesis using r(2) by blast
    qed
    then show ?thesis using sched_inv_active [OF st'(2) m] by blast
  qed
  moreover have "distinct (map sr_id (fd_active f'))"
    using folded_ids [OF st'(2)] st'(2,3) by (simp add: sched_inv_def omap_wf_def)
  moreover have "\<exists>ys. sf_seen st' = sf_seen st @ ys" using ev by (simp add: evolves_def)
  moreover have "distinct (sf_seen st')" using st'(2) by (simp add: sched_inv_def)
  ultimately show ?thesis unfolding seen by blast
qed

definition sample_log :: "event list" where
  "sample_log =
     [plain_event 0 1 (schedule_data (ScheduleCreate sample_after)),
      plain_event 1 2 (schedule_data (ScheduleCreate sample_every))]"

definition sample_more :: "event list" where
  "sample_more =
     [plain_event 2 3 (schedule_data (ScheduleDispatch ''schedule-1'' None)),
      plain_event 3 4 (schedule_data (ScheduleDispatch ''schedule-2'' (Some ''2024-02-29T12:15:00.001Z'')))]"

theorem schedule_ids_final_witness:
  "fd_seenIds (case foldScheduleEvents (sample_log @ sample_more) 0 of Inr f \<Rightarrow> f | Inl _ \<Rightarrow> \<lparr>fd_active = [], fd_seenIds = []\<rparr>)
     = [''schedule-1'', ''schedule-2'']
   \<and> distinct (fd_seenIds \<lparr>fd_active = [sample_every\<lparr>sr_scheduledAt := ''2024-02-29T12:20:00.000Z''\<rparr>],
        fd_seenIds = [''schedule-1'', ''schedule-2'']\<rparr>)"
proof -
  have a: "foldScheduleEvents sample_log 0
      = Inr \<lparr>fd_active = [sample_after, sample_every], fd_seenIds = [''schedule-1'', ''schedule-2'']\<rparr>" by code_simp
  have b: "foldScheduleEvents (sample_log @ sample_more) 0
      = Inr \<lparr>fd_active = [sample_every\<lparr>sr_scheduledAt := ''2024-02-29T12:20:00.000Z''\<rparr>],
             fd_seenIds = [''schedule-1'', ''schedule-2'']\<rparr>" by code_simp
  show ?thesis using schedule_ids_final [OF a b] by (simp add: b)
qed

subsection \<open>Fresh ids\<close>

lemma next_sequence_spec:
  "schedule_name (next_sequence seen n) \<notin> set seen \<and> n \<le> next_sequence seen n
   \<and> (\<forall>m. n \<le> m \<longrightarrow> m < next_sequence seen n \<longrightarrow> schedule_name m \<in> set seen)"
proof (induction seen n rule: next_sequence.induct)
  case (1 seen n)
  show ?case
  proof (cases "schedule_name n \<in> set seen")
    case True
    then have "next_sequence seen n = next_sequence seen (Suc n)" by (simp add: next_sequence.simps [of seen n])
    then show ?thesis using 1 True by (metis Suc_leI Suc_leD le_eq_less_or_eq)
  next
    case False
    then show ?thesis by (simp add: next_sequence.simps [of seen n])
  qed
qed

lemma next_sequence_bound: "next_sequence seen n \<le> n + card (set seen)"
proof -
  have "schedule_name ` {n..<next_sequence seen n} \<subseteq> set seen" using next_sequence_spec [of seen n] by auto
  then have "card (schedule_name ` {n..<next_sequence seen n}) \<le> card (set seen)" by (rule card_mono [OF finite_set])
  moreover have "inj_on schedule_name {n..<next_sequence seen n}" by (simp add: inj_on_def schedule_names.name_inj)
  ultimately show ?thesis by (simp add: card_image)
qed

text \<open>
  Allocating an id ends after at most as many rounds as there are used ids, and
  the id it returns is the first \<open>schedule-N\<close>, counting from one more than their number, that was never
  used; a reminder created under it is accepted by the fold whatever is active.
\<close>
theorem schedule_id_fresh:
  "\<exists>k. allocateScheduleId f = schedule_name k
     \<and> card (set (fd_seenIds f)) < k \<and> k \<le> 2 * card (set (fd_seenIds f)) + 1
     \<and> (\<forall>m. card (set (fd_seenIds f)) < m \<and> m < k \<longrightarrow> schedule_name m \<in> set (fd_seenIds f))
     \<and> schedule_name k \<notin> set (fd_seenIds f)
     \<and> (sr_id r = schedule_name k \<longrightarrow> fd_seenIds f = sf_seen st \<longrightarrow> is_ok (apply_change st (ScheduleCreate r)))"
proof -
  let ?n = "card (set (fd_seenIds f)) + 1" and ?k = "next_sequence (fd_seenIds f) (card (set (fd_seenIds f)) + 1)"
  have "allocateScheduleId f = schedule_name ?k" by (simp add: allocateScheduleId_def)
  moreover have "?k \<le> 2 * card (set (fd_seenIds f)) + 1" using next_sequence_bound [of "fd_seenIds f" ?n] by simp
  ultimately show ?thesis using next_sequence_spec [of "fd_seenIds f" ?n]
    by (intro exI [of _ ?k]) (auto simp: apply_change_def)
qed

definition sample_folded :: folded_schedules where
  "sample_folded = \<lparr>fd_active = [], fd_seenIds = [''schedule-2'', ''schedule-3'']\<rparr>"

theorem schedule_id_fresh_witness:
  "allocateScheduleId sample_folded = ''schedule-4'' \<and> ''schedule-4'' \<notin> set (fd_seenIds sample_folded)"
proof -
  have "allocateScheduleId sample_folded \<notin> set (fd_seenIds sample_folded)"
    using schedule_id_fresh [of sample_folded sample_after empty_schedules] by auto
  moreover have "allocateScheduleId sample_folded = ''schedule-4''"
by code_simp
  ultimately show ?thesis by simp
qed

end
