(* ===== verification/Schedule_Runtime_Facts.thy ===== *)
theory Schedule_Runtime_Facts
  imports Schedule_Runtime Schedule_Fold_Facts Inbox_Facts
begin

text \<open>
  Facts about the schedule runtime: what the decision selects, that its dispatches are accepted by the
  fold and leave less due, what one maintenance job does to the agent, and that a disposed runtime does
  nothing.
\<close>

subsection \<open>What is due\<close>

definition active_of :: "schedule_fold \<Rightarrow> schedule_record list" where
  "active_of st = map snd (sf_active st)"

lemma folded_of_fields [simp]:
  "fd_active (folded_of st) = active_of st" "fd_seenIds (folded_of st) = sf_seen st"
  by (simp_all add: folded_of_def active_of_def)

lemma active_valid: "sched_inv st \<Longrightarrow> r \<in> set (active_of st) \<Longrightarrow> valid_record r"
  by (auto simp: sched_inv_def active_of_def)

lemma active_lookup: "sched_inv st \<Longrightarrow> r \<in> set (active_of st) \<Longrightarrow> map_of (sf_active st) (sr_id r) = Some r"
  using folded_active [of st r] by simp

lemma target_due_valid: "valid_record r \<Longrightarrow> target_due now r \<longleftrightarrow> target_of r \<le> now"
  using valid_target(1) [of r] by (simp add: target_due_def)

lemma active_distinct: "sched_inv st \<Longrightarrow> distinct (map sr_id (active_of st))"
  using folded_ids [of st] by (simp add: sched_inv_def omap_wf_def)

definition number_due :: "int \<Rightarrow> folded_schedules \<Rightarrow> nat" where
  "number_due now f = length (filter (target_due now) (fd_active f))"

lemma number_due_zero: "number_due now f = 0 \<longleftrightarrow> (\<forall>r \<in> set (fd_active f). \<not> target_due now r)"
  by (simp add: number_due_def filter_empty_conv)

lemma earlier_wake_some:
  assumes "\<forall>r \<in> set rs. valid_record r \<and> now < target_of r" "now < s"
  shows "foldl (earlier_wake now) (Some s) rs = Some (Min (insert s (target_of ` set rs)))"
  using assms
proof (induction rs arbitrary: s)
  case (Cons r rs)
  have step: "earlier_wake now (Some s) r = Some (min s (target_of r))"
    using Cons.prems valid_target(1) [of r] by (auto simp: earlier_wake_def min_def)
  have "Min (insert (min s (target_of r)) (target_of ` set rs)) = Min (insert s (insert (target_of r) (target_of ` set rs)))"
    by (cases "set rs = {}") (simp_all add: min.assoc)
  then show ?case using Cons.IH [of "min s (target_of r)"] Cons.prems by (simp add: step)
qed simp

lemma earlier_wake_none:
  assumes "\<forall>r \<in> set rs. valid_record r \<and> now < target_of r"
  shows "foldl (earlier_wake now) None rs = (if rs = [] then None else Some (Min (target_of ` set rs)))"
proof (cases rs)
  case (Cons r rs')
  have "earlier_wake now None r = Some (target_of r)" using assms Cons valid_target(1) [of r] by (simp add: earlier_wake_def)
  then show ?thesis using earlier_wake_some [of rs' now "target_of r"] assms by (simp add: Cons)
qed simp

subsection \<open>A batch of dispatches\<close>

lemma dispatch_every:
  assumes inv: "sched_inv st" and r: "map_of (sf_active st) (sr_id r) = Some r" "is_every r" "target_of r \<le> now"
    and now: "four_digit_year now"
  shows "\<exists>st'. apply_change st (ScheduleDispatch (sr_id r) (Some (to_iso now))) = Inr st' \<and> sched_inv st'
    \<and> sf_seen st' = sf_seen st
    \<and> (\<forall>i. i \<noteq> sr_id r \<longrightarrow> map_of (sf_active st') i = map_of (sf_active st) i)
    \<and> (\<forall>q. map_of (sf_active st') (sr_id r) = Some q \<longrightarrow> now < target_of q)"
proof -
  have v: "valid_record r" using sched_inv_active [OF inv r(1)] by simp
  let ?n = "latest_occurrence r now + interval_of r"
  let ?next = "if four_digit_year ?n then Some (r\<lparr>sr_scheduledAt := to_iso ?n\<rparr>) else None"
  have d: "dispatchedRecord r (Some (to_iso now)) = Inr ?next"
    using r(2) resolve_due [OF v r(2) now r(3)] date_parse_to_iso [OF now] by (simp add: dispatchedRecord_def)
  define st' where "st' = (case ?next of None \<Rightarrow> st\<lparr>sf_active := omap_delete (sr_id r) (sf_active st)\<rparr>
      | Some r' \<Rightarrow> st\<lparr>sf_active := omap_set (sr_id r) r' (sf_active st)\<rparr>)"
  have a: "apply_change st (ScheduleDispatch (sr_id r) (Some (to_iso now))) = Inr st'"
    using r(1) d by (simp add: apply_change_def st'_def)
  have "valid_schedule_change (ScheduleDispatch (sr_id r) (Some (to_iso now)))"
    using v now by (simp add: valid_record_def)
  then have "sched_inv st'" using apply_change_ok [OF inv _ a] by blast
  moreover have "now < target_of q" if "map_of (sf_active st') (sr_id r) = Some q" for q
    using that latest_occurrence_bounds(3) [OF v r(2,3)]
    by (auto simp: st'_def target_of_def date_parse_to_iso split: if_splits)
  ultimately show ?thesis using a by (auto simp: st'_def)
qed

lemma dispatch_batch:
  assumes "sched_inv st" "distinct (map sr_id rs)" "four_digit_year now"
    "\<forall>r \<in> set rs. map_of (sf_active st) (sr_id r) = Some r \<and> is_every r \<and> target_of r \<le> now"
  shows "\<exists>st'. foldE apply_change st (map (\<lambda>r. ScheduleDispatch (sr_id r) (Some (to_iso now))) rs) = Inr st' \<and> sched_inv st'
    \<and> sf_seen st' = sf_seen st
    \<and> (\<forall>i. i \<notin> sr_id ` set rs \<longrightarrow> map_of (sf_active st') i = map_of (sf_active st) i)
    \<and> (\<forall>i \<in> sr_id ` set rs. \<forall>q. map_of (sf_active st') i = Some q \<longrightarrow> now < target_of q)"
  using assms
proof (induction rs arbitrary: st)
  case (Cons r rs)
  from Cons.prems have r: "map_of (sf_active st) (sr_id r) = Some r" "is_every r" "target_of r \<le> now" by simp_all
  obtain st1 where st1: "apply_change st (ScheduleDispatch (sr_id r) (Some (to_iso now))) = Inr st1" "sched_inv st1"
    "sf_seen st1 = sf_seen st" "\<forall>i. i \<noteq> sr_id r \<longrightarrow> map_of (sf_active st1) i = map_of (sf_active st) i"
    "\<forall>q. map_of (sf_active st1) (sr_id r) = Some q \<longrightarrow> now < target_of q"
    using dispatch_every [OF Cons.prems(1) r Cons.prems(3)] by blast
  have "\<forall>q \<in> set rs. map_of (sf_active st1) (sr_id q) = Some q \<and> is_every q \<and> target_of q \<le> now"
  proof
    fix q assume q: "q \<in> set rs"
    then have "sr_id q \<noteq> sr_id r" using Cons.prems(2) by (auto simp: image_iff)
    then show "map_of (sf_active st1) (sr_id q) = Some q \<and> is_every q \<and> target_of q \<le> now"
      using st1(4) Cons.prems(4) q by simp
  qed
  then obtain st' where st': "foldE apply_change st1 (map (\<lambda>r. ScheduleDispatch (sr_id r) (Some (to_iso now))) rs) = Inr st'"
    "sched_inv st'" "sf_seen st' = sf_seen st1"
    "\<forall>i. i \<notin> sr_id ` set rs \<longrightarrow> map_of (sf_active st') i = map_of (sf_active st1) i"
    "\<forall>i \<in> sr_id ` set rs. \<forall>q. map_of (sf_active st') i = Some q \<longrightarrow> now < target_of q"
    using Cons.IH [OF st1(2) _ Cons.prems(3)] Cons.prems(2) by auto
  have "sr_id r \<notin> sr_id ` set rs" using Cons.prems(2) by simp
  then have "\<forall>q. map_of (sf_active st') (sr_id r) = Some q \<longrightarrow> now < target_of q" using st'(4) st1(5) by simp
  then show ?case using st' st1 by (intro exI [of _ st']) auto
qed simp

subsection \<open>The decision\<close>

text \<open>The reminders a decision dispatches.\<close>

fun decision_records :: "due_decision \<Rightarrow> schedule_record list" where
  "decision_records (DueOneShot r) = [r]"
| "decision_records (DueEvery rs _) = map fst rs"
| "decision_records (DueWait _) = []"

lemma dueDecision_cases:
  assumes inv: "sched_inv st" and now: "four_digit_year now"
  obtains (one_shot) r where "dueDecision (folded_of st) now = Inr (DueOneShot r)" "r \<in> set (active_of st)" "\<not> is_every r"
      "target_of r \<le> now" "\<forall>q \<in> set (active_of st). \<not> is_every q \<and> target_of q \<le> now \<longrightarrow> target_of r \<le> target_of q"
  | (every) rs where "dueDecision (folded_of st) now
        = Inr (DueEvery (map (\<lambda>r. (r, to_iso (latest_occurrence r now))) rs) (to_iso now))"
      "rs \<noteq> []" "sorted (map target_of rs)" "set rs = {r \<in> set (active_of st). target_of r \<le> now}"
      "\<forall>r \<in> set rs. is_every r" "distinct (map sr_id rs)"
  | (wait) "dueDecision (folded_of st) now = Inr (DueWait (if active_of st = [] then None
        else Some (Min (target_of ` set (active_of st)))))"
      "\<forall>r \<in> set (active_of st). now < target_of r"
proof (cases "sort_key target_of (due_one_shots now (active_of st))")
  case (Cons r rs)
  have m: "q \<in> set (r # rs) \<longleftrightarrow> q \<in> set (active_of st) \<and> \<not> is_every q \<and> target_of q \<le> now" for q
    unfolding Cons [symmetric] using active_valid [OF inv] target_due_valid by (auto simp: due_one_shots_def)
  have "sorted (map target_of (r # rs))" unfolding Cons [symmetric] by (rule sorted_sort_key)
  then have "\<forall>q \<in> set (r # rs). target_of r \<le> target_of q" by auto
  then have "target_of r \<le> target_of q" if "q \<in> set (r # rs)" for q using that by blast
  then have least: "\<forall>q \<in> set (active_of st). \<not> is_every q \<and> target_of q \<le> now \<longrightarrow> target_of r \<le> target_of q"
    using m by simp
  have "r \<in> set (active_of st)" "\<not> is_every r" "target_of r \<le> now" using m [of r] by simp_all
  then show ?thesis using least by (intro one_shot [of r]) (simp_all add: dueDecision_def Cons)
next
  case Nil
  then have "due_one_shots now (active_of st) = []" by (metis set_empty set_sort)
  then have no: "\<forall>r \<in> set (active_of st). is_every r \<or> now < target_of r"
    using active_valid [OF inv] target_due_valid by (auto simp: due_one_shots_def filter_empty_conv not_le)
  define rs where "rs = sort_key target_of (due_every now (active_of st))"
  have rs: "set rs = {r \<in> set (active_of st). target_of r \<le> now}" "\<forall>r \<in> set rs. is_every r"
    using no active_valid [OF inv] target_due_valid by (auto simp: rs_def due_every_def)
  have d: "distinct (map sr_id (due_every now (active_of st)))"
    unfolding due_every_def using active_distinct [OF inv] by (rule distinct_map_filter)
  have "mset (map sr_id rs) = mset (map sr_id (due_every now (active_of st)))" by (simp add: rs_def)
  then have dist: "distinct (map sr_id rs)" using d mset_eq_imp_distinct_iff by blast
  show ?thesis
  proof (cases "rs = []")
    case True
    then have f: "\<forall>r \<in> set (active_of st). now < target_of r" using rs(1) by fastforce
    then have "foldl (earlier_wake now) None (active_of st)
        = (if active_of st = [] then None else Some (Min (target_of ` set (active_of st))))"
      using active_valid [OF inv] by (intro earlier_wake_none) blast
    then show ?thesis using f Nil True by (intro wait) (simp_all add: dueDecision_def rs_def)
  next
    case False
    have "mapE (\<lambda>r. res_map (\<lambda>occ. (r, eo_occurrenceAt occ)) (resolveEveryOccurrence r (Some now))) rs
        = Inr (map (\<lambda>r. (r, to_iso (latest_occurrence r now))) rs)"
      using rs active_valid [OF inv] resolve_due [OF _ _ now] by (intro mapE_map) auto
    then have "dueDecision (folded_of st) now
        = Inr (DueEvery (map (\<lambda>r. (r, to_iso (latest_occurrence r now))) rs) (to_iso now))"
      using False Nil by (cases rs) (simp_all add: dueDecision_def rs_def [symmetric])
    then show ?thesis using False rs dist by (intro every [of rs]) (simp_all add: rs_def)
  qed
qed

lemma active_of_delete:
  assumes "sched_inv st"
  shows "active_of (st\<lparr>sf_active := omap_delete i (sf_active st)\<rparr>) = filter (\<lambda>r. sr_id r \<noteq> i) (active_of st)"
proof -
  have "\<forall>p \<in> set (sf_active st). sr_id (snd p) = fst p" using assms by (auto simp: sched_inv_def)
  then show ?thesis by (simp add: active_of_def omap_delete_def filter_map comp_def cong: filter_cong)
qed

lemma due_members:
  assumes "sched_inv st"
  shows "set (filter (target_due now) (active_of st)) = {r \<in> set (active_of st). target_of r \<le> now}"
    "distinct (filter (target_due now) (active_of st))"
  using active_valid [OF assms] target_due_valid active_distinct [OF assms] by (auto simp: distinct_map)

lemma number_due_card:
  assumes "sched_inv st"
  shows "number_due now (folded_of st) = card {r \<in> set (active_of st). target_of r \<le> now}"
  using due_members [OF assms, of now] distinct_card [of "filter (target_due now) (active_of st)"]
  by (simp add: number_due_def)

text \<open>What the dispatches of a decision make of the fold.\<close>

lemma decision_applies:
  assumes inv: "sched_inv st" and now: "four_digit_year now" and d: "dueDecision (folded_of st) now = Inr d"
    and due: "decision_changes d \<noteq> []"
  shows "\<exists>st'. foldE apply_change st (decision_changes d) = Inr st' \<and> sched_inv st'
    \<and> number_due now (folded_of st') < number_due now (folded_of st)
    \<and> (\<forall>rs a. d = DueEvery rs a \<longrightarrow> number_due now (folded_of st') = 0)"
  using inv now
proof (cases rule: dueDecision_cases)
  case (one_shot r)
  then have d: "d = DueOneShot r" using d by simp
  define st' where "st' = st\<lparr>sf_active := omap_delete (sr_id r) (sf_active st)\<rparr>"
  have a: "apply_change st (ScheduleDispatch (sr_id r) None) = Inr st'"
    using active_lookup [OF inv one_shot(2)] one_shot(3) by (simp add: apply_change_def dispatchedRecord_def st'_def)
  have "valid_schedule_change (ScheduleDispatch (sr_id r) None)"
    using active_valid [OF inv one_shot(2)] by (simp add: valid_record_def)
  then have inv': "sched_inv st'" using apply_change_ok [OF inv _ a] by blast
  have "{q \<in> set (active_of st'). target_of q \<le> now} \<subset> {q \<in> set (active_of st). target_of q \<le> now}"
    unfolding st'_def active_of_delete [OF inv] using one_shot(2,4) by auto
  then have "number_due now (folded_of st') < number_due now (folded_of st)"
    unfolding number_due_card [OF inv] number_due_card [OF inv'] by (intro psubset_card_mono) simp_all
  then show ?thesis using a inv' by (simp add: d)
next
  case (every rs)
  have rs: "\<forall>r \<in> set rs. map_of (sf_active st) (sr_id r) = Some r \<and> is_every r \<and> target_of r \<le> now"
    using every(4,5) active_lookup [OF inv] by simp
  obtain st' where st': "foldE apply_change st (map (\<lambda>r. ScheduleDispatch (sr_id r) (Some (to_iso now))) rs) = Inr st'"
    "sched_inv st'" "\<forall>i. i \<notin> sr_id ` set rs \<longrightarrow> map_of (sf_active st') i = map_of (sf_active st) i"
    "\<forall>i \<in> sr_id ` set rs. \<forall>q. map_of (sf_active st') i = Some q \<longrightarrow> now < target_of q"
    using dispatch_batch [OF inv every(6) now rs] by blast
  have none: "now < target_of q" if q: "q \<in> set (active_of st')" for q
  proof (cases "sr_id q \<in> sr_id ` set rs")
    case True
    then show ?thesis using st'(4) active_lookup [OF st'(2) q] by blast
  next
    case False
    then have m: "map_of (sf_active st) (sr_id q) = Some q" using st'(3) active_lookup [OF st'(2) q] by simp
    then have "q \<in> set (active_of st)" by (force simp: active_of_def dest: map_of_SomeD)
    moreover have "q \<notin> set rs" using False by blast
    ultimately show ?thesis using every(4) by simp
  qed
  have z: "number_due now (folded_of st') = 0"
    unfolding number_due_zero using none active_valid [OF st'(2)] target_due_valid by fastforce
  have "{r \<in> set (active_of st). target_of r \<le> now} \<noteq> {}" using every(2,4) by (metis set_empty)
  then have "0 < number_due now (folded_of st)" unfolding number_due_card [OF inv] by (simp add: card_gt_0_iff)
  moreover have "decision_changes d = map (\<lambda>r. ScheduleDispatch (sr_id r) (Some (to_iso now))) rs"
    using d every(1) by (auto simp: comp_def)
  ultimately show ?thesis using st'(1,2) z by (intro exI [of _ st']) simp
next
  case wait
  then have "decision_changes d = []" using d by auto
  then show ?thesis using due by simp
qed

text \<open>
  C35: on the fold of any log, at a clock in the years 1 to 9999, the decision never fails.
  It selects a due one-shot with the earliest target while there is one, then all due reminders at once,
  which are then all fixed-rate, in target order with their latest occurrences; otherwise it waits for
  the earliest target, and that is in the future. Its dispatches are accepted by the fold one after the
  other, each decision leaves strictly fewer reminders due at that clock, and a batch leaves none.
\<close>
theorem due_decision:
  assumes "foldScheduleEvents es n = Inr f" "four_digit_year now"
  shows "\<exists>d st. f = folded_of st \<and> dueDecision f now = Inr d
    \<and> (case d of
         DueOneShot r \<Rightarrow> r \<in> set (fd_active f) \<and> \<not> is_every r \<and> target_of r \<le> now
           \<and> (\<forall>q \<in> set (fd_active f). \<not> is_every q \<and> target_of q \<le> now \<longrightarrow> target_of r \<le> target_of q)
       | DueEvery rs acceptedAt \<Rightarrow> acceptedAt = to_iso now \<and> sorted (map (target_of \<circ> fst) rs)
           \<and> fst ` set rs = {r \<in> set (fd_active f). target_of r \<le> now}
           \<and> (\<forall>(r, occ) \<in> set rs. is_every r \<and> occ = to_iso (latest_occurrence r now))
       | DueWait w \<Rightarrow> (\<forall>r \<in> set (fd_active f). now < target_of r)
           \<and> w = (if fd_active f = [] then None else Some (Min (target_of ` set (fd_active f)))))
    \<and> (decision_changes d \<noteq> [] \<longrightarrow> (\<exists>st'. foldE apply_change st (decision_changes d) = Inr st'
         \<and> number_due now (folded_of st') < number_due now f
         \<and> (\<forall>rs a. d = DueEvery rs a \<longrightarrow> number_due now (folded_of st') = 0)))"
proof -
  obtain st where st: "sched_inv st" "f = folded_of st" using assms(1) by (rule foldSchedule_state) blast
  note ap = decision_applies [OF st(1) assms(2), folded st(2)]
  from st(1) assms(2) show ?thesis
  proof (cases rule: dueDecision_cases)
    case (one_shot r)
    then obtain st' where "foldE apply_change st (decision_changes (DueOneShot r)) = Inr st'"
      "number_due now (folded_of st') < number_due now f"
      using ap [of "DueOneShot r"] st(2) by auto
    then show ?thesis using one_shot st(2)
      by (intro exI [of _ "DueOneShot r"] exI [of _ st]) simp
  next
    case (every rs)
    let ?d = "DueEvery (map (\<lambda>r. (r, to_iso (latest_occurrence r now))) rs) (to_iso now)"
    have "fst ` set (map (\<lambda>r. (r, to_iso (latest_occurrence r now))) rs) = set rs" by force
    moreover have "decision_changes ?d \<noteq> []" using every(2) by simp
    then obtain st' where "foldE apply_change st (decision_changes ?d) = Inr st'"
      "number_due now (folded_of st') < number_due now f" "number_due now (folded_of st') = 0"
      using ap [of ?d] every(1) st(2) by blast
    ultimately show ?thesis using every st(2)
      by (intro exI [of _ ?d] exI [of _ st]) (simp add: comp_def)
  next
    case wait
    then show ?thesis using st(2)
      by (intro exI [of _ "DueWait (if active_of st = [] then None else Some (Min (target_of ` set (active_of st))))"]
          exI [of _ st]) simp
  qed
qed

theorem due_decision_witness:
  "dueDecision \<lparr>fd_active = [sample_after, sample_every], fd_seenIds = [''schedule-1'', ''schedule-2'']\<rparr> 1709208900001
     = Inr (DueOneShot sample_after)
   \<and> is_ok (dueDecision \<lparr>fd_active = [sample_after, sample_every], fd_seenIds = [''schedule-1'', ''schedule-2'']\<rparr> 1709208900001)"
proof -
  have a: "foldScheduleEvents sample_log 0
      = Inr \<lparr>fd_active = [sample_after, sample_every], fd_seenIds = [''schedule-1'', ''schedule-2'']\<rparr>" by code_simp
  have b: "four_digit_year 1709208900001" by code_simp
  have "is_ok (dueDecision \<lparr>fd_active = [sample_after, sample_every], fd_seenIds = [''schedule-1'', ''schedule-2'']\<rparr> 1709208900001)"
    using due_decision [OF a b] by (auto simp: is_ok_iff)
  moreover have "dueDecision \<lparr>fd_active = [sample_after, sample_every], fd_seenIds = [''schedule-1'', ''schedule-2'']\<rparr> 1709208900001
     = Inr (DueOneShot sample_after)" by code_simp
  ultimately show ?thesis by blast
qed

subsection \<open>Appending dispatches\<close>

lemma schedule_json_lossless: "isJsonValue (schedule_json c)"
proof (cases c)
  case (ScheduleCreate r)
  then show ?thesis by (cases "sr_rule r") (simp_all add: record_json_def lossless_num_def)
next
  case (ScheduleDispatch i t)
  then show ?thesis by (cases t) (simp_all add: lossless_num_def)
qed (simp add: lossless_num_def)

lemma schedule_append_ok:
  assumes inv: "session_inv s"
  obtains s' e where "append_detached s t (schedule_data c) None None = Inr (s', e)" "session_inv s'"
    "ses_log s' = ses_log s @ [e]" "ev_data e = schedule_data c" "ses_header s' = ses_header s"
proof -
  have "\<not> isSurfaceEligible (schedule_data c)" by (simp add: schedule_data_def)
  then have "is_ok (fold_state (ses_log s @ [next_event s t (schedule_data c) None None]))"
    using inv fold_state_plain [of "schedule_data c" "ses_log s" t]
    by (simp add: session_inv_def next_event_def plain_event_def)
  then have al: "append_allowed s t (schedule_data c) None None"
    by (simp add: append_allowed_def metadata_isJson assertSupportedRequestHeader_def schedule_data_def schedule_json_lossless)
  obtain s1 e where a: "acceptAppend s False t (schedule_data c) None None = Inr (s1, e)"
    using acceptAppend_cases(2) [OF inv al] by (metis surj_pair)
  then have d: "append_detached s t (schedule_data c) None None = Inr (commitAppend s1 e, e)"
    by (simp add: append_detached_def)
  note r = append_inv [OF inv d]
  then have "ev_data e = schedule_data c" by (simp add: next_event_def)
  then show ?thesis using that [OF d] r by blast
qed

lemma append_changes_ok:
  assumes "session_inv s"
  shows "\<exists>s' es. append_changes t cs s = (s', True) \<and> session_inv s' \<and> ses_log s' = ses_log s @ es
    \<and> map ev_data es = map schedule_data cs \<and> ses_header s' = ses_header s"
  using assms
proof (induction cs arbitrary: s)
  case (Cons c cs)
  obtain s1 e where s1: "append_detached s t (schedule_data c) None None = Inr (s1, e)" "session_inv s1"
    "ses_log s1 = ses_log s @ [e]" "ev_data e = schedule_data c" "ses_header s1 = ses_header s"
    using schedule_append_ok [OF Cons.prems] by blast
  obtain s' es where "append_changes t cs s1 = (s', True)" "session_inv s'" "ses_log s' = ses_log s1 @ es"
    "map ev_data es = map schedule_data cs" "ses_header s' = ses_header s1"
    using Cons.IH [OF s1(2)] by blast
  then show ?case using s1 by (intro exI [of _ s'] exI [of _ "e # es"]) simp
qed simp

lemma step_change:
  "ev_data e = schedule_data c \<Longrightarrow> valid_schedule_change c \<Longrightarrow> schedule_step st e = apply_change st c"
  by (simp add: schedule_step_def schedule_payload_def schedule_data_def decode_schedule_json)

lemma fold_changes:
  "map ev_data es = map schedule_data cs \<Longrightarrow> \<forall>c \<in> set cs. valid_schedule_change c
   \<Longrightarrow> foldE schedule_step st es = foldE apply_change st cs"
proof (induction cs arbitrary: es st)
  case (Cons c cs)
  then obtain e es' where e: "es = e # es'" "ev_data e = schedule_data c" "map ev_data es' = map schedule_data cs" by auto
  have "foldE schedule_step u es' = foldE apply_change u cs" for u
    using Cons.IH [OF e(3)] Cons.prems(2) by simp
  then show ?case using step_change [OF e(2)] Cons.prems(2) by (simp add: e(1))
qed simp

lemma fold_session_state:
  assumes "fold_session s = Inr f"
  obtains st where "foldE schedule_step empty_schedules (drop (seed_length s) (ses_log s)) = Inr st" "sched_inv st"
    "f = folded_of st" "seed_length s \<le> length (ses_log s)" "safe_int (int (seed_length s))"
  using assms unfolding fold_session_def by (elim foldSchedule_state) simp

lemma fold_session_extend:
  assumes "foldE schedule_step empty_schedules (drop (seed_length s) (ses_log s)) = Inr st"
    "seed_length s \<le> length (ses_log s)" "safe_int (int (seed_length s))"
    "ses_log s' = ses_log s @ es" "ses_header s' = ses_header s"
  shows "fold_session s' = res_map folded_of (foldE schedule_step st es)"
proof -
  have "seed_length s' = seed_length s" using assms(5) by (simp add: seed_length_def)
  then show ?thesis using assms by (simp add: fold_session_def foldScheduleEvents_def foldE_append)
qed

lemma decision_changes_valid:
  assumes inv: "sched_inv st" and now: "four_digit_year now" and d: "dueDecision (folded_of st) now = Inr d"
  shows "\<forall>c \<in> set (decision_changes d). valid_schedule_change c"
  using inv now
proof (cases rule: dueDecision_cases)
  case (one_shot r)
  then have "d = DueOneShot r" using d by simp
  then show ?thesis using active_valid [OF inv one_shot(2)] by (simp add: valid_record_def)
next
  case (every rs)
  then have "d = DueEvery (map (\<lambda>r. (r, to_iso (latest_occurrence r now))) rs) (to_iso now)" using d by simp
  then show ?thesis using active_valid [OF inv] every(4) now by (auto simp: valid_record_def)
next
  case wait
  then show ?thesis using d by auto
qed

subsection \<open>The followup\<close>

lemma followup_cases:
  assumes inv: "inbox_inv ib"
  obtains (rejected) err where "followup m t ib = (ib, Inl err)"
  | (queued) ib' e sp where "followup m t ib = (ib', Inr [])" "inbox_inv ib'"
      "ses_log (ib_session ib') = ses_log (ib_session ib) @ [e]" "ev_data e = InboxSpliced sp"
      "ib_nextTurn (ib_lists ib') = ib_nextTurn (ib_lists ib) @ [m]" "ib_nextStep (ib_lists ib') = ib_nextStep (ib_lists ib)"
      "ses_header (ib_session ib') = ses_header (ib_session ib)"
proof -
  have si: "session_inv (ib_session ib)" using inv by (simp add: inbox_inv_def)
  have inv': "inbox_inv (fst (followup m t ib))" unfolding followup_def inbox_splice_def by (rule mutate_inv [OF inv])
  show thesis
  proof (rule mutate_cases [OF si, of NextTurn PosInf "num_of_int 0" "[m]" True t])
    fix err assume "mutate NextTurn PosInf (num_of_int 0) [m] True t ib = (ib, Inl err)"
    then show thesis using rejected by (simp add: followup_def inbox_splice_def)
  next
    fix sp s e
    let ?xs = "pending_list NextTurn (ib_lists ib)"
    assume sp: "sp = normalized NextTurn PosInf (num_of_int 0) [m] True (length ?xs)"
      and a: "append_detached (ib_session ib) t (InboxSpliced sp) None None = Inr (s, e)"
      and m: "mutate NextTurn PosInf (num_of_int 0) [m] True t ib =
        (\<lparr>ib_lists = set_pending NextTurn (spliced sp ?xs) (ib_lists ib), ib_session = s,
          ib_notices = ib_notices ib @ (if True then map NoticeDiscarded (cut_out sp ?xs) else [])
            @ map NoticeInserted [m]\<rparr>, Inr (cut_out sp ?xs))"
    have "std_start PosInf (length ?xs) = length ?xs" "std_count PosInf (num_of_int 0) (length ?xs) = 0"
      by (simp_all add: std_start_def std_count_def)
    then have v: "spliced sp ?xs = ?xs @ [m]" "cut_out sp ?xs = []"
      unfolding sp spliced_def cut_out_def normalized_values normalized_target by (simp_all add: splice_def)
    show thesis
      using queued m v inv' append_inv [OF si a] by (simp add: followup_def inbox_splice_def next_event_def)
  qed simp
qed

lemma inbox_inv_changes:
  assumes inv: "inbox_inv ib" and s: "session_inv s" "ses_log s = ses_log (ib_session ib) @ es"
    "map ev_data es = map schedule_data cs" "ses_header s = ses_header (ib_session ib)"
  shows "inbox_inv (ib\<lparr>ib_session := s\<rparr>)"
proof -
  have "replay es l = Inr l" if "map ev_data es = map schedule_data cs" for es cs l
    using that by (induction es arbitrary: cs) (auto simp: schedule_data_def)
  moreover have "seed_length s = seed_length (ib_session ib)" using s(4) by (simp add: seed_length_def)
  ultimately show ?thesis using inv s by (simp add: inbox_inv_def replay_append)
qed

subsection \<open>The maintenance job\<close>

text \<open>
  C34: on an agent whose inbox is its log's replay and whose schedule log folds, one
  maintenance job of a running, live runtime either finds nothing due, touches no log and arms the timer
  for the earliest target, no further than a Node timer reaches; or it queues exactly one message with
  the framing of what is due at the end of the agent's next-turn list and then records the dispatch of
  exactly those reminders, so that the new log folds, fewer reminders are due at that clock, and none
  after a batch; or the message is refused and nothing happens. It never faults the runtime and keeps
  the inbox a replay of its log.
\<close>
theorem maintenance_job_spec:
  assumes inv: "inbox_inv (rt_agent rt)" and f: "fold_session (ib_session (rt_agent rt)) = Inr f"
    and now: "four_digit_year now" and run: "\<not> rt_stopping rt"
  shows "case maintenance_job True now t mid rt of (rt', dispatched) \<Rightarrow>
    inbox_inv (rt_agent rt') \<and> rt_faulted rt' = rt_faulted rt
    \<and> (\<exists>d. dueDecision f now = Inr d
      \<and> (if decision_changes d = [] then \<not> dispatched \<and> rt_agent rt' = rt_agent rt
           \<and> (if fd_active f = [] then rt' = rt
              else rt_timer rt' = Some (min (Min (target_of ` set (fd_active f)) - now) MAX_TIMER_DELAY_MS)
                \<and> 0 < the (rt_timer rt'))
         else if \<not> dispatched then rt' = rt
         else \<exists>e es f' sp. agent_log rt' = agent_log rt @ e # es \<and> ev_data e = InboxSpliced sp
           \<and> map ev_data es = map schedule_data (decision_changes d)
           \<and> ib_nextTurn (ib_lists (rt_agent rt')) = ib_nextTurn (ib_lists (rt_agent rt)) @ [reminder_message mid (decision_text d)]
           \<and> ib_nextStep (ib_lists (rt_agent rt')) = ib_nextStep (ib_lists (rt_agent rt))
           \<and> fold_session (ib_session (rt_agent rt')) = Inr f'
           \<and> number_due now f' < number_due now f \<and> (\<forall>rs a. d = DueEvery rs a \<longrightarrow> number_due now f' = 0)))"
proof -
  obtain st where st: "foldE schedule_step empty_schedules (drop (seed_length (ib_session (rt_agent rt))) (agent_log rt)) = Inr st"
    "sched_inv st" "f = folded_of st" "seed_length (ib_session (rt_agent rt)) \<le> length (agent_log rt)"
    "safe_int (int (seed_length (ib_session (rt_agent rt))))"
    using fold_session_state [OF f] unfolding agent_log_def by blast
  have rd: "isRunnable True rt" "readFolded rt = (rt, Some f)" using run f by (simp_all add: isRunnable_def readFolded_def)
  obtain d where d: "dueDecision f now = Inr d"
    and w: "\<And>w. d = DueWait w \<Longrightarrow> (\<forall>r \<in> set (fd_active f). now < target_of r)
        \<and> w = (if fd_active f = [] then None else Some (Min (target_of ` set (fd_active f))))"
    and c: "decision_changes d = [] \<longleftrightarrow> (\<exists>w. d = DueWait w)"
    using st(2) now by (cases rule: dueDecision_cases) (auto simp: st(3))
  have dc: "decide f now = Some d" by (simp add: decide_def d)
  show ?thesis
  proof (cases "decision_changes d = []")
    case True
    then obtain w' where w': "d = DueWait w'" using c by blast
    note ww = w [OF w']
    have "0 < min (Min (target_of ` set (fd_active f)) - now) MAX_TIMER_DELAY_MS" if "fd_active f \<noteq> []"
      using that ww by (simp add: MAX_TIMER_DELAY_MS_def)
    then show ?thesis using rd dc w' ww inv d by (auto simp: maintenance_job_def arm_def)
  next
    case False
    have pick: "maintenance_job True now t mid rt =
        (case followup (reminder_message mid (decision_text d)) t (rt_agent rt) of
           (ib, Inl _) \<Rightarrow> (rt\<lparr>rt_agent := ib\<rparr>, False)
         | (ib, Inr _) \<Rightarrow>
             (case append_changes t (decision_changes d) (ib_session ib) of
                (s, True) \<Rightarrow> (rt\<lparr>rt_agent := ib\<lparr>ib_session := s\<rparr>\<rparr>, True)
              | (s, False) \<Rightarrow> (clearTimer (rt\<lparr>rt_agent := ib\<lparr>ib_session := s\<rparr>, rt_faulted := True\<rparr>), False)))"
      using rd dc False c by (cases d) (simp_all add: maintenance_job_def)
    from inv show ?thesis
    proof (cases rule: followup_cases [where m = "reminder_message mid (decision_text d)" and t = t])
      case (rejected err)
      then show ?thesis using pick d False inv by simp
    next
      case (queued ib e sp)
      have si: "session_inv (ib_session ib)" using queued(2) by (simp add: inbox_inv_def)
      obtain s es where s: "append_changes t (decision_changes d) (ib_session ib) = (s, True)" "session_inv s"
        "ses_log s = ses_log (ib_session ib) @ es" "map ev_data es = map schedule_data (decision_changes d)"
        "ses_header s = ses_header (ib_session ib)"
        using append_changes_ok [OF si] by blast
      have ds: "dueDecision (folded_of st) now = Inr d" using d st(3) by simp
      obtain st' where st': "foldE apply_change st (decision_changes d) = Inr st'"
        "number_due now (folded_of st') < number_due now f" "\<forall>rs a. d = DueEvery rs a \<longrightarrow> number_due now (folded_of st') = 0"
        using decision_applies [OF st(2) now ds False] st(3) by blast
      have "schedule_step st e = Inr st" using queued(4) by (simp add: schedule_step_def schedule_payload_def)
      then have F: "foldE schedule_step st (e # es) = Inr st'"
        using fold_changes [OF s(4) decision_changes_valid [OF st(2) now ds], of st] st'(1) by simp
      have "fold_session s = res_map folded_of (foldE schedule_step st (e # es))"
        using queued(3,7) s(3,5)
        by (intro fold_session_extend [OF st(1) [unfolded agent_log_def] st(4) [unfolded agent_log_def] st(5)]) simp_all
      then have "fold_session s = Inr (folded_of st')" by (simp only: F res_map_simps)
      moreover have "inbox_inv (ib\<lparr>ib_session := s\<rparr>)" by (rule inbox_inv_changes [OF queued(2) s(2,3,4,5)])
      moreover have "maintenance_job True now t mid rt = (rt\<lparr>rt_agent := ib\<lparr>ib_session := s\<rparr>\<rparr>, True)"
        unfolding pick queued(1) by (simp add: s(1))
      ultimately show ?thesis using d False queued(3-6) s(3,4) st' by (auto simp: agent_log_def)
    qed
  qed
qed

definition schedule_demo_calls :: "(int \<times> inbox_call) list" where
  "schedule_demo_calls = [(1, CallOtherEvent (schedule_data (ScheduleCreate sample_after)) None None),
     (2, CallOtherEvent (schedule_data (ScheduleCreate sample_every)) None None)]"

lemma schedule_demo_facts:
  "case newSession SnapshotSeed ''s'' None None 0 of Inl _ \<Rightarrow> False
   | Inr s \<Rightarrow> seed_length s \<le> length (ses_log s)
     \<and> (case newInbox s of Inl _ \<Rightarrow> False
        | Inr ib0 \<Rightarrow>
            (case fold_session (ib_session (foldl inbox_step ib0 schedule_demo_calls)) of
               Inl _ \<Rightarrow> False
             | Inr f \<Rightarrow> dueDecision f 1709208900001 = Inr (DueOneShot sample_after)))"
  by code_simp

lemma schedule_demo_obtain:
  obtains ib f where "inbox_inv ib" "fold_session (ib_session ib) = Inr f"
    "dueDecision f 1709208900001 = Inr (DueOneShot sample_after)"
proof -
  obtain s ib0 where s: "newSession SnapshotSeed ''s'' None None 0 = Inr s"
    "seed_length s \<le> length (ses_log s)" "newInbox s = Inr ib0"
    and ok: "case fold_session (ib_session (foldl inbox_step ib0 schedule_demo_calls)) of
        Inl _ \<Rightarrow> False | Inr f \<Rightarrow> dueDecision f 1709208900001 = Inr (DueOneShot sample_after)"
    using schedule_demo_facts by (auto split: sum.splits)
  have "inbox_inv (foldl inbox_step ib0 schedule_demo_calls)"
    by (intro inbox_run_inv newInbox_inv [OF newSession_inv(1) [OF s(1)] s(2,3)])
  then show thesis using that ok by (auto split: sum.splits)
qed

theorem maintenance_job_spec_witness:
  "\<exists>ib f. fold_session (ib_session ib) = Inr f \<and> dueDecision f 1709208900001 = Inr (DueOneShot sample_after)
     \<and> (case maintenance_job True 1709208900001 5 ''m1'' (newRuntime ib) of (rt', dispatched) \<Rightarrow>
          inbox_inv (rt_agent rt')
          \<and> (dispatched \<longrightarrow> ib_nextTurn (ib_lists (rt_agent rt'))
               = ib_nextTurn (ib_lists ib) @ [reminder_message ''m1'' (renderReminderFraming sample_after)]))"
proof -
  obtain ib f where ib: "inbox_inv ib" "fold_session (ib_session ib) = Inr f"
    and d: "dueDecision f 1709208900001 = Inr (DueOneShot sample_after)"
    by (rule schedule_demo_obtain)
  obtain rt' dispatched where m: "maintenance_job True 1709208900001 5 ''m1'' (newRuntime ib) = (rt', dispatched)"
    by (rule prod.exhaust)
  have h: "inbox_inv (rt_agent (newRuntime ib))" "fold_session (ib_session (rt_agent (newRuntime ib))) = Inr f"
    "\<not> rt_stopping (newRuntime ib)" "rt_agent (newRuntime ib) = ib" using ib by (simp_all add: newRuntime_def)
  have now: "four_digit_year 1709208900001" by code_simp
  have "inbox_inv (rt_agent rt') \<and> (dispatched \<longrightarrow> ib_nextTurn (ib_lists (rt_agent rt'))
      = ib_nextTurn (ib_lists ib) @ [reminder_message ''m1'' (renderReminderFraming sample_after)])"
    using maintenance_job_spec [OF h(1,2) now h(3), where t = 5 and mid = "''m1''"] m d h(4) by (cases dispatched) auto
  then show ?thesis using m d ib(2) by (intro exI [of _ ib] exI [of _ f]) simp
qed

subsection \<open>The life of a runtime\<close>



definition request_kept :: "schedule_runtime \<Rightarrow> bool" where
  "request_kept rt = (rt_requested rt \<longrightarrow> rt_stopping rt \<or> rt_faulted rt \<or> rt_running rt)"

lemma requestDrive_kept [simp]: "request_kept rt \<Longrightarrow> request_kept (requestDrive True rt)"
  by (auto simp: requestDrive_def request_kept_def clearTimer_def Let_def)

lemma requestDrive_runs: "request_kept rt \<Longrightarrow> \<not> rt_stopping rt \<Longrightarrow> \<not> rt_faulted rt
    \<Longrightarrow> rt_requested (requestDrive True rt) \<and> rt_running (requestDrive True rt)"
  by (auto simp: requestDrive_def clearTimer_def Let_def)









end
