(* ===== verification/Schedule_Tools.thy ===== *)
theory Schedule_Tools
  imports Schedule_Runtime_Facts Schedule_Input_Facts
begin

text \<open>
  The three tools of an agent's model (\<open>schedule/schedule/src/tools.ts\<close>): \<open>schedule_create\<close>,
  \<open>schedule_list\<close> and \<open>schedule_delete\<close>. Every body is a transaction that awaits a persistence preflight,
  then reads and changes the session without interruption, then awaits a barrier. The session given to a
  body is the session as the preflight left it; the flags say what the awaits and the abort signal
  answered. The result also counts the calls of the durable-change observer.
\<close>

subsection \<open>Arguments and results\<close>


datatype persistence_operation = OperationCreate | OperationList | OperationDelete

datatype schedule_tool_error =
    ToolInvalidSelector
  | ToolInput schedule_input_error
  | ToolCorruptLog
  | ToolPersistence persistence_operation "string option"
  | ToolInternal

datatype delete_value = Deleted string | NotFound string

type_synonym 'a tool_run = "session \<times> nat \<times> (schedule_tool_error, 'a) result"



definition foldForTool :: "session \<Rightarrow> (schedule_tool_error, folded_schedules) result" where
  "foldForTool s = (case fold_session s of Inl _ \<Rightarrow> Inl ToolCorruptLog | Inr f \<Rightarrow> Inr f)"

subsection \<open>Create\<close>


text \<open>The clocks are those of the record, of the append and of the view.\<close>

record tool_clock =
  tc_now :: int
  tc_append :: int
  tc_view :: int

text \<open>What the awaits and the signal answer: preflight, barrier, abort before the turn and before the append.\<close>

record tool_env =
  te_sameAgent :: bool
  te_cancelled :: bool
  te_preflight :: bool
  te_aborted :: bool
  te_barrier :: bool
  te_clock :: tool_clock



subsection \<open>List and delete\<close>

definition schedule_list :: "tool_env \<Rightarrow> session \<Rightarrow> (schedule_view list) tool_run" where
  "schedule_list env s =
     (if \<not> te_sameAgent env \<or> te_cancelled env then (s, 0, Inl ToolInternal)
      else if \<not> te_preflight env then (s, 0, Inl (ToolPersistence OperationList None))
      else case foldForTool s of
        Inl err \<Rightarrow> (s, 1, Inl err)
      | Inr f \<Rightarrow> (s, 1, Inr (map (\<lambda>r. scheduleView r (tc_view (te_clock env))) (fd_active f))))"

definition schedule_delete :: "string \<Rightarrow> tool_env \<Rightarrow> session \<Rightarrow> delete_value tool_run" where
  "schedule_delete i env s =
     (if i = [] \<or> js_trim i \<noteq> i then (s, 0, Inl (ToolInput InvalidRule))
      else if \<not> te_sameAgent env \<or> te_cancelled env then (s, 0, Inl ToolInternal)
      else if \<not> te_preflight env then (s, 0, Inl (ToolPersistence OperationDelete (Some i)))
      else case foldForTool s of
        Inl err \<Rightarrow> (s, 1, Inl err)
      | Inr f \<Rightarrow>
          if \<not> list_ex (\<lambda>r. sr_id r = i) (fd_active f) then (s, 1, Inr (NotFound i))
          else if te_aborted env then (s, 1, Inl ToolInternal)
          else (case append_detached s (tc_append (te_clock env)) (schedule_data (ScheduleDelete i)) None None of
              Inl _ \<Rightarrow> (s, 1, Inl ToolInternal)
            | Inr (s', _) \<Rightarrow>
                if \<not> te_barrier env then (s', 1, Inl (ToolPersistence OperationDelete (Some i)))
                else (s', 2, Inr (Deleted i))))"

subsection \<open>What creating does\<close>




lemma one_change:
  assumes st: "foldE schedule_step empty_schedules (drop (seed_length s) (ses_log s)) = Inr st"
    "seed_length s \<le> length (ses_log s)" "safe_int (int (seed_length s))"
    and s': "ses_log s' = ses_log s @ [e]" "ses_header s' = ses_header s"
    and e: "ev_data e = schedule_data c" "valid_schedule_change c"
  shows "fold_session s' = res_map folded_of (apply_change st c)"
  using fold_session_extend [OF st s'] step_change [OF e, of st] by (cases "apply_change st c") simp_all


definition tool_env_ok :: tool_env where
  "tool_env_ok = \<lparr>te_sameAgent = True, te_cancelled = False, te_preflight = True, te_aborted = False, te_barrier = True,
     te_clock = \<lparr>tc_now = 1709207700000, tc_append = 1, tc_view = 1709207700000\<rparr>\<rparr>"


definition demo_folded :: folded_schedules where
  "demo_folded = \<lparr>fd_active = [sample_after, sample_every], fd_seenIds = [''schedule-1'', ''schedule-2'']\<rparr>"

lemma schedule_session_obtain:
  obtains s where "session_inv s" "fold_session s = Inr demo_folded"
proof -
  have "case newSession SnapshotSeed ''s'' None None 0 of Inl _ \<Rightarrow> False
     | Inr s \<Rightarrow> (case newInbox s of Inl _ \<Rightarrow> False
        | Inr ib0 \<Rightarrow> fold_session (ib_session (foldl inbox_step ib0 schedule_demo_calls)) = Inr demo_folded)"
    by code_simp
  then obtain s ib0 where s: "newSession SnapshotSeed ''s'' None None 0 = Inr s" "newInbox s = Inr ib0"
    "fold_session (ib_session (foldl inbox_step ib0 schedule_demo_calls)) = Inr demo_folded"
    by (auto split: sum.splits)
  have "seed_length s \<le> length (ses_log s)"
    using schedule_demo_facts s(1) by simp
  then have "inbox_inv (foldl inbox_step ib0 schedule_demo_calls)"
    by (intro inbox_run_inv newInbox_inv [OF newSession_inv(1) [OF s(1)] _ s(2)])
  then have "session_inv (ib_session (foldl inbox_step ib0 schedule_demo_calls))" by (simp add: inbox_inv_def)
  then show thesis by (rule that [OF _ s(3)])
qed



text \<open>
  On a session whose schedule log folds, \<open>schedule_list\<close> changes nothing and
  shows every active reminder in creation order; \<open>schedule_delete\<close> answers that an id was deleted, or that
  its barrier is uncertain, only after appending the one event that removes exactly that reminder, answers
  that it was not found exactly when no active reminder has it, and otherwise leaves the session as it was.
  An id is never found again once it was deleted.
\<close>
theorem schedule_delete_tool:
  assumes inv: "session_inv s" and f: "fold_session s = Inr f"
    and env: "te_sameAgent env" "\<not> te_cancelled env" "te_preflight env"
  shows "schedule_list env s = (s, 1, Inr (map (\<lambda>r. scheduleView r (tc_view (te_clock env))) (fd_active f)))
    \<and> (valid_name i \<longrightarrow> (case schedule_delete i env s of (s', _, answer) \<Rightarrow>
        if i \<notin> sr_id ` set (fd_active f) then s' = s \<and> answer = Inr (NotFound i)
        else if te_aborted env then s' = s \<and> answer = Inl ToolInternal
        else answer = (if te_barrier env then Inr (Deleted i) else Inl (ToolPersistence OperationDelete (Some i)))
          \<and> (\<exists>e f'. session_inv s' \<and> ses_log s' = ses_log s @ [e] \<and> fold_session s' = Inr f'
             \<and> fd_active f' = filter (\<lambda>r. sr_id r \<noteq> i) (fd_active f) \<and> fd_seenIds f' = fd_seenIds f
             \<and> schedule_delete i env s' = (s', 1, Inr (NotFound i)))))"
proof -
  have ft: "foldForTool s = Inr f" by (simp add: foldForTool_def f)
  have found: "list_ex (\<lambda>r. sr_id r = i) rs \<longleftrightarrow> i \<in> sr_id ` set rs" for rs by (auto simp: list_ex_iff)
  have "schedule_list env s = (s, 1, Inr (map (\<lambda>r. scheduleView r (tc_view (te_clock env))) (fd_active f)))"
    using env by (simp add: schedule_list_def ft)
  moreover have "case schedule_delete i env s of (s', _, answer) \<Rightarrow>
        if i \<notin> sr_id ` set (fd_active f) then s' = s \<and> answer = Inr (NotFound i)
        else if te_aborted env then s' = s \<and> answer = Inl ToolInternal
        else answer = (if te_barrier env then Inr (Deleted i) else Inl (ToolPersistence OperationDelete (Some i)))
          \<and> (\<exists>e f'. session_inv s' \<and> ses_log s' = ses_log s @ [e] \<and> fold_session s' = Inr f'
             \<and> fd_active f' = filter (\<lambda>r. sr_id r \<noteq> i) (fd_active f) \<and> fd_seenIds f' = fd_seenIds f
             \<and> schedule_delete i env s' = (s', 1, Inr (NotFound i)))"
    if i: "valid_name i"
  proof (cases "i \<in> sr_id ` set (fd_active f) \<and> \<not> te_aborted env")
    case False
    then show ?thesis using env i by (auto simp: schedule_delete_def ft found valid_name_def)
  next
    case True
    obtain s' e where s': "append_detached s (tc_append (te_clock env)) (schedule_data (ScheduleDelete i)) None None = Inr (s', e)"
      "session_inv s'" "ses_log s' = ses_log s @ [e]" "ev_data e = schedule_data (ScheduleDelete i)" "ses_header s' = ses_header s"
      using schedule_append_ok [OF inv] by blast
    obtain st where st: "foldE schedule_step empty_schedules (drop (seed_length s) (ses_log s)) = Inr st" "sched_inv st"
      "f = folded_of st" "seed_length s \<le> length (ses_log s)" "safe_int (int (seed_length s))"
      using fold_session_state [OF f] by blast
    let ?st' = "st\<lparr>sf_active := omap_delete i (sf_active st)\<rparr>"
    have "i \<in> fst ` set (sf_active st)" using True st(2,3) by (force simp: active_of_def sched_inv_def)
    then have "apply_change st (ScheduleDelete i) = Inr ?st'" by (simp add: apply_change_def omap_has_iff)
    then have fs: "fold_session s' = Inr (folded_of ?st')"
      using one_change [OF st(1,4,5) s'(3,5,4)] i by simp
    have act: "fd_active (folded_of ?st') = filter (\<lambda>r. sr_id r \<noteq> i) (fd_active f)"
      using active_of_delete [OF st(2), of i] st(3) by simp
    have "i \<notin> sr_id ` set (fd_active (folded_of ?st'))" unfolding act by auto
    then have "schedule_delete i env s' = (s', 1, Inr (NotFound i))"
      using env i by (simp add: schedule_delete_def foldForTool_def fs found valid_name_def del: folded_of_fields)
    moreover have "schedule_delete i env s = (s', if te_barrier env then 2 else 1,
        if te_barrier env then Inr (Deleted i) else Inl (ToolPersistence OperationDelete (Some i)))"
      using env i True s'(1) by (simp add: schedule_delete_def ft found valid_name_def)
    ultimately show ?thesis using True s'(2,3) fs act st(3) by auto
  qed
  ultimately show ?thesis by blast
qed

theorem schedule_delete_tool_witness:
  "\<exists>s. fold_session s = Inr demo_folded
    \<and> snd (snd (schedule_delete ''schedule-1'' tool_env_ok s)) = Inr (Deleted ''schedule-1'')"
proof -
  obtain s where s: "session_inv s" "fold_session s = Inr demo_folded" by (rule schedule_session_obtain)
  have env: "te_sameAgent tool_env_ok" "\<not> te_cancelled tool_env_ok" "te_preflight tool_env_ok" "te_barrier tool_env_ok"
    "\<not> te_aborted tool_env_ok" by (simp_all add: tool_env_ok_def)
  have i: "valid_name ''schedule-1''" by code_simp
  have m: "''schedule-1'' \<in> sr_id ` set (fd_active demo_folded)" by (simp add: demo_folded_def sample_after_def)
  obtain s' k answer where d: "schedule_delete ''schedule-1'' tool_env_ok s = (s', k, answer)" by (metis surj_pair)
  have "answer = Inr (Deleted ''schedule-1'')"
    using schedule_delete_tool [OF s env(1-3), of "''schedule-1''"] d i m env(4,5) by simp
  then show ?thesis using s(2) d by (intro exI [of _ s]) simp
qed

end
