(* ===== verification/Token_Projections.thy ===== *)
theory Token_Projections
  imports Token_Meter
begin

text \<open>
  The token projections of a session (\<open>llm/token-meter/src/surface-projection.ts\<close>,
  \<open>breakdown-projection.ts\<close>, \<open>usage-projection.ts\<close>): folds whose state is a few numbers. A replacement
  shrinks the surface total by the price the event just before it states.
\<close>

subsection \<open>Projections with running totals\<close>

text \<open>
  Totals may subtract a logged price, a run-time number; logged numbers are finite, so totals are
  rationals.
\<close>

record shadow_claim =
  sh_start :: int
  sh_end :: int
  sh_tokens :: rat

text \<open>The events that state the price of the range the next event replaces.\<close>

fun shadow_price :: "event_data \<Rightarrow> shadow_claim option" where
  "shadow_price (CompactionSummary c) =
     Some \<lparr>sh_start = cs_start c, sh_end = cs_end c, sh_tokens = num_val (cs_tokens c)\<rparr>"
| "shadow_price (CompactionPrune a b seqs n) = Some \<lparr>sh_start = a, sh_end = b, sh_tokens = num_val n\<rparr>"
| "shadow_price _ = None"

definition foldSurfaceProjection ::
  "(rat \<Rightarrow> string) \<Rightarrow> shadow_claim option \<Rightarrow> event \<Rightarrow> (meter_error, rat \<times> shadow_claim option) result" where
  "foldSurfaceProjection fr claim e =
     (case shadow_price (ev_data e) of
        Some c \<Rightarrow> Inr (0, Some c)
      | None \<Rightarrow>
          if \<not> isSurfaceEvent e then Inr (0, None)
          else let tokens = of_int (event_price fr (ev_data e)); op = op_of e in
            if op = JStr ''append'' then Inr (tokens, None)
            else case claim of
              None \<Rightarrow> Inr (0, None)
            | Some c \<Rightarrow>
                if \<not> seq_is (field op ''start'') (sh_start c) \<or> \<not> seq_is (field op ''end'') (sh_end c)
                then Inl (MeterShadowMismatch (ev_seq e))
                else Inr (tokens - sh_tokens c, None))"

record breakdown_state =
  cb_systemTokens :: int
  cb_toolsTokens :: int
  cb_messageTokens :: rat
  cb_claim :: "shadow_claim option"

definition fresh_breakdown :: breakdown_state where
  "fresh_breakdown = \<lparr>cb_systemTokens = 0, cb_toolsTokens = 0, cb_messageTokens = 0, cb_claim = None\<rparr>"

definition apply_breakdown ::
  "(rat \<Rightarrow> string) \<Rightarrow> breakdown_state \<Rightarrow> event \<Rightarrow> (meter_error, breakdown_state) result" where
  "apply_breakdown fr st e =
     bindE (foldSurfaceProjection fr (cb_claim st) e) (\<lambda>(delta, claim).
       let figures = (case ev_data e of
             RequestHeader h _ \<Rightarrow> (estimateSystemTokens (Some (canonicalHeader h)), estimateToolsTokens fr (Some (canonicalHeader h)))
           | _ \<Rightarrow> (cb_systemTokens st, cb_toolsTokens st))
       in Inr \<lparr>cb_systemTokens = fst figures, cb_toolsTokens = snd figures,
               cb_messageTokens = cb_messageTokens st + delta, cb_claim = claim\<rparr>)"

subsection \<open>Context pressure\<close>

definition pressureFrom :: "token_usage \<Rightarrow> int" where
  "pressureFrom u = inputTokens u + opt_tokens (cacheReadTokens u) + opt_tokens (cacheWriteTokens u)"

text \<open>The usage a chunk or a finalized message reports.\<close>

fun usageOf :: "event_data \<Rightarrow> token_usage option" where
  "usageOf (AssistantChunk turn step (UsageChunk u)) = Some u"
| "usageOf (AssistantMessage turn step m usage) = usage"
| "usageOf _ = None"

record pressure_state =
  cp_contextWindow :: "jsnum option"
  cp_pressureTokens :: "int option"
  cp_surfaceTokens :: rat
  cp_sampledSurfaceTokens :: "rat option"
  cp_claim :: "shadow_claim option"

definition fresh_pressure :: pressure_state where
  "fresh_pressure = \<lparr>cp_contextWindow = None, cp_pressureTokens = None, cp_surfaceTokens = 0,
     cp_sampledSurfaceTokens = None, cp_claim = None\<rparr>"

text \<open>A sample is stamped before the event itself joins the surface.\<close>

definition apply_pressure ::
  "(rat \<Rightarrow> string) \<Rightarrow> pressure_state \<Rightarrow> event \<Rightarrow> (meter_error, pressure_state) result" where
  "apply_pressure fr st e =
     bindE (foldSurfaceProjection fr (cp_claim st) e) (\<lambda>(delta, claim).
       let window = (case ev_data e of
             RequestContext c \<Rightarrow>
               if opt_num_eq (ctx_contextWindow c) (cp_contextWindow st) then cp_contextWindow st else ctx_contextWindow c
           | _ \<Rightarrow> cp_contextWindow st);
           sampled = (case usageOf (ev_data e) of
             None \<Rightarrow> st
           | Some u \<Rightarrow> st\<lparr>cp_pressureTokens := Some (pressureFrom u), cp_sampledSurfaceTokens := Some (cp_surfaceTokens st)\<rparr>)
       in Inr (sampled\<lparr>cp_contextWindow := window, cp_surfaceTokens := cp_surfaceTokens st + delta, cp_claim := claim\<rparr>))"

record pressure_view =
  pv_contextWindow :: "jsnum option"
  pv_pressureTokens :: "int option"
  pv_projectedTokens :: "rat option"

definition view_pressure :: "pressure_state \<Rightarrow> pressure_view" where
  "view_pressure st =
     \<lparr>pv_contextWindow = cp_contextWindow st, pv_pressureTokens = cp_pressureTokens st,
      pv_projectedTokens = (case (cp_pressureTokens st, cp_sampledSurfaceTokens st) of
          (Some p, Some s) \<Rightarrow> Some (max 0 (of_int p + cp_surfaceTokens st - s))
        | _ \<Rightarrow> None)\<rparr>"

subsection \<open>Token usage\<close>

record token_buckets =
  uncachedInputTokens :: int
  tb_outputTokens :: int
  tb_cacheReadTokens :: int
  tb_cacheWriteTokens :: int

definition zeroBuckets :: token_buckets where
  "zeroBuckets = \<lparr>uncachedInputTokens = 0, tb_outputTokens = 0, tb_cacheReadTokens = 0, tb_cacheWriteTokens = 0\<rparr>"

definition bucketsFrom :: "token_usage \<Rightarrow> token_buckets" where
  "bucketsFrom u = \<lparr>uncachedInputTokens = inputTokens u, tb_outputTokens = outputTokens u,
     tb_cacheReadTokens = opt_tokens (cacheReadTokens u), tb_cacheWriteTokens = opt_tokens (cacheWriteTokens u)\<rparr>"

definition bucketsEqual :: "token_buckets \<Rightarrow> token_buckets \<Rightarrow> bool" where
  "bucketsEqual a b =
     (uncachedInputTokens a = uncachedInputTokens b \<and> tb_outputTokens a = tb_outputTokens b
      \<and> tb_cacheReadTokens a = tb_cacheReadTokens b \<and> tb_cacheWriteTokens a = tb_cacheWriteTokens b)"

definition addReplacing :: "token_buckets \<Rightarrow> token_buckets option \<Rightarrow> token_buckets \<Rightarrow> token_buckets" where
  "addReplacing totals previous nxt =
     (let p = (case previous of None \<Rightarrow> zeroBuckets | Some b \<Rightarrow> b) in
      \<lparr>uncachedInputTokens = uncachedInputTokens totals - uncachedInputTokens p + uncachedInputTokens nxt,
       tb_outputTokens = tb_outputTokens totals - tb_outputTokens p + tb_outputTokens nxt,
       tb_cacheReadTokens = tb_cacheReadTokens totals - tb_cacheReadTokens p + tb_cacheReadTokens nxt,
       tb_cacheWriteTokens = tb_cacheWriteTokens totals - tb_cacheWriteTokens p + tb_cacheWriteTokens nxt\<rparr>)"

record usage_sample =
  us_turn :: int
  us_step :: int
  us_buckets :: token_buckets

record usage_state =
  ut_totals :: token_buckets
  ut_last :: "usage_sample option"

definition fresh_usage :: usage_state where
  "fresh_usage = \<lparr>ut_totals = zeroBuckets, ut_last = None\<rparr>"

text \<open>The step an event reports usage for.\<close>

fun report_of :: "event_data \<Rightarrow> (int \<times> int \<times> token_usage) option" where
  "report_of (AssistantChunk turn step (UsageChunk u)) = Some (turn, step, u)"
| "report_of (AssistantMessage turn step m (Some u)) = Some (turn, step, u)"
| "report_of _ = None"

definition apply_usage :: "usage_state \<Rightarrow> event \<Rightarrow> usage_state" where
  "apply_usage st e =
     (case report_of (ev_data e) of
        None \<Rightarrow> st
      | Some (turn, step, u) \<Rightarrow>
          let buckets = bucketsFrom u;
              previous = (case ut_last st of
                  Some s \<Rightarrow> if us_turn s = turn \<and> us_step s = step then Some (us_buckets s) else None
                | None \<Rightarrow> None)
          in if (case previous of None \<Rightarrow> False | Some p \<Rightarrow> bucketsEqual p buckets) then st
             else \<lparr>ut_totals = addReplacing (ut_totals st) previous buckets,
                   ut_last = Some \<lparr>us_turn = turn, us_step = step, us_buckets = buckets\<rparr>\<rparr>)"

end
