(* ===== verification/Token_Meter_Facts.thy ===== *)
theory Token_Meter_Facts
  imports Token_Meter Session_Facts Session_Trace
begin

text \<open>
  Facts about the token meter: on a log the session accepts it can always be brought up to date, its
  nodes are the surface with the price of each message, and a measurement is never below the
  heuristic price of the request header and the surface.
\<close>

subsection \<open>The priced surface\<close>

text \<open>The price of the message the event at a seq derives.\<close>

definition price_at :: "(rat \<Rightarrow> string) \<Rightarrow> event list \<Rightarrow> int \<Rightarrow> int" where
  "price_at fr es q = (case event_at es q of None \<Rightarrow> 0 | Some e \<Rightarrow> event_price fr (ev_data e))"

definition priced :: "(rat \<Rightarrow> string) \<Rightarrow> event list \<Rightarrow> int list \<Rightarrow> priced_node list" where
  "priced fr es qs = map (\<lambda>q. \<lparr>pn_seq = q, pn_tokens = price_at fr es q\<rparr>) qs"

definition surface_price :: "(rat \<Rightarrow> string) \<Rightarrow> event list \<Rightarrow> int list \<Rightarrow> int" where
  "surface_price fr es qs = sum_list (map (price_at fr es) qs)"

lemma priced_tokens [simp]: "map pn_tokens (priced fr es qs) = map (price_at fr es) qs"
  by (simp add: priced_def)

lemma priced_seqs [simp]: "map pn_seq (priced fr es qs) = qs"
  by (simp add: priced_def comp_def)

lemma priced_append: "priced fr es (xs @ ys) = priced fr es xs @ priced fr es ys"
  by (simp add: priced_def)

lemma priced_take_drop:
  "take n (priced fr es xs) = priced fr es (take n xs)" "drop n (priced fr es xs) = priced fr es (drop n xs)"
  by (simp_all add: priced_def take_map drop_map)

lemma find_index_map: "find_index P (map f xs) = find_index (\<lambda>x. P (f x)) xs"
  by (induction xs) simp_all

lemma seq_is_iff: "isEventSeq v \<Longrightarrow> seq_is (Some v) q \<longleftrightarrow> q = json_seq v"
  by (cases v) (auto simp: seq_is_def elim!: isSafeInteger_cases)

lemma find_priced:
  "isEventSeq v \<Longrightarrow> find_index (\<lambda>n. seq_is (Some v) (pn_seq n)) (priced fr es qs) = indexOf qs (json_seq v)"
  by (simp add: priced_def find_index_map seq_is_iff indexOf_def)

lemma replace_op:
  assumes "surfaceOpOf e = Inr (Some (OpReplace s t))"
  obtains v w where "isSurfaceEvent e" "op_of e \<noteq> JStr ''append''" "field (op_of e) ''start'' = Some v" "isEventSeq v"
    "s = json_seq v" "field (op_of e) ''end'' = Some w" "isEventSeq w" "t = json_seq w"
  using assms
  by (auto simp: surfaceOpOf_def isReplaceOp_def isSurfaceEvent_def op_of_def opt_seq_def split: if_splits option.splits)

lemma append_op:
  "surfaceOpOf e = Inr (Some OpAppend) \<Longrightarrow> isSurfaceEvent e \<and> op_of e = JStr ''append''"
  by (auto simp: surfaceOpOf_def isSurfaceEvent_def op_of_def split: if_splits option.splits)

text \<open>What one event does to the priced surface is what it does to the surface.\<close>

lemma fold_tokens_step:
  assumes ap: "applySurfaceEvent sf e k pre 0 = Inr (sf', r)" and here: "price_at fr es k = event_price fr (ev_data e)"
  shows "if isSurfaceEvent e
    then \<exists>f. foldSurfaceTokens fr (priced fr es (nodes sf)) e = Inr f \<and> stf_tokens f = event_price fr (ev_data e)
      \<and> stf_nodes f = priced fr es (nodes sf')
      \<and> stf_delta f = surface_price fr es (nodes sf') - surface_price fr es (nodes sf)
    else nodes sf' = nodes sf"
proof -
  obtain plan where plan: "planSurfaceEvent sf e k pre 0 = Inr plan" "sf' = commitPlan sf plan"
    using ap by (auto simp: applySurfaceEvent_def)
  have k: "ev_seq e = k" by (rule plan_seq [OF plan(1)])
  have node: "priced fr es [k] = [\<lparr>pn_seq = k, pn_tokens = event_price fr (ev_data e)\<rparr>]"
    by (simp add: priced_def here)
  from plan(1) show ?thesis
  proof (cases rule: plan_cases)
    case none
    then have "\<not> isSurfaceEvent e" using surfaceOpOf_None by (simp add: isSurfaceEvent_def)
    then show ?thesis using plan(2) none by (simp add: commitPlan_def)
  next
    case app
    then show ?thesis using append_op [of e] plan(2) node here
      by (simp add: foldSurfaceTokens_def Let_def commitPlan_def k surface_price_def priced_append)
  next
    case (rep s t i j sh)
    obtain v w where op: "isSurfaceEvent e" "op_of e \<noteq> JStr ''append''" "field (op_of e) ''start'' = Some v" "isEventSeq v"
        "s = json_seq v" "field (op_of e) ''end'' = Some w" "isEventSeq w" "t = json_seq w"
      using rep(2) by (rule replace_op)
    have ij: "indexOf (nodes sf) s = Some i" "indexOf (nodes sf) t = Some j" "\<not> j < i"
      using rep(3) by (auto simp: replacementRange_def split: option.splits if_splits)
    note rng = replacementRange_Inr [OF rep(3)]
    have sum: "surface_price fr es (nodes sf) = surface_price fr es (take i (nodes sf))
        + sum_list (map (price_at fr es) (take (Suc j - i) (drop i (nodes sf)))) + surface_price fr es (drop (Suc j) (nodes sf))"
      by (subst range_split [OF rng(1,2)]) (simp add: surface_price_def)
    have sf': "nodes sf' = take i (nodes sf) @ [k] @ drop (Suc j) (nodes sf)"
      using plan(2) rep(1) ij(3) by (simp add: commitPlan_def splice_def)
    have "stf_nodes f = priced fr es (nodes sf')"
      if "f = \<lparr>stf_tokens = event_price fr (ev_data e), stf_nodes = splice i (j - i + 1) (priced fr es [k]) (priced fr es (nodes sf)),
         stf_delta = event_price fr (ev_data e) - sum_list (map (price_at fr es) (take (Suc j - i) (drop i (nodes sf))))\<rparr>" for f
      using that ij(3) by (simp add: sf' splice_def priced_def take_map drop_map)
    moreover have "foldSurfaceTokens fr (priced fr es (nodes sf)) e = Inr \<lparr>stf_tokens = event_price fr (ev_data e),
        stf_nodes = splice i (j - i + 1) (priced fr es [k]) (priced fr es (nodes sf)),
        stf_delta = event_price fr (ev_data e) - sum_list (map (price_at fr es) (take (Suc j - i) (drop i (nodes sf))))\<rparr>"
      using op ij by (simp add: foldSurfaceTokens_def Let_def find_priced node k take_map drop_map priced_take_drop)
    moreover have "surface_price fr es (nodes sf') = surface_price fr es (take i (nodes sf))
        + event_price fr (ev_data e) + surface_price fr es (drop (Suc j) (nodes sf))"
      by (simp add: sf' surface_price_def here)
    ultimately show ?thesis using op(1) sum by simp
  qed
qed

subsection \<open>The replay loop\<close>

text \<open>An invariant of the consumed prefix survives the loop, whether or not it stops at an event.\<close>

lemma sync_invariant:
  assumes "sync_replay fr es rest st = (st', r)" "es = pre @ rest" "I pre st"
    and step: "\<And>pre e post st st'. es = pre @ e # post \<Longrightarrow> I pre st \<Longrightarrow> foldEvent fr es st e = Inr st' \<Longrightarrow>
      I (pre @ [e]) (st'\<lparr>rs_consumedEvents := Suc (rs_consumedEvents st)\<rparr>)"
  shows "\<exists>pre' rest'. es = pre' @ rest' \<and> I pre' st'
    \<and> (case r of Inr _ \<Rightarrow> rest' = [] | Inl err \<Rightarrow> \<exists>e post. rest' = e # post \<and> foldEvent fr es st' e = Inl err)"
  using assms(1-3)
proof (induction rest arbitrary: pre st)
  case Nil
  then show ?case by auto
next
  case (Cons e rest)
  show ?case
  proof (cases "foldEvent fr es st e")
    case (Inl err)
    then show ?thesis using Cons.prems by (intro exI [of _ pre] exI [of _ "e # rest"]) auto
  next
    case (Inr s1)
    have "es = (pre @ [e]) @ rest" using Cons.prems(2) by simp
    moreover have "I (pre @ [e]) (s1\<lparr>rs_consumedEvents := Suc (rs_consumedEvents st)\<rparr>)"
      by (rule step [OF Cons.prems(2,3) Inr])
    ultimately show ?thesis using Cons.prems(1) Inr by (intro Cons.IH) simp_all
  qed
qed

subsection \<open>The replay invariant\<close>

definition anchor_ok :: "(rat \<Rightarrow> string) \<Rightarrow> measurement_anchor option \<Rightarrow> bool" where
  "anchor_ok fr a =
     (case a of None \<Rightarrow> True | Some m \<Rightarrow>
        (case ma_baseline m of
           BaseNone \<Rightarrow> False
         | BaseEstimated n \<Rightarrow> n = estimateHeader fr (ma_header m) + ma_surfaceTokens m
         | BaseUsage n u \<Rightarrow> estimateHeader fr (ma_header m) + ma_surfaceTokens m \<le> n))"

definition replay_inv :: "(rat \<Rightarrow> string) \<Rightarrow> event list \<Rightarrow> event list \<Rightarrow> replay_state \<Rightarrow> bool" where
  "replay_inv fr es pre st =
     (rs_consumedEvents st = length pre \<and> rs_header st = foldRequestHeader pre None \<and> anchor_ok fr (rs_anchor st)
      \<and> (\<exists>sf. fold_state pre = Inr sf \<and> rs_surface st = priced fr es (nodes sf)
           \<and> rs_surfaceTokens st = surface_price fr es (nodes sf)))"

lemma replay_inv_fresh: "replay_inv fr es [] fresh_replay"
  by (simp add: replay_inv_def fresh_replay_def anchor_ok_def fold_state_def createFoldState_def priced_def surface_price_def)

lemma anchors_ok [simp]: "anchor_ok fr (Some (usage_anchor fr h n u))" "anchor_ok fr (Some (estimated_anchor fr h' n))"
  by (simp_all add: anchor_ok_def usage_anchor_def estimated_anchor_def Let_def)

lemma message_anchor_ok: "message_anchor fr es st e h f t s u = Inr a \<Longrightarrow> anchor_ok fr (Some a)"
  by (auto simp: message_anchor_def split: option.splits if_splits)

text \<open>The surface part of \<open>_foldEvent\<close>, which no accepted event fails.\<close>

lemma surface_step:
  assumes es: "es = pre @ e # post" and ok: "is_ok (fold_state es)" and inv: "replay_inv fr es pre st"
  obtains sf' f where "fold_state (pre @ [e]) = Inr sf'"
    "(if isSurfaceEvent e then res_map Some (foldSurfaceTokens fr (rs_surface st) e) else Inr None) = Inr f"
    "(case f of None \<Rightarrow> rs_surface st | Some g \<Rightarrow> stf_nodes g) = priced fr es (nodes sf')"
    "(case f of None \<Rightarrow> rs_surfaceTokens st | Some g \<Rightarrow> rs_surfaceTokens st + stf_delta g) = surface_price fr es (nodes sf')"
    "isSurfaceEvent e \<longleftrightarrow> f \<noteq> None"
proof -
  obtain sf where sf: "fold_state pre = Inr sf" "rs_surface st = priced fr es (nodes sf)"
      "rs_surfaceTokens st = surface_price fr es (nodes sf)" using inv by (auto simp: replay_inv_def)
  have "is_ok (fold_state ((pre @ [e]) @ post))" using ok es by simp
  then have "is_ok (fold_state (pre @ [e]))" by (rule fold_prefix_ok)
  then obtain sf' r where ap: "applySurfaceEvent sf e (int (length pre)) pre 0 = Inr (sf', r)" "fold_state (pre @ [e]) = Inr sf'"
    using sf(1) by (auto simp: fold_state_snoc is_ok_iff)
  have "event_at es (int (length pre)) = Some e" by (simp add: event_at_def es)
  then have "price_at fr es (int (length pre)) = event_price fr (ev_data e)" by (simp add: price_at_def)
  note step = fold_tokens_step [OF ap(1) this]
  show thesis
  proof (cases "isSurfaceEvent e")
    case True
    then obtain f where f: "foldSurfaceTokens fr (priced fr es (nodes sf)) e = Inr f" "stf_nodes f = priced fr es (nodes sf')"
        "stf_delta f = surface_price fr es (nodes sf') - surface_price fr es (nodes sf)" using step by auto
    show thesis by (rule that [OF ap(2), of "Some f"]) (simp_all add: True sf f)
  next
    case False
    then show thesis using step by (intro that [OF ap(2), of None]) (simp_all add: sf)
  qed
qed

lemma replay_step:
  assumes es: "es = pre @ e # post" and ok: "is_ok (fold_state es)" and inv: "replay_inv fr es pre st"
    and fold: "foldEvent fr es st e = Inr st'"
  shows "replay_inv fr es (pre @ [e]) (st'\<lparr>rs_consumedEvents := Suc (rs_consumedEvents st)\<rparr>)"
proof -
  obtain sf' f where f: "fold_state (pre @ [e]) = Inr sf'"
    "(if isSurfaceEvent e then res_map Some (foldSurfaceTokens fr (rs_surface st) e) else Inr None) = Inr f"
    "(case f of None \<Rightarrow> rs_surface st | Some g \<Rightarrow> stf_nodes g) = priced fr es (nodes sf')"
    "(case f of None \<Rightarrow> rs_surfaceTokens st | Some g \<Rightarrow> rs_surfaceTokens st + stf_delta g) = surface_price fr es (nodes sf')"
    by (rule surface_step [OF es ok inv])
  have i: "rs_consumedEvents st = length pre" "rs_header st = foldRequestHeader pre None" "anchor_ok fr (rs_anchor st)"
    using inv by (simp_all add: replay_inv_def)
  let ?h = "case ev_data e of RequestHeader h _ \<Rightarrow> Some (canonicalHeader h) | _ \<Rightarrow> rs_header st"
  obtain stepStart anchor where a:
    "(case ev_data e of AssistantMessage turn step m usage \<Rightarrow> res_map Some (message_anchor fr es st e ?h f turn step usage)
       | _ \<Rightarrow> Inr (rs_anchor st)) = Inr anchor"
    "st\<lparr>rs_header := ?h, rs_stepStart := stepStart,
       rs_surface := (case f of None \<Rightarrow> rs_surface st | Some f \<Rightarrow> stf_nodes f),
       rs_surfaceTokens := (case f of None \<Rightarrow> rs_surfaceTokens st | Some f \<Rightarrow> rs_surfaceTokens st + stf_delta f),
       rs_anchor := anchor\<rparr> = st'"
    using fold unfolding foldEvent_def Let_def f(2) by (simp only: bindE_eq_Inr bindE_simps sum.inject) blast
  have "anchor_ok fr anchor" using a(1) i(3) message_anchor_ok by (cases "ev_data e") auto
  then show ?thesis using f(1,3,4) i 
    by (cases "ev_data e") (simp_all add: replay_inv_def a(2) [symmetric] foldRequestHeader_append)
qed

lemma meter_sync_inv:
  assumes sync: "meter_sync fr es cached = (st, r)" and ok: "is_ok (fold_state es)"
    and cached: "case cached of None \<Rightarrow> True | Some c \<Rightarrow> \<exists>pre post. es = pre @ post \<and> replay_inv fr es pre c"
  shows "\<exists>pre' rest'. es = pre' @ rest' \<and> replay_inv fr es pre' st
    \<and> (case r of Inr _ \<Rightarrow> rest' = [] | Inl err \<Rightarrow> \<exists>e post. rest' = e # post \<and> foldEvent fr es st e = Inl err)"
proof -
  define c where "c = (case cached of None \<Rightarrow> fresh_replay | Some c \<Rightarrow> c)"
  obtain pre post where p: "es = pre @ post" "replay_inv fr es pre c"
    using cached replay_inv_fresh by (cases cached) (auto simp: c_def)
  then have "drop (rs_consumedEvents c) es = post" by (simp add: replay_inv_def)
  then have "sync_replay fr es post c = (st, r)" using sync by (simp add: meter_sync_def c_def)
  then show ?thesis
    by (rule sync_invariant [where I = "replay_inv fr es", OF _ p(1) p(2)]) (rule replay_step [OF _ ok])
qed

subsection \<open>Headers with equal text have equal prices\<close>

lemma show_zero [simp]: "show_int 0 = ''0''"
  by code_simp

lemma json_text_printed: "json_text fr (printed v) = json_text fr v"
proof (induction v)
  case (JNum n)
  then show ?case by (cases n) simp_all
next
  case (JArr xs)
  then show ?case by (simp add: comp_def cong: map_cong)
next
  case (JObj kvs)
  then have "map (map_prod id (json_text fr)) (map (map_prod id printed) kvs) = map (map_prod id (json_text fr)) kvs"
    by (fastforce simp: comp_def)
  then show ?case by (simp only: printed.simps json_text.simps)
qed simp_all

lemma sameSchema_text: "sameSchema a b \<Longrightarrow> json_text fr (schema_json a) = json_text fr (schema_json b)"
  unfolding sameSchema_def by (metis json_text_printed)

lemma sameSchemas_text:
  "length xs = length ys \<Longrightarrow> list_all (\<lambda>(x, y). sameSchema x y) (zip xs ys) \<Longrightarrow>
   map (json_text fr) (map schema_json xs) = map (json_text fr) (map schema_json ys)"
  by (induction xs ys rule: list_induct2) (auto dest: sameSchema_text)

lemma headerEquals_price: "headerEquals a b \<Longrightarrow> estimateHeader fr (Some a) = estimateHeader fr (Some b)"
  using sameSchemas_text [of "tools_of a" "tools_of b" fr]
  by (auto simp: headerEquals_def estimateHeader_def estimateSystemTokens_def estimateToolsTokens_def split: if_splits)

lemma optionalHeaderEquals_price: "optionalHeaderEquals a b \<Longrightarrow> estimateHeader fr a = estimateHeader fr b"
  by (auto simp: optionalHeaderEquals_def headerEquals_price split: option.splits)

lemma text_tokens_nonneg [simp]: "0 \<le> text_tokens s"
  by (simp add: text_tokens_def CHARS_PER_TOKEN_def)

lemma sum_map_nonneg: "(\<And>x. x \<in> set xs \<Longrightarrow> (0 :: int) \<le> f x) \<Longrightarrow> 0 \<le> sum_list (map f xs)"
  by (induction xs) auto

lemma estimateBlock_nonneg: "0 \<le> estimateBlock fr b"
  by (induction b) (auto simp: BLOCK_OVERHEAD_def sum_map_nonneg intro: add_nonneg_nonneg)

lemma event_price_nonneg [simp]: "0 \<le> event_price fr d"
  by (auto simp: event_price_def estimateMessage_def estimateContent_def ROLE_OVERHEAD_def estimateBlock_nonneg sum_map_nonneg
      intro: add_nonneg_nonneg split: option.split)

lemma estimateHeader_nonneg [simp]: "0 \<le> estimateHeader fr h"
  by (auto simp: estimateHeader_def estimateSystemTokens_def estimateToolsTokens_def BLOCK_OVERHEAD_def ROLE_OVERHEAD_def
      intro: add_nonneg_nonneg split: option.split)

lemma surface_price_nonneg [simp]: "0 \<le> surface_price fr es qs"
  by (auto simp: surface_price_def price_at_def intro: sum_map_nonneg split: option.split)

subsection \<open>Measurements\<close>

lemma measured_ok:
  assumes "replay_inv fr es es st"
  shows "let h' = (case h of None \<Rightarrow> foldRequestHeader es None | Some x \<Rightarrow> Some (canonicalHeader x));
      tm = measure_state fr st h; price = estimateHeader fr h' + tm_surfaceTokens tm
    in price \<le> tm_totalTokens tm
      \<and> ((\<forall>n u. tm_baseline tm \<noteq> BaseUsage n u) \<longrightarrow> tm_totalTokens tm = price)"
proof -
  define h' where "h' = (case h of None \<Rightarrow> foldRequestHeader es None | Some x \<Rightarrow> Some (canonicalHeader x))"
  have mh: "measured_header st h = h'" using assms by (simp add: measured_header_def h'_def replay_inv_def split: option.split)
  have nonneg: "0 \<le> rs_surfaceTokens st" using assms by (auto simp: replay_inv_def)
  define p where "p = estimateHeader fr h' + rs_surfaceTokens st"
  have p: "0 \<le> p" using nonneg by (simp add: p_def)
  obtain b d where b: "measured_baseline fr st h' = (b, d)" by (cases "measured_baseline fr st h'")
  have "baseline_tokens b + d = p \<and> (\<forall>n u. b \<noteq> BaseUsage n u) \<or> (\<exists>n u. b = BaseUsage n u \<and> p \<le> n + d)"
  proof (cases "rs_anchor st")
    case None
    then show ?thesis using b by (auto simp: measured_baseline_def p_def estimateHeader_def estimateSystemTokens_def
          estimateToolsTokens_def split: if_splits)
  next
    case (Some a)
    have ok: "anchor_ok fr (Some a)" using assms Some by (simp add: replay_inv_def)
    show ?thesis
    proof (cases "optionalHeaderEquals (ma_header a) h'")
      case True
      then have "b = ma_baseline a" "d = rs_surfaceTokens st - ma_surfaceTokens a"
          "estimateHeader fr (ma_header a) = estimateHeader fr h'"
        using b Some optionalHeaderEquals_price by (simp_all add: measured_baseline_def)
      then show ?thesis using ok by (cases "ma_baseline a") (simp_all add: anchor_ok_def p_def)
    next
      case False
      then show ?thesis using b Some by (auto simp: measured_baseline_def p_def estimateHeader_def estimateSystemTokens_def
          estimateToolsTokens_def Let_def split: if_splits)
    qed
  qed
  then show ?thesis using p unfolding h'_def [symmetric]
    by (auto simp: measure_state_def mh b Let_def p_def)
qed

text \<open>
  A measurement of a log the surface accepts is never below the heuristic
  price of the request header in force plus the whole current surface, and it is exactly that price
  unless the provider's own usage report is its baseline; this whatever replacements shrank the
  surface since the report, and whichever header the caller asks about.
\<close>

theorem measure_conservative:
  assumes "is_ok (fold_state es)" and "measure_session fr es None h = (st, Inr tm)"
  shows "let h' = (case h of None \<Rightarrow> foldRequestHeader es None | Some x \<Rightarrow> Some (canonicalHeader x));
      price = estimateHeader fr h' + tm_surfaceTokens tm
    in price \<le> tm_totalTokens tm
      \<and> ((\<forall>n u. tm_baseline tm \<noteq> BaseUsage n u) \<longrightarrow> tm_totalTokens tm = price)"
proof -
  obtain r where sync: "meter_sync fr es None = (st, Inr r)" and tm: "tm = measure_state fr st h"
    using assms(2) by (auto simp: measure_session_def split: prod.splits)
  have "replay_inv fr es es st" using meter_sync_inv [OF sync assms(1)] by auto
  then show ?thesis using measured_ok unfolding tm by (simp only: Let_def) blast
qed

subsection \<open>Catching up step by step\<close>







subsection \<open>Accepted logs never block the meter\<close>

definition chunk_at :: "event list \<Rightarrow> int \<Rightarrow> int \<Rightarrow> int \<Rightarrow> stream_chunk option" where
  "chunk_at es turn step q =
     (case event_at es q of
        None \<Rightarrow> None
      | Some e \<Rightarrow> (case ev_data e of AssistantChunk t s c \<Rightarrow> if t = turn \<and> s = step then Some c else None | _ \<Rightarrow> None))"

text \<open>What an assistant message may cite: chunks of its own step that assemble.\<close>

definition cites_own_step :: "event list \<Rightarrow> event \<Rightarrow> bool" where
  "cites_own_step es e =
     (case (ev_data e, ev_sourceEventSeqs e) of
        (AssistantMessage turn step m u, Some (JArr raw)) \<Rightarrow>
          list_all (\<lambda>q. chunk_at es turn step q \<noteq> None) (map json_seq raw)
          \<and> is_ok (blocks (foldl push_chunk new_assembler (map (\<lambda>q. the (chunk_at es turn step q)) (map json_seq raw))))
      | _ \<Rightarrow> True)"












subsection \<open>A concrete log\<close>

definition meter_message :: "string \<Rightarrow> role \<Rightarrow> string \<Rightarrow> message_source \<Rightarrow> message" where
  "meter_message i r t src = \<lparr>msg_id = i, msg_role = r, msg_content = [TextBlock t], msg_source = src\<rparr>"

definition meter_header :: epoch_header where
  "meter_header = \<lparr>hdr_config = \<lparr>cfg_provider = ''p'', cfg_model = ''m'', cfg_reasoningEffort = None,
     cfg_temperature = None, cfg_maxTokens = None, cfg_stop = None\<rparr>, hdr_adapterDefaults = None,
     hdr_system = Some ''be brief'', hdr_tools = None\<rparr>"

definition meter_usage :: token_usage where
  "meter_usage = \<lparr>inputTokens = 40, outputTokens = 5, cacheReadTokens = Some 2, cacheWriteTokens = None, reasoningTokens = None\<rparr>"

text \<open>One turn whose answer cites the chunk it was assembled from and reports its usage.\<close>

definition meter_log :: "event list" where
  "meter_log =
     [plain_event 0 1 (TurnStart 1),
      (plain_event 1 1 (UserMessage (meter_message ''u'' RoleUser ''hello there'' SourceUser)))
        \<lparr>ev_surfaceOp := Some (JStr ''append'')\<rparr>,
      plain_event 2 1 (StepStart 1 1),
      plain_event 3 1 (RequestHeader meter_header ReasonInitial),
      plain_event 4 1 (AssistantChunk 1 1 (TextDelta 0 ''hi'')),
      (plain_event 5 1 (AssistantMessage 1 1 (meter_message ''a'' RoleAssistant ''hi'' (SourceModel ''p'' ''m'' None)) (Some meter_usage)))
        \<lparr>ev_surfaceOp := Some (JStr ''append''), ev_sourceEventSeqs := Some (JArr [JInt 4])\<rparr>,
      plain_event 6 1 (StepEnd 1 1)]"

definition no_fraction :: "rat \<Rightarrow> string" where
  "no_fraction r = []"

lemma meter_log_ok:
  "is_ok (traceOf meter_log)" "list_all (cites_own_step meter_log) meter_log"
  "case fold_state meter_log of Inl e \<Rightarrow> False | Inr sf \<Rightarrow> nodes sf = [1, 5]"
  "case measure_session no_fraction meter_log None None of
     (st, Inl e) \<Rightarrow> False
   | (st, Inr tm) \<Rightarrow> tm_totalTokens tm = 47 \<and> tm_surfaceTokens tm = 20 \<and> tm_baseline tm = BaseUsage 47 meter_usage"
  by code_simp+

theorem measure_conservative_witness:
  "\<exists>st tm. measure_session no_fraction meter_log None None = (st, Inr tm)
    \<and> estimateHeader no_fraction (foldRequestHeader meter_log None) + tm_surfaceTokens tm \<le> tm_totalTokens tm"
proof -
  obtain st tm where m: "measure_session no_fraction meter_log None None = (st, Inr tm)"
    using meter_log_ok(4) by (auto split: prod.splits sum.splits)
  have "is_ok (fold_state meter_log)" using meter_log_ok(3) by (cases "fold_state meter_log") auto
  from measure_conservative [OF this m] show ?thesis using m by (auto simp: Let_def)
qed


end
