(* ===== verification/Token_Projections_Facts.thy ===== *)
theory Token_Projections_Facts
  imports Token_Projections Token_Meter_Facts
begin

text \<open>
  Facts about the token projections: where every replacement is announced by its price, the running
  totals are the meter's; and the usage totals count the last report of every step once.
\<close>

subsection \<open>Announced replacements\<close>

text \<open>The replacement the event at an index makes, if any.\<close>

definition replacement_at :: "event list \<Rightarrow> nat \<Rightarrow> fold_replacement option" where
  "replacement_at es i =
     (case fold_state (take i es) of
        Inl err \<Rightarrow> None
      | Inr sf \<Rightarrow>
          (case planSurfaceEvent sf (es ! i) (int i) (take i es) 0 of
             Inl err \<Rightarrow> None
           | Inr plan \<Rightarrow> planReplacement plan))"

text \<open>Every replacement directly follows an event that states its range and the price of its nodes.\<close>

definition fully_metered :: "(rat \<Rightarrow> string) \<Rightarrow> event list \<Rightarrow> bool" where
  "fully_metered fr es =
     list_all (\<lambda>i. case replacement_at es i of
         None \<Rightarrow> True
       | Some r \<Rightarrow> 0 < i \<and> shadow_price (ev_data (es ! (i - 1)))
           = Some \<lparr>sh_start = rep_start r, sh_end = rep_end r, sh_tokens = of_int (surface_price fr es (rep_shadowed r))\<rparr>)
       [0..<length es]"

lemma replace_price:
  assumes "replacementRange sf s t = Inr (i, j, sh)"
  shows "surface_price fr es (splice i (j - i + 1) [k] (nodes sf))
    = surface_price fr es (nodes sf) - surface_price fr es sh + price_at fr es k"
proof -
  note rng = replacementRange_Inr [OF assms]
  have "surface_price fr es (nodes sf) = surface_price fr es (take i (nodes sf)) + surface_price fr es sh
      + surface_price fr es (drop (Suc j) (nodes sf))"
    by (subst range_split [OF rng(1,2)]) (simp add: surface_price_def rng(3))
  moreover have "i + (j - i + 1) = Suc j" using rng(1) by simp
  ultimately show ?thesis by (simp add: splice_def surface_price_def)
qed

definition claim_after :: "event list \<Rightarrow> shadow_claim option" where
  "claim_after pre = (if pre = [] then None else shadow_price (ev_data (last pre)))"

lemma shadow_not_surface: "shadow_price d = Some c \<Longrightarrow> \<not> isSurfaceEligible d"
  by (cases d) simp_all

lemma seq_is_json: "isEventSeq v \<Longrightarrow> seq_is (Some v) (json_seq v)"
  by (simp add: seq_is_iff)

text \<open>One event: the running total moves as the price of the surface does.\<close>

lemma projection_fold_step:
  assumes es: "es = pre @ e # post" and sf: "fold_state pre = Inr sf" "fold_state (pre @ [e]) = Inr sf'"
    and metered: "fully_metered fr es"
  shows "foldSurfaceProjection fr (claim_after pre) e
    = Inr (of_int (surface_price fr es (nodes sf') - surface_price fr es (nodes sf)), claim_after (pre @ [e]))"
proof -
  have "event_at es (int (length pre)) = Some e" by (simp add: event_at_def es)
  then have here: "price_at fr es (int (length pre)) = event_price fr (ev_data e)" by (simp add: price_at_def)
  obtain plan where plan: "planSurfaceEvent sf e (int (length pre)) pre 0 = Inr plan" "sf' = commitPlan sf plan"
    using sf by (auto simp: fold_state_snoc applySurfaceEvent_def)
  from plan(1) show ?thesis
  proof (cases rule: plan_cases)
    case none
    then have "\<not> isSurfaceEvent e" using surfaceOpOf_None by (simp add: isSurfaceEvent_def)
    then show ?thesis using none plan(2)
      by (simp add: foldSurfaceProjection_def commitPlan_def claim_after_def split: option.split)
  next
    case app
    have op: "isSurfaceEvent e" "op_of e = JStr ''append''" using append_op [OF app(2)] by simp_all
    then have "shadow_price (ev_data e) = None" using shadow_not_surface
      by (cases "shadow_price (ev_data e)") (auto simp: isSurfaceEvent_def)
    then show ?thesis using app(1) plan(2) op here
      by (simp add: foldSurfaceProjection_def commitPlan_def claim_after_def surface_price_def Let_def)
  next
    case (rep s t i j sh)
    obtain v w where op: "isSurfaceEvent e" "op_of e \<noteq> JStr ''append''" "field (op_of e) ''start'' = Some v" "isEventSeq v"
        "s = json_seq v" "field (op_of e) ''end'' = Some w" "isEventSeq w" "t = json_seq w"
      using rep(2) by (rule replace_op)
    then have shadow: "shadow_price (ev_data e) = None" using shadow_not_surface
      by (cases "shadow_price (ev_data e)") (auto simp: isSurfaceEvent_def)
    have "replacement_at es (length pre) = Some \<lparr>rep_seq = int (length pre), rep_start = s, rep_end = t, rep_shadowed = sh\<rparr>"
      using plan(1) rep(1) sf(1) by (simp add: replacement_at_def es planReplacement_def)
    moreover have "length pre \<in> set [0..<length es]" by (simp add: es)
    ultimately have "pre \<noteq> []" and m: "shadow_price (ev_data (es ! (length pre - 1)))
        = Some \<lparr>sh_start = s, sh_end = t, sh_tokens = of_int (surface_price fr es sh)\<rparr>"
      using metered unfolding fully_metered_def list_all_iff by fastforce+
    then have claim: "claim_after pre = Some \<lparr>sh_start = s, sh_end = t, sh_tokens = of_int (surface_price fr es sh)\<rparr>"
      by (simp add: claim_after_def es nth_append last_conv_nth)
    have "surface_price fr es (nodes sf') = surface_price fr es (nodes sf) - surface_price fr es sh + event_price fr (ev_data e)"
      using plan(2) rep(1) replace_price [OF rep(3)] by (simp add: commitPlan_def here)
    then show ?thesis using op shadow claim
      by (simp add: foldSurfaceProjection_def claim_after_def seq_is_json Let_def)
  qed
qed

text \<open>The states of both projections after a prefix.\<close>

definition breakdown_inv :: "(rat \<Rightarrow> string) \<Rightarrow> event list \<Rightarrow> event list \<Rightarrow> surface_state \<Rightarrow> breakdown_state \<Rightarrow> bool" where
  "breakdown_inv fr es pre sf b =
     (cb_systemTokens b = estimateSystemTokens (foldRequestHeader pre None)
      \<and> cb_toolsTokens b = estimateToolsTokens fr (foldRequestHeader pre None)
      \<and> cb_messageTokens b = of_int (surface_price fr es (nodes sf)) \<and> cb_claim b = claim_after pre)"

definition pressure_inv :: "(rat \<Rightarrow> string) \<Rightarrow> event list \<Rightarrow> event list \<Rightarrow> surface_state \<Rightarrow> pressure_state \<Rightarrow> bool" where
  "pressure_inv fr es pre sf p =
     (cp_surfaceTokens p = of_int (surface_price fr es (nodes sf)) \<and> cp_claim p = claim_after pre)"

lemma breakdown_step:
  assumes "breakdown_inv fr es pre sf b"
    and "foldSurfaceProjection fr (claim_after pre) e
      = Inr (of_int (surface_price fr es (nodes sf') - surface_price fr es (nodes sf)), claim_after (pre @ [e]))"
  shows "\<exists>b'. apply_breakdown fr b e = Inr b' \<and> breakdown_inv fr es (pre @ [e]) sf' b'"
  using assms
  by (cases "ev_data e") (simp_all add: breakdown_inv_def apply_breakdown_def foldRequestHeader_append)

lemma pressure_step:
  assumes "pressure_inv fr es pre sf p"
    and "foldSurfaceProjection fr (claim_after pre) e
      = Inr (of_int (surface_price fr es (nodes sf') - surface_price fr es (nodes sf)), claim_after (pre @ [e]))"
  shows "\<exists>p'. apply_pressure fr p e = Inr p' \<and> pressure_inv fr es (pre @ [e]) sf' p'"
  using assms by (simp add: pressure_inv_def apply_pressure_def Let_def split: option.split)

lemma projections_prefix:
  assumes ok: "is_ok (fold_state es)" and metered: "fully_metered fr es" and pre: "es = pre @ post"
  shows "\<exists>sf b p. fold_state pre = Inr sf \<and> foldE (apply_breakdown fr) fresh_breakdown pre = Inr b
    \<and> breakdown_inv fr es pre sf b \<and> foldE (apply_pressure fr) fresh_pressure pre = Inr p \<and> pressure_inv fr es pre sf p"
  using pre
proof (induction pre arbitrary: post rule: rev_induct)
  case Nil
  show ?case
    by (simp add: breakdown_inv_def pressure_inv_def fresh_breakdown_def fresh_pressure_def claim_after_def
        surface_price_def createFoldState_def estimateSystemTokens_def estimateToolsTokens_def)
next
  case (snoc e pre)
  obtain sf b p where st: "fold_state pre = Inr sf" "foldE (apply_breakdown fr) fresh_breakdown pre = Inr b"
      "breakdown_inv fr es pre sf b" "foldE (apply_pressure fr) fresh_pressure pre = Inr p" "pressure_inv fr es pre sf p"
    using snoc.IH [of "e # post"] snoc.prems by auto
  have "is_ok (fold_state ((pre @ [e]) @ post))" using ok snoc.prems by simp
  then obtain sf' where sf': "fold_state (pre @ [e]) = Inr sf'" using fold_prefix_ok by (metis is_ok_iff)
  have es: "es = pre @ e # post" using snoc.prems by simp
  note step = projection_fold_step [OF es st(1) sf' metered]
  from breakdown_step [OF st(3) step] pressure_step [OF st(5) step] show ?case
    using st(2,4) sf' by (auto simp: foldE_append)
qed

text \<open>
  C31: on a log whose every replacement is directly preceded by the event that
  states its range and price, the projections never fail, and at the end their running totals are the
  surface total the meter measures and their envelope figures the meter's price of the latest header,
  although they keep no per-message prices.
\<close>

theorem projections_match_meter:
  assumes "is_ok (fold_state es)" "fully_metered fr es" "measure_session fr es None h = (st, Inr tm)"
  shows "\<exists>b p. foldE (apply_breakdown fr) fresh_breakdown es = Inr b \<and> foldE (apply_pressure fr) fresh_pressure es = Inr p
    \<and> cb_messageTokens b = of_int (tm_surfaceTokens tm) \<and> cp_surfaceTokens p = of_int (tm_surfaceTokens tm)
    \<and> cb_systemTokens b + cb_toolsTokens b = estimateHeader fr (foldRequestHeader es None)"
proof -
  obtain r where sync: "meter_sync fr es None = (st, Inr r)" and tm: "tm = measure_state fr st h"
    using assms(3) by (auto simp: measure_session_def split: prod.splits)
  have inv: "replay_inv fr es es st" using meter_sync_inv [OF sync assms(1)] by auto
  obtain sf b p where st: "fold_state es = Inr sf" "foldE (apply_breakdown fr) fresh_breakdown es = Inr b"
      "breakdown_inv fr es es sf b" "foldE (apply_pressure fr) fresh_pressure es = Inr p" "pressure_inv fr es es sf p"
    using projections_prefix [OF assms(1,2), of es "[]"] by auto
  have "tm_surfaceTokens tm = surface_price fr es (nodes sf)"
    using inv st(1) by (auto simp: tm measure_state_def replay_inv_def split: prod.split)
  then show ?thesis using st by (simp add: breakdown_inv_def pressure_inv_def estimateHeader_def)
qed

definition pruned_log :: "event list" where
  "pruned_log =
     [(plain_event 0 1 (UserMessage (meter_message ''u'' RoleUser ''a rather long message'' SourceUser)))
        \<lparr>ev_surfaceOp := Some (JStr ''append'')\<rparr>,
      plain_event 1 1 (CompactionPrune 0 0 [0] (num_of_int 14)),
      (plain_event 2 1 (UserMessage (meter_message ''v'' RoleUser ''short'' SourceUser)))
        \<lparr>ev_surfaceOp := Some (JObj [(''op'', JStr ''replace''), (''start'', JInt 0), (''end'', JInt 0)]),
         ev_sourceEventSeqs := Some (JArr [JInt 0])\<rparr>]"

lemma pruned_log_ok:
  "is_ok (fold_state pruned_log)" "fully_metered no_fraction pruned_log"
  "case measure_session no_fraction pruned_log None None of (st, Inl e) \<Rightarrow> False | (st, Inr tm) \<Rightarrow> tm_surfaceTokens tm = 10"
  by code_simp+

theorem projections_match_meter_witness:
  "\<exists>b. foldE (apply_breakdown no_fraction) fresh_breakdown pruned_log = Inr b \<and> cb_messageTokens b = 10"
proof -
  obtain st tm where m: "measure_session no_fraction pruned_log None None = (st, Inr tm)" "tm_surfaceTokens tm = 10"
    using pruned_log_ok(3) by (auto split: prod.splits sum.splits)
  from projections_match_meter [OF pruned_log_ok(1,2) m(1)] m(2) show ?thesis by auto
qed

subsection \<open>Usage totals\<close>

text \<open>The usage reports of a log, in order, and the last one of a step.\<close>

definition reports :: "event list \<Rightarrow> ((int \<times> int) \<times> token_buckets) list" where
  "reports es = concat (map (\<lambda>e. case report_of (ev_data e) of
     None \<Rightarrow> [] | Some (turn, step, u) \<Rightarrow> [((turn, step), bucketsFrom u)]) es)"

definition last_report :: "((int \<times> int) \<times> token_buckets) list \<Rightarrow> int \<times> int \<Rightarrow> token_buckets" where
  "last_report rs k = (case map_of (rev rs) k of None \<Rightarrow> zeroBuckets | Some b \<Rightarrow> b)"

text \<open>The sum of one bucket over the last reports of all steps.\<close>

definition report_total :: "(token_buckets \<Rightarrow> int) \<Rightarrow> ((int \<times> int) \<times> token_buckets) list \<Rightarrow> int" where
  "report_total f rs = (\<Sum>k \<in> fst ` set rs. f (last_report rs k))"

definition buckets :: "(token_buckets \<Rightarrow> int) set" where
  "buckets = {uncachedInputTokens, tb_outputTokens, tb_cacheReadTokens, tb_cacheWriteTokens}"

lemma last_report_snoc: "last_report (rs @ [(k, b)]) j = (if j = k then b else last_report rs j)"
  by (simp add: last_report_def)

lemma last_report_last: "rs \<noteq> [] \<Longrightarrow> last_report rs (fst (last rs)) = snd (last rs)"
  by (cases rs rule: rev_cases) (auto simp: last_report_def)

lemma report_total_snoc:
  "report_total f (rs @ [(k, b)]) = report_total f rs - (if k \<in> fst ` set rs then f (last_report rs k) else 0) + f b"
proof -
  let ?K = "fst ` set rs"
  have "report_total f (rs @ [(k, b)]) = (\<Sum>j \<in> insert k ?K. f (if j = k then b else last_report rs j))"
    by (simp add: report_total_def last_report_snoc)
  also have "\<dots> = f b + (\<Sum>j \<in> ?K - {k}. f (if j = k then b else last_report rs j))"
    by (subst sum.insert_remove) simp_all
  also have "(\<Sum>j \<in> ?K - {k}. f (if j = k then b else last_report rs j)) = (\<Sum>j \<in> ?K - {k}. f (last_report rs j))"
    by (rule sum.cong) auto
  also have "\<dots> = report_total f rs - (if k \<in> ?K then f (last_report rs k) else 0)"
    by (simp add: report_total_def sum_diff1)
  finally show ?thesis by simp
qed

text \<open>Reports lie in the past of the trace, and those of the open step are the latest.\<close>

definition past_report :: "session_trace \<Rightarrow> int \<times> int \<Rightarrow> int \<times> int \<Rightarrow> bool" where
  "past_report tr latest k =
     (fst k < tr_nextTurn tr
      \<or> (fst k = tr_nextTurn tr \<and> tr_openTurn tr \<noteq> None
          \<and> (snd k < tr_nextStep tr \<or> snd k = tr_nextStep tr \<and> k = latest)))"

definition reports_inv :: "session_trace \<Rightarrow> ((int \<times> int) \<times> token_buckets) list \<Rightarrow> bool" where
  "reports_inv tr rs = (\<forall>k \<in> fst ` set rs. past_report tr (fst (last rs)) k)"

lemma reports_snoc: "reports (es @ [e]) = reports es @ (case report_of (ev_data e) of
    None \<Rightarrow> [] | Some (turn, step, u) \<Rightarrow> [((turn, step), bucketsFrom u)])"
  by (simp add: reports_def)

text \<open>A report comes from the open step.\<close>

lemma report_open:
  assumes "trace_inv tr" "traceStep tr e = Inr tr'" "report_of (ev_data e) = Some (turn, step, u)"
  shows "turn = tr_nextTurn tr" "step = tr_nextStep tr" "tr_openTurn tr' \<noteq> None"
    "tr_nextTurn tr' = tr_nextTurn tr" "tr_nextStep tr' = tr_nextStep tr"
  using assms
  by (cases "ev_data e" rule: report_of.cases; auto simp: trace_defs trace_inv_def split: if_splits option.splits)+

lemma trace_moves:
  assumes "trace_inv tr" "traceStep tr e = Inr tr'"
  shows "(tr_nextTurn tr' = tr_nextTurn tr \<and> tr_openTurn tr' = tr_openTurn tr \<and> tr_nextStep tr \<le> tr_nextStep tr'
        \<and> tr_nextStep tr' \<le> tr_nextStep tr + 1)
    \<or> (tr_openTurn tr = None \<and> tr_nextTurn tr' = tr_nextTurn tr) \<or> tr_nextTurn tr' = tr_nextTurn tr + 1"
  using assms
  by (cases "(tr, e, ev_data e)" rule: validateByType.cases)
    (auto simp: trace_defs trace_inv_def split: if_splits option.splits)

lemma past_moves: "past_report tr l k \<Longrightarrow> trace_inv tr \<Longrightarrow> traceStep tr e = Inr tr' \<Longrightarrow> past_report tr' l k"
  using trace_moves [of tr e tr'] unfolding past_report_def by (elim disjE conjE) auto

lemma reports_inv_other: "trace_inv tr \<Longrightarrow> reports_inv tr rs \<Longrightarrow> traceStep tr e = Inr tr' \<Longrightarrow> reports_inv tr' rs"
  unfolding reports_inv_def by (blast intro: past_moves)

lemma reports_inv_report:
  assumes "trace_inv tr" "reports_inv tr rs" "traceStep tr e = Inr tr'" "report_of (ev_data e) = Some (turn, step, u)"
  shows "reports_inv tr' (rs @ [((turn, step), b)])" and "(turn, step) \<in> fst ` set rs \<Longrightarrow> fst (last rs) = (turn, step)"
proof -
  note r = report_open [OF assms(1,3,4)]
  have old: "past_report tr (fst (last rs)) k" if "k \<in> fst ` set rs" for k
    using that assms(2) unfolding reports_inv_def by blast
  show "(turn, step) \<in> fst ` set rs \<Longrightarrow> fst (last rs) = (turn, step)"
    using old [of "(turn, step)"] r(1,2) by (simp add: past_report_def)
  have "past_report tr' (turn, step) k" if "k \<in> fst ` set rs" for k
    using old [OF that] r by (cases k) (auto simp: past_report_def)
  then show "reports_inv tr' (rs @ [((turn, step), b)])" using r by (auto simp: reports_inv_def past_report_def)
qed

text \<open>The state of the projection against the reports so far.\<close>

definition usage_inv :: "((int \<times> int) \<times> token_buckets) list \<Rightarrow> usage_state \<Rightarrow> bool" where
  "usage_inv rs st =
     ((\<forall>f \<in> buckets. f (ut_totals st) = report_total f rs)
      \<and> (case ut_last st of
           None \<Rightarrow> rs = []
         | Some s \<Rightarrow> rs \<noteq> [] \<and> last rs = ((us_turn s, us_step s), us_buckets s)))"

lemma bucketsEqual_iff: "bucketsEqual a b \<longleftrightarrow> a = b"
  by (cases a; cases b) (auto simp: bucketsEqual_def)

lemma addReplacing_bucket:
  "f \<in> buckets \<Longrightarrow> f (addReplacing t p n) = f t - (case p of None \<Rightarrow> 0 | Some b \<Rightarrow> f b) + f n"
  by (auto simp: buckets_def addReplacing_def zeroBuckets_def Let_def split: option.split)

lemma usage_step_report:
  assumes inv: "usage_inv rs st" and d: "report_of (ev_data e) = Some (turn, step, u)"
    and adjacent: "(turn, step) \<in> fst ` set rs \<Longrightarrow> fst (last rs) = (turn, step)"
  shows "usage_inv (rs @ [((turn, step), bucketsFrom u)]) (apply_usage st e)"
proof -
  define p where "p = (case ut_last st of Some s \<Rightarrow> if us_turn s = turn \<and> us_step s = step then Some (us_buckets s) else None
      | None \<Rightarrow> None)"
  have tot: "f (ut_totals st) = report_total f rs" if "f \<in> buckets" for f using inv that by (simp add: usage_inv_def)
  have p: "p = (if (turn, step) \<in> fst ` set rs then Some (last_report rs (turn, step)) else None)"
  proof (cases "rs = []")
    case True
    then show ?thesis using inv by (auto simp: p_def usage_inv_def split: option.splits)
  next
    case False
    then obtain s where s: "ut_last st = Some s" "last rs = ((us_turn s, us_step s), us_buckets s)"
      using inv by (auto simp: usage_inv_def split: option.splits)
    have "(us_turn s, us_step s) \<in> fst ` set rs" using False s(2) by (metis fst_conv imageI last_in_set)
    moreover have "last_report rs (us_turn s, us_step s) = us_buckets s" using last_report_last [OF False] s(2) by simp
    ultimately show ?thesis using adjacent s by (auto simp: p_def)
  qed
  have sum: "report_total f (rs @ [((turn, step), bucketsFrom u)])
      = f (ut_totals st) - (case p of None \<Rightarrow> 0 | Some b \<Rightarrow> f b) + f (bucketsFrom u)" if "f \<in> buckets" for f
    using tot [OF that] by (simp add: report_total_snoc p)
  have run: "apply_usage st e = (if p = Some (bucketsFrom u) then st
      else \<lparr>ut_totals = addReplacing (ut_totals st) p (bucketsFrom u),
            ut_last = Some \<lparr>us_turn = turn, us_step = step, us_buckets = bucketsFrom u\<rparr>\<rparr>)"
    by (auto simp: apply_usage_def d p_def bucketsEqual_iff Let_def split: option.splits)
  show ?thesis
  proof (cases "p = Some (bucketsFrom u)")
    case True
    then obtain s where "ut_last st = Some s" "us_turn s = turn" "us_step s = step" "us_buckets s = bucketsFrom u"
      by (auto simp: p_def split: option.splits if_splits)
    then show ?thesis using True run sum by (simp add: usage_inv_def)
  next
    case False
    then show ?thesis using run sum by (simp add: usage_inv_def addReplacing_bucket)
  qed
qed

lemma usage_prefix:
  "traceOf es = Inr tr \<Longrightarrow> usage_inv (reports es) (foldl apply_usage fresh_usage es) \<and> reports_inv tr (reports es)"
proof (induction es arbitrary: tr rule: rev_induct)
  case Nil
  then show ?case
    by (auto simp: reports_def usage_inv_def reports_inv_def fresh_usage_def report_total_def buckets_def zeroBuckets_def)
next
  case (snoc e es)
  obtain t where t: "traceOf es = Inr t" "traceStep t e = Inr tr" using snoc.prems by (auto simp: traceOf_snoc)
  note IH = snoc.IH [OF t(1)] and inv = traceOf_inv [OF t(1)]
  show ?case
  proof (cases "report_of (ev_data e)")
    case None
    then show ?thesis using IH reports_inv_other [OF inv _ t(2)] by (simp add: reports_snoc apply_usage_def)
  next
    case (Some x)
    obtain turn step u where x: "report_of (ev_data e) = Some (turn, step, u)" using Some by (cases x) auto
    note r = reports_inv_report [OF inv conjunct2 [OF IH] t(2) x]
    show ?thesis using usage_step_report [OF conjunct1 [OF IH] x r(2)] r(1) by (simp add: reports_snoc x)
  qed
qed

text \<open>
  C32: on a log the trace invariant accepts, each bucket of the usage totals is
  the sum over all reported steps of the last report of the step: early samples are replaced, not
  added, and no step is counted twice, although only the latest sample is remembered.
\<close>

theorem usage_counts_last_report:
  assumes "is_ok (traceOf es)" "f \<in> buckets"
  shows "f (ut_totals (foldl apply_usage fresh_usage es)) = report_total f (reports es)"
  using assms usage_prefix by (auto simp: is_ok_iff usage_inv_def)

theorem usage_counts_last_report_witness:
  "uncachedInputTokens (ut_totals (foldl apply_usage fresh_usage meter_log)) = report_total uncachedInputTokens (reports meter_log)"
  by (rule usage_counts_last_report [OF meter_log_ok(1)]) (simp add: buckets_def)

end
