(* ===== verification/Spec2Isabelle.thy ===== *)
theory Spec2Isabelle
  imports Agent_Properties Chunk_Rows_Facts Compaction_Transaction Consumed_Work Fork_Facts Goal_Service_Facts Llm_Stream Runtime_Context_Facts Schedule_Tools Token_Projections_Facts
begin

text \<open>
  Verification of coco-harness, an agent harness: the session core, which everything else reads
  and writes, and the components that keep their state in it.

  A session is an append-only log of events (turn and step boundaries, messages, tool calls and
  results, stream chunks, request headers, plugin records). The log is the only durable state. The
  surface orders the message-producing events and lets a later event replace a range of them; the
  model history is the projection of the surface. A store holds the live sessions and dispatches
  creation, append and disposal to listeners, which may call back into the store. The trace
  invariant says which logs are balanced, crash repair balances an interrupted log, storage rows
  pack runs of stream chunks, and the agent inbox is a projection of its own splice events.

  Theories, bottom up:

  \<^item> \<open>Prelude\<close>: results that may throw, list splicing, insertion-ordered maps (the \<open>Map\<close> of
    JavaScript), decimal printing. \<open>JS_Number\<close>: JavaScript numbers with NaN, infinities and negative
    zero over exact rationals. \<open>Json\<close>: run-time JSON values, deep equality and the lossless domain
    (\<open>core/session/src/json.ts\<close>).
  \<^item> \<open>Session_Events\<close>, \<open>Event_Json\<close>: messages, chunks and events (\<open>types.ts\<close>) and their JSON shape.
  \<^item> \<open>Surface\<close>, \<open>Surface_Facts\<close>, \<open>Surface_Manager\<close>: the surface fold and its incremental manager
    (\<open>core/session/src/surface.ts\<close>).
  \<^item> \<open>Chunk_Rows\<close>, \<open>Chunk_Rows_Facts\<close>: storage packing (\<open>chunk-rows.ts\<close>).
  \<^item> \<open>Session_Trace\<close>: the relational invariant (\<open>invariant.ts\<close>). \<open>Repair\<close>, \<open>Repair_Facts\<close>:
    \<open>interruptedTurnClosers\<close> (\<open>repair.ts\<close>).
  \<^item> \<open>Request_Header\<close>, \<open>Seed_Validation\<close>, \<open>Session_Log\<close>, \<open>Session_Facts\<close>: headers, seed validation and
    the \<open>Session\<close> class (\<open>request-header.ts\<close>, \<open>index.ts\<close>).
  \<^item> \<open>Session_Store\<close>, \<open>Store_Facts\<close>, \<open>Fork_Facts\<close>: \<open>SessionStore\<close> as a transition system with a stack
    of open dispatches, and forks (\<open>index.ts\<close>).
  \<^item> \<open>Inbox\<close>, \<open>Inbox_Facts\<close>: the agent inbox (\<open>core/agent/src/inbox.ts\<close>).
  \<^item> \<open>Consumed_Work\<close>: which turn accounts for the input it took (\<open>core/agent/src/consumed-work.ts\<close>).
  \<^item> \<open>Block_Assembler\<close>, \<open>Llm_Stream\<close>: assembling stream chunks into a message, and the grammar of a
    provider stream (\<open>llm/llm/src/assembler.ts\<close>, \<open>invariant.ts\<close>).
  \<^item> \<open>Tool_Pairing\<close>: the cached balance of tool calls and results along the surface
    (\<open>compaction/compaction/src/tool-pairing.ts\<close>).
  \<^item> \<open>Compaction_Trace\<close>, \<open>Compaction_Trace_Facts\<close>: the bracket invariant of compaction in the log
    (\<open>compaction/compaction/src/invariant.ts\<close>). \<open>Compaction_Region\<close>, \<open>Compaction_Region_Facts\<close>,
    \<open>Compaction_Transaction\<close>: choosing a region and the transaction that replaces it by a summary
    (\<open>compaction/compaction-basic/src/region.ts\<close>), cut at its awaits.
  \<^item> \<open>Goal_Fold\<close>, \<open>Goal_Service\<close>, \<open>Goal_Facts\<close>, \<open>Goal_Service_Facts\<close>: the durable goal of a session, its
    strict fold and projection (\<open>goal/goal/src/fold.ts\<close>, \<open>domain.ts\<close>, \<open>types.ts\<close>) and the service that
    mutates it by compare and set (\<open>index.ts\<close>).

  \<^item> \<open>Token_Meter\<close>, \<open>Token_Meter_Facts\<close>, \<open>Token_Projections\<close>, \<open>Token_Projections_Facts\<close>: the price of
    messages and headers, the meter that replays the log over the surface, and the projections that
    keep only totals (\<open>llm/token-meter/src\<close>).

  \<^item> \<open>JS_String\<close>, \<open>ISO_Instant\<close>: strings, \<open>JSON.stringify\<close>, and \<open>Date\<close> with its ISO texts. \<open>Schedule_Domain\<close>,
    \<open>Schedule_Input\<close>, \<open>Schedule_Runtime\<close>, \<open>Schedule_Tools\<close> and their facts: reminders of a session, how a
    model's arguments become one, the runtime that dispatches what is due into the inbox, and the tools
    (\<open>schedule/schedule/src\<close>).

  \<^item> \<open>Tool_Scheduler\<close>: the scheduler of a step's tool calls (\<open>core/agent-loop/src/tool-calls.ts\<close>), a
    coroutine cut at its awaits. \<open>Driver_Trace\<close>: what appends do to the trace of the agent's log.
    \<open>Tool_Scheduler_Facts\<close>, \<open>Tool_Run_Facts\<close>, \<open>Tool_Calls_Facts\<close>: the laws of a ledger the scheduler keeps,
    whole runs with everything else acting in between, and their properties.

  \<^item> \<open>Agent_Phase\<close>, \<open>Agent_Loop\<close>: the agent driver (\<open>core/agent-loop/src/agent.ts\<close>), with phases, the wake latch,
    cancellation and maintenance, and the coroutine of turns and steps cut at its awaits; the request
    check of \<open>invariant.ts\<close>. \<open>Runtime_Context\<close>, \<open>Runtime_Context_Facts\<close>: which snapshot of the dynamic
    context the conversation shows (\<open>runtime-context.ts\<close>). \<open>Agent_Trace\<close>, \<open>Agent_Moves\<close>, \<open>Agent_Steps\<close>,
    \<open>Agent_Run\<close>: the invariant that ties the driver's wait to the trace of its log, preserved by every
    transition. \<open>Agent_Request\<close>, \<open>Agent_Wake\<close>, \<open>Agent_Properties\<close>: requests, the wake latch, and the
    properties over whole runs.

  What the lemmas show about the driver: from a closed session, any interleaving of sends,
  cancellations, appends of others and answers keeps the log an accepted trace whose open turn and step
  are those the driver is in; a request at its dispatch is the derived history and the folded header of
  the log; input that wakes an aborted driver opens the next turn; a context snapshot is withheld only
  while the conversation shows it. The assumptions on the rest of the program are \<open>allowed\<close> (others
  append neutral events, call ids are not repeated in a message, thrown failures hold JSON numbers, the
  cap is positive) and, for requests, \<open>quiet\<close> (nobody writes to the conversation while one is built).

  What the lemmas show about the scheduler: calls and results are recorded in model order, each result
  cites its own call, and a return answers every call, after an abort too; the pool never exceeds its
  cap and an exclusive call runs alone; a run takes at most \<open>(13n + 4)(n + 1)\<close> transitions for \<open>n\<close> calls
  and is never stuck. The bound is a potential of the model's states, not a fuel.

  What the lemmas show about schedules: canonical instants are exactly the texts of the years 1 to 9999;
  ids are never reused and rules stay aligned with their creation; a decision takes the latest due
  occurrences and leaves less due; a maintenance job queues the message before it records the dispatch;
  a disposed runtime does nothing; a local time is its first instant; framed fields cannot break out of
  their lines; the tools change the log by exactly the event they answer for. The zone database is the
  arguments \<open>canon\<close> and \<open>zoff\<close>; \<open>bounded_zone\<close> and \<open>sampled_zone\<close> say what is assumed of an offset.

  What the lemmas show about metering: on a log the trace invariant and the surface accept, measuring
  in any stages succeeds and prices the surface exactly; a measurement never falls below the heuristic
  price of header and surface; announced replacements keep the projections equal to the meter; usage
  totals count the last report of every step once. The argument \<open>fr\<close> of the prices prints the numbers
  that are not integers below \<open>10^21\<close>; the statements hold for every such argument.

  What the lemmas show about goals: the decoder accepts exactly well-formed changes and inverts the
  writer; admitted rounds are numbered without gaps; the projection shows the goal of the strict fold;
  every mutation of the service either rejects and leaves the log alone or appends one change the
  strict fold accepts; and a reference that was used once is refused for ever.

  No definition of the development uses fuel: every loop is structural recursion over a list, or a
  function with a termination proof.

  Not modelled: the factory of agents (their publication and teardown are Cordis scopes), the registry
  and policy stages of tools and the rendering of prompts, whose answers are inputs of the driver;
  retry timers and the goal round driver, which are listeners on the driver's events;
  persistence to files and databases (the rows they store are \<open>Chunk_Rows\<close>, what they load goes
  through \<open>Seed_Validation\<close>); transports, the host API and the web client; the vendored Cordis
  runtime, whose event dispatch appears only as the listener steps of \<open>Session_Store\<close>; freezing and
  identity of objects; random ids and the wall clock, which are arguments; listeners that call a
  component back while it appends, except in \<open>Session_Store\<close>.
\<close>

end
